(* ===== verification/WK_Prelude.thy ===== *)
theory WK_Prelude
  imports Main "HOL-Library.Word" "HOL-Library.Monad_Syntax" "HOL-Library.Sublist"
    "HOL-Library.AList"
begin

text \<open>
  Shared vocabulary of the development: the names of the machine integers the WebKit2 sources
  use, their little-endian byte images, the alignment arithmetic of the message buffers on
  natural numbers, facts that move 64-bit arithmetic to natural numbers, and the fact
  collections the component theories fill.
\<close>

unbundle bit_operations_syntax

named_theorems wf_intros \<open>preservation of well-formedness by an operation\<close>
named_theorems frame_simps \<open>fields an operation leaves unchanged\<close>

type_synonym u8 = "8 word"
type_synonym u16 = "16 word"
type_synonym u32 = "32 word"
type_synonym u64 = "64 word"
type_synonym bytes = "u8 list"

text \<open>A \<^verbatim>\<open>WTF::String\<close> is \<^term>\<open>None\<close> when it is null.\<close>

type_synonym wtf_string = "string option"

text \<open>\<^verbatim>\<open>String::isEmpty\<close>: null or of length zero.\<close>

definition wtf_isEmpty :: "wtf_string \<Rightarrow> bool" where
  "wtf_isEmpty s \<longleftrightarrow> (case s of None \<Rightarrow> True | Some cs \<Rightarrow> cs = [])"

subsection \<open>Little-endian byte images\<close>

text \<open>
  The encoders copy the object representation of an arithmetic value into the message. The
  supported platforms are little-endian; \<open>le_bytes k n\<close> is the image of \<open>n\<close> on \<open>k\<close> bytes.
\<close>

fun le_bytes :: "nat \<Rightarrow> nat \<Rightarrow> bytes" where
  "le_bytes 0 n = []"
| "le_bytes (Suc k) n = of_nat (n mod 256) # le_bytes k (n div 256)"

fun le_value :: "bytes \<Rightarrow> nat" where
  "le_value [] = 0"
| "le_value (b # bs) = unat b + 256 * le_value bs"

lemma length_le_bytes [simp]: "length (le_bytes k n) = k"
  by (induction k arbitrary: n) auto

lemma unat_of_nat_byte [simp]: "unat (of_nat (n mod 256) :: u8) = n mod 256"
proof -
  have "n mod 256 < 256" by simp
  then show ?thesis by (simp add: unat_of_nat)
qed

lemma le_value_le_bytes: "le_value (le_bytes k n) = n mod 256 ^ k"
proof (induction k arbitrary: n)
  case 0
  then show ?case by simp
next
  case (Suc k)
  have "le_value (le_bytes (Suc k) n) = n mod 256 + 256 * (n div 256 mod 256 ^ k)"
    by (simp add: Suc.IH)
  also have "\<dots> = n mod (256 * 256 ^ k)"
    by (metis add.commute mod_mult2_eq)
  finally show ?case by simp
qed

lemma le_value_bound: "le_value bs < 256 ^ length bs"
proof (induction bs)
  case Nil
  then show ?case by simp
next
  case (Cons b bs)
  have "unat b < 2 ^ LENGTH(8)" by (rule unsigned_less)
  then have "unat b < 256" by simp
  with Cons.IH show ?case by simp
qed

lemma le_value_le_bytes_unat:
  fixes w :: "'a :: len word"
  assumes "2 ^ LENGTH('a) \<le> (256 :: nat) ^ k"
  shows "le_value (le_bytes k (unat w)) = unat w"
proof -
  have "unat w < 2 ^ LENGTH('a)" by (rule unsigned_less)
  with assms have "unat w < 256 ^ k" by linarith
  then show ?thesis by (simp add: le_value_le_bytes)
qed

lemma le_word_roundtrip [simp]:
  "(of_nat (le_value (le_bytes (Suc 0) (unat (a :: u8)))) :: u8) = a"
  "(of_nat (le_value (le_bytes 2 (unat (b :: u16)))) :: u16) = b"
  "(of_nat (le_value (le_bytes 4 (unat (c :: u32)))) :: u32) = c"
  "(of_nat (le_value (le_bytes 8 (unat (d :: u64)))) :: u64) = d"
  using le_value_le_bytes_unat [of "Suc 0" a] le_value_le_bytes_unat [of 2 b]
    le_value_le_bytes_unat [of 4 c] le_value_le_bytes_unat [of 8 d]
  by simp_all

lemma unat_of_nat_u64: "n < 2 ^ 64 \<Longrightarrow> unat (of_nat n :: u64) = n"
  by (simp add: unat_of_nat)

lemma unat_pow2_u64: "k < 64 \<Longrightarrow> unat (2 ^ k :: u64) = 2 ^ k"
  using unat_of_nat_u64 [OF power_strict_increasing [of k 64 2]] by simp

subsection \<open>Rounding up to an alignment\<close>

definition align_up :: "nat \<Rightarrow> nat \<Rightarrow> nat" where
  "align_up a n = ((n + a - 1) div a) * a"

lemma align_up_ge: "0 < a \<Longrightarrow> n \<le> align_up a n"
proof -
  assume a: "0 < a"
  have "(n + a - 1) mod a \<le> a - 1"
    using a by (metis Suc_pred' less_Suc_eq_le mod_less_divisor)
  moreover have "(n + a - 1) div a * a + (n + a - 1) mod a = n + a - 1"
    by (rule div_mult_mod_eq)
  ultimately show ?thesis unfolding align_up_def using a by linarith
qed

lemma align_up_lt: "0 < a \<Longrightarrow> align_up a n < n + a"
proof -
  assume a: "0 < a"
  have "(n + a - 1) div a * a \<le> n + a - 1" by (rule div_times_less_eq_dividend)
  with a show ?thesis unfolding align_up_def by linarith
qed

lemma align_up_1 [simp]: "align_up (Suc 0) n = n"
  by (simp add: align_up_def)

lemma align_up_dvd: "a dvd align_up a n"
  by (simp add: align_up_def)

lemma align_up_id: "0 < a \<Longrightarrow> a dvd n \<Longrightarrow> align_up a n = n"
  by (metis add.commute align_up_dvd align_up_ge align_up_lt dvd_diff_nat
      less_diff_conv2 nat_dvd_not_less order_less_le zero_less_diff)

lemma align_up_add_base: "0 < a \<Longrightarrow> a dvd b \<Longrightarrow> align_up a (b + n) = b + align_up a n"
proof -
  assume a: "0 < a" and "a dvd b"
  then obtain k where b: "b = a * k" by blast
  have "(a * k + n + a - 1) div a = (a * k + (n + a - 1)) div a"
    using a by (simp add: add.assoc)
  also have "\<dots> = k + (n + a - 1) div a" using a by (simp only: div_mult_self4)
  finally show ?thesis by (simp add: align_up_def b algebra_simps)
qed

end
