(* ===== verification/IPC_Encoder.thy ===== *)
theory IPC_Encoder
  imports WK_Prelude
begin

text \<open>
  \<^verbatim>\<open>IPC::Encoder\<close> (src/Platform/IPC/Encoder.cpp, Encoder.h) and the message flags of
  src/Platform/IPC/MessageFlags.h. The record keeps the fields of the class; \<open>enc_buffer\<close> is
  the written prefix of the allocated block (the bytes below \<open>enc_bufferSize\<close>: nothing reads
  above it), sizes are 64-bit words as \<^verbatim>\<open>size_t\<close> is, and \<open>enc_alloc\<close> says which allocations
  the system grants. An operation returns \<^term>\<open>None\<close> where the code does not return: the
  \<^verbatim>\<open>CRASH()\<close> on a failed allocation, the capacity loop that never ends, and a write past the
  end of the allocated block (undefined behaviour).
\<close>

subsection \<open>Message flags\<close>

datatype ShouldDispatchWhenWaitingForSyncReply = SD_No | SD_Yes | SD_YesDuringUnboundedIPC

definition DispatchMessageWhenWaitingForSyncReply :: u8 where
  "DispatchMessageWhenWaitingForSyncReply = 1"

definition DispatchMessageWhenWaitingForUnboundedSyncReply :: u8 where
  "DispatchMessageWhenWaitingForUnboundedSyncReply = 2"

definition UseFullySynchronousModeForTesting :: u8 where
  "UseFullySynchronousModeForTesting = 4"

definition MaintainOrderingWithAsyncMessages :: u8 where
  "MaintainOrderingWithAsyncMessages = 8"

text \<open>\<^verbatim>\<open>OptionSet\<close> membership, insertion, removal and validity on the raw byte.\<close>

definition flags_contains :: "u8 \<Rightarrow> u8 \<Rightarrow> bool" where
  "flags_contains fs f \<longleftrightarrow> fs AND f \<noteq> 0"

definition flags_add :: "u8 \<Rightarrow> u8 \<Rightarrow> u8" where
  "flags_add fs f = fs OR f"

definition flags_remove :: "u8 \<Rightarrow> u8 \<Rightarrow> u8" where
  "flags_remove fs f = fs AND NOT f"

definition isValidMessageFlags :: "u8 \<Rightarrow> bool" where
  "isValidMessageFlags fs \<longleftrightarrow>
     fs AND NOT (DispatchMessageWhenWaitingForSyncReply
                 OR DispatchMessageWhenWaitingForUnboundedSyncReply
                 OR UseFullySynchronousModeForTesting
                 OR MaintainOrderingWithAsyncMessages) = 0"

lemmas flag_defs =
  DispatchMessageWhenWaitingForSyncReply_def DispatchMessageWhenWaitingForUnboundedSyncReply_def
  UseFullySynchronousModeForTesting_def MaintainOrderingWithAsyncMessages_def

lemmas flags_op_defs = flags_contains_def flags_add_def flags_remove_def

subsection \<open>State\<close>

type_synonym attachment = nat

record encoder =
  enc_messageName :: u16
  enc_destinationID :: u64
  enc_buffer :: bytes
  enc_bufferSize :: u64
  enc_bufferCapacity :: u64
  enc_attachments :: "attachment list"
  enc_alloc :: "u64 \<Rightarrow> bool"

subsection \<open>Growing the buffer\<close>

definition roundUpToAlignment :: "u64 \<Rightarrow> u64 \<Rightarrow> u64" where
  "roundUpToAlignment v alignment = ((v + alignment - 1) div alignment) * alignment"

text \<open>The loop \<^verbatim>\<open>while (newCapacity < size) newCapacity *= 2;\<close>.\<close>

partial_function (option) doubleCapacity :: "u64 \<Rightarrow> u64 \<Rightarrow> u64 option" where
  "doubleCapacity newCapacity sz =
     (if newCapacity < sz then doubleCapacity (newCapacity * 2) sz else Some newCapacity)"

definition reserve :: "encoder \<Rightarrow> u64 \<Rightarrow> encoder option" where
  "reserve e sz =
     (if sz \<le> enc_bufferCapacity e then Some e
      else do {
        newCapacity \<leftarrow> doubleCapacity (roundUpToAlignment (enc_bufferCapacity e * 2) 4096) sz;
        if \<not> enc_alloc e newCapacity then None
        else Some (e\<lparr>enc_buffer := take (unat (enc_bufferSize e)) (enc_buffer e),
                     enc_bufferCapacity := newCapacity\<rparr>)
      })"

text \<open>A \<^verbatim>\<open>memcpy\<close> or \<^verbatim>\<open>memset\<close> into the block at an offset.\<close>

definition buffer_write :: "u64 \<Rightarrow> nat \<Rightarrow> bytes \<Rightarrow> bytes \<Rightarrow> bytes option" where
  "buffer_write capacity off data buf =
     (if off \<le> length buf \<and> off + length data \<le> unat capacity
      then Some (take off buf @ data @ drop (off + length data) buf) else None)"

definition grow :: "encoder \<Rightarrow> u64 \<Rightarrow> u64 \<Rightarrow> (u64 \<times> encoder) option" where
  "grow e alignment sz = do {
     let alignedSize = roundUpToAlignment (enc_bufferSize e) alignment;
     e \<leftarrow> reserve e (alignedSize + sz);
     buf \<leftarrow> buffer_write (enc_bufferCapacity e) (unat (enc_bufferSize e))
              (replicate (unat (alignedSize - enc_bufferSize e)) 0) (enc_buffer e);
     Some (alignedSize, e\<lparr>enc_buffer := buf, enc_bufferSize := alignedSize + sz\<rparr>)
   }"

definition encodeFixedLengthData :: "encoder \<Rightarrow> bytes \<Rightarrow> u64 \<Rightarrow> encoder option" where
  "encodeFixedLengthData e data alignment = do {
     (off, e) \<leftarrow> grow e alignment (of_nat (length data));
     buf \<leftarrow> buffer_write (enc_bufferCapacity e) (unat off) data (enc_buffer e);
     Some (e\<lparr>enc_buffer := buf\<rparr>)
   }"

subsection \<open>Arithmetic values, construction, attachments and flags\<close>

text \<open>
  \<^verbatim>\<open>Encoder::encode(T)\<close> for arithmetic \<^verbatim>\<open>T\<close>: the object representation, aligned to
  \<^verbatim>\<open>alignof(T) = sizeof(T)\<close>; \<open>encode_arith\<close> takes the size and the value as a number.
\<close>

definition encode_arith :: "nat \<Rightarrow> encoder \<Rightarrow> nat \<Rightarrow> encoder option" where
  "encode_arith sz e v = encodeFixedLengthData e (le_bytes sz v) (of_nat sz)"

definition encode_u8 :: "encoder \<Rightarrow> u8 \<Rightarrow> encoder option" where
  "encode_u8 e v = encode_arith 1 e (unat v)"

definition encode_u16 :: "encoder \<Rightarrow> u16 \<Rightarrow> encoder option" where
  "encode_u16 e v = encode_arith 2 e (unat v)"

definition encode_u32 :: "encoder \<Rightarrow> u32 \<Rightarrow> encoder option" where
  "encode_u32 e v = encode_arith 4 e (unat v)"

definition encode_u64 :: "encoder \<Rightarrow> u64 \<Rightarrow> encoder option" where
  "encode_u64 e v = encode_arith 8 e (unat v)"

definition encode_bool :: "encoder \<Rightarrow> bool \<Rightarrow> encoder option" where
  "encode_bool e v = encode_arith 1 e (if v then 1 else 0)"

definition defaultMessageFlags :: u8 where
  "defaultMessageFlags = 0"

definition encodeHeader :: "encoder \<Rightarrow> encoder option" where
  "encodeHeader e = do {
     e \<leftarrow> encode_u8 e defaultMessageFlags;
     e \<leftarrow> encode_u16 e (enc_messageName e);
     encode_u64 e (enc_destinationID e)
   }"

definition Encoder_WithoutHeader :: "(u64 \<Rightarrow> bool) \<Rightarrow> encoder" where
  "Encoder_WithoutHeader alloc =
     \<lparr>enc_messageName = 0, enc_destinationID = 0, enc_buffer = [], enc_bufferSize = 0,
      enc_bufferCapacity = 512, enc_attachments = [], enc_alloc = alloc\<rparr>"

definition Encoder :: "(u64 \<Rightarrow> bool) \<Rightarrow> u16 \<Rightarrow> u64 \<Rightarrow> encoder option" where
  "Encoder alloc name dest =
     encodeHeader \<lparr>enc_messageName = name, enc_destinationID = dest, enc_buffer = [],
       enc_bufferSize = 0, enc_bufferCapacity = 512, enc_attachments = [], enc_alloc = alloc\<rparr>"

definition addAttachment :: "encoder \<Rightarrow> attachment \<Rightarrow> encoder" where
  "addAttachment e a = e\<lparr>enc_attachments := enc_attachments e @ [a]\<rparr>"

definition releaseAttachments :: "encoder \<Rightarrow> attachment list \<times> encoder" where
  "releaseAttachments e = (enc_attachments e, e\<lparr>enc_attachments := []\<rparr>)"

definition hasAttachments :: "encoder \<Rightarrow> bool" where
  "hasAttachments e \<longleftrightarrow> enc_attachments e \<noteq> []"

text \<open>\<^verbatim>\<open>messageFlags()\<close> reinterprets the first byte of the buffer, which the header wrote.\<close>

definition messageFlags :: "encoder \<Rightarrow> u8" where
  "messageFlags e = (case enc_buffer e of [] \<Rightarrow> 0 | b # _ \<Rightarrow> b)"

definition update_messageFlags :: "(u8 \<Rightarrow> u8) \<Rightarrow> encoder \<Rightarrow> encoder" where
  "update_messageFlags f e =
     (case enc_buffer e of [] \<Rightarrow> e | b # bs \<Rightarrow> e\<lparr>enc_buffer := f b # bs\<rparr>)"

definition enc_shouldDispatchMessageWhenWaitingForSyncReply ::
    "encoder \<Rightarrow> ShouldDispatchWhenWaitingForSyncReply" where
  "enc_shouldDispatchMessageWhenWaitingForSyncReply e =
     (if flags_contains (messageFlags e) DispatchMessageWhenWaitingForSyncReply then SD_Yes
      else if flags_contains (messageFlags e) DispatchMessageWhenWaitingForUnboundedSyncReply
      then SD_YesDuringUnboundedIPC
      else SD_No)"

definition setShouldDispatchMessageWhenWaitingForSyncReply ::
    "encoder \<Rightarrow> ShouldDispatchWhenWaitingForSyncReply \<Rightarrow> encoder" where
  "setShouldDispatchMessageWhenWaitingForSyncReply e s =
     (case s of
        SD_No \<Rightarrow> update_messageFlags (\<lambda>fs. flags_remove
                   (flags_remove fs DispatchMessageWhenWaitingForSyncReply)
                   DispatchMessageWhenWaitingForUnboundedSyncReply) e
      | SD_Yes \<Rightarrow> update_messageFlags (\<lambda>fs. flags_remove
                   (flags_add fs DispatchMessageWhenWaitingForSyncReply)
                   DispatchMessageWhenWaitingForUnboundedSyncReply) e
      | SD_YesDuringUnboundedIPC \<Rightarrow> update_messageFlags (\<lambda>fs. flags_add
                   (flags_remove fs DispatchMessageWhenWaitingForSyncReply)
                   DispatchMessageWhenWaitingForUnboundedSyncReply) e)"

definition setFullySynchronousModeForTesting :: "encoder \<Rightarrow> encoder" where
  "setFullySynchronousModeForTesting =
     update_messageFlags (\<lambda>fs. flags_add fs UseFullySynchronousModeForTesting)"

definition setShouldMaintainOrderingWithAsyncMessages :: "encoder \<Rightarrow> encoder" where
  "setShouldMaintainOrderingWithAsyncMessages =
     update_messageFlags (\<lambda>fs. flags_add fs MaintainOrderingWithAsyncMessages)"

subsection \<open>The invariant\<close>

text \<open>
  The recorded size is the number of bytes written, it fits the block, and the capacity is a
  power of two from the inline buffer's 512 bytes up to half the address space.
\<close>

definition wf_enc :: "encoder \<Rightarrow> bool" where
  "wf_enc e \<longleftrightarrow>
     length (enc_buffer e) = unat (enc_bufferSize e) \<and>
     enc_bufferSize e \<le> enc_bufferCapacity e \<and>
     (\<exists>k. 9 \<le> k \<and> k \<le> 63 \<and> unat (enc_bufferCapacity e) = 2 ^ k)"

lemma wf_enc_length_le: "wf_enc e \<Longrightarrow> length (enc_buffer e) \<le> unat (enc_bufferCapacity e)"
  by (simp add: wf_enc_def word_le_nat_alt)

lemma wf_enc_capacity_le: "wf_enc e \<Longrightarrow> unat (enc_bufferCapacity e) \<le> 2 ^ 63"
  by (auto simp: wf_enc_def simp del: power_numeral intro: power_increasing)

subsection \<open>The capacity loop and \<open>reserve\<close>\<close>

lemma unat_roundUpToAlignment:
  assumes "0 < unat a" "unat v + unat a \<le> 2 ^ 64"
  shows "unat (roundUpToAlignment v a) = align_up (unat a) (unat v)"
proof -
  have a1: "unat (a - 1) = unat a - 1"
    using assms(1) by (intro unat_minus_one) auto
  have "unat (v + (a - 1)) = unat v + (unat a - 1)"
    using assms by (subst unat_add_lem [THEN iffD1]) (simp_all add: a1)
  then have *: "unat (v + a - 1) = unat v + unat a - 1"
    using assms(1) by (simp add: add_diff_eq)
  have "align_up (unat a) (unat v) < 2 ^ 64"
    using align_up_lt [OF assms(1), of "unat v"] assms(2) by linarith
  then show ?thesis
    by (simp add: roundUpToAlignment_def align_up_def unat_div unat_word_ariths(2) *)
qed

lemma unat_double:
  fixes c :: u64
  assumes "unat c = 2 ^ k" "k < 63"
  shows "unat (c * 2) = 2 ^ Suc k"
proof -
  have "(2::nat) ^ Suc k \<le> 2 ^ 63" using assms(2) by (intro power_increasing) auto
  then have "2 ^ k * 2 < (2::nat) ^ 64" by simp
  then show ?thesis using assms(1) by (simp add: unat_word_ariths)
qed

lemma doubleCapacity_total:
  assumes "unat c = 2 ^ k" "k \<le> 63" "unat s \<le> 2 ^ 63"
  shows "\<exists>r j. doubleCapacity c s = Some r \<and> s \<le> r \<and> k \<le> j \<and> j \<le> 63 \<and> unat r = 2 ^ j"
  using assms
proof (induction "63 - k" arbitrary: c k)
  case 0
  then have "\<not> c < s" by (simp add: word_less_nat_alt)
  then show ?case using 0 by (subst doubleCapacity.simps) auto
next
  case (Suc n)
  show ?case
  proof (cases "c < s")
    case True
    have "unat (c * 2) = 2 ^ Suc k" using Suc.hyps(2) Suc.prems by (intro unat_double) auto
    then have "\<exists>r j. doubleCapacity (c * 2) s = Some r \<and> s \<le> r \<and> Suc k \<le> j \<and> j \<le> 63 \<and> unat r = 2 ^ j"
      using Suc by (intro Suc.hyps(1)) auto
    then show ?thesis using True by (subst doubleCapacity.simps) (auto dest: Suc_leD)
  next
    case False
    then show ?thesis using Suc.prems by (subst doubleCapacity.simps) auto
  qed
qed

lemma doubleCapacity_ge: "doubleCapacity c s = Some r \<Longrightarrow> s \<le> r"
  by (erule doubleCapacity.raw_induct [rotated]) (auto split: if_splits)

lemma doubleCapacity_pow2_step:
  fixes c :: u64
  assumes "c = 0 \<or> (\<exists>k\<le>63. unat c = 2 ^ k)"
  shows "c * 2 = 0 \<or> (\<exists>k\<le>63. unat (c * 2) = 2 ^ k)"
proof (cases "\<exists>k<63. unat c = 2 ^ k")
  case True
  then obtain k where "k < 63" "unat c = 2 ^ k" by blast
  then show ?thesis using unat_double [of c k] by (intro disjI2 exI [of _ "Suc k"]) auto
next
  case False
  with assms have "c = 0 \<or> unat c = 2 ^ 63" by (metis le_neq_implies_less)
  then have "unat (c * 2) = 0" by (auto simp: unat_word_ariths)
  then have "c * 2 = 0" by (simp only: word_unat_eq_iff unsigned_0)
  then show ?thesis ..
qed

lemma doubleCapacity_pow2:
  assumes "doubleCapacity c s = Some r"
  shows "c = 0 \<or> (\<exists>k\<le>63. unat c = 2 ^ k) \<longrightarrow> r = 0 \<or> (\<exists>k\<le>63. unat r = 2 ^ k)"
proof (rule doubleCapacity.raw_induct [where P = "\<lambda>c s r. c = 0 \<or> (\<exists>k\<le>63. unat c = 2 ^ k)
    \<longrightarrow> r = 0 \<or> (\<exists>k\<le>63. unat r = 2 ^ k)", OF _ assms], goal_cases)
  case (1 f c s r)
  then show ?case using doubleCapacity_pow2_step [of c] by (auto split: if_splits)
qed

lemma doubleCapacity_hangs:
  assumes "c = 0 \<or> (\<exists>k\<le>63. unat c = 2 ^ k)" "2 ^ 63 < unat s"
  shows "doubleCapacity c s = None"
proof (rule ccontr)
  assume "doubleCapacity c s \<noteq> None"
  then obtain r where r: "doubleCapacity c s = Some r" by blast
  have "unat s \<le> unat r" using doubleCapacity_ge [OF r] by (simp add: word_le_nat_alt)
  moreover have "unat r \<le> 2 ^ 63"
    using doubleCapacity_pow2 [OF r] assms(1) by (auto simp del: power_numeral intro: power_increasing)
  ultimately show False using assms(2) by linarith
qed

lemma align_up_pow2_4096:
  assumes "9 \<le> k"
  shows "align_up 4096 (2 ^ Suc k) = 2 ^ max 12 (Suc k)"
proof (cases "k < 12")
  case True
  with assms have "k = 9 \<or> k = 10 \<or> k = 11" by auto
  then show ?thesis by (auto simp: align_up_def)
next
  case False
  then have "(2::nat) ^ 12 dvd 2 ^ Suc k" by (intro le_imp_power_dvd) auto
  then have "align_up 4096 (2 ^ Suc k) = 2 ^ Suc k" by (intro align_up_id) auto
  then show ?thesis using False by (simp add: max_def)
qed

lemma nextCapacity_pow2:
  assumes "unat c = 2 ^ k" "9 \<le> k" "k < 63"
  shows "unat (roundUpToAlignment (c * 2) 4096) = 2 ^ max 12 (Suc k)"
proof -
  have d: "unat (c * 2) = 2 ^ Suc k" using assms by (intro unat_double)
  have "(2::nat) ^ Suc k \<le> 2 ^ 63" using assms(3) by (intro power_increasing) auto
  then have "unat (roundUpToAlignment (c * 2) 4096) = align_up 4096 (2 ^ Suc k)"
    using d by (subst unat_roundUpToAlignment) auto
  then show ?thesis using align_up_pow2_4096 [OF assms(2)] by simp
qed

text \<open>What a successful \<open>reserve\<close> gives: the contents are kept, the capacity suffices.\<close>

lemma reserve_SomeD:
  assumes "wf_enc e" "reserve e s = Some e'"
  shows "wf_enc e'" "unat s \<le> unat (enc_bufferCapacity e')"
    and "\<exists>c. e' = e\<lparr>enc_bufferCapacity := c\<rparr>"
proof -
  from assms(1) obtain k where k: "9 \<le> k" "k \<le> 63" "unat (enc_bufferCapacity e) = 2 ^ k"
    and len: "length (enc_buffer e) = unat (enc_bufferSize e)"
    and le: "enc_bufferSize e \<le> enc_bufferCapacity e"
    by (auto simp: wf_enc_def)
  have "wf_enc e' \<and> unat s \<le> unat (enc_bufferCapacity e') \<and> (\<exists>c. e' = e\<lparr>enc_bufferCapacity := c\<rparr>)"
  proof (cases "s \<le> enc_bufferCapacity e")
    case True
    with assms show ?thesis
      by (auto simp: reserve_def word_le_nat_alt intro: exI [of _ "enc_bufferCapacity e"])
  next
    case False
    let ?c = "roundUpToAlignment (enc_bufferCapacity e * 2) 4096"
    from False assms(2) obtain r where r: "doubleCapacity ?c s = Some r"
      and e': "e' = e\<lparr>enc_bufferCapacity := r\<rparr>"
      by (auto simp: reserve_def bind_eq_Some_conv len [symmetric] split: if_splits)
    have sr: "s \<le> r" by (rule doubleCapacity_ge [OF r])
    have "k < 63"
    proof (rule ccontr)
      assume "\<not> k < 63"
      with k have c: "unat (enc_bufferCapacity e) = 2 ^ 63" by simp
      then have "unat (enc_bufferCapacity e * 2) = 0" by (simp add: unat_word_ariths)
      then have "enc_bufferCapacity e * 2 = 0" by (simp only: word_unat_eq_iff unsigned_0)
      then have "?c = 0" by (simp add: roundUpToAlignment_def)
      moreover have "2 ^ 63 < unat s" using False c by (simp add: word_le_nat_alt)
      ultimately show False using doubleCapacity_hangs [of ?c s] r by simp
    qed
    then have "unat ?c = 2 ^ max 12 (Suc k)" and "max 12 (Suc k) \<le> 63"
      using nextCapacity_pow2 [OF k(3,1)] by simp_all
    moreover have "unat s \<le> 2 ^ 63"
      using doubleCapacity_hangs [of ?c s] calculation r by (metis leI option.distinct(1))
    ultimately obtain j where j: "max 12 (Suc k) \<le> j" "j \<le> 63" "unat r = 2 ^ j"
      using doubleCapacity_total [of ?c "max 12 (Suc k)" s] r by auto
    have "enc_bufferSize e \<le> r" using le False sr by (meson order_trans nle_le)
    then show ?thesis using j k e' len sr
      by (auto simp: wf_enc_def word_le_nat_alt intro!: exI [of _ j])
  qed
  then show "wf_enc e'" "unat s \<le> unat (enc_bufferCapacity e')"
    "\<exists>c. e' = e\<lparr>enc_bufferCapacity := c\<rparr>" by auto
qed

lemma reserve_total:
  assumes "wf_enc e" "unat s \<le> 2 ^ 63" "\<And>c. enc_alloc e c"
  shows "\<exists>e'. reserve e s = Some e'"
proof (cases "s \<le> enc_bufferCapacity e")
  case True
  then show ?thesis by (simp add: reserve_def)
next
  case False
  from assms(1) obtain k where k: "9 \<le> k" "k \<le> 63" "unat (enc_bufferCapacity e) = 2 ^ k"
    by (auto simp: wf_enc_def)
  with False assms(2) have "k \<noteq> 63" by (auto simp: word_le_nat_alt)
  with k have "unat (roundUpToAlignment (enc_bufferCapacity e * 2) 4096) = 2 ^ max 12 (Suc k)"
    and "max 12 (Suc k) \<le> 63"
    using nextCapacity_pow2 [OF k(3,1)] by simp_all
  then obtain r where "doubleCapacity (roundUpToAlignment (enc_bufferCapacity e * 2) 4096) s = Some r"
    using doubleCapacity_total assms(2) by blast
  then show ?thesis using assms(3) by (simp add: reserve_def)
qed

lemma reserve_hangs:
  assumes "wf_enc e" "2 ^ 63 < unat s"
  shows "reserve e s = None"
proof (rule ccontr)
  assume "reserve e s \<noteq> None"
  then obtain e' where e': "reserve e s = Some e'" by blast
  from reserve_SomeD [OF assms(1) e'] wf_enc_capacity_le assms(2) show False by fastforce
qed

subsection \<open>Appending aligned data\<close>

definition append_aligned :: "nat \<Rightarrow> bytes \<Rightarrow> bytes \<Rightarrow> bytes" where
  "append_aligned a buf data = buf @ replicate (align_up a (length buf) - length buf) 0 @ data"

lemma length_append_aligned:
  "0 < a \<Longrightarrow> length (append_aligned a buf data) = align_up a (length buf) + length data"
  using align_up_ge [of a "length buf"] by (simp add: append_aligned_def)

text \<open>The fields of the message that no write to the buffer touches.\<close>

definition enc_frame :: "encoder \<Rightarrow> encoder \<Rightarrow> bool" where
  "enc_frame e e' \<longleftrightarrow> enc_messageName e' = enc_messageName e \<and>
     enc_destinationID e' = enc_destinationID e \<and>
     enc_attachments e' = enc_attachments e \<and> enc_alloc e' = enc_alloc e"

lemma enc_frame_refl [simp]: "enc_frame e e"
  by (simp add: enc_frame_def)

lemma enc_frame_trans: "enc_frame e e' \<Longrightarrow> enc_frame e' e'' \<Longrightarrow> enc_frame e e''"
  by (simp add: enc_frame_def)

lemma unat_alignedSize:
  assumes "wf_enc e" "0 < unat a" "unat a \<le> 8"
  shows "unat (roundUpToAlignment (enc_bufferSize e) a) = align_up (unat a) (length (enc_buffer e))"
    and "unat (roundUpToAlignment (enc_bufferSize e) a - enc_bufferSize e)
           = align_up (unat a) (length (enc_buffer e)) - length (enc_buffer e)"
proof -
  have len: "length (enc_buffer e) = unat (enc_bufferSize e)" using assms(1) by (simp add: wf_enc_def)
  have "length (enc_buffer e) \<le> 2 ^ 63"
    using wf_enc_length_le wf_enc_capacity_le assms(1) order_trans by blast
  then have "unat (enc_bufferSize e) + unat a \<le> 2 ^ 64" using assms(3) len by simp
  then show A: "unat (roundUpToAlignment (enc_bufferSize e) a)
      = align_up (unat a) (length (enc_buffer e))"
    using unat_roundUpToAlignment assms(2) len by simp
  have "enc_bufferSize e \<le> roundUpToAlignment (enc_bufferSize e) a"
    using A align_up_ge [OF assms(2)] len by (simp add: word_le_nat_alt)
  then show "unat (roundUpToAlignment (enc_bufferSize e) a - enc_bufferSize e)
      = align_up (unat a) (length (enc_buffer e)) - length (enc_buffer e)"
    using A len by (simp add: unat_sub)
qed

lemma encodeFixedLengthData_SomeD:
  assumes wf: "wf_enc e" and a: "0 < unat a" "unat a \<le> 8"
    and some: "encodeFixedLengthData e data a = Some e'"
  shows "wf_enc e' \<and> enc_frame e e' \<and>
    enc_buffer e' = append_aligned (unat a) (enc_buffer e) data"
proof -
  let ?A = "roundUpToAlignment (enc_bufferSize e) a"
  let ?n = "of_nat (length data) :: u64"
  let ?al = "align_up (unat a) (length (enc_buffer e))"
  have len: "length (enc_buffer e) = unat (enc_bufferSize e)" using wf by (simp add: wf_enc_def)
  from some obtain e1 b1 b2 where res: "reserve e (?A + ?n) = Some e1"
    and w1: "buffer_write (enc_bufferCapacity e1) (unat (enc_bufferSize e1))
        (replicate (unat (?A - enc_bufferSize e1)) 0) (enc_buffer e1) = Some b1"
    and w2: "buffer_write (enc_bufferCapacity e1) (unat ?A) data b1 = Some b2"
    and e': "e' = e1\<lparr>enc_buffer := b2, enc_bufferSize := ?A + ?n\<rparr>"
  proof -
    have "(?A - enc_bufferSize e) = ?A - enc_bufferSize x" if "reserve e (?A + ?n) = Some x" for x
      using reserve_SomeD(3) [OF wf that] by auto
    with that some show ?thesis
      by (auto simp: encodeFixedLengthData_def grow_def Let_def bind_eq_Some_conv)
  qed
  from reserve_SomeD [OF wf res] obtain c where e1: "e1 = e\<lparr>enc_bufferCapacity := c\<rparr>"
    and wf1: "wf_enc e1" and cap: "unat (?A + ?n) \<le> unat c"
    by auto
  have A: "unat ?A = ?al" and pad: "unat (?A - enc_bufferSize e) = ?al - length (enc_buffer e)"
    using unat_alignedSize [OF wf a] by auto
  have ge: "length (enc_buffer e) \<le> ?al" by (rule align_up_ge [OF a(1)])
  have b1: "b1 = enc_buffer e @ replicate (?al - length (enc_buffer e)) 0"
    using w1 by (simp add: buffer_write_def e1 pad len split: if_splits)
  then have "length b1 = ?al" using ge by simp
  with w2 A have b2: "b2 = b1 @ data" and fits: "?al + length data \<le> unat c"
    by (auto simp: buffer_write_def e1 split: if_splits)
  have "unat c \<le> 2 ^ 63" using wf_enc_capacity_le [OF wf1] e1 by simp
  with fits A have sum: "unat (?A + ?n) = ?al + length data"
    by (subst unat_add_lem [THEN iffD1]) (simp_all add: unat_of_nat)
  have buf: "enc_buffer e' = append_aligned (unat a) (enc_buffer e) data"
    using e' b1 b2 by (simp add: append_aligned_def)
  have "length b2 = ?al + length data" using b2 \<open>length b1 = ?al\<close> by simp
  then have "wf_enc e'" using wf1 cap sum e' e1
    by (auto simp: wf_enc_def word_le_nat_alt)
  moreover have "enc_frame e e'" using e' e1 by (simp add: enc_frame_def)
  ultimately show ?thesis using buf by simp
qed

lemma encodeFixedLengthData_reserve:
  assumes wf: "wf_enc e" and a: "0 < unat a" "unat a \<le> 8"
    and fits: "align_up (unat a) (length (enc_buffer e)) + length data \<le> 2 ^ 63"
    and res: "reserve e (of_nat (align_up (unat a) (length (enc_buffer e)) + length data)) = Some e1"
  shows "\<exists>e'. encodeFixedLengthData e data a = Some e'"
proof -
  let ?A = "roundUpToAlignment (enc_bufferSize e) a"
  let ?n = "of_nat (length data) :: u64"
  let ?al = "align_up (unat a) (length (enc_buffer e))"
  have len: "length (enc_buffer e) = unat (enc_bufferSize e)" using wf by (simp add: wf_enc_def)
  have A: "unat ?A = ?al" and pad: "unat (?A - enc_bufferSize e) = ?al - length (enc_buffer e)"
    using unat_alignedSize [OF wf a] by auto
  have ge: "length (enc_buffer e) \<le> ?al" by (rule align_up_ge [OF a(1)])
  have sum: "unat (?A + ?n) = ?al + length data"
    using fits A by (subst unat_add_lem [THEN iffD1]) (simp_all add: unat_of_nat)
  then have word: "of_nat (?al + length data) = ?A + ?n"
    using fits unat_of_nat_u64 [of "?al + length data"] by (simp only: word_unat_eq_iff) simp
  from reserve_SomeD [OF wf res] obtain c where e1: "e1 = e\<lparr>enc_bufferCapacity := c\<rparr>"
    and "unat (?A + ?n) \<le> unat c" unfolding word by auto
  with sum have cap: "?al + length data \<le> unat c" by simp
  show ?thesis using cap ge res [unfolded word]
    by (simp add: encodeFixedLengthData_def grow_def Let_def e1 buffer_write_def A pad
        len [symmetric])
qed

lemma encodeFixedLengthData_total:
  assumes wf: "wf_enc e" and a: "0 < unat a" "unat a \<le> 8" and alloc: "\<And>c. enc_alloc e c"
    and fits: "align_up (unat a) (length (enc_buffer e)) + length data \<le> 2 ^ 63"
  shows "\<exists>e'. encodeFixedLengthData e data a = Some e'"
proof -
  have "unat (of_nat (align_up (unat a) (length (enc_buffer e)) + length data) :: u64) \<le> 2 ^ 63"
    using fits by (subst unat_of_nat_u64) auto
  with wf alloc obtain e1 where
    "reserve e (of_nat (align_up (unat a) (length (enc_buffer e)) + length data)) = Some e1"
    using reserve_total by blast
  then show ?thesis by (rule encodeFixedLengthData_reserve [OF wf a fits])
qed

text \<open>Up to the size of the inline buffer nothing is allocated.\<close>

lemma encodeFixedLengthData_inline:
  assumes wf: "wf_enc e" and a: "0 < unat a" "unat a \<le> 8"
    and fits: "align_up (unat a) (length (enc_buffer e)) + length data \<le> 512"
  shows "\<exists>e'. encodeFixedLengthData e data a = Some e'"
proof -
  from wf obtain k where "9 \<le> k" "unat (enc_bufferCapacity e) = 2 ^ k"
    by (auto simp: wf_enc_def)
  then have "2 ^ 9 \<le> unat (enc_bufferCapacity e)" by (simp only: power_increasing one_le_numeral)
  then have "reserve e (of_nat (align_up (unat a) (length (enc_buffer e)) + length data)) = Some e"
    using fits unat_of_nat_u64 [of "align_up (unat a) (length (enc_buffer e)) + length data"]
    by (simp add: reserve_def word_le_nat_alt del: of_nat_add)
  then show ?thesis using fits by (intro encodeFixedLengthData_reserve [OF wf a]) auto
qed

subsection \<open>Properties\<close>

lemma replicate_3_4: "replicate 3 x = [x, x, x]" "replicate 4 x = [x, x, x, x]"
  by (simp_all add: numeral_eq_Suc)

lemma wf_Encoder_WithoutHeader [simp]: "wf_enc (Encoder_WithoutHeader al)"
  by (auto simp: wf_enc_def Encoder_WithoutHeader_def intro!: exI [of _ 9])

text \<open>
  \<^verbatim>\<open>Encoder::reserve\<close> with an allocator that never fails returns exactly for the
  sizes up to half the address space (beyond that the doubling loop never ends); when it
  returns, the capacity is large enough and nothing else of the encoder has changed.
\<close>

theorem reserve_correct:
  assumes "wf_enc e" and "\<And>c. enc_alloc e c"
  shows "((\<exists>e'. reserve e s = Some e') \<longleftrightarrow> unat s \<le> 2 ^ 63) \<and>
    (\<forall>e'. reserve e s = Some e' \<longrightarrow> wf_enc e' \<and> s \<le> enc_bufferCapacity e' \<and>
           e' = e\<lparr>enc_bufferCapacity := enc_bufferCapacity e'\<rparr>)"
proof -
  have "(\<exists>e'. reserve e s = Some e') \<longleftrightarrow> unat s \<le> 2 ^ 63"
    using reserve_total reserve_hangs assms by (metis leI option.distinct(1))
  moreover have "wf_enc e' \<and> s \<le> enc_bufferCapacity e' \<and>
      e' = e\<lparr>enc_bufferCapacity := enc_bufferCapacity e'\<rparr>" if "reserve e s = Some e'" for e'
    using reserve_SomeD [OF assms(1) that] by (force simp: word_le_nat_alt)
  ultimately show ?thesis by blast
qed

lemma wf_enc_capacity_example:
  "reserve (Encoder_WithoutHeader (\<lambda>_. True)) 5000
     = Some ((Encoder_WithoutHeader (\<lambda>_. True))\<lparr>enc_bufferCapacity := 8192\<rparr>)"
  by (simp add: reserve_def Encoder_WithoutHeader_def roundUpToAlignment_def doubleCapacity.simps)

text \<open>The hypotheses hold of a fresh encoder, whose buffer grows from 512 to 8192 bytes.\<close>

theorem reserve_correct_witness:
  "(\<exists>e'. reserve (Encoder_WithoutHeader (\<lambda>_. True)) 5000 = Some e') \<and>
   (5000 :: u64) \<le> enc_bufferCapacity (the (reserve (Encoder_WithoutHeader (\<lambda>_. True)) 5000))"
  using reserve_correct [of "Encoder_WithoutHeader (\<lambda>_. True)" 5000]
  by (simp add: wf_enc_capacity_example)

text \<open>
  \<^verbatim>\<open>Encoder::encodeFixedLengthData\<close> never writes outside the block: for the
  alignments of the arithmetic types, whenever the padded result fits half the address space
  it returns, the buffer is the old contents, zero padding up to the alignment, and the data,
  and the header fields and attachments are untouched.
\<close>

theorem encodeFixedLengthData_appends:
  assumes "wf_enc e" and "\<And>c. enc_alloc e c" and "unat a \<in> {1, 2, 4, 8}"
    and "align_up (unat a) (length (enc_buffer e)) + length data \<le> 2 ^ 63"
  shows "\<exists>e'. encodeFixedLengthData e data a = Some e' \<and> wf_enc e' \<and> enc_frame e e' \<and>
    enc_buffer e' = enc_buffer e @
      replicate (align_up (unat a) (length (enc_buffer e)) - length (enc_buffer e)) 0 @ data"
proof -
  have a: "0 < unat a" "unat a \<le> 8" using assms(3) by auto
  from encodeFixedLengthData_total [OF assms(1) a assms(2,4)]
  obtain e' where e': "encodeFixedLengthData e data a = Some e'" by blast
  with encodeFixedLengthData_SomeD [OF assms(1) a e'] show ?thesis
    by (simp add: append_aligned_def)
qed

theorem encodeFixedLengthData_appends_witness:
  "\<exists>e'. encodeFixedLengthData
      ((Encoder_WithoutHeader (\<lambda>_. True))\<lparr>enc_buffer := [7], enc_bufferSize := 1\<rparr>) [1, 2] 4
      = Some e' \<and> enc_buffer e' = [7, 0, 0, 0, 1, 2]"
proof -
  let ?e = "(Encoder_WithoutHeader (\<lambda>_. True))\<lparr>enc_buffer := [7], enc_bufferSize := 1\<rparr>"
  have "wf_enc ?e"
    by (auto simp: wf_enc_def Encoder_WithoutHeader_def intro!: exI [of _ 9])
  moreover have "enc_alloc ?e c" for c by (simp add: Encoder_WithoutHeader_def)
  ultimately obtain e' where "encodeFixedLengthData ?e [1, 2] 4 = Some e'"
    and "enc_buffer e' = enc_buffer ?e @
      replicate (align_up 4 (length (enc_buffer ?e)) - length (enc_buffer ?e)) 0 @ [1, 2]"
    using encodeFixedLengthData_appends [of ?e 4 "[1, 2]"]
    by (auto simp: align_up_def)
  then show ?thesis by (simp add: align_up_def replicate_3_4)
qed

lemma Encoder_buffer:
  "\<exists>e. Encoder al name dest = Some e \<and> wf_enc e \<and>
     enc_buffer e = [0, 0] @ le_bytes 2 (unat name) @ [0, 0, 0, 0] @ le_bytes 8 (unat dest) \<and>
     enc_messageName e = name \<and> enc_destinationID e = dest \<and> enc_attachments e = [] \<and>
     enc_alloc e = al"
proof -
  let ?e0 = "\<lparr>enc_messageName = name, enc_destinationID = dest, enc_buffer = [],
    enc_bufferSize = 0, enc_bufferCapacity = 512, enc_attachments = [], enc_alloc = al\<rparr>"
  have "wf_enc ?e0" by (auto simp: wf_enc_def intro!: exI [of _ 9])
  then obtain e1 where e1: "encodeFixedLengthData ?e0 (le_bytes 1 0) 1 = Some e1"
    and 1: "wf_enc e1 \<and> enc_frame ?e0 e1 \<and> enc_buffer e1 = [0]"
    using encodeFixedLengthData_inline [of ?e0 1 "le_bytes 1 0"]
      encodeFixedLengthData_SomeD [of ?e0 1 "le_bytes 1 0"]
    by (auto simp: append_aligned_def)
  from 1 obtain e2 where e2: "encodeFixedLengthData e1 (le_bytes 2 (unat name)) 2 = Some e2"
    and 2: "wf_enc e2 \<and> enc_frame e1 e2 \<and> enc_buffer e2 = [0, 0] @ le_bytes 2 (unat name)"
    using encodeFixedLengthData_inline [of e1 2 "le_bytes 2 (unat name)"]
      encodeFixedLengthData_SomeD [of e1 2 "le_bytes 2 (unat name)"]
    by (auto simp: append_aligned_def align_up_def)
  from 2 obtain e3 where e3: "encodeFixedLengthData e2 (le_bytes 8 (unat dest)) 8 = Some e3"
    and 3: "wf_enc e3 \<and> enc_frame e2 e3 \<and> enc_buffer e3 =
      [0, 0] @ le_bytes 2 (unat name) @ [0, 0, 0, 0] @ le_bytes 8 (unat dest)"
    using encodeFixedLengthData_inline [of e2 8 "le_bytes 8 (unat dest)"]
      encodeFixedLengthData_SomeD [of e2 8 "le_bytes 8 (unat dest)"]
    by (auto simp: append_aligned_def align_up_def replicate_3_4)
  have "Encoder al name dest = Some e3"
    using e1 e2 e3 1 2
    by (simp add: Encoder_def encodeHeader_def encode_u8_def encode_u16_def encode_u64_def
        encode_arith_def defaultMessageFlags_def enc_frame_def)
  with 1 2 3 show ?thesis by (simp add: enc_frame_def)
qed

text \<open>
  The header a fresh message starts with is sixteen bytes whatever the allocator
  does: the flags byte, one byte of padding, the message name, four bytes of padding and the
  destination, and the message has no flag set and no attachment.
\<close>

theorem Encoder_header:
  "\<exists>e. Encoder al name dest = Some e \<and> wf_enc e \<and>
     enc_buffer e = [0, 0] @ le_bytes 2 (unat name) @ [0, 0, 0, 0] @ le_bytes 8 (unat dest) \<and>
     length (enc_buffer e) = 16 \<and>
     enc_messageName e = name \<and> enc_destinationID e = dest \<and> enc_attachments e = [] \<and>
     enc_shouldDispatchMessageWhenWaitingForSyncReply e = SD_No"
proof -
  from Encoder_buffer [of al name dest] obtain e where e: "Encoder al name dest = Some e"
    "wf_enc e"
    "enc_buffer e = [0, 0] @ le_bytes 2 (unat name) @ [0, 0, 0, 0] @ le_bytes 8 (unat dest)"
    "enc_messageName e = name" "enc_destinationID e = dest" "enc_attachments e = []"
    by blast
  then show ?thesis
    by (simp add: enc_shouldDispatchMessageWhenWaitingForSyncReply_def messageFlags_def
        flags_op_defs)
qed

lemma flags_contains_bit:
  "flags_contains fs DispatchMessageWhenWaitingForSyncReply \<longleftrightarrow> bit fs 0"
  "flags_contains fs DispatchMessageWhenWaitingForUnboundedSyncReply \<longleftrightarrow> bit fs 1"
  "flags_contains fs UseFullySynchronousModeForTesting \<longleftrightarrow> bit fs 2"
  "flags_contains fs MaintainOrderingWithAsyncMessages \<longleftrightarrow> bit fs 3"
proof -
  have eqs: "(1 :: u8) = push_bit 0 1" "(2 :: u8) = push_bit 1 1" "(4 :: u8) = push_bit 2 1"
    "(8 :: u8) = push_bit 3 1" by simp_all
  note iff = bit_iff_and_push_bit_not_eq_0 [symmetric]
  show "flags_contains fs DispatchMessageWhenWaitingForSyncReply \<longleftrightarrow> bit fs 0"
    unfolding flags_contains_def flag_defs by (subst eqs(1)) (rule iff)
  show "flags_contains fs DispatchMessageWhenWaitingForUnboundedSyncReply \<longleftrightarrow> bit fs 1"
    unfolding flags_contains_def flag_defs by (subst eqs(2)) (rule iff)
  show "flags_contains fs UseFullySynchronousModeForTesting \<longleftrightarrow> bit fs 2"
    unfolding flags_contains_def flag_defs by (subst eqs(3)) (rule iff)
  show "flags_contains fs MaintainOrderingWithAsyncMessages \<longleftrightarrow> bit fs 3"
    unfolding flags_contains_def flag_defs by (subst eqs(4)) (rule iff)
qed

lemma bit_flag:
  "bit DispatchMessageWhenWaitingForSyncReply n \<longleftrightarrow> n = 0"
  "bit DispatchMessageWhenWaitingForUnboundedSyncReply n \<longleftrightarrow> n = 1"
  "bit UseFullySynchronousModeForTesting n \<longleftrightarrow> n = 2"
  "bit MaintainOrderingWithAsyncMessages n \<longleftrightarrow> n = 3"
proof -
  have "(1 :: u8) = push_bit 0 1" "(2 :: u8) = push_bit 1 1" "(4 :: u8) = push_bit 2 1"
    "(8 :: u8) = push_bit 3 1" by simp_all
  then show "bit DispatchMessageWhenWaitingForSyncReply n \<longleftrightarrow> n = 0"
    "bit DispatchMessageWhenWaitingForUnboundedSyncReply n \<longleftrightarrow> n = 1"
    "bit UseFullySynchronousModeForTesting n \<longleftrightarrow> n = 2"
    "bit MaintainOrderingWithAsyncMessages n \<longleftrightarrow> n = 3"
    by (simp_all only: flag_defs bit_push_bit_iff bit_1_iff possible_bit_word) auto
qed

lemma bit_flags_add: "bit (flags_add fs f) n \<longleftrightarrow> bit fs n \<or> bit f n"
  by (simp only: flags_add_def bit_or_iff)

lemma bit_flags_remove: "bit (flags_remove fs f) n \<longleftrightarrow> bit fs n \<and> \<not> bit f n"
  using bit_imp_le_length [of fs n]
  by (simp only: flags_remove_def bit_and_iff bit_not_iff_eq possible_bit_word) auto

lemmas flag_bit_simps = flags_contains_bit bit_flags_add bit_flags_remove bit_flag

lemma messageFlags_Cons [simp]: "messageFlags (e\<lparr>enc_buffer := b # bs\<rparr>) = b"
  by (simp add: messageFlags_def)

lemma word_eq_0_bits: "w = 0 \<longleftrightarrow> (\<forall>n. \<not> bit (w :: u8) n)"
proof
  assume "\<forall>n. \<not> bit w n"
  then show "w = 0" by (intro bit_word_eqI) simp
qed simp

lemma isValidMessageFlags_bits: "isValidMessageFlags fs \<longleftrightarrow> (\<forall>n\<ge>4. \<not> bit fs n)"
proof -
  have "bit (fs AND NOT (DispatchMessageWhenWaitingForSyncReply
      OR DispatchMessageWhenWaitingForUnboundedSyncReply OR UseFullySynchronousModeForTesting
      OR MaintainOrderingWithAsyncMessages)) n \<longleftrightarrow> bit fs n \<and> 4 \<le> n"
    (is "bit ?m n \<longleftrightarrow> _") for n
    using bit_imp_le_length [of fs n]
    by (simp only: bit_and_iff bit_or_iff bit_not_iff_eq possible_bit_word bit_flag) auto
  moreover have "isValidMessageFlags fs \<longleftrightarrow> (\<forall>n. \<not> bit ?m n)"
    by (simp only: isValidMessageFlags_def word_eq_0_bits)
  ultimately show ?thesis by blast
qed

lemma setShouldDispatch_Cons:
  assumes "enc_buffer e = b # bs"
  shows "\<exists>b'. setShouldDispatchMessageWhenWaitingForSyncReply e s = e\<lparr>enc_buffer := b' # bs\<rparr> \<and>
    (bit b' 0 \<longleftrightarrow> s = SD_Yes) \<and> (bit b' 1 \<longleftrightarrow> s = SD_YesDuringUnboundedIPC) \<and>
    (\<forall>n\<ge>2. bit b' n = bit b n)"
  using assms
  by (intro exI [of _ "messageFlags (setShouldDispatchMessageWhenWaitingForSyncReply e s)"],
      cases s) (simp_all add: setShouldDispatchMessageWhenWaitingForSyncReply_def
      update_messageFlags_def flag_bit_simps del: bit_0 One_nat_def)

text \<open>
  Setting the dispatch mode of a message and reading it back gives the mode set,
  whatever modes were set before, and leaves the other two flags, the rest of the buffer and
  every other field as they were.
\<close>

theorem setShouldDispatch_get:
  fixes s :: ShouldDispatchWhenWaitingForSyncReply
  assumes "enc_buffer e = b # bs"
  defines "e' \<equiv> setShouldDispatchMessageWhenWaitingForSyncReply e s"
  shows "enc_shouldDispatchMessageWhenWaitingForSyncReply e' = s \<and>
    flags_contains (messageFlags e') UseFullySynchronousModeForTesting
      = flags_contains b UseFullySynchronousModeForTesting \<and>
    flags_contains (messageFlags e') MaintainOrderingWithAsyncMessages
      = flags_contains b MaintainOrderingWithAsyncMessages \<and>
    e' = e\<lparr>enc_buffer := messageFlags e' # bs\<rparr>"
  unfolding e'_def using setShouldDispatch_Cons [OF assms(1), of s]
  by (cases s) (auto simp: enc_shouldDispatchMessageWhenWaitingForSyncReply_def flags_contains_bit
      simp del: bit_0 One_nat_def)

theorem setShouldDispatch_get_witness:
  "enc_shouldDispatchMessageWhenWaitingForSyncReply
     (setShouldDispatchMessageWhenWaitingForSyncReply
        ((Encoder_WithoutHeader (\<lambda>_. True))\<lparr>enc_buffer := [13, 5], enc_bufferSize := 2\<rparr>)
        SD_YesDuringUnboundedIPC) = SD_YesDuringUnboundedIPC"
  using setShouldDispatch_get [of "(Encoder_WithoutHeader (\<lambda>_. True))
      \<lparr>enc_buffer := [13, 5], enc_bufferSize := 2\<rparr>" 13 "[5]"] by simp

end
