(* ===== verification/IPC_Decoder.thy ===== *)
theory IPC_Decoder
  imports IPC_Encoder
begin

text \<open>
  \<^verbatim>\<open>IPC::Decoder\<close> (src/Platform/IPC/Decoder.cpp, Decoder.h). Pointers are 64-bit addresses:
  \<open>dec_buffer\<close>, \<open>dec_bufferPos\<close> and \<open>dec_bufferEnd\<close> are the three pointers of the class and
  \<open>dec_memory\<close> is the block of bytes that starts at \<open>dec_buffer\<close>; pointer arithmetic wraps as
  it does on the machine and the null pointer, 0, marks a decoder that has failed. A decode
  returns the value, or \<^term>\<open>None\<close> where the code returns false or \<^verbatim>\<open>nullopt\<close>, and the decoder
  after it. The generated predicate that says which message names exist is a parameter.
\<close>

record decoder =
  dec_buffer :: u64
  dec_bufferPos :: u64
  dec_bufferEnd :: u64
  dec_memory :: bytes
  dec_attachments :: "attachment list"
  dec_messageFlags :: u8
  dec_messageName :: u16
  dec_destinationID :: u64

type_synonym 'a decode = "decoder \<Rightarrow> 'a option \<times> decoder"

subsection \<open>The position and the bounds check\<close>

definition dec_isValid :: "decoder \<Rightarrow> bool" where
  "dec_isValid d \<longleftrightarrow> dec_bufferPos d \<noteq> 0"

definition markInvalid :: "decoder \<Rightarrow> decoder" where
  "markInvalid d = d\<lparr>dec_bufferPos := 0\<rparr>"

definition dec_roundUpToAlignment :: "u64 \<Rightarrow> u64 \<Rightarrow> u64" where
  "dec_roundUpToAlignment ptr alignment =
     (let alignmentMask = alignment - 1 in (ptr + alignmentMask) AND NOT alignmentMask)"

definition alignedBufferIsLargeEnoughToContain :: "u64 \<Rightarrow> u64 \<Rightarrow> u64 \<Rightarrow> u64 \<Rightarrow> bool" where
  "alignedBufferIsLargeEnoughToContain alignedPosition bufferStart bufferEnd sz \<longleftrightarrow>
     bufferEnd \<ge> alignedPosition \<and> bufferStart \<le> alignedPosition \<and>
     bufferEnd - alignedPosition \<ge> sz"

definition alignBufferPosition :: "decoder \<Rightarrow> u64 \<Rightarrow> u64 \<Rightarrow> bool \<times> decoder" where
  "alignBufferPosition d alignment sz =
     (let alignedPosition = dec_roundUpToAlignment (dec_bufferPos d) alignment in
      if \<not> alignedBufferIsLargeEnoughToContain alignedPosition (dec_buffer d) (dec_bufferEnd d) sz
      then (False, markInvalid d)
      else (True, d\<lparr>dec_bufferPos := alignedPosition\<rparr>))"

definition bufferIsLargeEnoughToContain :: "decoder \<Rightarrow> u64 \<Rightarrow> u64 \<Rightarrow> bool" where
  "bufferIsLargeEnoughToContain d alignment sz =
     alignedBufferIsLargeEnoughToContain
       (dec_roundUpToAlignment (dec_bufferPos d) alignment) (dec_buffer d) (dec_bufferEnd d) sz"

text \<open>\<^verbatim>\<open>bufferIsLargeEnoughToContain<T>(numElements)\<close>, with \<^verbatim>\<open>sizeof(T)\<close> as an argument.\<close>

definition bufferIsLargeEnoughToContain_T :: "u64 \<Rightarrow> decoder \<Rightarrow> u64 \<Rightarrow> bool" where
  "bufferIsLargeEnoughToContain_T sizeofT d numElements =
     (if numElements > (- 1) div sizeofT then False
      else bufferIsLargeEnoughToContain d sizeofT (numElements * sizeofT))"

subsection \<open>Reading bytes\<close>

text \<open>The bytes of the block from an address on.\<close>

definition mem_read :: "decoder \<Rightarrow> u64 \<Rightarrow> nat \<Rightarrow> bytes" where
  "mem_read d ptr n = take n (drop (unat (ptr - dec_buffer d)) (dec_memory d))"

definition decodeFixedLengthData :: "u64 \<Rightarrow> u64 \<Rightarrow> bytes decode" where
  "decodeFixedLengthData sz alignment d =
     (case alignBufferPosition d alignment sz of
        (False, d) \<Rightarrow> (None, d)
      | (True, d) \<Rightarrow>
          (Some (mem_read d (dec_bufferPos d) (unat sz)),
           d\<lparr>dec_bufferPos := dec_bufferPos d + sz\<rparr>))"

text \<open>Returns the address of the data inside the block, \<^term>\<open>None\<close> for the null pointer.\<close>

definition decodeFixedLengthReference :: "u64 \<Rightarrow> u64 \<Rightarrow> u64 decode" where
  "decodeFixedLengthReference sz alignment d =
     (case alignBufferPosition d alignment sz of
        (False, d) \<Rightarrow> (None, d)
      | (True, d) \<Rightarrow>
          (let data = dec_bufferPos d in (Some data, d\<lparr>dec_bufferPos := dec_bufferPos d + sz\<rparr>)))"

subsection \<open>Sequencing\<close>

text \<open>
  The decoders are chains of \<^verbatim>\<open>if (!decode(x)) return false;\<close>: run the first, stop with its
  decoder if it fails, otherwise go on with its value.
\<close>

definition dec_bind :: "'a decode \<Rightarrow> ('a \<Rightarrow> 'b decode) \<Rightarrow> 'b decode" where
  "dec_bind m f d = (case m d of (None, d) \<Rightarrow> (None, d) | (Some x, d) \<Rightarrow> f x d)"

definition dec_return :: "'a \<Rightarrow> 'a decode" where
  "dec_return x d = (Some x, d)"

text \<open>\<^verbatim>\<open>return false\<close>, and \<^verbatim>\<open>decoder.markInvalid(); return false\<close>.\<close>

definition dec_fail :: "'a decode" where
  "dec_fail d = (None, d)"

definition dec_fail_invalid :: "'a decode" where
  "dec_fail_invalid d = (None, markInvalid d)"

subsection \<open>Arithmetic values and enumerations\<close>

definition decode_arith :: "nat \<Rightarrow> nat decode" where
  "decode_arith sz =
     dec_bind (decodeFixedLengthData (of_nat sz) (of_nat sz)) (\<lambda>bs. dec_return (le_value bs))"

definition decode_u8 :: "u8 decode" where
  "decode_u8 = dec_bind (decode_arith 1) (\<lambda>n. dec_return (of_nat n))"

definition decode_u16 :: "u16 decode" where
  "decode_u16 = dec_bind (decode_arith 2) (\<lambda>n. dec_return (of_nat n))"

definition decode_u32 :: "u32 decode" where
  "decode_u32 = dec_bind (decode_arith 4) (\<lambda>n. dec_return (of_nat n))"

definition decode_u64 :: "u64 decode" where
  "decode_u64 = dec_bind (decode_arith 8) (\<lambda>n. dec_return (of_nat n))"

text \<open>The byte copied into a \<^verbatim>\<open>bool\<close> is read as true when it is not zero.\<close>

definition decode_bool :: "bool decode" where
  "decode_bool = dec_bind (decode_arith 1) (\<lambda>n. dec_return (n \<noteq> 0))"

text \<open>An enumeration on 16 bits: a value outside it fails without marking the decoder.\<close>

definition decode_enum16 :: "(u16 \<Rightarrow> bool) \<Rightarrow> u16 decode" where
  "decode_enum16 isValidEnum =
     dec_bind decode_u16 (\<lambda>v. if \<not> isValidEnum v then dec_fail else dec_return v)"

definition decode_messageFlags :: "u8 decode" where
  "decode_messageFlags =
     dec_bind decode_u8 (\<lambda>v. if \<not> isValidMessageFlags v then dec_fail else dec_return v)"

subsection \<open>Construction\<close>

definition Decoder_ctor :: "(u16 \<Rightarrow> bool) \<Rightarrow> u64 \<Rightarrow> bytes \<Rightarrow> attachment list \<Rightarrow> decoder" where
  "Decoder_ctor isValidName buffer mem attachments =
     (let d = \<lparr>dec_buffer = buffer, dec_bufferPos = buffer,
               dec_bufferEnd = buffer + of_nat (length mem), dec_memory = mem,
               dec_attachments = attachments, dec_messageFlags = 0, dec_messageName = 0,
               dec_destinationID = 0\<rparr> in
      if buffer mod 8 \<noteq> 0 then markInvalid d
      else case decode_messageFlags d of
        (None, d) \<Rightarrow> markInvalid d
      | (Some flags, d) \<Rightarrow> (let d = d\<lparr>dec_messageFlags := flags\<rparr> in
        case decode_enum16 isValidName d of
          (None, d) \<Rightarrow> markInvalid d
        | (Some name, d) \<Rightarrow> (let d = d\<lparr>dec_messageName := name\<rparr> in
          case decode_u64 d of
            (None, d) \<Rightarrow> markInvalid d
          | (Some dest, d) \<Rightarrow> d\<lparr>dec_destinationID := dest\<rparr>)))"

definition Decoder_WithoutHeader :: "u64 \<Rightarrow> bytes \<Rightarrow> decoder" where
  "Decoder_WithoutHeader buffer mem =
     (let d = \<lparr>dec_buffer = buffer, dec_bufferPos = buffer,
               dec_bufferEnd = buffer + of_nat (length mem), dec_memory = mem,
               dec_attachments = [], dec_messageFlags = 0, dec_messageName = 0,
               dec_destinationID = 0\<rparr> in
      if buffer mod 8 \<noteq> 0 then markInvalid d else d)"

text \<open>
  \<^verbatim>\<open>Decoder::create\<close>. Without a deallocator the bytes are copied to a block of
  \<open>tryFastMalloc\<close> (\<^term>\<open>None\<close> when the allocation fails).
\<close>

definition Decoder_create ::
    "(u16 \<Rightarrow> bool) \<Rightarrow> (nat \<Rightarrow> u64 option) \<Rightarrow> u64 \<Rightarrow> bytes \<Rightarrow> bool \<Rightarrow> attachment list \<Rightarrow>
     decoder option" where
  "Decoder_create isValidName tryFastMalloc buffer mem hasDeallocator attachments =
     (if buffer = 0 then None
      else case (if hasDeallocator then Some buffer else tryFastMalloc (length mem)) of
        None \<Rightarrow> None
      | Some bufferCopy \<Rightarrow>
          (let d = Decoder_ctor isValidName bufferCopy mem attachments in
           if dec_isValid d then Some d else None))"

subsection \<open>Queries and attachments\<close>

definition dec_shouldDispatchMessageWhenWaitingForSyncReply ::
    "decoder \<Rightarrow> ShouldDispatchWhenWaitingForSyncReply" where
  "dec_shouldDispatchMessageWhenWaitingForSyncReply d =
     (if flags_contains (dec_messageFlags d) DispatchMessageWhenWaitingForSyncReply then SD_Yes
      else if flags_contains (dec_messageFlags d) DispatchMessageWhenWaitingForUnboundedSyncReply
      then SD_YesDuringUnboundedIPC
      else SD_No)"

definition shouldUseFullySynchronousModeForTesting :: "decoder \<Rightarrow> bool" where
  "shouldUseFullySynchronousModeForTesting d =
     flags_contains (dec_messageFlags d) UseFullySynchronousModeForTesting"

definition shouldMaintainOrderingWithAsyncMessages :: "decoder \<Rightarrow> bool" where
  "shouldMaintainOrderingWithAsyncMessages d =
     flags_contains (dec_messageFlags d) MaintainOrderingWithAsyncMessages"

text \<open>\<^verbatim>\<open>takeLast\<close>: the attachments come out in the reverse of the order they were added in.\<close>

definition removeAttachment :: "attachment decode" where
  "removeAttachment d =
     (if dec_attachments d = [] then (None, d)
      else (Some (last (dec_attachments d)),
            d\<lparr>dec_attachments := butlast (dec_attachments d)\<rparr>))"

subsection \<open>The invariant and the offset view\<close>

text \<open>
  A decoder as the constructors leave it: the block is somewhere in the address space, not at
  0, aligned for the largest arithmetic type, and the position is null or inside the block.
\<close>

definition wf_dec :: "decoder \<Rightarrow> bool" where
  "wf_dec d \<longleftrightarrow> dec_buffer d \<noteq> 0 \<and> 8 dvd unat (dec_buffer d) \<and>
     unat (dec_buffer d) + length (dec_memory d) < 2 ^ 64 \<and>
     dec_bufferEnd d = dec_buffer d + of_nat (length (dec_memory d)) \<and>
     (dec_bufferPos d = 0 \<or>
      dec_buffer d \<le> dec_bufferPos d \<and> dec_bufferPos d \<le> dec_bufferEnd d)"

definition dec_offset :: "decoder \<Rightarrow> nat" where
  "dec_offset d = unat (dec_bufferPos d) - unat (dec_buffer d)"

text \<open>The decoder at an offset of its block.\<close>

definition dec_at :: "decoder \<Rightarrow> nat \<Rightarrow> decoder" where
  "dec_at d n = d\<lparr>dec_bufferPos := dec_buffer d + of_nat n\<rparr>"

subsection \<open>Pointer arithmetic as arithmetic on offsets\<close>

lemma wf_decD:
  assumes "wf_dec d"
  shows "unat (dec_bufferEnd d) = unat (dec_buffer d) + length (dec_memory d)"
    and "8 \<le> unat (dec_buffer d)"
    and "dec_isValid d \<Longrightarrow> unat (dec_bufferPos d) = unat (dec_buffer d) + dec_offset d"
    and "dec_isValid d \<Longrightarrow> dec_offset d \<le> length (dec_memory d)"
    and "\<not> dec_isValid d \<Longrightarrow> dec_bufferPos d = 0"
proof -
  have small: "unat (dec_buffer d) + length (dec_memory d) < 2 ^ 64"
    and bend: "dec_bufferEnd d = dec_buffer d + of_nat (length (dec_memory d))"
    using assms by (auto simp: wf_dec_def)
  then have "length (dec_memory d) < 2 ^ 64" by linarith
  with small bend show E: "unat (dec_bufferEnd d) = unat (dec_buffer d) + length (dec_memory d)"
    by (simp add: unat_word_ariths(1) unat_of_nat_u64)
  have "unat (dec_buffer d) \<noteq> 0" "8 dvd unat (dec_buffer d)"
    using assms by (auto simp: wf_dec_def unat_eq_zero)
  then show "8 \<le> unat (dec_buffer d)" by (auto dest: dvd_imp_le)
  show "dec_bufferPos d = 0" if "\<not> dec_isValid d"
    using that by (simp add: dec_isValid_def)
  assume "dec_isValid d"
  then have "dec_buffer d \<le> dec_bufferPos d" "dec_bufferPos d \<le> dec_bufferEnd d"
    using assms by (auto simp: wf_dec_def dec_isValid_def)
  then show "unat (dec_bufferPos d) = unat (dec_buffer d) + dec_offset d"
    "dec_offset d \<le> length (dec_memory d)"
    using E by (auto simp: dec_offset_def word_le_nat_alt)
qed

lemma unat_dec_at:
  assumes "wf_dec d" "n \<le> length (dec_memory d)"
  shows "unat (dec_buffer d + of_nat n) = unat (dec_buffer d) + n"
proof -
  have "unat (dec_buffer d) + n < 2 ^ 64" using assms by (auto simp: wf_dec_def)
  then show ?thesis by (simp add: unat_word_ariths(1) unat_of_nat_u64)
qed

lemma dec_at_simps [simp]:
  "dec_buffer (dec_at d n) = dec_buffer d" "dec_bufferEnd (dec_at d n) = dec_bufferEnd d"
  "dec_memory (dec_at d n) = dec_memory d" "dec_attachments (dec_at d n) = dec_attachments d"
  "dec_messageFlags (dec_at d n) = dec_messageFlags d"
  "dec_messageName (dec_at d n) = dec_messageName d"
  "dec_destinationID (dec_at d n) = dec_destinationID d"
  "dec_at (dec_at d n) m = dec_at d m"
  by (simp_all add: dec_at_def)

lemma markInvalid_simps [simp]:
  "dec_buffer (markInvalid d) = dec_buffer d" "dec_bufferEnd (markInvalid d) = dec_bufferEnd d"
  "dec_memory (markInvalid d) = dec_memory d"
  "dec_attachments (markInvalid d) = dec_attachments d"
  "\<not> dec_isValid (markInvalid d)" "markInvalid (markInvalid d) = markInvalid d"
  "markInvalid (dec_at d n) = markInvalid d"
  by (simp_all add: markInvalid_def dec_isValid_def dec_at_def)

lemma dec_at_valid:
  assumes "wf_dec d" "n \<le> length (dec_memory d)"
  shows "wf_dec (dec_at d n)" "dec_offset (dec_at d n) = n" "dec_isValid (dec_at d n)"
proof -
  note at = unat_dec_at [OF assms]
  show "dec_offset (dec_at d n) = n" using at by (simp add: dec_offset_def dec_at_def)
  have "unat (dec_buffer d + of_nat n) \<noteq> 0" using at wf_decD(2) [OF assms(1)] by simp
  then show "dec_isValid (dec_at d n)" by (auto simp: dec_isValid_def dec_at_def)
  show "wf_dec (dec_at d n)"
    using assms at wf_decD(1) [OF assms(1)] by (auto simp: wf_dec_def dec_at_def word_le_nat_alt)
qed

lemma dec_at_offset: "wf_dec d \<Longrightarrow> dec_isValid d \<Longrightarrow> dec_at d (dec_offset d) = d"
proof -
  assume wf: "wf_dec d" and v: "dec_isValid d"
  have "unat (dec_buffer d + of_nat (dec_offset d)) = unat (dec_bufferPos d)"
    using unat_dec_at [OF wf wf_decD(4) [OF wf v]] wf_decD(3) [OF wf v] by simp
  then have "dec_buffer d + of_nat (dec_offset d) = dec_bufferPos d"
    by (simp only: word_unat_eq_iff)
  then show ?thesis by (simp add: dec_at_def)
qed

lemma wf_markInvalid [simp]: "wf_dec d \<Longrightarrow> wf_dec (markInvalid d)"
  by (simp add: wf_dec_def markInvalid_def)

lemma markInvalid_id: "\<not> dec_isValid d \<Longrightarrow> markInvalid d = d"
  by (simp add: markInvalid_def dec_isValid_def)

lemma mem_read_at:
  assumes "wf_dec d" "m \<le> length (dec_memory d)"
  shows "mem_read (dec_at d m) (dec_bufferPos (dec_at d m)) n = take n (drop m (dec_memory d))"
proof -
  have "m < 2 ^ 64" using assms by (auto simp: wf_dec_def)
  then show "mem_read (dec_at d m) (dec_bufferPos (dec_at d m)) n = take n (drop m (dec_memory d))"
    by (simp add: mem_read_def) (simp add: dec_at_def unat_of_nat_u64)
qed

text \<open>Clearing the low bits of an address is rounding down.\<close>

lemma and_not_mask:
  fixes x :: u64
  shows "x AND NOT (mask k) = (x div 2 ^ k) * 2 ^ k"
proof -
  have "x AND NOT (mask k) = push_bit k (drop_bit k x)"
    by (rule bit_word_eqI)
      (auto simp: bit_and_iff bit_not_iff bit_mask_iff bit_push_bit_iff bit_drop_bit_eq)
  then show ?thesis by (simp add: push_bit_eq_mult drop_bit_eq_div)
qed

lemma unat_round_down:
  fixes x :: u64
  assumes "k < 64"
  shows "unat ((x div 2 ^ k) * 2 ^ k) = (unat x div 2 ^ k) * 2 ^ k"
proof -
  have p: "unat (2 ^ k :: u64) = 2 ^ k" using assms by (simp add: unat_pow2_u64)
  have "(unat x div 2 ^ k) * 2 ^ k \<le> unat x" by (rule div_times_less_eq_dividend)
  also have "unat x < 2 ^ 64" using unsigned_less [of x] by simp
  finally show ?thesis by (simp add: unat_word_ariths(2) unat_div p)
qed

lemma unat_dec_roundUp:
  assumes "k \<le> 3" "unat p + 2 ^ k \<le> 2 ^ 64"
  shows "unat (dec_roundUpToAlignment p (2 ^ k)) = align_up (2 ^ k) (unat p)"
proof -
  have one: "(1::nat) \<le> 2 ^ k" by simp
  have m: "(2 ^ k - 1 :: u64) = mask k" by (simp add: mask_eq_exp_minus_1)
  have pk: "unat (2 ^ k :: u64) = 2 ^ k" using assms(1) by (simp add: unat_pow2_u64)
  then have "unat (2 ^ k - 1 :: u64) = 2 ^ k - 1"
    by (subst unat_minus_one) (auto simp flip: unat_eq_zero)
  then have "unat (p + (2 ^ k - 1)) = unat p + (2 ^ k - 1)"
    using assms(2) one by (simp add: unat_word_ariths(1))
  then have "unat (dec_roundUpToAlignment p (2 ^ k)) = ((unat p + (2 ^ k - 1)) div 2 ^ k) * 2 ^ k"
    using assms(1) by (simp only: dec_roundUpToAlignment_def Let_def m and_not_mask)
      (subst unat_round_down, simp_all flip: m)
  then show ?thesis using one by (simp add: align_up_def)
qed

lemma dec_roundUp_wraps:
  assumes "k \<le> 3" "2 ^ 64 < unat p + 2 ^ k"
  shows "dec_roundUpToAlignment p (2 ^ k) = 0"
proof -
  have one: "(1::nat) \<le> 2 ^ k" by simp
  have m: "(2 ^ k - 1 :: u64) = mask k" by (simp add: mask_eq_exp_minus_1)
  have pk: "unat (2 ^ k :: u64) = 2 ^ k" using assms(1) by (simp add: unat_pow2_u64)
  then have "unat (2 ^ k - 1 :: u64) = 2 ^ k - 1"
    by (subst unat_minus_one) (auto simp flip: unat_eq_zero)
  moreover have "unat p < 2 ^ 64" using unsigned_less [of p] by simp
  moreover have "(2::nat) ^ k \<le> 8" using power_increasing [OF assms(1), of "2::nat"] by simp
  ultimately have "unat (p + (2 ^ k - 1)) = unat p + (2 ^ k - 1) - 2 ^ 64"
    using assms(2) one by (simp add: unat_word_ariths(1) le_mod_geq)
  then have "unat (p + (2 ^ k - 1)) < 2 ^ k" using \<open>unat p < 2 ^ 64\<close> one by linarith
  then have "unat (p + mask k) div 2 ^ k = 0" unfolding m by (rule div_less)
  moreover have "k < 64" using assms(1) by simp
  ultimately have "unat (((p + mask k) div 2 ^ k) * 2 ^ k) = 0"
    by (simp only: unat_round_down mult_0)
  then have "unat (dec_roundUpToAlignment p (2 ^ k)) = 0"
    by (simp only: dec_roundUpToAlignment_def Let_def m and_not_mask)
  then show ?thesis by (simp only: word_unat_eq_iff unsigned_0)
qed

text \<open>
  The bounds check decides exactly whether the aligned data lies inside the block, also where
  the aligned pointer or the end of the data would wrap around the address space.
\<close>

lemma bufferIsLargeEnough_iff:
  assumes wf: "wf_dec d" and v: "dec_isValid d" and k: "k \<le> 3"
  shows "alignedBufferIsLargeEnoughToContain (dec_roundUpToAlignment (dec_bufferPos d) (2 ^ k))
           (dec_buffer d) (dec_bufferEnd d) sz
         \<longleftrightarrow> align_up (2 ^ k) (dec_offset d) + unat sz \<le> length (dec_memory d)"
    and "align_up (2 ^ k) (dec_offset d) \<le> length (dec_memory d) \<Longrightarrow>
         dec_roundUpToAlignment (dec_bufferPos d) (2 ^ k)
           = dec_buffer d + of_nat (align_up (2 ^ k) (dec_offset d))"
proof -
  let ?p = "dec_roundUpToAlignment (dec_bufferPos d) (2 ^ k)"
  let ?al = "align_up (2 ^ k) (dec_offset d)"
  have pos: "unat (dec_bufferPos d) = unat (dec_buffer d) + dec_offset d"
    and E: "unat (dec_bufferEnd d) = unat (dec_buffer d) + length (dec_memory d)"
    using wf_decD [OF wf] v by auto
  have dvd: "2 ^ k dvd unat (dec_buffer d)"
  proof -
    have "(2::nat) ^ k dvd 2 ^ 3" using k by (rule le_imp_power_dvd)
    then show ?thesis using wf by (auto simp: wf_dec_def elim: dvd_trans)
  qed
  have k8: "(2::nat) ^ k \<le> 8" using power_increasing [OF k, of "2::nat"] by simp
  have al: "align_up (2 ^ k) (unat (dec_bufferPos d)) = unat (dec_buffer d) + ?al"
    using pos dvd by (simp add: align_up_add_base)
  have "(alignedBufferIsLargeEnoughToContain ?p (dec_buffer d) (dec_bufferEnd d) sz
       \<longleftrightarrow> ?al + unat sz \<le> length (dec_memory d)) \<and>
     (?al \<le> length (dec_memory d) \<longrightarrow> ?p = dec_buffer d + of_nat ?al)"
  proof (cases "unat (dec_bufferPos d) + 2 ^ k \<le> 2 ^ 64")
    case True
    then have P: "unat ?p = unat (dec_buffer d) + ?al"
      using unat_dec_roundUp [OF k] al by simp
    have "?p = dec_buffer d + of_nat ?al" if "?al \<le> length (dec_memory d)"
      using P unat_dec_at [OF wf that] by (simp only: word_unat_eq_iff)
    moreover have "alignedBufferIsLargeEnoughToContain ?p (dec_buffer d) (dec_bufferEnd d) sz
        \<longleftrightarrow> ?al + unat sz \<le> length (dec_memory d)"
      using P E by (auto simp: alignedBufferIsLargeEnoughToContain_def word_le_nat_alt unat_sub)
    ultimately show ?thesis by blast
  next
    case False
    then have "?p = 0" using dec_roundUp_wraps [OF k] by simp
    then have "\<not> alignedBufferIsLargeEnoughToContain ?p (dec_buffer d) (dec_bufferEnd d) sz"
      using wf by (auto simp: alignedBufferIsLargeEnoughToContain_def wf_dec_def)
    moreover have "length (dec_memory d) < ?al"
    proof -
      have "2 ^ 64 \<le> align_up (2 ^ k) (unat (dec_bufferPos d))"
      proof (rule ccontr)
        assume less: "\<not> 2 ^ 64 \<le> align_up (2 ^ k) (unat (dec_bufferPos d))"
        have "(2::nat) ^ k dvd 2 ^ 64" using k by (intro le_imp_power_dvd) auto
        with align_up_dvd have "2 ^ k dvd 2 ^ 64 - align_up (2 ^ k) (unat (dec_bufferPos d))"
          by (rule dvd_diff_nat [rotated])
        with less have "2 ^ k \<le> 2 ^ 64 - align_up (2 ^ k) (unat (dec_bufferPos d))"
          by (auto dest: dvd_imp_le)
        moreover have "unat (dec_bufferPos d) \<le> align_up (2 ^ k) (unat (dec_bufferPos d))"
          by (rule align_up_ge) simp
        ultimately show False using False less by (simp add: le_diff_conv2)
      qed
      then show ?thesis using al wf by (auto simp: wf_dec_def)
    qed
    ultimately show ?thesis by auto
  qed
  then show "alignedBufferIsLargeEnoughToContain ?p (dec_buffer d) (dec_bufferEnd d) sz
      \<longleftrightarrow> ?al + unat sz \<le> length (dec_memory d)"
    "?al \<le> length (dec_memory d) \<Longrightarrow> ?p = dec_buffer d + of_nat ?al" by auto
qed

subsection \<open>What a read gives\<close>

text \<open>The alignments of the arithmetic types.\<close>

definition is_alignment :: "u64 \<Rightarrow> bool" where
  "is_alignment a \<longleftrightarrow> a \<in> {1, 2, 4, 8}"

lemma is_alignment_simps [simp]:
  "is_alignment 1" "is_alignment 2" "is_alignment 4" "is_alignment 8"
  by (simp_all add: is_alignment_def)

lemma is_alignmentE:
  assumes "is_alignment a"
  obtains k where "k \<le> 3" "a = 2 ^ k" "unat a = 2 ^ k"
proof -
  have "\<exists>k\<le>3. a = 2 ^ k"
    using assms by (auto simp: is_alignment_def intro: exI [of _ 0] exI [of _ 1] exI [of _ 2]
        exI [of _ 3])
  then show thesis using that unat_pow2_u64 by auto
qed

lemma is_alignment_bounds: "is_alignment a \<Longrightarrow> 0 < unat a \<and> unat a \<le> 8"
  by (auto simp: is_alignment_def)

lemma alignBufferPosition_valid:
  assumes "wf_dec d" "dec_isValid d" "is_alignment a"
  shows "alignBufferPosition d a sz =
    (if align_up (unat a) (dec_offset d) + unat sz \<le> length (dec_memory d)
     then (True, dec_at d (align_up (unat a) (dec_offset d))) else (False, markInvalid d))"
proof -
  from assms(3) obtain k where k: "k \<le> 3" "a = 2 ^ k" "unat a = 2 ^ k" by (rule is_alignmentE)
  note iff = bufferIsLargeEnough_iff [OF assms(1,2) k(1)]
  show ?thesis
    using iff(1) iff(2) k by (simp add: alignBufferPosition_def Let_def dec_at_def)
qed

lemma alignBufferPosition_invalid:
  assumes "wf_dec d" "\<not> dec_isValid d" "is_alignment a"
  shows "alignBufferPosition d a sz = (False, d)"
proof -
  from assms(3) obtain k where k: "k \<le> 3" "a = 2 ^ k" "unat a = 2 ^ k" by (rule is_alignmentE)
  have "(2::nat) ^ k \<le> 2 ^ 64" using k(1) by (intro power_increasing) auto
  then have "unat (dec_roundUpToAlignment 0 a) = 0"
    using unat_dec_roundUp [OF k(1), of 0] k by (simp add: align_up_def)
  then have "dec_roundUpToAlignment 0 a = 0" by (simp only: word_unat_eq_iff unsigned_0)
  then show ?thesis using assms(1,2)
    by (simp add: alignBufferPosition_def Let_def alignedBufferIsLargeEnoughToContain_def
        wf_dec_def dec_isValid_def markInvalid_def)
qed

lemma dec_at_advance:
  "wf_dec d \<Longrightarrow> dec_bufferPos (dec_at d n) + of_nat m = dec_bufferPos (dec_at d (n + m))"
  by (simp add: dec_at_def add.assoc)

lemma decodeFixedLengthData_valid:
  assumes "wf_dec d" "dec_isValid d" "is_alignment a"
  defines "al \<equiv> align_up (unat a) (dec_offset d)"
  shows "decodeFixedLengthData sz a d =
    (if al + unat sz \<le> length (dec_memory d)
     then (Some (take (unat sz) (drop al (dec_memory d))), dec_at d (al + unat sz))
     else (None, markInvalid d))"
proof (cases "al + unat sz \<le> length (dec_memory d)")
  case True
  then have "mem_read (dec_at d al) (dec_bufferPos (dec_at d al)) (unat sz)
      = take (unat sz) (drop al (dec_memory d))"
    using mem_read_at [OF assms(1)] by simp
  moreover have "dec_at d al\<lparr>dec_bufferPos := dec_bufferPos (dec_at d al) + sz\<rparr>
      = dec_at d (al + unat sz)"
    by (simp add: dec_at_def add.assoc)
  ultimately show ?thesis
    using alignBufferPosition_valid [OF assms(1-3), of sz] True
    by (simp add: decodeFixedLengthData_def al_def)
next
  case False
  then show ?thesis
    using alignBufferPosition_valid [OF assms(1-3), of sz]
    by (simp add: decodeFixedLengthData_def al_def)
qed

lemma decodeFixedLengthReference_valid:
  assumes "wf_dec d" "dec_isValid d" "is_alignment a"
  defines "al \<equiv> align_up (unat a) (dec_offset d)"
  shows "decodeFixedLengthReference sz a d =
    (if al + unat sz \<le> length (dec_memory d)
     then (Some (dec_buffer d + of_nat al), dec_at d (al + unat sz))
     else (None, markInvalid d))"
  using alignBufferPosition_valid [OF assms(1-3), of sz]
  by (simp add: decodeFixedLengthReference_def al_def Let_def) (simp add: dec_at_def add.assoc)

lemma decodeFixedLength_invalid:
  assumes "wf_dec d" "\<not> dec_isValid d" "is_alignment a"
  shows "decodeFixedLengthData sz a d = (None, d)"
    and "decodeFixedLengthReference sz a d = (None, d)"
  using alignBufferPosition_invalid [OF assms, of sz]
  by (simp_all add: decodeFixedLengthData_def decodeFixedLengthReference_def)

subsection \<open>Safe decoding steps\<close>

text \<open>Only the position differs.\<close>

definition dec_frame :: "decoder \<Rightarrow> decoder \<Rightarrow> bool" where
  "dec_frame d d' \<longleftrightarrow> d' = d\<lparr>dec_bufferPos := dec_bufferPos d'\<rparr>"

lemma dec_frame_refl [simp]: "dec_frame d d"
  by (simp add: dec_frame_def)

lemma dec_frame_trans: "dec_frame d d' \<Longrightarrow> dec_frame d' d'' \<Longrightarrow> dec_frame d d''"
  unfolding dec_frame_def by (metis decoder.select_convs(2) decoder.surjective decoder.update_convs(2))

lemma dec_frame_simps [simp]: "dec_frame d (dec_at d n)" "dec_frame d (markInvalid d)"
  by (simp_all add: dec_frame_def dec_at_def markInvalid_def)

lemma dec_frameD:
  assumes "dec_frame d d'"
  shows "dec_buffer d' = dec_buffer d" "dec_bufferEnd d' = dec_bufferEnd d"
    "dec_memory d' = dec_memory d" "dec_attachments d' = dec_attachments d"
    "dec_messageFlags d' = dec_messageFlags d" "dec_messageName d' = dec_messageName d"
    "dec_destinationID d' = dec_destinationID d"
proof -
  obtain p where "d' = d\<lparr>dec_bufferPos := p\<rparr>" using assms by (auto simp: dec_frame_def)
  then show "dec_buffer d' = dec_buffer d" "dec_bufferEnd d' = dec_bufferEnd d"
    "dec_memory d' = dec_memory d" "dec_attachments d' = dec_attachments d"
    "dec_messageFlags d' = dec_messageFlags d" "dec_messageName d' = dec_messageName d"
    "dec_destinationID d' = dec_destinationID d" by simp_all
qed

text \<open>
  What every decoding step promises of a well-formed decoder: only the position changes, it
  stays null or inside the block and never goes back, and a failed decoder stays failed.
\<close>

definition dec_safe :: "'a decode \<Rightarrow> bool" where
  "dec_safe m \<longleftrightarrow> (\<forall>d. wf_dec d \<longrightarrow>
     (let d' = snd (m d) in
      wf_dec d' \<and> dec_frame d d' \<and>
      (dec_isValid d' \<longrightarrow> dec_isValid d \<and> dec_offset d \<le> dec_offset d')))"

lemma dec_safeD:
  assumes "dec_safe m" "wf_dec d" "m d = (r, d')"
  shows "wf_dec d'" "dec_frame d d'" "dec_isValid d' \<Longrightarrow> dec_isValid d"
    "dec_isValid d' \<Longrightarrow> dec_offset d \<le> dec_offset d'"
  using assms by (auto simp: dec_safe_def Let_def)

lemma dec_safeI:
  assumes "\<And>d r d'. wf_dec d \<Longrightarrow> m d = (r, d') \<Longrightarrow>
    wf_dec d' \<and> dec_frame d d' \<and>
    (dec_isValid d' \<longrightarrow> dec_isValid d \<and> dec_offset d \<le> dec_offset d')"
  shows "dec_safe m"
  using assms unfolding dec_safe_def Let_def by (metis prod.collapse)

lemma dec_safe_return [wf_intros]: "dec_safe (dec_return x)"
  by (rule dec_safeI) (auto simp: dec_return_def)

lemma dec_safe_fail [wf_intros]: "dec_safe dec_fail"
  by (rule dec_safeI) (auto simp: dec_fail_def)

lemma dec_safe_fail_invalid [wf_intros]: "dec_safe dec_fail_invalid"
  by (rule dec_safeI) (auto simp: dec_fail_invalid_def)

lemma dec_safe_bind [wf_intros]:
  assumes "dec_safe m" "\<And>x. dec_safe (f x)"
  shows "dec_safe (dec_bind m f)"
proof (rule dec_safeI)
  fix d r d' assume wf: "wf_dec d" and run: "dec_bind m f d = (r, d')"
  obtain r1 d1 where m: "m d = (r1, d1)" by fastforce
  note 1 = dec_safeD [OF assms(1) wf m]
  show "wf_dec d' \<and> dec_frame d d' \<and>
    (dec_isValid d' \<longrightarrow> dec_isValid d \<and> dec_offset d \<le> dec_offset d')"
  proof (cases r1)
    case None
    then show ?thesis using run m 1 by (auto simp: dec_bind_def)
  next
    case (Some x)
    then have f: "f x d1 = (r, d')" using run m by (simp add: dec_bind_def)
    note 2 = dec_safeD [OF assms(2) 1(1) f]
    show ?thesis using 1 2 by (auto intro: order_trans dec_frame_trans)
  qed
qed

lemma dec_safe_if [wf_intros]: "dec_safe m \<Longrightarrow> dec_safe m' \<Longrightarrow> dec_safe (if b then m else m')"
  by simp

lemma dec_safe_data [wf_intros]:
  assumes "is_alignment a"
  shows "dec_safe (decodeFixedLengthData sz a)"
proof (rule dec_safeI)
  fix d r d' assume wf: "wf_dec d" and run: "decodeFixedLengthData sz a d = (r, d')"
  have ge: "dec_offset d \<le> align_up (unat a) (dec_offset d)"
    using is_alignment_bounds [OF assms] by (intro align_up_ge) auto
  show "wf_dec d' \<and> dec_frame d d' \<and>
    (dec_isValid d' \<longrightarrow> dec_isValid d \<and> dec_offset d \<le> dec_offset d')"
  proof (cases "dec_isValid d")
    case True
    show ?thesis
      using run decodeFixedLengthData_valid [OF wf True assms, of sz] wf ge True
      by (auto simp: dec_at_valid split: if_splits)
  next
    case False
    then show ?thesis
      using run decodeFixedLength_invalid [OF wf False assms, of sz] wf
      by (auto)
  qed
qed

lemma dec_safe_reference [wf_intros]:
  assumes "is_alignment a"
  shows "dec_safe (decodeFixedLengthReference sz a)"
proof -
  have "snd (decodeFixedLengthReference sz a d) = snd (decodeFixedLengthData sz a d)" for d
    by (simp add: decodeFixedLengthReference_def decodeFixedLengthData_def Let_def
        split: prod.splits bool.splits)
  then show ?thesis using dec_safe_data [OF assms, of sz] by (simp add: dec_safe_def)
qed

subsection \<open>Reading back what was written\<close>

lemma raw_roundtrip:
  assumes e: "wf_enc e" "encodeFixedLengthData e data a = Some e'" and a: "is_alignment a"
    and d: "wf_dec d" "dec_isValid d" "dec_offset d = length (enc_buffer e)"
    and mem: "prefix (drop (length (enc_buffer e)) (enc_buffer e'))
      (drop (length (enc_buffer e)) (dec_memory d))"
  shows "decodeFixedLengthData (of_nat (length data)) a d
      = (Some data, dec_at d (length (enc_buffer e')))"
    and "decodeFixedLengthReference (of_nat (length data)) a d
      = (Some (dec_buffer d + of_nat (length (enc_buffer e') - length data)),
         dec_at d (length (enc_buffer e')))"
    and "take (length data) (drop (length (enc_buffer e') - length data) (dec_memory d)) = data"
proof -
  let ?al = "align_up (unat a) (length (enc_buffer e))"
  have a': "0 < unat a" "unat a \<le> 8" using is_alignment_bounds [OF a] by auto
  have buf: "enc_buffer e' = append_aligned (unat a) (enc_buffer e) data"
    using encodeFixedLengthData_SomeD [OF e(1) a' e(2)] by simp
  have len: "length (enc_buffer e') = ?al + length data"
    using buf length_append_aligned [OF a'(1)] by simp
  have ge: "length (enc_buffer e) \<le> ?al" by (rule align_up_ge [OF a'(1)])
  let ?n = "length (enc_buffer e)"
  from mem d(3) obtain rest where "drop ?n (dec_memory d) = drop ?n (enc_buffer e') @ rest"
    by (auto elim: prefixE)
  then have "take ?n (dec_memory d) @ drop ?n (dec_memory d)
      = (take ?n (dec_memory d) @ drop ?n (enc_buffer e')) @ rest" by simp
  then obtain pre where rest: "dec_memory d = (pre @ drop ?n (enc_buffer e')) @ rest"
    and pre: "length pre = ?n"
    using wf_decD(4) [OF d(1,2)] d(3) that by (metis append_take_drop_id length_take min.absorb2)
  have memlen: "length (pre @ drop ?n (enc_buffer e')) = length (enc_buffer e')"
    using pre len ge by simp
  have small: "length data < 2 ^ 64" using d(1) rest len ge by (auto simp: wf_dec_def)
  have "drop (length (enc_buffer e') - length data) (pre @ drop ?n (enc_buffer e')) = data"
    using ge pre by (simp add: len buf append_aligned_def)
  then show td: "take (length data) (drop (length (enc_buffer e') - length data) (dec_memory d)) = data"
    using memlen len unfolding rest by (simp only: drop_append) simp
  show "decodeFixedLengthData (of_nat (length data)) a d
      = (Some data, dec_at d (length (enc_buffer e')))"
    using decodeFixedLengthData_valid [OF d(1,2) a, of "of_nat (length data)"] td
    using memlen by (simp add: d(3) unat_of_nat_u64 [OF small] len rest)
  show "decodeFixedLengthReference (of_nat (length data)) a d
      = (Some (dec_buffer d + of_nat (length (enc_buffer e') - length data)),
         dec_at d (length (enc_buffer e')))"
    using decodeFixedLengthReference_valid [OF d(1,2) a, of "of_nat (length data)"]
    using memlen by (simp add: d(3) unat_of_nat_u64 [OF small] len rest)
qed

lemma arith_roundtrip:
  assumes e: "wf_enc e" "encode_arith sz e v = Some e'" and sz: "sz \<in> {1, 2, 4, 8}"
    and v: "v < 256 ^ sz"
    and d: "wf_dec d" "dec_isValid d" "dec_offset d = length (enc_buffer e)"
    and mem: "prefix (drop (length (enc_buffer e)) (enc_buffer e'))
      (drop (length (enc_buffer e)) (dec_memory d))"
  shows "decode_arith sz d = (Some v, dec_at d (length (enc_buffer e')))"
proof -
  have a: "is_alignment (of_nat sz)" using sz by (auto simp: is_alignment_def)
  have "decodeFixedLengthData (of_nat sz) (of_nat sz) d
      = (Some (le_bytes sz v), dec_at d (length (enc_buffer e')))"
    using raw_roundtrip(1) [OF e(1) e(2) [unfolded encode_arith_def] a d mem] by simp
  then show ?thesis
    using v by (simp add: decode_arith_def dec_bind_def dec_return_def le_value_le_bytes)
qed

lemma dec_safe_arith [wf_intros]: "sz \<in> {1, 2, 4, 8} \<Longrightarrow> dec_safe (decode_arith sz)"
  unfolding decode_arith_def by (intro wf_intros) (auto simp: is_alignment_def)

lemma dec_safe_words [wf_intros]:
  "dec_safe decode_u8" "dec_safe decode_u16" "dec_safe decode_u32" "dec_safe decode_u64"
  "dec_safe decode_bool" "dec_safe (decode_enum16 P)" "dec_safe decode_messageFlags"
  unfolding decode_u8_def decode_u16_def decode_u32_def decode_u64_def decode_bool_def
    decode_enum16_def decode_messageFlags_def
  by (intro wf_intros; simp)+

lemma word_bound: "unat (w8 :: u8) < 256 ^ 1" "unat (w16 :: u16) < 256 ^ 2"
    "unat (w32 :: u32) < 256 ^ 4" "unat (w64 :: u64) < 256 ^ 8"
  using unsigned_less [of w8] unsigned_less [of w16] unsigned_less [of w32] unsigned_less [of w64]
  by simp_all

lemma word_roundtrips:
  assumes "wf_enc e" "wf_dec d" "dec_isValid d" "dec_offset d = length (enc_buffer e)"
    and "prefix (drop (length (enc_buffer e)) (enc_buffer e'))
      (drop (length (enc_buffer e)) (dec_memory d))"
  shows "encode_u8 e v8 = Some e' \<Longrightarrow> decode_u8 d = (Some v8, dec_at d (length (enc_buffer e')))"
    and "encode_u16 e v16 = Some e' \<Longrightarrow>
      decode_u16 d = (Some v16, dec_at d (length (enc_buffer e')))"
    and "encode_u32 e v32 = Some e' \<Longrightarrow>
      decode_u32 d = (Some v32, dec_at d (length (enc_buffer e')))"
    and "encode_u64 e v64 = Some e' \<Longrightarrow>
      decode_u64 d = (Some v64, dec_at d (length (enc_buffer e')))"
    and "encode_bool e b = Some e' \<Longrightarrow> decode_bool d = (Some b, dec_at d (length (enc_buffer e')))"
  using arith_roundtrip [OF assms(1) _ _ _ assms(2-5), of 1]
    arith_roundtrip [OF assms(1) _ _ _ assms(2-5), of 2]
    arith_roundtrip [OF assms(1) _ _ _ assms(2-5), of 4]
    arith_roundtrip [OF assms(1) _ _ _ assms(2-5), of 8] word_bound
  by (simp_all add: encode_u8_def encode_u16_def encode_u32_def encode_u64_def encode_bool_def
      decode_u8_def decode_u16_def decode_u32_def decode_u64_def decode_bool_def
      dec_bind_def dec_return_def)

lemma encodeFixedLengthData_ext:
  assumes "wf_enc e" "is_alignment a" "encodeFixedLengthData e data a = Some e'"
  shows "wf_enc e' \<and> enc_frame e e' \<and> prefix (enc_buffer e) (enc_buffer e')"
  using encodeFixedLengthData_SomeD [OF assms(1) _ _ assms(3)] is_alignment_bounds [OF assms(2)]
  by (simp add: append_aligned_def)

lemma encode_arith_ext:
  assumes "wf_enc e" "sz \<in> {1, 2, 4, 8}" "encode_arith sz e v = Some e'"
  shows "wf_enc e' \<and> enc_frame e e' \<and> prefix (enc_buffer e) (enc_buffer e')"
proof -
  have "is_alignment (of_nat sz)" using assms(2) by (auto simp: is_alignment_def)
  then show ?thesis
    using encodeFixedLengthData_ext assms(1,3) by (auto simp: encode_arith_def)
qed

subsection \<open>Properties\<close>

text \<open>
  Claim C3. Every read of a message stays inside it. For a decoder in any state and any size,
  the alignments of the arithmetic types included in the check, \<^verbatim>\<open>decodeFixedLengthData\<close>
  either returns exactly the requested number of bytes, taken from the block at an aligned
  offset not before the position, and moves the position just behind them, or it returns
  nothing and the decoder is invalid from then on.
\<close>

theorem decodeFixedLengthData_in_bounds:
  assumes "wf_dec d" and "is_alignment a"
  shows "case decodeFixedLengthData sz a d of
      (Some bs, d') \<Rightarrow> (\<exists>off. dec_offset d \<le> off \<and> off < dec_offset d + unat a \<and> unat a dvd off \<and>
          off + unat sz \<le> length (dec_memory d) \<and> length bs = unat sz \<and>
          bs = take (unat sz) (drop off (dec_memory d)) \<and>
          d' = dec_at d (off + unat sz) \<and> wf_dec d' \<and> dec_isValid d')
    | (None, d') \<Rightarrow> d' = markInvalid d \<and> wf_dec d' \<and> \<not> dec_isValid d'"
proof (cases "dec_isValid d")
  case True
  have a: "0 < unat a" using is_alignment_bounds [OF assms(2)] by simp
  show ?thesis
    using decodeFixedLengthData_valid [OF assms(1) True assms(2), of sz] assms(1)
      align_up_ge [OF a, of "dec_offset d"] align_up_lt [OF a, of "dec_offset d"]
      align_up_dvd [of "unat a" "dec_offset d"]
    by (auto simp: dec_at_valid)
next
  case False
  then show ?thesis
    using decodeFixedLength_invalid [OF assms(1) False assms(2)] assms(1)
    by (simp add: markInvalid_id)
qed

definition example_decoder :: decoder where
  "example_decoder = \<lparr>dec_buffer = 4096, dec_bufferPos = 4097, dec_bufferEnd = 4104,
     dec_memory = [1, 2, 3, 4, 5, 6, 7, 8], dec_attachments = [], dec_messageFlags = 0,
     dec_messageName = 0, dec_destinationID = 0\<rparr>"

lemma wf_example_decoder: "wf_dec example_decoder" "dec_isValid example_decoder"
  by (simp_all add: wf_dec_def example_decoder_def dec_isValid_def)

text \<open>At offset 1 of an 8-byte block, a 4-byte value is read at offset 4; 5 bytes are refused.\<close>

theorem decodeFixedLengthData_in_bounds_witness:
  "fst (decodeFixedLengthData 4 4 example_decoder) = Some [5, 6, 7, 8] \<and>
   fst (decodeFixedLengthData 5 4 example_decoder) = None \<and>
   (case decodeFixedLengthData 4 4 example_decoder of
      (Some bs, d') \<Rightarrow> length bs = 4 \<and> dec_isValid d' | (None, d') \<Rightarrow> False)"
proof -
  have al: "align_up 4 (Suc 0) = 4" by (simp add: align_up_def)
  have off: "dec_offset example_decoder = 1" by (simp add: dec_offset_def example_decoder_def)
  have "fst (decodeFixedLengthData 4 4 example_decoder) = Some [5, 6, 7, 8]"
    "fst (decodeFixedLengthData 5 4 example_decoder) = None"
    using wf_example_decoder by (simp_all add: decodeFixedLengthData_valid off al)
      (simp_all add: example_decoder_def)
  then show ?thesis
    using decodeFixedLengthData_in_bounds [of example_decoder 4 4] wf_example_decoder
    by (auto split: prod.splits option.splits)
qed

text \<open>The header as the constructor reads it.\<close>

definition header_name :: "bytes \<Rightarrow> u16" where
  "header_name mem = of_nat (le_value (take 2 (drop 2 mem)))"

definition header_destination :: "bytes \<Rightarrow> u64" where
  "header_destination mem = of_nat (le_value (take 8 (drop 8 mem)))"

lemma decode_arith_valid:
  assumes "wf_dec d" "dec_isValid d" "sz \<in> {1, 2, 4, 8}"
  defines "al \<equiv> align_up sz (dec_offset d)"
  shows "decode_arith sz d =
    (if al + sz \<le> length (dec_memory d)
     then (Some (le_value (take sz (drop al (dec_memory d)))), dec_at d (al + sz))
     else (None, markInvalid d))"
proof -
  have a: "is_alignment (of_nat sz)" and u: "unat (of_nat sz :: u64) = sz"
    using assms(3) by (auto simp: is_alignment_def)
  show ?thesis
    using decodeFixedLengthData_valid [OF assms(1,2) a, of "of_nat sz"]
    by (simp add: decode_arith_def dec_bind_def dec_return_def u al_def)
qed

lemma wf_dec_update [simp]:
  "wf_dec (d\<lparr>dec_messageFlags := f\<rparr>) = wf_dec d" "wf_dec (d\<lparr>dec_messageName := n\<rparr>) = wf_dec d"
  "wf_dec (d\<lparr>dec_destinationID := i\<rparr>) = wf_dec d"
  "dec_isValid (d\<lparr>dec_messageFlags := f\<rparr>) = dec_isValid d"
  "dec_isValid (d\<lparr>dec_messageName := n\<rparr>) = dec_isValid d"
  "dec_isValid (d\<lparr>dec_destinationID := i\<rparr>) = dec_isValid d"
  "dec_offset (d\<lparr>dec_messageFlags := f\<rparr>) = dec_offset d"
  "dec_offset (d\<lparr>dec_messageName := n\<rparr>) = dec_offset d"
  "dec_offset (d\<lparr>dec_destinationID := i\<rparr>) = dec_offset d"
  by (simp_all add: wf_dec_def dec_isValid_def dec_offset_def)

lemma word_mod_8: "(w :: u64) mod 8 = 0 \<longleftrightarrow> 8 dvd unat w"
  by (simp add: word_unat_eq_iff unat_mod dvd_eq_mod_eq_0)

lemma Decoder_ctor_cases:
  assumes "buffer \<noteq> 0" "unat buffer + length mem < 2 ^ 64"
  shows "dec_isValid (Decoder_ctor P buffer mem atts) \<longleftrightarrow>
      8 dvd unat buffer \<and> 16 \<le> length mem \<and> isValidMessageFlags (mem ! 0) \<and> P (header_name mem)"
    and "dec_isValid (Decoder_ctor P buffer mem atts) \<Longrightarrow>
      Decoder_ctor P buffer mem atts =
        \<lparr>dec_buffer = buffer, dec_bufferPos = buffer + 16,
         dec_bufferEnd = buffer + of_nat (length mem), dec_memory = mem, dec_attachments = atts,
         dec_messageFlags = mem ! 0, dec_messageName = header_name mem,
         dec_destinationID = header_destination mem\<rparr>"
proof -
  let ?d = "\<lparr>dec_buffer = buffer, dec_bufferPos = buffer,
    dec_bufferEnd = buffer + of_nat (length mem), dec_memory = mem, dec_attachments = atts,
    dec_messageFlags = 0, dec_messageName = 0, dec_destinationID = 0\<rparr>"
  have v: "dec_isValid ?d" and off: "dec_offset ?d = 0"
    using assms(1) by (simp_all add: dec_isValid_def dec_offset_def)
  have "(dec_isValid (Decoder_ctor P buffer mem atts) \<longleftrightarrow>
      8 dvd unat buffer \<and> 16 \<le> length mem \<and> isValidMessageFlags (mem ! 0) \<and> P (header_name mem)) \<and>
    (dec_isValid (Decoder_ctor P buffer mem atts) \<longrightarrow>
      Decoder_ctor P buffer mem atts =
        \<lparr>dec_buffer = buffer, dec_bufferPos = buffer + 16,
         dec_bufferEnd = buffer + of_nat (length mem), dec_memory = mem, dec_attachments = atts,
         dec_messageFlags = mem ! 0, dec_messageName = header_name mem,
         dec_destinationID = header_destination mem\<rparr>)"
  proof (cases "8 dvd unat buffer")
    case False
    then show ?thesis by (simp add: Decoder_ctor_def Let_def word_mod_8)
  next
    case True
    have len: "length mem < 2 ^ 64" using assms(2) by linarith
    have "unat (buffer + of_nat (length mem)) = unat buffer + length mem"
      using assms(2) by (simp add: unat_word_ariths(1) unat_of_nat_u64 [OF len])
    then have wf: "wf_dec ?d" using assms True by (simp add: wf_dec_def word_le_nat_alt)
    have take1: "take (Suc 0) mem = [mem ! 0]" if "Suc 0 \<le> length mem"
      using that by (cases mem) auto
    have al: "align_up (Suc 0) 0 = 0" "align_up 2 (Suc 0) = 2" "align_up 8 4 = 8"
      by (simp_all add: align_up_def)
    show ?thesis
      using True wf v off
      by (simp add: Decoder_ctor_def Let_def word_mod_8 decode_messageFlags_def decode_u8_def
          decode_enum16_def decode_u16_def decode_u64_def dec_bind_def dec_return_def dec_fail_def
          decode_arith_valid al take1 dec_at_valid)
        (simp add: header_name_def header_destination_def dec_at_def)
  qed
  then show "dec_isValid (Decoder_ctor P buffer mem atts) \<longleftrightarrow>
      8 dvd unat buffer \<and> 16 \<le> length mem \<and> isValidMessageFlags (mem ! 0) \<and> P (header_name mem)"
    "dec_isValid (Decoder_ctor P buffer mem atts) \<Longrightarrow>
      Decoder_ctor P buffer mem atts =
        \<lparr>dec_buffer = buffer, dec_bufferPos = buffer + 16,
         dec_bufferEnd = buffer + of_nat (length mem), dec_memory = mem, dec_attachments = atts,
         dec_messageFlags = mem ! 0, dec_messageName = header_name mem,
         dec_destinationID = header_destination mem\<rparr>" by auto
qed

definition header_decoder :: "u64 \<Rightarrow> bytes \<Rightarrow> attachment list \<Rightarrow> decoder" where
  "header_decoder a mem atts =
     \<lparr>dec_buffer = a, dec_bufferPos = a + 16, dec_bufferEnd = a + of_nat (length mem),
      dec_memory = mem, dec_attachments = atts, dec_messageFlags = mem ! 0,
      dec_messageName = header_name mem, dec_destinationID = header_destination mem\<rparr>"

lemma wf_header_decoder:
  assumes "a \<noteq> 0" "8 dvd unat a" "unat a + length mem < 2 ^ 64" "16 \<le> length mem"
  shows "wf_dec (header_decoder a mem atts) \<and> dec_isValid (header_decoder a mem atts) \<and>
    dec_offset (header_decoder a mem atts) = 16"
proof -
  let ?z = "(header_decoder a mem atts)\<lparr>dec_bufferPos := 0\<rparr>"
  have "wf_dec ?z" using assms by (simp add: wf_dec_def header_decoder_def)
  from dec_at_valid [OF this, of 16] show ?thesis
    using assms(4) by (simp add: dec_at_def header_decoder_def)
qed

text \<open>
  What the code relies on of the allocator: a block it returns is not null, is aligned for
  every arithmetic type and lies inside the address space.
\<close>

definition malloc_ok :: "(nat \<Rightarrow> u64 option) \<Rightarrow> bool" where
  "malloc_ok tryFastMalloc \<longleftrightarrow> (\<forall>n a. tryFastMalloc n = Some a \<longrightarrow>
     a \<noteq> 0 \<and> 8 dvd unat a \<and> unat a + n < 2 ^ 64)"

text \<open>
  Claim C21. \<^verbatim>\<open>Decoder::create\<close> accepts exactly the messages of at least sixteen bytes whose
  flags byte has only known flags and whose message name exists, in a block that is aligned
  and not null; the decoder it returns is well formed, stands behind the header and carries
  the flags, the name, the destination and the attachments of the message.
\<close>

theorem Decoder_create_accepts:
  assumes "malloc_ok tryFastMalloc" and "unat buffer + length mem < 2 ^ 64"
  shows "Decoder_create isValidName tryFastMalloc buffer mem hasDeallocator atts = Some d \<longleftrightarrow>
    (\<exists>a. buffer \<noteq> 0 \<and>
       (if hasDeallocator then Some buffer else tryFastMalloc (length mem)) = Some a \<and>
       8 dvd unat a \<and> 16 \<le> length mem \<and> isValidMessageFlags (mem ! 0) \<and>
       isValidName (header_name mem) \<and> wf_dec d \<and> dec_isValid d \<and> dec_offset d = 16 \<and>
       d = \<lparr>dec_buffer = a, dec_bufferPos = a + 16, dec_bufferEnd = a + of_nat (length mem),
            dec_memory = mem, dec_attachments = atts, dec_messageFlags = mem ! 0,
            dec_messageName = header_name mem, dec_destinationID = header_destination mem\<rparr>)"
proof -
  show ?thesis
  proof (cases "buffer = 0 \<or> (if hasDeallocator then Some buffer else tryFastMalloc (length mem)) = None")
    case True
    then show ?thesis by (auto simp: Decoder_create_def)
  next
    case False
    then obtain a where a: "(if hasDeallocator then Some buffer else tryFastMalloc (length mem)) = Some a"
      by auto
    have ok: "a \<noteq> 0" "unat a + length mem < 2 ^ 64"
      using a False assms by (auto simp: malloc_ok_def split: if_splits)
    note ctor = Decoder_ctor_cases [OF ok, of isValidName atts]
    show ?thesis
      using a False ctor wf_header_decoder [OF ok(1) _ ok(2), of atts, unfolded header_decoder_def]
      by (auto simp: Decoder_create_def Let_def)
  qed
qed

text \<open>A sixteen-byte message with name 5 and destination 7, copied to address 4096.\<close>

theorem Decoder_create_accepts_witness:
  "\<exists>d. Decoder_create (\<lambda>n. n < 10) (\<lambda>n. if n < 2 ^ 20 then Some 4096 else None) 8193
     [1, 0, 5, 0, 0, 0, 0, 0, 7, 0, 0, 0, 0, 0, 0, 0] False [3] = Some d \<and>
   dec_messageName d = 5 \<and> dec_destinationID d = 7 \<and> dec_attachments d = [3] \<and> wf_dec d"
proof -
  let ?mem = "[1, 0, 5, 0, 0, 0, 0, 0, 7, 0, 0, 0, 0, 0, 0, 0] :: bytes"
  let ?malloc = "\<lambda>n::nat. if n < 2 ^ 20 then Some (4096 :: u64) else None"
  have m: "malloc_ok ?malloc" by (simp add: malloc_ok_def)
  have h: "header_name ?mem = 5" "header_destination ?mem = 7"
    by (simp_all add: header_name_def header_destination_def)
  have f: "isValidMessageFlags 1"
    by (simp add: isValidMessageFlags_def flag_defs)
  define d where "d = \<lparr>dec_buffer = 4096, dec_bufferPos = 4096 + 16,
      dec_bufferEnd = 4096 + of_nat (length ?mem), dec_memory = ?mem, dec_attachments = [3],
      dec_messageFlags = ?mem ! 0, dec_messageName = header_name ?mem,
      dec_destinationID = header_destination ?mem\<rparr>"
  have "wf_dec d" "dec_isValid d" "dec_offset d = 16"
    by (simp_all add: d_def wf_dec_def dec_isValid_def dec_offset_def)
  then have "Decoder_create (\<lambda>n. n < 10) ?malloc 8193 ?mem False [3] = Some d"
    using Decoder_create_accepts [OF m, of 8193 ?mem "\<lambda>n. n < 10" False "[3]" d] h f
    by (simp add: d_def)
  then show ?thesis using \<open>wf_dec d\<close> h by (auto simp: d_def)
qed

text \<open>
  What a sender puts in the header is what the receiver reads: a message built by
  the constructor, with its dispatch mode set, and any body encoded behind the header, is
  accepted by \<^verbatim>\<open>Decoder::create\<close> when its name is known to the receiver, and the decoder
  reports the same name, destination and dispatch mode and stands at the first byte of the
  body.
\<close>

theorem header_roundtrip:
  assumes "malloc_ok tryFastMalloc" and "buffer \<noteq> 0" and "isValidName name"
    and "Encoder al name dest = Some e"
    and "tryFastMalloc (16 + length body) = Some a" and "unat buffer + 16 + length body < 2 ^ 64"
  shows "\<exists>d. Decoder_create isValidName tryFastMalloc buffer
      (enc_buffer (setShouldDispatchMessageWhenWaitingForSyncReply e mode) @ body) False atts
        = Some d \<and>
    dec_messageName d = name \<and> dec_destinationID d = dest \<and>
    dec_shouldDispatchMessageWhenWaitingForSyncReply d = mode \<and> dec_attachments d = atts \<and>
    wf_dec d \<and> dec_isValid d \<and> drop (dec_offset d) (dec_memory d) = body"
proof -
  define mem where "mem = enc_buffer (setShouldDispatchMessageWhenWaitingForSyncReply e mode) @ body"
  have e: "enc_buffer e = [0, 0] @ le_bytes 2 (unat name) @ [0, 0, 0, 0] @ le_bytes 8 (unat dest)"
    using Encoder_buffer [of al name dest] assms(4) by auto
  then obtain b where b: "mem = b # 0 # le_bytes 2 (unat name) @ [0, 0, 0, 0] @
        le_bytes 8 (unat dest) @ body"
      "bit b 0 \<longleftrightarrow> mode = SD_Yes" "bit b 1 \<longleftrightarrow> mode = SD_YesDuringUnboundedIPC"
      "\<forall>n\<ge>2. \<not> bit b n"
    using setShouldDispatch_Cons [of e 0 _ mode] by (fastforce simp: mem_def)
  have h: "header_name mem = name" "header_destination mem = dest" "length mem = 16 + length body"
    "mem ! 0 = b" "drop 16 mem = body"
    by (simp_all add: header_name_def header_destination_def b(1) le_word_roundtrip)
  have a: "a \<noteq> 0" "8 dvd unat a" "unat a + length mem < 2 ^ 64"
    unfolding h(3) using assms(1,5) by (auto simp: malloc_ok_def)
  have "isValidMessageFlags b" using b(4) by (simp add: isValidMessageFlags_bits)
  then have "Decoder_create isValidName tryFastMalloc buffer mem False atts
      = Some (header_decoder a mem atts)"
    using Decoder_ctor_cases [OF a(1,3), of isValidName atts] a(2) assms(2,3,5)
    by (simp add: Decoder_create_def Let_def header_decoder_def h)
  moreover have "dec_shouldDispatchMessageWhenWaitingForSyncReply (header_decoder a mem atts) = mode"
    using b by (cases mode) (simp_all add: dec_shouldDispatchMessageWhenWaitingForSyncReply_def
        header_decoder_def h flags_contains_bit del: bit_0 One_nat_def)
  moreover have "wf_dec (header_decoder a mem atts)" "dec_isValid (header_decoder a mem atts)"
    "dec_offset (header_decoder a mem atts) = 16"
    using wf_header_decoder [OF a] h(3) by auto
  ultimately show ?thesis unfolding mem_def [symmetric] using h by (simp add: header_decoder_def)
qed

theorem header_roundtrip_witness:
  "\<exists>e d. Encoder (\<lambda>_. True) 5 7 = Some e \<and>
     Decoder_create (\<lambda>n. n < 10) (\<lambda>n. if n < 2 ^ 20 then Some 4096 else None) 8193
       (enc_buffer (setShouldDispatchMessageWhenWaitingForSyncReply e SD_Yes) @ [1, 2, 3])
       False [] = Some d \<and>
     dec_messageName d = 5 \<and> dec_shouldDispatchMessageWhenWaitingForSyncReply d = SD_Yes"
proof -
  let ?malloc = "\<lambda>n::nat. if n < 2 ^ 20 then Some (4096 :: u64) else None"
  have m: "malloc_ok ?malloc" by (simp add: malloc_ok_def)
  obtain e where "Encoder (\<lambda>_. True) 5 7 = Some e" using Encoder_buffer by blast
  then show ?thesis
    using header_roundtrip [OF m, of 8193 "\<lambda>n. n < 10" 5 "\<lambda>_. True" 7 e "[1, 2, 3]" 4096 SD_Yes "[]"]
    by auto
qed

end
