(* ===== verification/IPC_Coders.thy ===== *)
theory IPC_Coders
  imports IPC_Decoder
begin

text \<open>
  The argument coders of src/Platform/IPC/ArgumentCoders.h and ArgumentCoders.cpp. A class
  template \<^verbatim>\<open>ArgumentCoder<F<T>>\<close> becomes a pair of functions that take the coder of \<^verbatim>\<open>T\<close> as
  arguments. Coders that have both a legacy decoder (\<^verbatim>\<open>bool decode(Decoder&, T&)\<close>) and a modern
  one (\<^verbatim>\<open>Optional<T> decode(Decoder&)\<close>) have one definition for each. A vector is a list, a hash
  map or hash counted set is its list of entries and a hash set its list of elements, in
  iteration order; \<open>isValidKey\<close> is the key traits' test for the two reserved keys.
\<close>

subsection \<open>Simple types\<close>

definition encode_Simple :: "u64 \<Rightarrow> encoder \<Rightarrow> bytes \<Rightarrow> encoder option" where
  "encode_Simple alignofT e t = encodeFixedLengthData e t alignofT"

definition decode_Simple :: "u64 \<Rightarrow> u64 \<Rightarrow> bytes decode" where
  "decode_Simple sizeofT alignofT = decodeFixedLengthData sizeofT alignofT"

text \<open>A time is the eight bytes of its \<^verbatim>\<open>double\<close>.\<close>

definition encode_WallTime :: "encoder \<Rightarrow> u64 \<Rightarrow> encoder option" where
  "encode_WallTime e time = encode_u64 e time"

definition decode_WallTime_legacy :: "u64 decode" where
  "decode_WallTime_legacy = dec_bind decode_u64 (\<lambda>value. dec_return value)"

definition decode_WallTime :: "u64 decode" where
  "decode_WallTime d =
     (case decode_u64 d of (time, d) \<Rightarrow>
      (case time of None \<Rightarrow> (None, d) | Some t \<Rightarrow> (Some t, d)))"

definition encode_SHA1Digest :: "encoder \<Rightarrow> bytes \<Rightarrow> encoder option" where
  "encode_SHA1Digest e digest = encodeFixedLengthData e digest 1"

definition decode_SHA1Digest :: "bytes decode" where
  "decode_SHA1Digest = decodeFixedLengthData 20 1"

definition encode_Monostate :: "encoder \<Rightarrow> unit \<Rightarrow> encoder option" where
  "encode_Monostate e _ = Some e"

definition decode_Monostate :: "unit decode" where
  "decode_Monostate = dec_return ()"

text \<open>\<^verbatim>\<open>audit_token_t\<close> has eight 32-bit words.\<close>

primrec encode_words32 :: "encoder \<Rightarrow> u32 list \<Rightarrow> encoder option" where
  "encode_words32 e [] = Some e"
| "encode_words32 e (v # vs) = do { e \<leftarrow> encode_u32 e v; encode_words32 e vs }"

definition encode_auditToken :: "encoder \<Rightarrow> u32 list \<Rightarrow> encoder option" where
  "encode_auditToken e val = encode_words32 e val"

primrec decode_words32 :: "nat \<Rightarrow> u32 list decode" where
  "decode_words32 0 = dec_return []"
| "decode_words32 (Suc n) =
     dec_bind decode_u32 (\<lambda>v. dec_bind (decode_words32 n) (\<lambda>vs. dec_return (v # vs)))"

definition decode_auditToken :: "u32 list decode" where
  "decode_auditToken = decode_words32 8"

subsection \<open>Option sets\<close>

text \<open>\<open>validMask\<close> holds the bits of the enumerators, which is what \<^verbatim>\<open>isValidOptionSet\<close> tests.\<close>

definition isValidOptionSet :: "u32 \<Rightarrow> u32 \<Rightarrow> bool" where
  "isValidOptionSet validMask optionSet \<longleftrightarrow> optionSet AND NOT validMask = 0"

definition encode_OptionSet :: "encoder \<Rightarrow> u32 \<Rightarrow> encoder option" where
  "encode_OptionSet e optionSet = encode_u32 e optionSet"

definition decode_OptionSet_legacy :: "u32 \<Rightarrow> u32 decode" where
  "decode_OptionSet_legacy validMask =
     dec_bind decode_u32 (\<lambda>value.
       if \<not> isValidOptionSet validMask value then dec_fail else dec_return value)"

definition decode_OptionSet :: "u32 \<Rightarrow> u32 decode" where
  "decode_OptionSet validMask d =
     (case decode_u32 d of (value, d) \<Rightarrow>
      (case value of
         None \<Rightarrow> (None, d)
       | Some optionSet \<Rightarrow>
           if \<not> isValidOptionSet validMask optionSet then (None, d) else (Some optionSet, d)))"

subsection \<open>Array references\<close>

text \<open>
  An array reference is the address of the data and the number of elements; \<open>sizeofT\<close> and
  \<open>alignofT\<close> are those of the element type.
\<close>

definition encode_ArrayReference_fixed ::
    "u64 \<Rightarrow> u64 \<Rightarrow> u64 \<Rightarrow> encoder \<Rightarrow> bytes \<Rightarrow> encoder option" where
  "encode_ArrayReference_fixed Extent sizeofT alignofT e data =
     (if Extent = 0 then Some e
      else encodeFixedLengthData e (take (unat (Extent * sizeofT)) data) alignofT)"

definition decode_ArrayReference_fixed :: "u64 \<Rightarrow> u64 \<Rightarrow> u64 \<Rightarrow> (u64 \<times> u64) decode" where
  "decode_ArrayReference_fixed Extent sizeofT alignofT =
     (if Extent = 0 then dec_return (0, 0)
      else dec_bind (decodeFixedLengthReference (Extent * sizeofT) alignofT) (\<lambda>data.
        dec_return (data, Extent)))"

definition encode_ArrayReference ::
    "u64 \<Rightarrow> u64 \<Rightarrow> u64 \<Rightarrow> encoder \<Rightarrow> bytes \<Rightarrow> encoder option" where
  "encode_ArrayReference sz sizeofT alignofT e data = do {
     e \<leftarrow> encode_u64 e sz;
     if sz = 0 then Some e
     else encodeFixedLengthData e (take (unat (sz * sizeofT)) data) alignofT
   }"

definition decode_ArrayReference :: "u64 \<Rightarrow> u64 \<Rightarrow> (u64 \<times> u64) decode" where
  "decode_ArrayReference sizeofT alignofT =
     dec_bind decode_u64 (\<lambda>sz.
       if sz = 0 then dec_return (0, 0)
       else dec_bind (decodeFixedLengthReference (sz * sizeofT) alignofT) (\<lambda>data.
         dec_return (data, sz)))"

text \<open>\<^verbatim>\<open>DataReference\<close> is the array reference of bytes; its value here is the bytes referred to.\<close>

definition encode_DataReference :: "encoder \<Rightarrow> bytes \<Rightarrow> encoder option" where
  "encode_DataReference e data = encode_ArrayReference (of_nat (length data)) 1 1 e data"

definition decode_DataReference :: "bytes decode" where
  "decode_DataReference =
     dec_bind (decode_ArrayReference 1 1) (\<lambda>(data, sz) d. (Some (mem_read d data (unat sz)), d))"

subsection \<open>Strings\<close>

text \<open>
  The object representation of an array of words of \<open>sz\<close> bytes, and the array of \<open>n\<close> words that
  a block of bytes represents.
\<close>

definition words_bytes :: "nat \<Rightarrow> 'a::len word list \<Rightarrow> bytes" where
  "words_bytes sz ws = concat (map (\<lambda>w. le_bytes sz (unat w)) ws)"

primrec bytes_words :: "nat \<Rightarrow> nat \<Rightarrow> bytes \<Rightarrow> 'a::len word list" where
  "bytes_words sz 0 bs = []"
| "bytes_words sz (Suc n) bs = of_nat (le_value (take sz bs)) # bytes_words sz n (drop sz bs)"

datatype WTFString = NullString | String8 "u8 list" | String16 "u16 list"

datatype WTFCString = NullCString | CStr bytes

definition encode_CString :: "encoder \<Rightarrow> WTFCString \<Rightarrow> encoder option" where
  "encode_CString e string =
     (case string of
        NullCString \<Rightarrow> encode_u32 e (- 1)
      | CStr data \<Rightarrow> (let len = of_nat (length data) :: u32 in do {
          e \<leftarrow> encode_u32 e len;
          encodeFixedLengthData e (take (unat len) data) 1
        }))"

definition decode_CString :: "WTFCString decode" where
  "decode_CString =
     dec_bind decode_u32 (\<lambda>len.
       if len = - 1 then dec_return NullCString
       else (\<lambda>d. if \<not> bufferIsLargeEnoughToContain_T 1 d (ucast len) then dec_fail_invalid d
                 else dec_bind (decodeFixedLengthData (ucast len) 1)
                        (\<lambda>buffer. dec_return (CStr buffer)) d))"

definition encode_String :: "encoder \<Rightarrow> WTFString \<Rightarrow> encoder option" where
  "encode_String e string =
     (case string of
        NullString \<Rightarrow> encode_u32 e (- 1)
      | String8 characters8 \<Rightarrow> (let len = of_nat (length characters8) :: u32 in do {
          e \<leftarrow> encode_u32 e len;
          e \<leftarrow> encode_bool e True;
          encodeFixedLengthData e (take (unat len * 1) (words_bytes 1 characters8)) 1
        })
      | String16 characters16 \<Rightarrow> (let len = of_nat (length characters16) :: u32 in do {
          e \<leftarrow> encode_u32 e len;
          e \<leftarrow> encode_bool e False;
          encodeFixedLengthData e (take (unat len * 2) (words_bytes 2 characters16)) 2
        }))"

text \<open>\<^verbatim>\<open>decodeStringText<CharacterType>\<close> with the size of the character type.\<close>

definition decodeStringText :: "nat \<Rightarrow> ('a::len word list \<Rightarrow> WTFString) \<Rightarrow> u32 \<Rightarrow> WTFString decode" where
  "decodeStringText sz mk len d =
     (if \<not> bufferIsLargeEnoughToContain_T (of_nat sz) d (ucast len) then dec_fail_invalid d
      else dec_bind (decodeFixedLengthData (ucast len * of_nat sz) (of_nat sz))
             (\<lambda>buffer. dec_return (mk (bytes_words sz (unat len) buffer))) d)"

definition decode_String :: "WTFString decode" where
  "decode_String =
     dec_bind decode_u32 (\<lambda>len.
       if len = - 1 then dec_return NullString
       else dec_bind decode_bool (\<lambda>is8Bit.
         if is8Bit then decodeStringText 1 String8 len else decodeStringText 2 String16 len))"

definition decode_String_legacy :: "WTFString decode" where
  "decode_String_legacy = dec_bind decode_String (\<lambda>string. dec_return string)"

definition encode_AtomString :: "encoder \<Rightarrow> WTFString \<Rightarrow> encoder option" where
  "encode_AtomString e atomString = encode_String e atomString"

definition decode_AtomString :: "WTFString decode" where
  "decode_AtomString = dec_bind decode_String_legacy (\<lambda>string. dec_return string)"

subsection \<open>Optional values, boxes, pairs and tuples\<close>

definition encode_Optional ::
    "(encoder \<Rightarrow> 'a \<Rightarrow> encoder option) \<Rightarrow> encoder \<Rightarrow> 'a option \<Rightarrow> encoder option" where
  "encode_Optional ea e opt =
     (case opt of
        None \<Rightarrow> encode_bool e False
      | Some v \<Rightarrow> do { e \<leftarrow> encode_bool e True; ea e v })"

definition decode_Optional_legacy :: "'a decode \<Rightarrow> 'a option decode" where
  "decode_Optional_legacy da =
     dec_bind decode_bool (\<lambda>isEngaged.
       if \<not> isEngaged then dec_return None
       else dec_bind da (\<lambda>value. dec_return (Some value)))"

definition decode_Optional :: "'a decode \<Rightarrow> 'a option decode" where
  "decode_Optional da d =
     (case decode_bool d of (isEngaged, d) \<Rightarrow>
      (case isEngaged of
         None \<Rightarrow> (None, d)
       | Some engaged \<Rightarrow>
           if engaged then (case da d of (value, d) \<Rightarrow>
             (case value of None \<Rightarrow> (None, d) | Some v \<Rightarrow> (Some (Some v), d)))
           else (Some None, d)))"

text \<open>A \<^verbatim>\<open>Box\<close> is null or points to a value.\<close>

definition encode_Box ::
    "(encoder \<Rightarrow> 'a \<Rightarrow> encoder option) \<Rightarrow> encoder \<Rightarrow> 'a option \<Rightarrow> encoder option" where
  "encode_Box ea e box =
     (case box of
        None \<Rightarrow> encode_bool e False
      | Some v \<Rightarrow> do { e \<leftarrow> encode_bool e True; ea e v })"

definition decode_Box_legacy :: "'a decode \<Rightarrow> 'a option decode" where
  "decode_Box_legacy da =
     dec_bind decode_bool (\<lambda>isEngaged.
       if \<not> isEngaged then dec_return None
       else dec_bind da (\<lambda>value. dec_return (Some value)))"

definition decode_Box :: "'a decode \<Rightarrow> 'a option decode" where
  "decode_Box da d =
     (case decode_bool d of (isEngaged, d) \<Rightarrow>
      (case isEngaged of
         None \<Rightarrow> (None, d)
       | Some engaged \<Rightarrow>
           if engaged then (case da d of (value, d) \<Rightarrow>
             (case value of None \<Rightarrow> (None, d) | Some v \<Rightarrow> (Some (Some v), d)))
           else (Some None, d)))"

definition encode_pair ::
    "(encoder \<Rightarrow> 'a \<Rightarrow> encoder option) \<Rightarrow> (encoder \<Rightarrow> 'b \<Rightarrow> encoder option) \<Rightarrow>
     encoder \<Rightarrow> 'a \<times> 'b \<Rightarrow> encoder option" where
  "encode_pair ea eb e p = do { e \<leftarrow> ea e (fst p); eb e (snd p) }"

definition decode_pair_legacy :: "'a decode \<Rightarrow> 'b decode \<Rightarrow> ('a \<times> 'b) decode" where
  "decode_pair_legacy da db =
     dec_bind da (\<lambda>first. dec_bind db (\<lambda>second. dec_return (first, second)))"

definition decode_pair :: "'a decode \<Rightarrow> 'b decode \<Rightarrow> ('a \<times> 'b) decode" where
  "decode_pair da db d =
     (case da d of (first, d) \<Rightarrow>
      (case first of
         None \<Rightarrow> (None, d)
       | Some f \<Rightarrow> (case db d of (second, d) \<Rightarrow>
           (case second of None \<Rightarrow> (None, d) | Some s \<Rightarrow> (Some (f, s), d)))))"

text \<open>\<^verbatim>\<open>KeyValuePair\<close>: the same layout; it has a legacy decoder only.\<close>

definition encode_KeyValuePair ::
    "(encoder \<Rightarrow> 'k \<Rightarrow> encoder option) \<Rightarrow> (encoder \<Rightarrow> 'v \<Rightarrow> encoder option) \<Rightarrow>
     encoder \<Rightarrow> 'k \<times> 'v \<Rightarrow> encoder option" where
  "encode_KeyValuePair ek ev e p = do { e \<leftarrow> ek e (fst p); ev e (snd p) }"

definition decode_KeyValuePair :: "'k decode \<Rightarrow> 'v decode \<Rightarrow> ('k \<times> 'v) decode" where
  "decode_KeyValuePair dk dv =
     dec_bind dk (\<lambda>key. dec_bind dv (\<lambda>value. dec_return (key, value)))"

text \<open>
  A tuple is a nest of pairs that ends in the unit. \<^verbatim>\<open>TupleEncoder\<close> writes the first element and
  goes on with the rest; \<^verbatim>\<open>TupleDecoderImpl\<close> stops at the last element, and \<^verbatim>\<open>TupleDecoder<0>\<close>
  is the empty tuple.
\<close>

definition TupleEncoder_cons ::
    "(encoder \<Rightarrow> 'a \<Rightarrow> encoder option) \<Rightarrow> (encoder \<Rightarrow> 'b \<Rightarrow> encoder option) \<Rightarrow>
     encoder \<Rightarrow> 'a \<times> 'b \<Rightarrow> encoder option" where
  "TupleEncoder_cons ea rest e t = do { e \<leftarrow> ea e (fst t); rest e (snd t) }"

definition TupleEncoder_nil :: "encoder \<Rightarrow> unit \<Rightarrow> encoder option" where
  "TupleEncoder_nil e t = Some e"

definition tupleFromTupleAndObject :: "'a \<Rightarrow> 'b \<Rightarrow> 'a \<times> 'b" where
  "tupleFromTupleAndObject obj tuple = (obj, tuple)"

definition TupleDecoderImpl_cons :: "'a decode \<Rightarrow> 'b decode \<Rightarrow> ('a \<times> 'b) decode" where
  "TupleDecoderImpl_cons da rest d =
     (case da d of (optional, d) \<Rightarrow>
      (case optional of
         None \<Rightarrow> (None, d)
       | Some x \<Rightarrow> (case rest d of (subTuple, d) \<Rightarrow>
           (case subTuple of
              None \<Rightarrow> (None, d)
            | Some t \<Rightarrow> (Some (tupleFromTupleAndObject x t), d)))))"

definition TupleDecoderImpl_last :: "'a decode \<Rightarrow> ('a \<times> unit) decode" where
  "TupleDecoderImpl_last da d =
     (case da d of (optional, d) \<Rightarrow>
      (case optional of None \<Rightarrow> (None, d) | Some x \<Rightarrow> (Some (x, ()), d)))"

definition TupleDecoder_nil :: "unit decode" where
  "TupleDecoder_nil d = (Some (), d)"

subsection \<open>Vectors\<close>

text \<open>Elements of no fixed size: the count, then one element after the other.\<close>

primrec encode_elements ::
    "(encoder \<Rightarrow> 'a \<Rightarrow> encoder option) \<Rightarrow> encoder \<Rightarrow> 'a list \<Rightarrow> encoder option" where
  "encode_elements ea e [] = Some e"
| "encode_elements ea e (x # xs) = do { e \<leftarrow> ea e x; encode_elements ea e xs }"

definition encode_Vector ::
    "(encoder \<Rightarrow> 'a \<Rightarrow> encoder option) \<Rightarrow> encoder \<Rightarrow> 'a list \<Rightarrow> encoder option" where
  "encode_Vector ea e vector = do {
     e \<leftarrow> encode_u64 e (of_nat (length vector));
     encode_elements ea e vector
   }"

primrec decode_Vector_loop :: "'a decode \<Rightarrow> nat \<Rightarrow> 'a list \<Rightarrow> 'a list decode" where
  "decode_Vector_loop da 0 vector = dec_return vector"
| "decode_Vector_loop da (Suc n) vector =
     dec_bind da (\<lambda>element. decode_Vector_loop da n (vector @ [element]))"

definition decode_Vector :: "'a decode \<Rightarrow> 'a list decode" where
  "decode_Vector da = dec_bind decode_u64 (\<lambda>sz. decode_Vector_loop da (unat sz) [])"

definition decode_Vector_legacy :: "'a decode \<Rightarrow> 'a list decode" where
  "decode_Vector_legacy da = dec_bind (decode_Vector da) (\<lambda>optional. dec_return optional)"

text \<open>
  Arithmetic elements of \<open>sz\<close> bytes: the count, then the bytes of the array. Every 64-bit count
  is in the bounds of \<^verbatim>\<open>size_t\<close>, so the test \<^verbatim>\<open>isInBounds<size_t>\<close> never fails.
\<close>

definition encode_Vector_fixed :: "nat \<Rightarrow> encoder \<Rightarrow> 'a::len word list \<Rightarrow> encoder option" where
  "encode_Vector_fixed sz e vector = do {
     e \<leftarrow> encode_u64 e (of_nat (length vector));
     encodeFixedLengthData e (words_bytes sz vector) (of_nat sz)
   }"

definition decode_Vector_fixed_legacy :: "nat \<Rightarrow> 'a::len word list decode" where
  "decode_Vector_fixed_legacy sz d =
     (case decode_u64 d of
        (None, d) \<Rightarrow> dec_fail_invalid d
      | (Some decodedSize, d) \<Rightarrow>
          if \<not> bufferIsLargeEnoughToContain_T (of_nat sz) d decodedSize then dec_fail_invalid d
          else case decodeFixedLengthData (decodedSize * of_nat sz) (of_nat sz) d of
            (None, d) \<Rightarrow> dec_fail_invalid d
          | (Some bs, d) \<Rightarrow> (Some (bytes_words sz (unat decodedSize) bs), d))"

definition decode_Vector_fixed :: "nat \<Rightarrow> 'a::len word list decode" where
  "decode_Vector_fixed sz d =
     (case decode_u64 d of (decodedSize, d) \<Rightarrow>
      (case decodedSize of
         None \<Rightarrow> (None, markInvalid d)
       | Some n \<Rightarrow>
           if \<not> bufferIsLargeEnoughToContain_T (of_nat sz) d n then (None, markInvalid d)
           else (case decodeFixedLengthData (n * of_nat sz) (of_nat sz) d of (r, d) \<Rightarrow>
             (case r of
                None \<Rightarrow> (None, markInvalid d)
              | Some bs \<Rightarrow> (Some (bytes_words sz (unat n) bs), d)))))"

subsection \<open>Hash maps and hash sets\<close>

definition encode_HashMap ::
    "(encoder \<Rightarrow> 'k \<Rightarrow> encoder option) \<Rightarrow> (encoder \<Rightarrow> 'v \<Rightarrow> encoder option) \<Rightarrow>
     encoder \<Rightarrow> ('k \<times> 'v) list \<Rightarrow> encoder option" where
  "encode_HashMap ek ev e hashMap = do {
     e \<leftarrow> encode_u32 e (of_nat (length hashMap));
     encode_elements (encode_KeyValuePair ek ev) e hashMap
   }"

primrec decode_HashMap_loop ::
    "('k \<Rightarrow> bool) \<Rightarrow> 'k decode \<Rightarrow> 'v decode \<Rightarrow> nat \<Rightarrow> ('k \<times> 'v) list \<Rightarrow> ('k \<times> 'v) list decode" where
  "decode_HashMap_loop isValidKey dk dv 0 hashMap = dec_return hashMap"
| "decode_HashMap_loop isValidKey dk dv (Suc n) hashMap =
     dec_bind dk (\<lambda>key. dec_bind dv (\<lambda>value.
       if \<not> isValidKey key then dec_fail_invalid
       else if key \<in> set (map fst hashMap) then dec_fail_invalid
       else decode_HashMap_loop isValidKey dk dv n (hashMap @ [(key, value)])))"

definition decode_HashMap ::
    "('k \<Rightarrow> bool) \<Rightarrow> 'k decode \<Rightarrow> 'v decode \<Rightarrow> ('k \<times> 'v) list decode" where
  "decode_HashMap isValidKey dk dv =
     dec_bind decode_u32 (\<lambda>n. decode_HashMap_loop isValidKey dk dv (unat n) [])"

definition encode_HashSet ::
    "(encoder \<Rightarrow> 'k \<Rightarrow> encoder option) \<Rightarrow> encoder \<Rightarrow> 'k list \<Rightarrow> encoder option" where
  "encode_HashSet ek e hashSet = do {
     e \<leftarrow> encode_u64 e (of_nat (length hashSet));
     encode_elements ek e hashSet
   }"

primrec decode_HashSet_loop ::
    "('k \<Rightarrow> bool) \<Rightarrow> 'k decode \<Rightarrow> nat \<Rightarrow> 'k list \<Rightarrow> 'k list decode" where
  "decode_HashSet_loop isValidValue dk 0 hashSet = dec_return hashSet"
| "decode_HashSet_loop isValidValue dk (Suc n) hashSet =
     dec_bind dk (\<lambda>key.
       if \<not> isValidValue key then dec_fail_invalid
       else if key \<in> set hashSet then dec_fail_invalid
       else decode_HashSet_loop isValidValue dk n (hashSet @ [key]))"

definition decode_HashSet :: "('k \<Rightarrow> bool) \<Rightarrow> 'k decode \<Rightarrow> 'k list decode" where
  "decode_HashSet isValidValue dk =
     dec_bind decode_u64 (\<lambda>n. decode_HashSet_loop isValidValue dk (unat n) [])"

text \<open>A counted set: an added key starts from zero and gets the count.\<close>

definition encode_HashCountedSet ::
    "(encoder \<Rightarrow> 'k \<Rightarrow> encoder option) \<Rightarrow> encoder \<Rightarrow> ('k \<times> u32) list \<Rightarrow> encoder option" where
  "encode_HashCountedSet ek e hashCountedSet = do {
     e \<leftarrow> encode_u64 e (of_nat (length hashCountedSet));
     encode_elements (\<lambda>e entry. do { e \<leftarrow> ek e (fst entry); encode_u32 e (snd entry) })
       e hashCountedSet
   }"

primrec decode_HashCountedSet_loop ::
    "('k \<Rightarrow> bool) \<Rightarrow> 'k decode \<Rightarrow> nat \<Rightarrow> ('k \<times> u32) list \<Rightarrow> ('k \<times> u32) list decode" where
  "decode_HashCountedSet_loop isValidValue dk 0 s = dec_return s"
| "decode_HashCountedSet_loop isValidValue dk (Suc n) s =
     dec_bind dk (\<lambda>key. dec_bind decode_u32 (\<lambda>count.
       if \<not> isValidValue key then dec_fail_invalid
       else if key \<in> set (map fst s) then dec_fail_invalid
       else decode_HashCountedSet_loop isValidValue dk n (s @ [(key, 0 + count)])))"

definition decode_HashCountedSet :: "('k \<Rightarrow> bool) \<Rightarrow> 'k decode \<Rightarrow> ('k \<times> u32) list decode" where
  "decode_HashCountedSet isValidValue dk =
     dec_bind decode_u64 (\<lambda>n. decode_HashCountedSet_loop isValidValue dk (unat n) [])"

subsection \<open>Expected values and variants\<close>

definition encode_Expected ::
    "(encoder \<Rightarrow> 'v \<Rightarrow> encoder option) \<Rightarrow> (encoder \<Rightarrow> 'e \<Rightarrow> encoder option) \<Rightarrow>
     encoder \<Rightarrow> 'e + 'v \<Rightarrow> encoder option" where
  "encode_Expected ev ee e expected =
     (case expected of
        Inl error \<Rightarrow> do { e \<leftarrow> encode_bool e False; ee e error }
      | Inr value \<Rightarrow> do { e \<leftarrow> encode_bool e True; ev e value })"

definition decode_Expected :: "'v decode \<Rightarrow> 'e decode \<Rightarrow> ('e + 'v) decode" where
  "decode_Expected dv de =
     dec_bind decode_bool (\<lambda>hasValue.
       if hasValue then dec_bind dv (\<lambda>value. dec_return (Inr value))
       else dec_bind de (\<lambda>error. dec_return (Inl error)))"

text \<open>
  A variant is the index of its alternative and a value; \<open>encs\<close> and \<open>decs\<close> are the coders of the
  alternatives. \<^verbatim>\<open>VariantCoder<index>\<close> tries the indices downwards, and \<^verbatim>\<open>VariantCoder<0>\<close> takes
  the first alternative with only an assertion that the index is 0.
\<close>

primrec VariantCoder_encode ::
    "(encoder \<Rightarrow> 'u \<Rightarrow> encoder option) list \<Rightarrow> nat \<Rightarrow> encoder \<Rightarrow> 'u \<Rightarrow> u32 \<Rightarrow> encoder option" where
  "VariantCoder_encode encs 0 e v i = (encs ! 0) e v"
| "VariantCoder_encode encs (Suc index) e v i =
     (if i = of_nat (Suc index) then (encs ! Suc index) e v
      else VariantCoder_encode encs index e v i)"

primrec VariantCoder_decode :: "'u decode list \<Rightarrow> nat \<Rightarrow> u32 \<Rightarrow> (nat \<times> 'u) decode" where
  "VariantCoder_decode decs 0 i = dec_bind (decs ! 0) (\<lambda>v. dec_return (0, v))"
| "VariantCoder_decode decs (Suc index) i =
     (if i = of_nat (Suc index)
      then dec_bind (decs ! Suc index) (\<lambda>v. dec_return (Suc index, v))
      else VariantCoder_decode decs index i)"

definition encode_Variant ::
    "(encoder \<Rightarrow> 'u \<Rightarrow> encoder option) list \<Rightarrow> encoder \<Rightarrow> nat \<times> 'u \<Rightarrow> encoder option" where
  "encode_Variant encs e v = (let i = of_nat (fst v) in do {
     e \<leftarrow> encode_u32 e i;
     VariantCoder_encode encs (length encs - 1) e (snd v) i
   })"

definition decode_Variant :: "'u decode list \<Rightarrow> (nat \<times> 'u) decode" where
  "decode_Variant decs = dec_bind decode_u32 (\<lambda>i. VariantCoder_decode decs (length decs - 1) i)"

subsection \<open>Whole messages\<close>

text \<open>\<^verbatim>\<open>Decoder::decodeSingleObject<T>\<close>.\<close>

definition decodeSingleObject :: "'a decode \<Rightarrow> u64 \<Rightarrow> bytes \<Rightarrow> 'a option" where
  "decodeSingleObject da source mem =
     (let d = Decoder_WithoutHeader source mem in
      if \<not> dec_isValid d then None else fst (da d))"

text \<open>
  A message wrapped into another for the fully synchronous testing mode, and back. The
  wrapping reserves as many bytes as there are attachments.
\<close>

definition wrapForTesting :: "encoder \<Rightarrow> encoder \<Rightarrow> encoder option" where
  "wrapForTesting e original = do {
     let original = setShouldDispatchMessageWhenWaitingForSyncReply original SD_Yes;
     e \<leftarrow> encode_DataReference e (enc_buffer original);
     let (attachments, original) = releaseAttachments original;
     e \<leftarrow> reserve e (of_nat (length attachments));
     Some (fold (\<lambda>attachment e. addAttachment e attachment) attachments e)
   }"

text \<open>The loop that removes the attachments, one per step.\<close>

fun takeAttachments :: "nat \<Rightarrow> decoder \<Rightarrow> attachment list \<Rightarrow> attachment list \<times> decoder" where
  "takeAttachments 0 d acc = (acc, d)"
| "takeAttachments (Suc n) d acc =
     (case removeAttachment d of
        (None, d) \<Rightarrow> (acc, d)
      | (Some a, d) \<Rightarrow> takeAttachments n d (acc @ [a]))"

definition unwrapForTesting ::
    "(u16 \<Rightarrow> bool) \<Rightarrow> (nat \<Rightarrow> u64 option) \<Rightarrow> decoder \<Rightarrow> decoder option \<times> decoder" where
  "unwrapForTesting isValidName tryFastMalloc d =
     (let (attachments, d) = takeAttachments (Suc (length (dec_attachments d))) d [];
          attachments = rev attachments in
      case decode_ArrayReference 1 1 d of
        (None, d) \<Rightarrow> (None, d)
      | (Some (data, sz), d) \<Rightarrow>
          (Decoder_create isValidName tryFastMalloc data (mem_read d data (unat sz)) False
             attachments, d))"

end
