(* ===== verification/IPC_Coder_Laws.thy ===== *)
theory IPC_Coder_Laws
  imports IPC_Coders
begin

text \<open>
  The contract every argument coder keeps, as a locale, and the proofs that the coders of
  IPC_Coders keep it: the coders of the arithmetic types, strings and byte arrays by
  interpretation, the compound ones by lemmas that take the contracts of the element coders
  to the contract of the container.
\<close>

subsection \<open>The contract of a coder\<close>

text \<open>
  The decoder stands where the encoder \<open>e\<close> ended, and its block holds what \<open>e'\<close> has written
  since.
\<close>

definition reads :: "decoder \<Rightarrow> encoder \<Rightarrow> encoder \<Rightarrow> bool" where
  "reads d e e' \<longleftrightarrow> wf_dec d \<and> dec_isValid d \<and> dec_offset d = length (enc_buffer e) \<and>
     prefix (drop (length (enc_buffer e)) (enc_buffer e'))
       (drop (length (enc_buffer e)) (dec_memory d))"

definition enc_grows :: "encoder \<Rightarrow> encoder \<Rightarrow> bool" where
  "enc_grows e e' \<longleftrightarrow> wf_enc e' \<and> enc_frame e e' \<and> prefix (enc_buffer e) (enc_buffer e')"

lemma enc_grows_refl [simp]: "wf_enc e \<Longrightarrow> enc_grows e e"
  by (simp add: enc_grows_def)

lemma enc_grows_trans: "enc_grows e e' \<Longrightarrow> enc_grows e' e'' \<Longrightarrow> enc_grows e e''"
  by (auto simp: enc_grows_def intro: enc_frame_trans)

lemma prefix_drop: "prefix xs ys \<Longrightarrow> prefix (drop n xs) (drop n ys)"
  by (auto elim!: prefixE)

lemma reads_first: "reads d e e'' \<Longrightarrow> enc_grows e' e'' \<Longrightarrow> reads d e e'"
  unfolding reads_def enc_grows_def using prefix_drop prefix_order.trans by blast

lemma reads_length:
  assumes "reads d e e'" "enc_grows e e'"
  shows "length (enc_buffer e') \<le> length (dec_memory d)"
proof -
  have "length (enc_buffer e) \<le> length (dec_memory d)"
    using assms(1) wf_decD(4) [of d] by (auto simp: reads_def)
  then show ?thesis
    using assms prefix_length_le [of "drop (length (enc_buffer e)) (enc_buffer e')"]
      prefix_length_le [of "enc_buffer e" "enc_buffer e'"]
    by (force simp: reads_def enc_grows_def)
qed

lemma reads_next:
  assumes "reads d e e''" "enc_grows e e'" "enc_grows e' e''"
  shows "reads (dec_at d (length (enc_buffer e'))) e' e''"
proof -
  let ?n = "length (enc_buffer e)" and ?m = "length (enc_buffer e')"
  have le: "?n \<le> ?m" using assms(2) prefix_length_le by (auto simp: enc_grows_def)
  have "prefix (drop (?m - ?n) (drop ?n (enc_buffer e''))) (drop (?m - ?n) (drop ?n (dec_memory d)))"
    using assms(1) by - (rule prefix_drop, simp add: reads_def)
  moreover have "?m \<le> length (dec_memory d)"
    using reads_length [OF reads_first [OF assms(1,3)] assms(2)] .
  ultimately show ?thesis using assms(1) le by (simp add: reads_def dec_at_valid)
qed

lemma dec_bind_Some: "m d = (Some x, d') \<Longrightarrow> dec_bind m f d = f x d'"
  by (simp add: dec_bind_def)

text \<open>
  Writing extends the message; on encodable values it always returns when memory is granted
  and the message stays below half the address space; reading is safe on every message, and
  reads back what was written.
\<close>

locale argument_coder =
  fixes enc :: "encoder \<Rightarrow> 'a \<Rightarrow> encoder option"
    and dec :: "'a decode"
    and ok :: "'a \<Rightarrow> bool"
    and bound :: "'a \<Rightarrow> nat"
  assumes enc_grows: "wf_enc e \<Longrightarrow> ok x \<Longrightarrow> enc e x = Some e' \<Longrightarrow> enc_grows e e'"
    and enc_total: "wf_enc e \<Longrightarrow> ok x \<Longrightarrow> (\<And>c. enc_alloc e c) \<Longrightarrow>
      length (enc_buffer e) + bound x \<le> 2 ^ 63 \<Longrightarrow>
      \<exists>e'. enc e x = Some e' \<and> length (enc_buffer e') \<le> length (enc_buffer e) + bound x"
    and safe: "dec_safe dec"
    and roundtrip: "wf_enc e \<Longrightarrow> ok x \<Longrightarrow> enc e x = Some e' \<Longrightarrow> reads d e e' \<Longrightarrow>
      dec d = (Some x, dec_at d (length (enc_buffer e')))"

text \<open>Two coders in sequence, the step every compound coder is made of.\<close>

lemma seq_total:
  assumes "wf_enc e" "\<And>c. enc_alloc e c" "length (enc_buffer e) + (m + n) \<le> 2 ^ 63"
    and "\<And>e'. f e = Some e' \<Longrightarrow> enc_grows e e'"
    and "\<exists>e'. f e = Some e' \<and> length (enc_buffer e') \<le> length (enc_buffer e) + m"
    and "\<And>e'. wf_enc e' \<Longrightarrow> (\<And>c. enc_alloc e' c) \<Longrightarrow> length (enc_buffer e') + n \<le> 2 ^ 63 \<Longrightarrow>
      \<exists>e''. g e' = Some e'' \<and> length (enc_buffer e'') \<le> length (enc_buffer e') + n"
  shows "\<exists>e''. (do { e' \<leftarrow> f e; g e' }) = Some e'' \<and>
      length (enc_buffer e'') \<le> length (enc_buffer e) + (m + n)"
proof -
  from assms(5) obtain e' where e': "f e = Some e'"
    "length (enc_buffer e') \<le> length (enc_buffer e) + m" by blast
  with assms(2,4) have "wf_enc e'" "enc_alloc e' c" for c
    by (auto simp: enc_grows_def enc_frame_def)
  with assms(6) [of e'] e'(2) assms(3) obtain e'' where "g e' = Some e''"
    "length (enc_buffer e'') \<le> length (enc_buffer e') + n" by auto
  then show ?thesis using e' by auto
qed

lemma seq_grows:
  assumes "wf_enc e" "(do { e' \<leftarrow> f e; g e' }) = Some e''"
    and "\<And>e'. f e = Some e' \<Longrightarrow> enc_grows e e'"
    and "\<And>e' e''. wf_enc e' \<Longrightarrow> g e' = Some e'' \<Longrightarrow> enc_grows e' e''"
  shows "enc_grows e e''"
  using assms by (auto simp: bind_eq_Some_conv intro: enc_grows_trans)
    (meson enc_grows_def enc_grows_trans)

lemma seq_roundtrip:
  assumes "wf_enc e" "(do { e' \<leftarrow> f e; g e' }) = Some e''" "reads d e e''"
    and "\<And>e'. f e = Some e' \<Longrightarrow> enc_grows e e'"
    and "\<And>e' e''. wf_enc e' \<Longrightarrow> g e' = Some e'' \<Longrightarrow> enc_grows e' e''"
    and "\<And>e'. f e = Some e' \<Longrightarrow> reads d e e' \<Longrightarrow> dx d = (Some x, dec_at d (length (enc_buffer e')))"
    and "\<And>e' d'. wf_enc e' \<Longrightarrow> g e' = Some e'' \<Longrightarrow> reads d' e' e'' \<Longrightarrow>
      dy x d' = (Some y, dec_at d' (length (enc_buffer e'')))"
  shows "dec_bind dx dy d = (Some y, dec_at d (length (enc_buffer e'')))"
proof -
  from assms(2) obtain e' where e': "f e = Some e'" "g e' = Some e''"
    by (auto simp: bind_eq_Some_conv)
  have 1: "enc_grows e e'" and wf: "wf_enc e'"
    using assms(4) [OF e'(1)] by (auto simp: enc_grows_def)
  have 2: "enc_grows e' e''" by (rule assms(5) [OF wf e'(2)])
  have "dec_bind dx dy d = dy x (dec_at d (length (enc_buffer e')))"
    by (rule dec_bind_Some) (rule assms(6) [OF e'(1) reads_first [OF assms(3) 2]])
  also have "\<dots> = (Some y, dec_at d (length (enc_buffer e'')))"
    using assms(7) [OF wf e'(2) reads_next [OF assms(3) 1 2]] by simp
  finally show ?thesis .
qed

subsection \<open>Building coders from coders\<close>

lemma dec_safe_cong:
  assumes "dec_safe m" "\<And>d. wf_dec d \<Longrightarrow> m' d = m d"
  shows "dec_safe m'"
  using assms by (simp add: dec_safe_def)

lemma argument_coder_skip: "argument_coder (\<lambda>e x. Some e) (dec_return c) (\<lambda>x. x = c) (\<lambda>_. 0)"
proof
  fix e :: encoder and x :: 'a and e' d
  assume "x = c" "Some e = Some e'" "reads d e e'"
  then show "dec_return c d = (Some x, dec_at d (length (enc_buffer e')))"
    using dec_at_offset [of d] by (auto simp: reads_def dec_return_def)
qed (auto simp: dec_safe_return)

context argument_coder
begin

lemma coder_cong:
  assumes "\<And>d. wf_dec d \<Longrightarrow> dec' d = dec d"
  shows "argument_coder enc dec' ok bound"
proof
  show "dec_safe dec'" using safe assms by (rule dec_safe_cong)
  fix e x e' d assume "wf_enc e" "ok x" "enc e x = Some e'" "reads d e e'"
  then show "dec' d = (Some x, dec_at d (length (enc_buffer e')))"
    using roundtrip assms by (simp add: reads_def)
qed (fact enc_grows, fact enc_total)

lemma coder_weaken:
  assumes "\<And>x. ok' x \<Longrightarrow> ok x \<and> bound x \<le> bound' x"
  shows "argument_coder enc dec ok' bound'"
proof
  fix e x assume "wf_enc e" "ok' x" "\<And>c. enc_alloc e c"
    and fits: "length (enc_buffer e) + bound' x \<le> 2 ^ 63"
  moreover have "length (enc_buffer e) + bound x \<le> 2 ^ 63"
    using assms [OF \<open>ok' x\<close>] fits by linarith
  ultimately obtain e' where "enc e x = Some e'"
    "length (enc_buffer e') \<le> length (enc_buffer e) + bound x"
    using enc_total assms by blast
  then show "\<exists>e'. enc e x = Some e' \<and>
      length (enc_buffer e') \<le> length (enc_buffer e) + bound' x"
    using assms [OF \<open>ok' x\<close>] by auto
qed (use assms in \<open>auto intro: enc_grows safe roundtrip\<close>)

text \<open>Values that are sent as another value.\<close>

lemma coder_map:
  assumes "\<And>x. ok' x \<Longrightarrow> ok (f x) \<and> g (f x) = x"
  shows "argument_coder (\<lambda>e x. enc e (f x)) (dec_bind dec (\<lambda>a. dec_return (g a))) ok'
    (\<lambda>x. bound (f x))"
proof
  show "dec_safe (dec_bind dec (\<lambda>a. dec_return (g a)))" by (intro wf_intros safe)
  fix e x e' d assume "wf_enc e" "ok' x" "enc e (f x) = Some e'" "reads d e e'"
  then show "dec_bind dec (\<lambda>a. dec_return (g a)) d = (Some x, dec_at d (length (enc_buffer e')))"
    using roundtrip [of e "f x" e' d] assms [of x] by (simp add: dec_bind_def dec_return_def)
qed (use assms in \<open>auto intro: enc_grows enc_total\<close>)

text \<open>A part \<open>p x\<close> of the value first, then the rest by a coder that may depend on that part.\<close>

lemma coder_seq:
  assumes second: "\<And>a. argument_coder (eb a) (db a) (okb a) bb"
    and split: "\<And>x. ok' x \<Longrightarrow> ok (p x) \<and> okb (p x) x"
  shows "argument_coder (\<lambda>e x. do { e \<leftarrow> enc e (p x); eb (p x) e x }) (dec_bind dec db) ok'
    (\<lambda>x. bound (p x) + bb x)"
proof
  fix e x e' assume wf: "wf_enc e" and ok: "ok' x"
    and run: "(do { e \<leftarrow> enc e (p x); eb (p x) e x }) = Some e'"
  show "enc_grows e e'"
    by (rule seq_grows [where f = "\<lambda>e. enc e (p x)", OF wf run])
      (use split [OF ok] in \<open>auto intro: enc_grows wf argument_coder.enc_grows [OF second]\<close>)
next
  fix e x assume wf: "wf_enc e" and ok: "ok' x" and al: "\<And>c. enc_alloc e c"
    and fits: "length (enc_buffer e) + (bound (p x) + bb x) \<le> 2 ^ 63"
  show "\<exists>e'. (do { e \<leftarrow> enc e (p x); eb (p x) e x }) = Some e' \<and>
      length (enc_buffer e') \<le> length (enc_buffer e) + (bound (p x) + bb x)"
  proof (rule seq_total [where f = "\<lambda>e. enc e (p x)", OF wf al fits])
    show "\<exists>e'. enc e (p x) = Some e' \<and> length (enc_buffer e') \<le> length (enc_buffer e) + bound (p x)"
      using split [OF ok] fits by (intro enc_total wf al) auto
  qed (use split [OF ok] in \<open>auto intro: enc_grows wf argument_coder.enc_total [OF second]\<close>)
next
  show "dec_safe (dec_bind dec db)"
    by (intro wf_intros safe argument_coder.safe [OF second])
next
  fix e x e' d assume wf: "wf_enc e" and ok: "ok' x" and r: "reads d e e'"
    and run: "(do { e \<leftarrow> enc e (p x); eb (p x) e x }) = Some e'"
  show "dec_bind dec db d = (Some x, dec_at d (length (enc_buffer e')))"
    by (rule seq_roundtrip [where f = "\<lambda>e. enc e (p x)", OF wf run r])
      (use split [OF ok] in \<open>auto intro: enc_grows wf roundtrip argument_coder.enc_grows [OF second]
         argument_coder.roundtrip [OF second]\<close>)
qed

end

subsection \<open>The coders of the arithmetic types\<close>

lemma raw_grows:
  "wf_enc e \<Longrightarrow> is_alignment a \<Longrightarrow> encodeFixedLengthData e data a = Some e' \<Longrightarrow> enc_grows e e'"
  using encodeFixedLengthData_ext by (simp add: enc_grows_def)

lemma raw_total:
  assumes "wf_enc e" "is_alignment a" "\<And>c. enc_alloc e c"
    and "length (enc_buffer e) + (unat a + length data) \<le> 2 ^ 63"
  shows "\<exists>e'. encodeFixedLengthData e data a = Some e' \<and>
    length (enc_buffer e') \<le> length (enc_buffer e) + (unat a + length data)"
proof -
  have a: "0 < unat a" "unat a \<le> 8" using is_alignment_bounds [OF assms(2)] by auto
  note lt = align_up_lt [OF a(1), of "length (enc_buffer e)"]
  have "align_up (unat a) (length (enc_buffer e)) + length data \<le> 2 ^ 63"
    using assms(4) lt by linarith
  then obtain e' where e': "encodeFixedLengthData e data a = Some e'"
    using encodeFixedLengthData_total [OF assms(1) a assms(3)] by blast
  then have "length (enc_buffer e') = align_up (unat a) (length (enc_buffer e)) + length data"
    using encodeFixedLengthData_SomeD [OF assms(1) a e'] length_append_aligned [OF a(1)] by simp
  then show ?thesis using e' lt by auto
qed

lemma raw_coder:
  assumes "is_alignment a"
  shows "argument_coder (\<lambda>e bs. encodeFixedLengthData e bs a) (decodeFixedLengthData n a)
    (\<lambda>bs. length bs = unat n) (\<lambda>bs. unat a + length bs)"
proof
  fix e bs e' d
  assume "wf_enc e" "length bs = unat n" "encodeFixedLengthData e bs a = Some e'" "reads d e e'"
  then show "decodeFixedLengthData n a d = (Some bs, dec_at d (length (enc_buffer e')))"
    using raw_roundtrip(1) [of e bs a e' d] assms by (simp add: reads_def)
qed (use assms in \<open>blast intro: raw_grows raw_total dec_safe_data\<close>)+

lemma arith_coder:
  assumes "sz \<in> {1, 2, 4, 8}"
  shows "argument_coder (encode_arith sz) (decode_arith sz) (\<lambda>v. v < 256 ^ sz) (\<lambda>_. sz + sz)"
proof -
  have a: "is_alignment (of_nat sz)" and u: "unat (of_nat sz :: u64) = sz"
    using assms by (auto simp: is_alignment_def)
  have "argument_coder (\<lambda>e v. encodeFixedLengthData e (le_bytes sz v) (of_nat sz))
    (decode_arith sz) (\<lambda>v. v < 256 ^ sz) (\<lambda>v. unat (of_nat sz :: u64) + length (le_bytes sz v))"
    unfolding decode_arith_def
    by (rule argument_coder.coder_map [OF raw_coder [OF a]]) (simp add: u le_value_le_bytes)
  then show ?thesis by (simp add: encode_arith_def [abs_def] u)
qed

lemma word_coder:
  assumes "sz \<in> {1, 2, 4, 8}" "\<And>x :: 'a::len word. unat x < 256 ^ sz"
  shows "argument_coder (\<lambda>e x. encode_arith sz e (unat x))
    (dec_bind (decode_arith sz) (\<lambda>n. dec_return (of_nat n))) (\<lambda>_ :: 'a word. True) (\<lambda>_. sz + sz)"
  by (rule argument_coder.coder_map [OF arith_coder [OF assms(1)]]) (simp add: assms(2))

interpretation u8: argument_coder encode_u8 decode_u8 "\<lambda>_. True" "\<lambda>_. 2"
  using word_coder [of 1, where 'a = 8] word_bound(1)
  by (simp only: encode_u8_def [abs_def] decode_u8_def one_add_one insertI1)

interpretation u16: argument_coder encode_u16 decode_u16 "\<lambda>_. True" "\<lambda>_. 4"
  using word_coder [of 2, where 'a = 16] word_bound(2)
  by (simp add: encode_u16_def [abs_def] decode_u16_def)

interpretation u32: argument_coder encode_u32 decode_u32 "\<lambda>_. True" "\<lambda>_. 8"
  using word_coder [of 4, where 'a = 32] word_bound(3)
  by (simp add: encode_u32_def [abs_def] decode_u32_def)

interpretation u64: argument_coder encode_u64 decode_u64 "\<lambda>_. True" "\<lambda>_. 16"
  using word_coder [of 8, where 'a = 64] word_bound(4)
  by (simp add: encode_u64_def [abs_def] decode_u64_def)

interpretation bool: argument_coder encode_bool decode_bool "\<lambda>_. True" "\<lambda>_. 2"
  using argument_coder.coder_map [OF arith_coder [of 1], of "\<lambda>_. True" "\<lambda>b. if b then 1 else 0"
      "\<lambda>n. n \<noteq> 0"]
  by (simp add: encode_bool_def [abs_def] decode_bool_def numeral_2_eq_2)

subsection \<open>Modern and legacy decoders agree\<close>

lemma decode_Optional_eq: "decode_Optional da = decode_Optional_legacy da"
  by (rule ext) (simp add: decode_Optional_def decode_Optional_legacy_def dec_bind_def dec_return_def
      split: prod.split option.split)

lemma decode_Box_eq: "decode_Box da = decode_Box_legacy da"
  by (rule ext) (simp add: decode_Box_def decode_Box_legacy_def dec_bind_def dec_return_def
      split: prod.split option.split)

lemma decode_pair_eq: "decode_pair da db = decode_pair_legacy da db"
  by (rule ext) (simp add: decode_pair_def decode_pair_legacy_def dec_bind_def dec_return_def
      split: prod.split option.split)

lemma decode_OptionSet_eq: "decode_OptionSet m = decode_OptionSet_legacy m"
  by (rule ext) (simp add: decode_OptionSet_def decode_OptionSet_legacy_def dec_bind_def
      dec_return_def dec_fail_def split: prod.split option.split)

lemma decode_WallTime_eq: "decode_WallTime = decode_WallTime_legacy"
  by (rule ext) (simp add: decode_WallTime_def decode_WallTime_legacy_def dec_bind_def dec_return_def
      split: prod.split option.split)

lemma decode_Vector_fixed_eq:
  "(decode_Vector_fixed sz :: 'a::len word list decode) = decode_Vector_fixed_legacy sz"
  by (rule ext) (simp add: decode_Vector_fixed_def decode_Vector_fixed_legacy_def dec_fail_invalid_def
      split: prod.split option.split)

lemma dec_bind_return [simp]: "dec_bind m dec_return = m"
  by (rule ext) (simp add: dec_bind_def dec_return_def split: prod.split option.split)

lemma legacy_eqs:
  "decode_Vector_legacy da = decode_Vector da" "decode_String_legacy = decode_String"
  "decode_AtomString = decode_String" "decode_WallTime_legacy = decode_u64"
  by (simp_all add: decode_Vector_legacy_def decode_String_legacy_def decode_AtomString_def
      decode_WallTime_legacy_def)

lemma TupleDecoderImpl_cons_eq: "TupleDecoderImpl_cons da db = decode_pair_legacy da db"
  by (rule ext) (simp add: TupleDecoderImpl_cons_def decode_pair_legacy_def dec_bind_def
      dec_return_def tupleFromTupleAndObject_def split: prod.split option.split)

lemma TupleDecoderImpl_last_eq: "TupleDecoderImpl_last da = decode_pair_legacy da TupleDecoder_nil"
  by (rule ext) (simp add: TupleDecoderImpl_last_def TupleDecoder_nil_def decode_pair_legacy_def
      dec_bind_def dec_return_def split: prod.split option.split)

lemmas modern_eqs = decode_Optional_eq decode_Box_eq decode_pair_eq decode_OptionSet_eq
  decode_WallTime_eq decode_Vector_fixed_eq

subsection \<open>Optional values and boxes\<close>

definition option_ok :: "('a \<Rightarrow> bool) \<Rightarrow> 'a option \<Rightarrow> bool" where
  "option_ok ok o' \<longleftrightarrow> (case o' of None \<Rightarrow> True | Some x \<Rightarrow> ok x)"

definition option_bound :: "('a \<Rightarrow> nat) \<Rightarrow> 'a option \<Rightarrow> nat" where
  "option_bound bound o' = 2 + (case o' of None \<Rightarrow> 0 | Some x \<Rightarrow> bound x)"

context argument_coder
begin

lemma Optional_coder:
  "argument_coder (encode_Optional enc) (decode_Optional dec) (option_ok ok) (option_bound bound)"
proof -
  let ?eb = "\<lambda>a e x. if a then enc e (the x) else Some e"
  let ?db = "\<lambda>a. if \<not> a then dec_return None else dec_bind dec (\<lambda>v. dec_return (Some v))"
  let ?okb = "\<lambda>a x. a = (x \<noteq> None) \<and> option_ok ok x"
  let ?bb = "\<lambda>x. case x of None \<Rightarrow> 0 | Some x \<Rightarrow> bound x"
  have second: "argument_coder (?eb a) (?db a) (?okb a) ?bb" for a
  proof (cases a)
    case True
    have "argument_coder (\<lambda>e x. enc e (the x)) (dec_bind dec (\<lambda>v. dec_return (Some v)))
        (\<lambda>x. x \<noteq> None \<and> option_ok ok x) (\<lambda>x. bound (the x))"
      by (rule coder_map) (auto simp: option_ok_def)
    then have "argument_coder (\<lambda>e x. enc e (the x)) (dec_bind dec (\<lambda>v. dec_return (Some v)))
        (\<lambda>x. x \<noteq> None \<and> option_ok ok x) ?bb"
      by (rule argument_coder.coder_weaken) auto
    then show ?thesis using True by simp
  next
    case False
    have "argument_coder (\<lambda>e x. Some e) (dec_return None) (\<lambda>x. x = None \<and> option_ok ok x) ?bb"
      by (rule argument_coder.coder_weaken [OF argument_coder_skip]) auto
    then show ?thesis using False by simp
  qed
  have "argument_coder (\<lambda>e x. do { e \<leftarrow> encode_bool e (x \<noteq> None); ?eb (x \<noteq> None) e x })
      (dec_bind decode_bool ?db) (option_ok ok) (\<lambda>x. 2 + ?bb x)"
    by (rule bool.coder_seq [OF second]) auto
  moreover have "(\<lambda>e x. do { e \<leftarrow> encode_bool e (x \<noteq> None); ?eb (x \<noteq> None) e x })
      = encode_Optional enc"
    by (intro ext) (simp add: encode_Optional_def split: option.split)
  ultimately show ?thesis
    by (simp add: decode_Optional_eq decode_Optional_legacy_def option_bound_def [abs_def])
qed

lemma Box_coder:
  "argument_coder (encode_Box enc) (decode_Box dec) (option_ok ok) (option_bound bound)"
proof -
  have "encode_Box enc = encode_Optional enc" "decode_Box dec = decode_Optional dec"
    by (intro ext, simp add: encode_Box_def encode_Optional_def decode_Box_def decode_Optional_def)+
  then show ?thesis using Optional_coder by simp
qed

end

subsection \<open>Loops over the elements of a container\<close>

text \<open>The loops of the container decoders with the test they make on each element.\<close>

primrec checked_loop :: "'a decode \<Rightarrow> ('a list \<Rightarrow> 'a \<Rightarrow> bool) \<Rightarrow> nat \<Rightarrow> 'a list \<Rightarrow> 'a list decode" where
  "checked_loop da chk 0 acc = dec_return acc"
| "checked_loop da chk (Suc n) acc =
     dec_bind da (\<lambda>x. if chk acc x then checked_loop da chk n (acc @ [x]) else dec_fail_invalid)"

primrec chk_all :: "('a list \<Rightarrow> 'a \<Rightarrow> bool) \<Rightarrow> 'a list \<Rightarrow> 'a list \<Rightarrow> bool" where
  "chk_all chk acc [] \<longleftrightarrow> True"
| "chk_all chk acc (x # xs) \<longleftrightarrow> chk acc x \<and> chk_all chk (acc @ [x]) xs"

context argument_coder
begin

lemma elements_grows:
  "wf_enc e \<Longrightarrow> \<forall>x\<in>set xs. ok x \<Longrightarrow> encode_elements enc e xs = Some e' \<Longrightarrow> enc_grows e e'"
proof (induction xs arbitrary: e)
  case (Cons x xs)
  then obtain e1 where "enc e x = Some e1" "encode_elements enc e1 xs = Some e'"
    by (auto simp: bind_eq_Some_conv)
  moreover from this have "enc_grows e e1" using Cons.prems by (auto intro: enc_grows)
  moreover from this have "wf_enc e1" by (simp add: enc_grows_def)
  ultimately show ?case using Cons by (auto intro: enc_grows_trans)
qed simp

lemma elements_total:
  assumes "wf_enc e" "\<forall>x\<in>set xs. ok x" "\<And>c. enc_alloc e c"
    and "length (enc_buffer e) + sum_list (map bound xs) \<le> 2 ^ 63"
  shows "\<exists>e'. encode_elements enc e xs = Some e' \<and>
    length (enc_buffer e') \<le> length (enc_buffer e) + sum_list (map bound xs)"
  using assms
proof (induction xs arbitrary: e)
  case (Cons x xs)
  have "\<exists>e'. (do { e' \<leftarrow> enc e x; encode_elements enc e' xs }) = Some e' \<and>
      length (enc_buffer e') \<le> length (enc_buffer e) + (bound x + sum_list (map bound xs))"
  proof (rule seq_total [where f = "\<lambda>e. enc e x"])
    show "\<exists>e'. enc e x = Some e' \<and> length (enc_buffer e') \<le> length (enc_buffer e) + bound x"
      using Cons.prems by (intro enc_total) auto
  qed (use Cons.prems in \<open>auto intro: enc_grows Cons.IH\<close>)
  then show ?case by simp
qed simp

lemma loop_safe: "dec_safe (checked_loop dec chk n acc)"
  by (induction n arbitrary: acc) (auto intro!: wf_intros safe)

lemma loop_roundtrip:
  assumes "wf_enc e" "\<forall>x\<in>set xs. ok x" "chk_all chk acc xs"
    and "encode_elements enc e xs = Some e'" "reads d e e'"
  shows "checked_loop dec chk (length xs) acc d = (Some (acc @ xs), dec_at d (length (enc_buffer e')))"
  using assms
proof (induction xs arbitrary: e d acc)
  case Nil
  then show ?case using dec_at_offset [of d] by (auto simp: reads_def dec_return_def)
next
  case (Cons x xs)
  have "dec_bind dec (\<lambda>x. if chk acc x then checked_loop dec chk (length xs) (acc @ [x])
      else dec_fail_invalid) d = (Some ((acc @ [x]) @ xs), dec_at d (length (enc_buffer e')))"
  proof (rule seq_roundtrip [where f = "\<lambda>e. enc e x" and g = "\<lambda>e. encode_elements enc e xs"])
    fix e1 d' assume "wf_enc e1" "encode_elements enc e1 xs = Some e'" "reads d' e1 e'"
    then have "checked_loop dec chk (length xs) (acc @ [x]) d'
        = (Some ((acc @ [x]) @ xs), dec_at d' (length (enc_buffer e')))"
      using Cons.prems by (intro Cons.IH) auto
    then show "(if chk acc x then checked_loop dec chk (length xs) (acc @ [x])
        else dec_fail_invalid) d' = (Some ((acc @ [x]) @ xs), dec_at d' (length (enc_buffer e')))"
      using Cons.prems by simp
  qed (use Cons.prems enc_grows elements_grows roundtrip in auto)
  then show ?case by simp
qed

lemma loop_coder:
  "argument_coder (encode_elements enc) (checked_loop dec chk n [])
     (\<lambda>xs. length xs = n \<and> (\<forall>x\<in>set xs. ok x) \<and> chk_all chk [] xs) (\<lambda>xs. sum_list (map bound xs))"
proof
  fix e xs e' d
  assume "wf_enc e" "length xs = n \<and> (\<forall>x\<in>set xs. ok x) \<and> chk_all chk [] xs"
    "encode_elements enc e xs = Some e'" "reads d e e'"
  then show "checked_loop dec chk n [] d = (Some xs, dec_at d (length (enc_buffer e')))"
    using loop_roundtrip [of e xs chk "[]" e' d] by auto
qed (blast intro: elements_grows elements_total loop_safe)+

end

lemma dec_bind_KeyValuePair:
  "dec_bind (decode_KeyValuePair dk dv) f
     = dec_bind dk (\<lambda>key. dec_bind dv (\<lambda>value. f (key, value)))"
  by (rule ext) (simp add: decode_KeyValuePair_def dec_bind_def dec_return_def
      split: prod.split option.split)

lemma loop_eqs:
  "decode_Vector_loop da n acc = checked_loop da (\<lambda>_ _. True) n acc"
  "decode_HashSet_loop P dk n hs = checked_loop dk (\<lambda>acc k. P k \<and> k \<notin> set acc) n hs"
  "decode_HashMap_loop P dk dv n hm =
     checked_loop (decode_KeyValuePair dk dv) (\<lambda>acc x. P (fst x) \<and> fst x \<notin> fst ` set acc) n hm"
  "decode_HashCountedSet_loop P dk n cs =
     checked_loop (decode_KeyValuePair dk decode_u32)
       (\<lambda>acc x. P (fst x) \<and> fst x \<notin> fst ` set acc) n cs"
proof -
  note bind = dec_bind_KeyValuePair
  show "decode_Vector_loop da n acc = checked_loop da (\<lambda>_ _. True) n acc"
    by (induction n arbitrary: acc) simp_all
  show "decode_HashSet_loop P dk n hs = checked_loop dk (\<lambda>acc k. P k \<and> k \<notin> set acc) n hs"
    by (induction n arbitrary: hs) (auto intro!: arg_cong [where f = "dec_bind dk"])
  show "decode_HashMap_loop P dk dv n hm =
     checked_loop (decode_KeyValuePair dk dv) (\<lambda>acc x. P (fst x) \<and> fst x \<notin> fst ` set acc) n hm"
    by (induction n arbitrary: hm, simp)
      (simp add: bind, rule arg_cong [where f = "dec_bind dk"], rule ext,
        rule arg_cong [where f = "dec_bind dv"], auto)
  show "decode_HashCountedSet_loop P dk n cs =
     checked_loop (decode_KeyValuePair dk decode_u32)
       (\<lambda>acc x. P (fst x) \<and> fst x \<notin> fst ` set acc) n cs"
    by (induction n arbitrary: cs, simp)
      (simp add: bind, rule arg_cong [where f = "dec_bind dk"], rule ext,
        rule arg_cong [where f = "dec_bind decode_u32"], auto)
qed

lemma chk_all_True: "chk_all (\<lambda>_ _. True) acc xs"
  by (induction xs arbitrary: acc) simp_all

lemma chk_all_distinct:
  "chk_all (\<lambda>acc x. P (f x) \<and> f x \<notin> f ` set acc) acc xs \<longleftrightarrow>
     (\<forall>x\<in>set xs. P (f x)) \<and> distinct (map f xs) \<and> f ` set acc \<inter> f ` set xs = {}"
  by (induction xs arbitrary: acc) auto

text \<open>Encodable lists and bounds on their encoding.\<close>

definition list_ok :: "('a \<Rightarrow> bool) \<Rightarrow> 'a list \<Rightarrow> bool" where
  "list_ok ok xs \<longleftrightarrow> length xs < 2 ^ 64 \<and> (\<forall>x\<in>set xs. ok x)"

definition list_bound :: "('a \<Rightarrow> nat) \<Rightarrow> 'a list \<Rightarrow> nat" where
  "list_bound bound xs = 16 + sum_list (map bound xs)"

definition set_ok :: "('a \<Rightarrow> bool) \<Rightarrow> ('a \<Rightarrow> bool) \<Rightarrow> 'a list \<Rightarrow> bool" where
  "set_ok isValid ok xs \<longleftrightarrow> list_ok ok xs \<and> distinct xs \<and> (\<forall>x\<in>set xs. isValid x)"

definition map_ok ::
    "('k \<Rightarrow> bool) \<Rightarrow> ('k \<Rightarrow> bool) \<Rightarrow> ('v \<Rightarrow> bool) \<Rightarrow> nat \<Rightarrow> ('k \<times> 'v) list \<Rightarrow> bool" where
  "map_ok isValid okk okv n m \<longleftrightarrow> length m < n \<and> distinct (map fst m) \<and>
     (\<forall>(k, v)\<in>set m. isValid k \<and> okk k \<and> okv v)"

context argument_coder
begin

lemma counted_coder:
  assumes "\<And>xs. ok' xs \<Longrightarrow> length xs < 2 ^ 64 \<and> (\<forall>x\<in>set xs. ok x) \<and> chk_all chk [] xs"
  shows "argument_coder (\<lambda>e xs. do { e \<leftarrow> encode_u64 e (of_nat (length xs)); encode_elements enc e xs })
    (dec_bind decode_u64 (\<lambda>n. checked_loop dec chk (unat n) [])) ok' (list_bound bound)"
  unfolding list_bound_def [abs_def]
proof (rule u64.coder_seq [OF loop_coder])
  fix xs assume "ok' xs"
  from assms [OF this] show "True \<and> length xs = unat (of_nat (length xs) :: u64) \<and>
      (\<forall>x\<in>set xs. ok x) \<and> chk_all chk [] xs"
    by (auto simp: unat_of_nat_u64)
qed

lemma Vector_coder:
  "argument_coder (encode_Vector enc) (decode_Vector dec) (list_ok ok) (list_bound bound)"
proof -
  have "argument_coder (\<lambda>e xs. do { e \<leftarrow> encode_u64 e (of_nat (length xs)); encode_elements enc e xs })
    (dec_bind decode_u64 (\<lambda>n. checked_loop dec (\<lambda>_ _. True) (unat n) [])) (list_ok ok)
    (list_bound bound)"
    by (intro counted_coder) (auto simp: list_ok_def chk_all_True)
  then show ?thesis by (simp add: encode_Vector_def [abs_def] decode_Vector_def loop_eqs)
qed

lemma HashSet_coder:
  "argument_coder (encode_HashSet enc) (decode_HashSet isValid dec) (set_ok isValid ok)
     (list_bound bound)"
proof -
  have "argument_coder (\<lambda>e xs. do { e \<leftarrow> encode_u64 e (of_nat (length xs)); encode_elements enc e xs })
    (dec_bind decode_u64 (\<lambda>n. checked_loop dec (\<lambda>acc k. isValid k \<and> k \<notin> set acc) (unat n) []))
    (set_ok isValid ok) (list_bound bound)"
    using chk_all_distinct [of isValid "\<lambda>x. x" "[]"]
    by (intro counted_coder) (auto simp: set_ok_def list_ok_def)
  then show ?thesis by (simp add: encode_HashSet_def [abs_def] decode_HashSet_def loop_eqs)
qed

end

subsection \<open>Coders of two element types\<close>

locale two_coders = a: argument_coder enca deca oka bounda + b: argument_coder encb decb okb boundb
  for enca :: "encoder \<Rightarrow> 'a \<Rightarrow> encoder option" and deca oka bounda
    and encb :: "encoder \<Rightarrow> 'b \<Rightarrow> encoder option" and decb okb boundb
begin

lemma pair_coder:
  "argument_coder (encode_pair enca encb) (decode_pair deca decb) (pred_prod oka okb)
     (\<lambda>p. bounda (fst p) + boundb (snd p))"
proof -
  have second: "argument_coder (\<lambda>e p. encb e (snd p)) (dec_bind decb (\<lambda>y. dec_return (x, y)))
      (\<lambda>p. fst p = x \<and> okb (snd p)) (\<lambda>p. boundb (snd p))" for x :: 'a
    by (rule b.coder_map) auto
  have "argument_coder (\<lambda>e p. do { e \<leftarrow> enca e (fst p); encb e (snd p) })
      (dec_bind deca (\<lambda>x. dec_bind decb (\<lambda>y. dec_return (x, y)))) (pred_prod oka okb)
      (\<lambda>p. bounda (fst p) + boundb (snd p))"
    by (rule a.coder_seq [OF second]) (auto simp: pred_prod_beta)
  then show ?thesis
    by (simp add: encode_pair_def [abs_def] decode_pair_eq decode_pair_legacy_def)
qed

lemma KeyValuePair_coder:
  "argument_coder (encode_KeyValuePair enca encb) (decode_KeyValuePair deca decb)
     (pred_prod oka okb) (\<lambda>p. bounda (fst p) + boundb (snd p))"
proof -
  have "encode_KeyValuePair enca encb = encode_pair enca encb"
    "decode_KeyValuePair deca decb = decode_pair deca decb"
    by (simp_all add: encode_KeyValuePair_def [abs_def] encode_pair_def [abs_def] decode_pair_eq
        decode_KeyValuePair_def decode_pair_legacy_def)
  then show ?thesis using pair_coder by simp
qed

lemma tuple_coder:
  "argument_coder (TupleEncoder_cons enca encb) (TupleDecoderImpl_cons deca decb)
     (pred_prod oka okb) (\<lambda>p. bounda (fst p) + boundb (snd p))"
  using pair_coder
  by (simp add: encode_pair_def [abs_def] TupleEncoder_cons_def [abs_def] decode_pair_eq
      TupleDecoderImpl_cons_eq)

lemma HashMap_coder:
  "argument_coder (encode_HashMap enca encb) (decode_HashMap isValid deca decb)
     (map_ok isValid oka okb (2 ^ 32))
     (\<lambda>m. 8 + sum_list (map (\<lambda>p. bounda (fst p) + boundb (snd p)) m))"
proof -
  let ?chk = "\<lambda>acc x. isValid (fst x) \<and> fst x \<notin> fst ` set acc"
  have "argument_coder (\<lambda>e m. do { e \<leftarrow> encode_u32 e (of_nat (length m));
        encode_elements (encode_KeyValuePair enca encb) e m })
    (dec_bind decode_u32 (\<lambda>n. checked_loop (decode_KeyValuePair deca decb) ?chk (unat n) []))
    (map_ok isValid oka okb (2 ^ 32))
    (\<lambda>m. 8 + sum_list (map (\<lambda>p. bounda (fst p) + boundb (snd p)) m))"
  proof (rule u32.coder_seq [OF argument_coder.loop_coder [OF KeyValuePair_coder]])
    fix m :: "('a \<times> 'b) list" assume m: "map_ok isValid oka okb (2 ^ 32) m"
    then have "unat (of_nat (length m) :: u32) = length m"
      by (simp add: map_ok_def unat_of_nat)
    then show "True \<and> length m = unat (of_nat (length m) :: u32) \<and>
        (\<forall>x\<in>set m. pred_prod oka okb x) \<and> chk_all ?chk [] m"
      using m by (auto simp: map_ok_def chk_all_distinct)
  qed
  then show ?thesis by (simp add: encode_HashMap_def [abs_def] decode_HashMap_def loop_eqs)
qed

lemma Expected_coder:
  "argument_coder (encode_Expected encb enca) (decode_Expected decb deca)
     (case_sum oka okb) (\<lambda>x. 2 + case_sum bounda boundb x)"
proof -
  let ?eb = "\<lambda>v e x. if v then encb e (projr x) else enca e (projl x)"
  let ?db = "\<lambda>v. if v then dec_bind decb (\<lambda>y. dec_return (Inr y))
    else dec_bind deca (\<lambda>y. dec_return (Inl y))"
  have second: "argument_coder (?eb v) (?db v) (\<lambda>x. v = (\<not> isl x) \<and> case_sum oka okb x)
      (case_sum bounda boundb)" for v
  proof (cases v)
    case True
    have "argument_coder (\<lambda>e x. encb e (projr x)) (dec_bind decb (\<lambda>y. dec_return (Inr y)))
        (\<lambda>x. \<not> isl x \<and> case_sum oka okb x) (\<lambda>x. boundb (projr x))"
      by (rule b.coder_map) (auto split: sum.splits)
    then show ?thesis using True
      by (simp, elim argument_coder.coder_weaken) (auto split: sum.splits)
  next
    case False
    have "argument_coder (\<lambda>e x. enca e (projl x)) (dec_bind deca (\<lambda>y. dec_return (Inl y)))
        (\<lambda>x. isl x \<and> case_sum oka okb x) (\<lambda>x. bounda (projl x))"
      by (rule a.coder_map) (auto split: sum.splits)
    then show ?thesis using False
      by (simp, elim argument_coder.coder_weaken) (auto split: sum.splits)
  qed
  have "argument_coder (\<lambda>e x. do { e \<leftarrow> encode_bool e (\<not> isl x); ?eb (\<not> isl x) e x })
      (dec_bind decode_bool ?db) (case_sum oka okb) (\<lambda>x. 2 + case_sum bounda boundb x)"
    by (rule bool.coder_seq [OF second]) auto
  moreover have "(\<lambda>e x. do { e \<leftarrow> encode_bool e (\<not> isl x); ?eb (\<not> isl x) e x })
      = encode_Expected encb enca"
    by (intro ext) (simp add: encode_Expected_def split: sum.split)
  ultimately show ?thesis by (simp add: decode_Expected_def)
qed

end

context argument_coder
begin

lemma HashCountedSet_coder:
  "argument_coder (encode_HashCountedSet enc) (decode_HashCountedSet isValid dec)
     (map_ok isValid ok (\<lambda>_. True) (2 ^ 64)) (list_bound (\<lambda>p. bound (fst p) + 8))"
proof -
  let ?chk = "\<lambda>acc x. isValid (fst x) \<and> fst x \<notin> fst ` set acc"
  have kv: "argument_coder (encode_KeyValuePair enc encode_u32) (decode_KeyValuePair dec decode_u32)
      (pred_prod ok (\<lambda>_. True)) (\<lambda>p. bound (fst p) + 8)"
    using two_coders.KeyValuePair_coder [OF two_coders.intro [OF argument_coder_axioms
          u32.argument_coder_axioms]] .
  have "argument_coder (\<lambda>e m. do { e \<leftarrow> encode_u64 e (of_nat (length m));
        encode_elements (encode_KeyValuePair enc encode_u32) e m })
    (dec_bind decode_u64 (\<lambda>n. checked_loop (decode_KeyValuePair dec decode_u32) ?chk (unat n) []))
    (map_ok isValid ok (\<lambda>_. True) (2 ^ 64)) (list_bound (\<lambda>p. bound (fst p) + 8))"
    by (rule argument_coder.counted_coder [OF kv]) (auto simp: map_ok_def chk_all_distinct)
  then show ?thesis
    by (simp add: encode_HashCountedSet_def [abs_def] decode_HashCountedSet_def loop_eqs
        encode_KeyValuePair_def [abs_def])
qed

end

subsection \<open>Arrays of words\<close>

lemma length_words_bytes [simp]: "length (words_bytes sz ws) = sz * length ws"
  by (induction ws) (simp_all add: words_bytes_def)

lemma bytes_words_words_bytes:
  assumes "\<And>w :: 'a::len word. w \<in> set ws \<Longrightarrow> unat w < 256 ^ sz"
  shows "bytes_words sz (length ws) (words_bytes sz ws) = ws"
  using assms by (induction ws) (auto simp: words_bytes_def le_value_le_bytes)

text \<open>The size check before an array is read decides whether the array is there.\<close>

lemma size_check_valid:
  assumes "wf_dec d" "dec_isValid d" "sz \<in> {1, 2, 4, 8}"
  shows "bufferIsLargeEnoughToContain_T (of_nat sz) d n \<longleftrightarrow>
    align_up sz (dec_offset d) + unat n * sz \<le> length (dec_memory d)"
proof -
  have a: "is_alignment (of_nat sz :: u64)" and u: "unat (of_nat sz :: u64) = sz"
    using assms(3) by (auto simp: is_alignment_def)
  have len: "length (dec_memory d) < 2 ^ 64" using assms(1) by (auto simp: wf_dec_def)
  have max: "unat (- 1 :: u64) = 2 ^ 64 - 1"
    by (simp add: unsigned_minus_1_eq_mask mask_eq_exp_minus_1)
  have over: "n > (- 1) div of_nat sz \<longleftrightarrow> 2 ^ 64 - 1 < unat n * sz"
  proof -
    have "n > (- 1) div of_nat sz \<longleftrightarrow> (2 ^ 64 - 1) div sz < unat n"
      by (simp only: word_less_nat_alt unat_div u max)
    also have "\<dots> \<longleftrightarrow> 2 ^ 64 - 1 < unat n * sz" using assms(3) by (auto simp: div_less_iff_less_mult)
    finally show ?thesis .
  qed
  have chk: "bufferIsLargeEnoughToContain d (of_nat sz) m \<longleftrightarrow>
      align_up sz (dec_offset d) + unat m \<le> length (dec_memory d)" for m
    using alignBufferPosition_valid [OF assms(1,2) a, of m] u
    by (auto simp: alignBufferPosition_def bufferIsLargeEnoughToContain_def Let_def
        split: if_splits)
  show ?thesis
  proof (cases "unat n * sz < 2 ^ 64")
    case True
    then have "unat (n * of_nat sz) = unat n * sz" by (simp add: unat_word_ariths(2) u)
    then show ?thesis using True over chk by (auto simp: bufferIsLargeEnoughToContain_T_def)
  next
    case False
    then show ?thesis using over len by (auto simp: bufferIsLargeEnoughToContain_T_def)
  qed
qed

lemma size_check_invalid:
  assumes "wf_dec d" "\<not> dec_isValid d" "sz \<in> {1, 2, 4, 8}"
  shows "\<not> bufferIsLargeEnoughToContain_T (of_nat sz) d n"
proof -
  have a: "is_alignment (of_nat sz :: u64)" using assms(3) by (auto simp: is_alignment_def)
  have "\<not> bufferIsLargeEnoughToContain d (of_nat sz) m" for m
    using alignBufferPosition_invalid [OF assms(1,2) a, of m]
    by (auto simp: alignBufferPosition_def bufferIsLargeEnoughToContain_def Let_def
        split: if_splits)
  then show ?thesis by (simp add: bufferIsLargeEnoughToContain_T_def)
qed

text \<open>The checked read of an array, which strings and vectors share.\<close>

definition checked_data :: "nat \<Rightarrow> u64 \<Rightarrow> bytes decode" where
  "checked_data sz n d =
     (if \<not> bufferIsLargeEnoughToContain_T (of_nat sz) d n then dec_fail_invalid d
      else decodeFixedLengthData (n * of_nat sz) (of_nat sz) d)"

lemma checked_data_eq:
  assumes "wf_dec d" "sz \<in> {1, 2, 4, 8}"
  shows "checked_data sz n d =
    (if dec_isValid d \<and> align_up sz (dec_offset d) + unat n * sz \<le> length (dec_memory d)
     then (Some (take (unat n * sz) (drop (align_up sz (dec_offset d)) (dec_memory d))),
           dec_at d (align_up sz (dec_offset d) + unat n * sz))
     else (None, markInvalid d))"
proof (cases "dec_isValid d")
  case True
  have a: "is_alignment (of_nat sz :: u64)" and u: "unat (of_nat sz :: u64) = sz"
    using assms(2) by (auto simp: is_alignment_def)
  have "unat (n * of_nat sz) = unat n * sz"
    if "align_up sz (dec_offset d) + unat n * sz \<le> length (dec_memory d)"
    using that assms(1) by (simp add: unat_word_ariths(2) u wf_dec_def)
  then show ?thesis
    using True size_check_valid [OF assms(1) True assms(2), of n]
      decodeFixedLengthData_valid [OF assms(1) True a, of "n * of_nat sz"]
    by (auto simp: checked_data_def dec_fail_invalid_def u)
next
  case False
  then show ?thesis using size_check_invalid [OF assms(1) False assms(2)]
    by (simp add: checked_data_def dec_fail_invalid_def)
qed

lemma checked_data_coder:
  assumes "sz \<in> {1, 2, 4, 8}"
  shows "argument_coder (\<lambda>e bs. encodeFixedLengthData e bs (of_nat sz)) (checked_data sz n)
    (\<lambda>bs. length bs = sz * unat n) (\<lambda>bs. sz + length bs)"
proof
  have a: "is_alignment (of_nat sz :: u64)" and u: "unat (of_nat sz :: u64) = sz"
    using assms by (auto simp: is_alignment_def)
  show "enc_grows e e'" if "wf_enc e" "encodeFixedLengthData e bs (of_nat sz) = Some e'" for e bs e'
    using that raw_grows a by blast
  show "\<exists>e'. encodeFixedLengthData e bs (of_nat sz) = Some e' \<and>
      length (enc_buffer e') \<le> length (enc_buffer e) + (sz + length bs)"
    if "wf_enc e" "\<And>c. enc_alloc e c" "length (enc_buffer e) + (sz + length bs) \<le> 2 ^ 63" for e bs
    using raw_total [of e "of_nat sz" bs] that a u by simp
  show "dec_safe (checked_data sz n)"
    unfolding checked_data_def [abs_def]
    by (rule dec_safeI) (auto split: if_splits
        dest: dec_safeD [OF dec_safe_fail_invalid] dec_safeD [OF dec_safe_data [OF a]])
  fix e bs e' d
  assume e: "wf_enc e" "encodeFixedLengthData e bs (of_nat sz) = Some e'"
    and len: "length bs = sz * unat n" and r: "reads d e e'"
  have d: "wf_dec d" "dec_isValid d" "dec_offset d = length (enc_buffer e)"
    and pre: "prefix (drop (length (enc_buffer e)) (enc_buffer e'))
      (drop (length (enc_buffer e)) (dec_memory d))" using r by (auto simp: reads_def)
  have fits: "length (enc_buffer e') \<le> length (dec_memory d)"
    using reads_length [OF r raw_grows [OF e(1) a e(2)]] .
  have len': "length (enc_buffer e') = align_up sz (length (enc_buffer e)) + length bs"
    using encodeFixedLengthData_SomeD [OF e(1) _ _ e(2)] is_alignment_bounds [OF a]
      length_append_aligned u by auto
  then have "length bs \<le> length (enc_buffer e')" by simp
  also have "\<dots> < 2 ^ 64" using fits d(1) by (auto simp: wf_dec_def)
  finally have "(of_nat (length bs) :: u64) = n * of_nat sz"
    by (simp add: len mult.commute word_unat_eq_iff)
  then have "decodeFixedLengthData (n * of_nat sz) (of_nat sz) d
      = (Some bs, dec_at d (length (enc_buffer e')))"
    using raw_roundtrip(1) [OF e a d pre] by simp
  moreover have "bufferIsLargeEnoughToContain_T (of_nat sz) d n"
    using size_check_valid [OF d(1,2) assms, of n] fits
    by (simp add: d(3) len' len mult.commute)
  ultimately show "checked_data sz n d = (Some bs, dec_at d (length (enc_buffer e')))"
    by (simp add: checked_data_def)
qed

context argument_coder
begin

lemma coder_enc_cong:
  assumes "\<And>e x. ok x \<Longrightarrow> enc' e x = enc e x"
  shows "argument_coder enc' dec ok bound"
  by unfold_locales (use enc_grows enc_total safe roundtrip assms in auto)

end

lemma bytes_words_id:
  assumes "\<And>w :: 'a::len word. unat w < 256 ^ sz" "length ws = n"
  shows "bytes_words sz n (words_bytes sz (ws :: 'a word list)) = ws"
  using bytes_words_words_bytes [of ws sz] assms by simp

lemma words_coder:
  assumes "sz \<in> {1, 2, 4, 8}" "\<And>w :: 'a::len word. unat w < 256 ^ sz"
  shows "argument_coder (\<lambda>e ws. encodeFixedLengthData e (words_bytes sz ws) (of_nat sz))
    (dec_bind (checked_data sz n) (\<lambda>bs. dec_return (bytes_words sz (unat n) bs)))
    (\<lambda>ws :: 'a word list. length ws = unat n) (\<lambda>ws. sz + length (words_bytes sz ws))"
  by (rule argument_coder.coder_map [OF checked_data_coder [OF assms(1)]])
    (simp add: bytes_words_id [OF assms(2)])

lemma decode_u64_None:
  assumes "wf_dec d" "decode_u64 d = (None, d')"
  shows "markInvalid d' = d'"
proof (cases "dec_isValid d")
  case True
  then show ?thesis using assms decode_arith_valid [of d 8]
    by (auto simp: decode_u64_def dec_bind_def dec_return_def split: if_splits)
next
  case False
  then show ?thesis using assms decodeFixedLength_invalid [of d 8 8]
    by (auto simp: decode_u64_def decode_arith_def dec_bind_def markInvalid_id)
qed

lemma Vector_fixed_coder:
  assumes "sz \<in> {1, 2, 4, 8}" "\<And>w :: 'a::len word. unat w < 256 ^ sz"
  shows "argument_coder (encode_Vector_fixed sz) (decode_Vector_fixed sz)
    (\<lambda>ws :: 'a word list. length ws < 2 ^ 64) (\<lambda>ws. 16 + (sz + sz * length ws))"
proof -
  have "argument_coder (\<lambda>e ws. do { e \<leftarrow> encode_u64 e (of_nat (length ws));
        encodeFixedLengthData e (words_bytes sz ws) (of_nat sz) })
      (dec_bind decode_u64 (\<lambda>n. dec_bind (checked_data sz n)
        (\<lambda>bs. dec_return (bytes_words sz (unat n) bs))))
      (\<lambda>ws :: 'a word list. length ws < 2 ^ 64) (\<lambda>ws. 16 + (sz + length (words_bytes sz ws)))"
    by (rule u64.coder_seq [OF words_coder [OF assms]]) (simp add: unat_of_nat_u64)
  then have c: "argument_coder (encode_Vector_fixed sz) (dec_bind decode_u64 (\<lambda>n.
        dec_bind (checked_data sz n) (\<lambda>bs. dec_return (bytes_words sz (unat n) bs))))
      (\<lambda>ws :: 'a word list. length ws < 2 ^ 64) (\<lambda>ws. 16 + (sz + sz * length ws))"
    by (simp add: encode_Vector_fixed_def [abs_def])
  show ?thesis
  proof (rule argument_coder.coder_cong [OF c])
    fix d assume wf: "wf_dec d"
    obtain r d1 where 1: "decode_u64 d = (r, d1)" by fastforce
    show "decode_Vector_fixed sz d = dec_bind decode_u64 (\<lambda>n. dec_bind (checked_data sz n)
        (\<lambda>bs. dec_return (bytes_words sz (unat n) bs))) d"
    proof (cases r)
      case None
      then have "markInvalid d1 = d1" using decode_u64_None [OF wf] 1 by simp
      then show ?thesis using 1 None by (simp add: decode_Vector_fixed_def dec_bind_def)
    next
      case (Some n)
      have wf1: "wf_dec d1" using dec_safeD(1) [OF dec_safe_words(4) wf 1] .
      obtain r2 d2 where 2: "checked_data sz n d1 = (r2, d2)" by fastforce
      have "r2 = None \<Longrightarrow> markInvalid d2 = d2"
        using checked_data_eq [OF wf1 assms(1), of n] 2 by (auto split: if_splits)
      with 1 2 Some show ?thesis
        by (cases r2) (auto simp: decode_Vector_fixed_def dec_bind_def dec_return_def
            checked_data_def dec_fail_invalid_def split: if_splits)
    qed
  qed
qed

definition string_ok :: "WTFString \<Rightarrow> bool" where
  "string_ok s \<longleftrightarrow> (case s of NullString \<Rightarrow> True
     | String8 cs \<Rightarrow> length cs < 2 ^ 32 - 1 | String16 cs \<Rightarrow> length cs < 2 ^ 32 - 1)"

definition string_bound :: "WTFString \<Rightarrow> nat" where
  "string_bound s = (case s of NullString \<Rightarrow> 12
     | String8 cs \<Rightarrow> 12 + length cs | String16 cs \<Rightarrow> 12 + 2 * length cs)"

lemma unat_len32: "n < 2 ^ 32 - 1 \<Longrightarrow> unat (of_nat n :: u32) = n" "n < 2 ^ 32 - 1 \<Longrightarrow> of_nat n \<noteq> (- 1 :: u32)"
proof -
  assume n: "n < 2 ^ 32 - 1"
  then show u: "unat (of_nat n :: u32) = n" by (simp add: unat_of_nat)
  have "unat (- 1 :: u32) = 2 ^ 32 - 1"
    by (simp add: unsigned_minus_1_eq_mask mask_eq_exp_minus_1)
  then show "of_nat n \<noteq> (- 1 :: u32)" using n u by auto
qed

lemma unat_ucast_len [simp]: "unat (ucast (len :: u32) :: u64) = unat len"
  using unsigned_less [of len, where 'a = nat]
  by (simp add: unsigned_ucast_eq take_bit_nat_eq_self)

lemma decodeStringText_eq:
  "decodeStringText sz mk len = dec_bind (checked_data sz (ucast len))
     (\<lambda>bs. dec_return (mk (bytes_words sz (unat len) bs)))"
  by (rule ext) (simp add: decodeStringText_def checked_data_def dec_bind_def dec_fail_invalid_def)

lemma text_coder:
  fixes mk :: "'a::len word list \<Rightarrow> WTFString"
  assumes "sz \<in> {1, 2, 4, 8}" "\<And>w :: 'a::len word. unat w < 256 ^ sz" "\<And>ws. chars (mk ws) = ws"
  shows "argument_coder (\<lambda>e s. encodeFixedLengthData e (words_bytes sz (chars s)) (of_nat sz))
    (decodeStringText sz mk len)
    (\<lambda>s. \<exists>ws. s = mk ws \<and> length ws = unat len) (\<lambda>s. sz + sz * length (chars s))"
proof -
  have "argument_coder (\<lambda>e s. encodeFixedLengthData e (words_bytes sz (chars s)) (of_nat sz))
    (dec_bind (checked_data sz (ucast len)) (\<lambda>bs. dec_return (mk (bytes_words sz (unat len) bs))))
    (\<lambda>s. \<exists>ws. s = mk ws \<and> length ws = unat len)
    (\<lambda>s. sz + length (words_bytes sz (chars s)))"
    by (rule argument_coder.coder_map [OF checked_data_coder [OF assms(1)]])
      (auto simp: bytes_words_id [OF assms(2)] assms(3))
  then show ?thesis by (simp add: decodeStringText_eq)
qed


definition chars8 :: "WTFString \<Rightarrow> u8 list" where
  "chars8 s = (case s of String8 cs \<Rightarrow> cs | _ \<Rightarrow> [])"

definition chars16 :: "WTFString \<Rightarrow> u16 list" where
  "chars16 s = (case s of String16 cs \<Rightarrow> cs | _ \<Rightarrow> [])"

definition string_length :: "WTFString \<Rightarrow> u32" where
  "string_length s = (case s of NullString \<Rightarrow> - 1 | String8 cs \<Rightarrow> of_nat (length cs)
     | String16 cs \<Rightarrow> of_nat (length cs))"

definition string_is8 :: "WTFString \<Rightarrow> bool" where
  "string_is8 s \<longleftrightarrow> (case s of String16 _ \<Rightarrow> False | _ \<Rightarrow> True)"

lemma text8: "argument_coder (\<lambda>e s. encodeFixedLengthData e (words_bytes 1 (chars8 s)) 1)
    (decodeStringText 1 String8 len) (\<lambda>s. \<exists>ws. s = String8 ws \<and> length ws = unat len)
    (\<lambda>s. 1 + 1 * length (chars8 s))"
  using text_coder [of 1 chars8 String8 len] word_bound(1)
  by (simp only: of_nat_1 chars8_def WTFString.case insertI1)

lemma text16: "argument_coder (\<lambda>e s. encodeFixedLengthData e (words_bytes 2 (chars16 s)) 2)
    (decodeStringText 2 String16 len) (\<lambda>s. \<exists>ws. s = String16 ws \<and> length ws = unat len)
    (\<lambda>s. 2 + 2 * length (chars16 s))"
  using text_coder [of 2 chars16 String16 len] word_bound(2)
  by (simp only: of_nat_numeral chars16_def WTFString.case insert_iff simp_thms)

text \<open>The part of a string behind its length: the width, then the characters.\<close>

lemma string_body_coder:
  "argument_coder
     (\<lambda>e s. do { e \<leftarrow> encode_bool e (string_is8 s);
        if string_is8 s then encodeFixedLengthData e (words_bytes 1 (chars8 s)) 1
        else encodeFixedLengthData e (words_bytes 2 (chars16 s)) 2 })
     (dec_bind decode_bool (\<lambda>is8Bit.
        if is8Bit then decodeStringText 1 String8 len else decodeStringText 2 String16 len))
     (\<lambda>s. s \<noteq> NullString \<and> string_ok s \<and> string_length s = len)
     (\<lambda>s. 2 + (2 + length (chars8 s) + 2 * length (chars16 s)))"
proof (rule bool.coder_seq)
  let ?ok = "\<lambda>b s. s \<noteq> NullString \<and> string_ok s \<and> string_length s = len \<and> string_is8 s = b"
  show "argument_coder (\<lambda>e s. if b then encodeFixedLengthData e (words_bytes 1 (chars8 s)) 1
      else encodeFixedLengthData e (words_bytes 2 (chars16 s)) 2)
    (if b then decodeStringText 1 String8 len else decodeStringText 2 String16 len) (?ok b)
    (\<lambda>s. 2 + length (chars8 s) + 2 * length (chars16 s))" for b
  proof (cases b)
    case True
    have "argument_coder (\<lambda>e s. encodeFixedLengthData e (words_bytes 1 (chars8 s)) 1)
      (decodeStringText 1 String8 len) (?ok True) (\<lambda>s. 2 + length (chars8 s) + 2 * length (chars16 s))"
      by (rule argument_coder.coder_weaken [OF text8])
        (auto simp: chars8_def chars16_def string_ok_def string_length_def string_is8_def
           unat_len32 split: WTFString.splits)
    then show ?thesis using True by simp
  next
    case False
    have "argument_coder (\<lambda>e s. encodeFixedLengthData e (words_bytes 2 (chars16 s)) 2)
      (decodeStringText 2 String16 len) (?ok False) (\<lambda>s. 2 + length (chars8 s) + 2 * length (chars16 s))"
      by (rule argument_coder.coder_weaken [OF text16])
        (auto simp: chars8_def chars16_def string_ok_def string_length_def string_is8_def
           unat_len32 split: WTFString.splits)
    then show ?thesis using False by simp
  qed
qed auto

interpretation String: argument_coder encode_String decode_String string_ok string_bound
proof -
  let ?eb = "\<lambda>len e s. if len = - 1 then Some e
    else do { e \<leftarrow> encode_bool e (string_is8 s);
        if string_is8 s then encodeFixedLengthData e (words_bytes 1 (chars8 s)) 1
        else encodeFixedLengthData e (words_bytes 2 (chars16 s)) 2 }"
  let ?db = "\<lambda>len. if len = - 1 then dec_return NullString else dec_bind decode_bool (\<lambda>is8Bit.
        if is8Bit then decodeStringText 1 String8 len else decodeStringText 2 String16 len)"
  let ?bb = "\<lambda>s. 4 + length (chars8 s) + 2 * length (chars16 s)"
  have second: "argument_coder (?eb len) (?db len)
      (\<lambda>s. string_ok s \<and> string_length s = len) ?bb" for len
  proof (cases "len = - 1")
    case True
    have "argument_coder (\<lambda>e s. Some e) (dec_return NullString)
        (\<lambda>s. string_ok s \<and> string_length s = - 1) ?bb"
      by (rule argument_coder.coder_weaken [OF argument_coder_skip])
        (auto simp: string_ok_def string_length_def unat_len32 split: WTFString.splits)
    then show ?thesis using True by simp
  next
    case False
    show ?thesis
      using False by (simp, intro argument_coder.coder_weaken [OF string_body_coder])
        (auto simp: string_length_def split: WTFString.splits)
  qed
  have "argument_coder (\<lambda>e s. do { e \<leftarrow> encode_u32 e (string_length s); ?eb (string_length s) e s })
      (dec_bind decode_u32 ?db) string_ok (\<lambda>s. 8 + ?bb s)"
    by (rule u32.coder_seq [OF second]) auto
  then have "argument_coder encode_String (dec_bind decode_u32 ?db) string_ok (\<lambda>s. 8 + ?bb s)"
    by (rule argument_coder.coder_enc_cong)
      (auto simp: encode_String_def string_length_def string_is8_def chars8_def chars16_def
        string_ok_def unat_len32 Let_def split: WTFString.splits)
  then show "argument_coder encode_String decode_String string_ok string_bound"
    by (simp add: decode_String_def, elim argument_coder.coder_weaken)
      (auto simp: string_bound_def chars8_def chars16_def split: WTFString.splits)
qed

subsection \<open>C strings, data references, option sets and digests\<close>

definition cstring_ok :: "WTFCString \<Rightarrow> bool" where
  "cstring_ok s \<longleftrightarrow> (case s of NullCString \<Rightarrow> True | CStr bs \<Rightarrow> length bs < 2 ^ 32 - 1)"

definition cstring_bytes :: "WTFCString \<Rightarrow> bytes" where
  "cstring_bytes s = (case s of NullCString \<Rightarrow> [] | CStr bs \<Rightarrow> bs)"

definition cstring_length :: "WTFCString \<Rightarrow> u32" where
  "cstring_length s = (case s of NullCString \<Rightarrow> - 1 | CStr bs \<Rightarrow> of_nat (length bs))"

interpretation CString: argument_coder encode_CString decode_CString cstring_ok
  "\<lambda>s. 8 + (1 + length (cstring_bytes s))"
proof -
  let ?eb = "\<lambda>len e s. if len = - 1 then Some e else encodeFixedLengthData e (cstring_bytes s) 1"
  let ?db = "\<lambda>len. if len = - 1 then dec_return NullCString
    else dec_bind (checked_data 1 (ucast len)) (\<lambda>bs. dec_return (CStr bs))"
  let ?bb = "\<lambda>s. 1 + length (cstring_bytes s)"
  have second: "argument_coder (?eb len) (?db len)
      (\<lambda>s. cstring_ok s \<and> cstring_length s = len) ?bb" for len
  proof (cases "len = - 1")
    case True
    have "argument_coder (\<lambda>e s. Some e) (dec_return NullCString)
        (\<lambda>s. cstring_ok s \<and> cstring_length s = - 1) ?bb"
      by (rule argument_coder.coder_weaken [OF argument_coder_skip])
        (auto simp: cstring_ok_def cstring_length_def unat_len32 split: WTFCString.splits)
    then show ?thesis using True by simp
  next
    case False
    have "argument_coder (\<lambda>e s. encodeFixedLengthData e (cstring_bytes s) (of_nat 1))
        (dec_bind (checked_data 1 (ucast len)) (\<lambda>bs. dec_return (CStr bs)))
        (\<lambda>s. cstring_ok s \<and> cstring_length s = len) ?bb"
      by (rule argument_coder.coder_map [OF checked_data_coder])
        (use False in \<open>auto simp: cstring_bytes_def cstring_ok_def cstring_length_def unat_len32
          split: WTFCString.splits\<close>)
    then show ?thesis using False by simp
  qed
  have "argument_coder (\<lambda>e s. do { e \<leftarrow> encode_u32 e (cstring_length s);
        ?eb (cstring_length s) e s }) (dec_bind decode_u32 ?db) cstring_ok (\<lambda>s. 8 + ?bb s)"
    by (rule u32.coder_seq [OF second]) auto
  then have "argument_coder encode_CString (dec_bind decode_u32 ?db) cstring_ok (\<lambda>s. 8 + ?bb s)"
    by (rule argument_coder.coder_enc_cong)
      (auto simp: encode_CString_def cstring_length_def cstring_bytes_def
        cstring_ok_def unat_len32 Let_def split: WTFCString.splits)
  moreover have "dec_bind decode_u32 ?db = decode_CString"
    unfolding decode_CString_def
    by (rule arg_cong [where f = "dec_bind decode_u32"], rule ext)
      (auto simp: checked_data_def dec_bind_def dec_fail_invalid_def)
  ultimately show "argument_coder encode_CString decode_CString cstring_ok (\<lambda>s. 8 + ?bb s)"
    by simp
qed

lemma reference_data:
  "dec_bind (decodeFixedLengthReference n a) (\<lambda>p d. (Some (mem_read d p (unat n)), d))
     = decodeFixedLengthData n a"
  by (rule ext) (auto simp: dec_bind_def decodeFixedLengthReference_def decodeFixedLengthData_def
      mem_read_def Let_def split: prod.split bool.split)

lemma decode_DataReference_eq:
  "decode_DataReference =
     dec_bind decode_u64 (\<lambda>n. if n = 0 then dec_return [] else decodeFixedLengthData n 1)"
proof
  fix d
  show "decode_DataReference d =
     dec_bind decode_u64 (\<lambda>n. if n = 0 then dec_return [] else decodeFixedLengthData n 1) d"
    unfolding reference_data [symmetric]
    by (auto simp: decode_DataReference_def decode_ArrayReference_def dec_bind_def dec_return_def
        mem_read_def split: prod.split option.split)
qed

interpretation DataReference: argument_coder encode_DataReference decode_DataReference
  "\<lambda>data. length data < 2 ^ 64" "\<lambda>data. 16 + (1 + length data)"
proof -
  let ?eb = "\<lambda>(n :: u64) e data. if n = 0 then Some e else encodeFixedLengthData e (take (unat n) data) 1"
  let ?db = "\<lambda>n. if n = 0 then dec_return [] else decodeFixedLengthData n 1"
  have second: "argument_coder (?eb n) (?db n) (\<lambda>data. length data = unat n) (\<lambda>data. 1 + length data)"
    for n
  proof (cases "n = 0")
    case True
    then show ?thesis
      using argument_coder.coder_weaken [OF argument_coder_skip [of "[]"],
          of "\<lambda>data. length data = unat n" "\<lambda>data. 1 + length data"] by simp
  next
    case False
    have "argument_coder (\<lambda>e data. encodeFixedLengthData e (take (unat n) data) 1)
        (decodeFixedLengthData n 1) (\<lambda>data. length data = unat n) (\<lambda>data. unat (1 :: u64) + length data)"
      by (rule argument_coder.coder_enc_cong [OF raw_coder]) auto
    then show ?thesis using False by simp
  qed
  have "argument_coder (\<lambda>e data. do { e \<leftarrow> encode_u64 e (of_nat (length data));
        ?eb (of_nat (length data)) e data }) (dec_bind decode_u64 ?db)
      (\<lambda>data. length data < 2 ^ 64) (\<lambda>data. 16 + (1 + length data))"
    by (rule u64.coder_seq [OF second]) (simp add: unat_of_nat_u64)
  then show "argument_coder encode_DataReference decode_DataReference
      (\<lambda>data. length data < 2 ^ 64) (\<lambda>data. 16 + (1 + length data))"
    by (simp add: decode_DataReference_eq encode_DataReference_def [abs_def]
        encode_ArrayReference_def cong: if_cong)
qed

lemma OptionSet_coder:
  "argument_coder encode_OptionSet (decode_OptionSet vm) (isValidOptionSet vm) (\<lambda>_. 8)"
proof -
  have "argument_coder (\<lambda>e x. do { e \<leftarrow> encode_u32 e x; Some e })
      (dec_bind decode_u32 (\<lambda>value. if \<not> isValidOptionSet vm value then dec_fail
        else dec_return value)) (isValidOptionSet vm) (\<lambda>x. 8 + 0)"
  proof (rule u32.coder_seq)
    show "argument_coder (\<lambda>e x. Some e)
       (if \<not> isValidOptionSet vm a then dec_fail else dec_return a)
       (\<lambda>x. isValidOptionSet vm x \<and> x = a) (\<lambda>_. 0)" for a
    proof (cases "isValidOptionSet vm a")
      case True
      then show ?thesis
        using argument_coder.coder_weaken [OF argument_coder_skip [of a],
            of "\<lambda>x. isValidOptionSet vm x \<and> x = a" "\<lambda>_. 0"] by simp
    next
      case False
      then show ?thesis by unfold_locales (auto simp: dec_safe_fail)
    qed
  qed auto
  then show ?thesis
    by (simp add: encode_OptionSet_def [abs_def] decode_OptionSet_eq decode_OptionSet_legacy_def)
qed

interpretation SHA1Digest: argument_coder encode_SHA1Digest decode_SHA1Digest
  "\<lambda>digest. length digest = 20" "\<lambda>digest. 1 + length digest"
  using raw_coder [of 1 20] by (simp add: encode_SHA1Digest_def [abs_def] decode_SHA1Digest_def)

interpretation Monostate: argument_coder encode_Monostate decode_Monostate "\<lambda>_. True" "\<lambda>_. 0"
  using argument_coder_skip [of "()"] by (simp add: encode_Monostate_def [abs_def] decode_Monostate_def)

lemma dec_bind_assoc: "dec_bind (dec_bind m f) g = dec_bind m (\<lambda>x. dec_bind (f x) g)"
  by (rule ext) (simp add: dec_bind_def split: prod.split option.split)

lemma dec_bind_left: "dec_bind (dec_return x) f = f x"
  by (rule ext) (simp add: dec_bind_def dec_return_def)

lemma words32_eqs:
  "encode_words32 e vs = encode_elements encode_u32 e vs"
  "checked_loop decode_u32 (\<lambda>_ _. True) n acc = dec_bind (decode_words32 n) (\<lambda>vs. dec_return (acc @ vs))"
proof -
  show "encode_words32 e vs = encode_elements encode_u32 e vs"
    by (induction vs arbitrary: e) simp_all
  show "checked_loop decode_u32 (\<lambda>_ _. True) n acc
      = dec_bind (decode_words32 n) (\<lambda>vs. dec_return (acc @ vs))"
    by (induction n arbitrary: acc) (simp_all add: dec_bind_assoc dec_bind_left)
qed

interpretation auditToken: argument_coder encode_auditToken decode_auditToken
  "\<lambda>val. length val = 8" "\<lambda>val. sum_list (map (\<lambda>_. 8) val)"
  using argument_coder.coder_weaken [OF u32.loop_coder [of "\<lambda>_ _. True" 8],
      of "\<lambda>val. length val = 8" "\<lambda>val. sum_list (map (\<lambda>_. 8) val)"]
  by (simp add: encode_auditToken_def [abs_def] decode_auditToken_def words32_eqs chk_all_True)

subsection \<open>Variants\<close>

text \<open>Which alternative the downward search picks: any index beyond the last becomes 0.\<close>

definition variant_pick :: "nat \<Rightarrow> u32 \<Rightarrow> nat" where
  "variant_pick index i = (if unat i \<le> index then unat i else 0)"

lemma VariantCoder_pick:
  assumes "index < 2 ^ 32"
  shows "VariantCoder_encode encs index e v i = (encs ! variant_pick index i) e v"
    and "VariantCoder_decode decs index i =
      dec_bind (decs ! variant_pick index i) (\<lambda>v. dec_return (variant_pick index i, v))"
proof -
  have "VariantCoder_encode encs index e v i = (encs ! variant_pick index i) e v \<and>
    VariantCoder_decode decs index i =
      dec_bind (decs ! variant_pick index i) (\<lambda>v. dec_return (variant_pick index i, v))"
    using assms
  proof (induction index)
    case 0
    then show ?case by (simp add: variant_pick_def)
  next
    case (Suc k)
    have u: "unat (of_nat (Suc k) :: u32) = Suc k" using Suc.prems by (simp add: unat_of_nat del: of_nat_Suc)
    then have eq: "i = of_nat (Suc k) \<longleftrightarrow> unat i = Suc k" by (metis word_unat_eq_iff)
    show ?case
    proof (cases "unat i = Suc k")
      case True
      then show ?thesis using eq by (simp add: variant_pick_def u del: of_nat_Suc)
    next
      case False
      then have "variant_pick (Suc k) i = variant_pick k i" by (simp add: variant_pick_def)
      then show ?thesis using Suc False eq by (simp del: of_nat_Suc)
    qed
  qed
  then show "VariantCoder_encode encs index e v i = (encs ! variant_pick index i) e v"
    "VariantCoder_decode decs index i =
      dec_bind (decs ! variant_pick index i) (\<lambda>v. dec_return (variant_pick index i, v))" by auto
qed

locale variant_coders =
  fixes encs :: "(encoder \<Rightarrow> 'u \<Rightarrow> encoder option) list" and decs :: "'u decode list"
    and ok :: "nat \<Rightarrow> 'u \<Rightarrow> bool" and bound :: "nat \<Rightarrow> 'u \<Rightarrow> nat"
  assumes lengths: "length decs = length encs" "0 < length encs" "length encs \<le> 2 ^ 32"
    and alternative: "i < length encs \<Longrightarrow> argument_coder (encs ! i) (decs ! i) (ok i) (bound i)"
begin

lemma Variant_coder:
  "argument_coder (encode_Variant encs) (decode_Variant decs)
     (\<lambda>v. fst v < length encs \<and> ok (fst v) (snd v)) (\<lambda>v. 8 + bound (fst v) (snd v))"
proof -
  let ?n = "length encs - 1"
  have n: "?n < 2 ^ 32" "?n < length encs" using lengths by auto
  have second: "argument_coder (\<lambda>e v. VariantCoder_encode encs ?n e (snd v) i)
      (VariantCoder_decode decs (length decs - 1) i)
      (\<lambda>v. fst v = unat i \<and> fst v \<le> ?n \<and> ok (fst v) (snd v)) (\<lambda>v. bound (fst v) (snd v))" for i
  proof -
    let ?j = "variant_pick ?n i"
    have j: "?j < length encs" using n(2) by (auto simp: variant_pick_def)
    have "argument_coder (\<lambda>e v. (encs ! ?j) e (snd v))
        (dec_bind (decs ! ?j) (\<lambda>v. dec_return (?j, v)))
        (\<lambda>v. fst v = ?j \<and> ok ?j (snd v)) (\<lambda>v. bound ?j (snd v))"
      by (rule argument_coder.coder_map [OF alternative [OF j]]) auto
    then show ?thesis
      unfolding lengths(1) VariantCoder_pick [OF n(1)]
      by (rule argument_coder.coder_weaken) (auto simp: variant_pick_def)
  qed
  have "argument_coder (\<lambda>e v. do { e \<leftarrow> encode_u32 e (of_nat (fst v));
        VariantCoder_encode encs ?n e (snd v) (of_nat (fst v)) })
      (dec_bind decode_u32 (\<lambda>i. VariantCoder_decode decs (length decs - 1) i))
      (\<lambda>v. fst v < length encs \<and> ok (fst v) (snd v)) (\<lambda>v. 8 + bound (fst v) (snd v))"
    by (rule u32.coder_seq [OF second]) (use lengths in \<open>auto simp: unat_of_nat\<close>)
  then show ?thesis
    by (simp add: encode_Variant_def [abs_def] decode_Variant_def Let_def)
qed

end

text \<open>\<^verbatim>\<open>Variant<uint32_t, String>\<close>.\<close>

definition variant_encs :: "(encoder \<Rightarrow> u32 + WTFString \<Rightarrow> encoder option) list" where
  "variant_encs = [\<lambda>e v. encode_u32 e (projl v), \<lambda>e v. encode_String e (projr v)]"

definition variant_decs :: "(u32 + WTFString) decode list" where
  "variant_decs = [dec_bind decode_u32 (\<lambda>v. dec_return (Inl v)),
     dec_bind decode_String (\<lambda>v. dec_return (Inr v))]"

interpretation number_or_string: variant_coders variant_encs variant_decs
  "\<lambda>i v. if i = 0 then isl v else \<not> isl v \<and> string_ok (projr v)"
  "\<lambda>i v. if i = 0 then 8 else string_bound (projr v)"
proof (rule variant_coders.intro)
  fix i assume "i < length variant_encs"
  then have i: "i = 0 \<or> i = 1" by (auto simp: variant_encs_def)
  have "argument_coder (\<lambda>e v. encode_u32 e (projl v)) (dec_bind decode_u32 (\<lambda>v. dec_return (Inl v)))
      isl (\<lambda>v :: u32 + WTFString. 8)"
    by (rule u32.coder_map) auto
  moreover have "argument_coder (\<lambda>e v. encode_String e (projr v))
      (dec_bind decode_String (\<lambda>v. dec_return (Inr v)))
      (\<lambda>v :: u32 + WTFString. \<not> isl v \<and> string_ok (projr v)) (\<lambda>v. string_bound (projr v))"
    by (rule String.coder_map) auto
  ultimately show "argument_coder (variant_encs ! i) (variant_decs ! i)
      (\<lambda>v. if i = 0 then isl v else \<not> isl v \<and> string_ok (projr v))
      (\<lambda>v. if i = 0 then 8 else string_bound (projr v))"
    using i by (auto simp: variant_encs_def variant_decs_def)
qed (simp_all add: variant_encs_def variant_decs_def)

subsection \<open>Interpretations on compound types\<close>

interpretation optional_string: argument_coder "encode_Optional encode_String"
  "decode_Optional decode_String" "option_ok string_ok" "option_bound string_bound"
  by (rule String.Optional_coder)

interpretation string_vector: argument_coder "encode_Vector encode_String"
  "decode_Vector decode_String" "list_ok string_ok" "list_bound string_bound"
  by (rule String.Vector_coder)

interpretation string_number: two_coders encode_String decode_String string_ok string_bound
  encode_u64 decode_u64 "\<lambda>_. True" "\<lambda>_. 16"
  by unfold_locales

interpretation string_number_map: argument_coder "encode_HashMap encode_String encode_u64"
  "decode_HashMap (\<lambda>s. s \<noteq> NullString) decode_String decode_u64"
  "map_ok (\<lambda>s. s \<noteq> NullString) string_ok (\<lambda>_. True) (2 ^ 32)"
  "\<lambda>m. 8 + sum_list (map (\<lambda>p. string_bound (fst p) + 16) m)"
  by (rule string_number.HashMap_coder)

end
