(* ===== verification/IPC_Messages.thy ===== *)
theory IPC_Messages
  imports IPC_Coder_Laws
begin

text \<open>
  What the encoder, the decoder and the coders give together: whole messages arrive as they
  were sent, the decoders are safe on hostile messages, and where they are not.
\<close>

subsection \<open>Whole messages\<close>

text \<open>A message: header, arguments, and the dispatch mode, which the sender sets last.\<close>

lemma length_setShouldDispatch:
  "length (enc_buffer (setShouldDispatchMessageWhenWaitingForSyncReply e mode)) = length (enc_buffer e)"
  by (cases mode) (simp_all add: setShouldDispatchMessageWhenWaitingForSyncReply_def
      update_messageFlags_def split: list.split)

lemma enc_grows_header:
  assumes "enc_grows e e'" "enc_buffer e = b # bs"
  shows "\<exists>bs'. enc_buffer e' = b # bs'"
  using assms by (auto simp: enc_grows_def elim!: prefixE)

lemma header_reads:
  fixes mode :: ShouldDispatchWhenWaitingForSyncReply
  assumes e: "enc_grows e e'" "enc_buffer e = b # bs" "length (enc_buffer e) = 16"
    and a: "a \<noteq> 0" "8 dvd unat a" "unat a + length (enc_buffer e') < 2 ^ 64"
  defines "mem \<equiv> enc_buffer (setShouldDispatchMessageWhenWaitingForSyncReply e' mode)"
  shows "length mem = length (enc_buffer e')" and "reads (header_decoder a mem atts) e e'"
proof -
  from enc_grows_header [OF e(1,2)] obtain bs' where bs': "enc_buffer e' = b # bs'" by blast
  from setShouldDispatch_Cons [OF bs', of mode] obtain b' where mem: "mem = b' # bs'"
    by (auto simp: mem_def)
  then show len: "length mem = length (enc_buffer e')" using bs' by simp
  have "16 \<le> length mem" using e prefix_length_le by (fastforce simp: len enc_grows_def)
  then have "wf_dec (header_decoder a mem atts) \<and> dec_isValid (header_decoder a mem atts) \<and>
      dec_offset (header_decoder a mem atts) = 16"
    using a by (intro wf_header_decoder) (simp_all add: len)
  moreover have "drop 16 mem = drop 16 (enc_buffer e')" by (simp add: mem bs')
  ultimately show "reads (header_decoder a mem atts) e e'"
    using e(3) by (simp add: reads_def) (simp add: header_decoder_def)
qed

lemma header_accepted:
  assumes e: "Encoder al name dest = Some e" "enc_grows e e'"
    and m: "malloc_ok tryFastMalloc" "tryFastMalloc (length (enc_buffer e')) = Some a"
    and "buffer \<noteq> 0" "isValidName name"
  defines "mem \<equiv> \<lambda>mode. enc_buffer (setShouldDispatchMessageWhenWaitingForSyncReply e' mode)"
  shows "Decoder_create isValidName tryFastMalloc buffer (mem mode) False atts
      = Some (header_decoder a (mem mode) atts)"
    and "dec_messageName (header_decoder a (mem mode) atts) = name"
    and "dec_destinationID (header_decoder a (mem mode) atts) = dest"
    and "dec_shouldDispatchMessageWhenWaitingForSyncReply (header_decoder a (mem mode) atts) = mode"
    and "reads (header_decoder a (mem mode) atts) e e'"
proof -
  have buf: "enc_buffer e = [0, 0] @ le_bytes 2 (unat name) @ [0, 0, 0, 0] @ le_bytes 8 (unat dest)"
    using Encoder_buffer [of al name dest] e(1) by auto
  with e(2) obtain body where body: "enc_buffer e' = 0 # 0 # le_bytes 2 (unat name) @ [0, 0, 0, 0] @
      le_bytes 8 (unat dest) @ body"
    by (auto simp: enc_grows_def elim!: prefixE)
  obtain b where b: "mem mode = b # 0 # le_bytes 2 (unat name) @ [0, 0, 0, 0] @
        le_bytes 8 (unat dest) @ body"
      "bit b 0 \<longleftrightarrow> mode = SD_Yes" "bit b 1 \<longleftrightarrow> mode = SD_YesDuringUnboundedIPC"
      "\<forall>n\<ge>2. \<not> bit b n"
    using setShouldDispatch_Cons [OF body, of mode] by (auto simp: mem_def)
  have len: "length (mem mode) = length (enc_buffer e')" by (simp add: b(1) body)
  have ge: "16 \<le> length (mem mode)" by (simp add: b(1))
  have a: "a \<noteq> 0" "8 dvd unat a" "unat a + length (mem mode) < 2 ^ 64"
    unfolding len using m by (auto simp: malloc_ok_def)
  have h: "header_name (mem mode) = name" "header_destination (mem mode) = dest" "mem mode ! 0 = b"
    by (simp_all add: header_name_def header_destination_def b(1) le_word_roundtrip)
  have "isValidMessageFlags b" using b(4) by (simp add: isValidMessageFlags_bits)
  then show "Decoder_create isValidName tryFastMalloc buffer (mem mode) False atts
      = Some (header_decoder a (mem mode) atts)"
    using Decoder_ctor_cases [OF a(1,3), of isValidName atts] a(2) assms(4-6) ge
    by (simp add: Decoder_create_def Let_def header_decoder_def h len)
  show "dec_shouldDispatchMessageWhenWaitingForSyncReply (header_decoder a (mem mode) atts) = mode"
    using b by (cases mode) (simp_all add: dec_shouldDispatchMessageWhenWaitingForSyncReply_def
        header_decoder_def h flags_contains_bit del: bit_0 One_nat_def)
  show "dec_messageName (header_decoder a (mem mode) atts) = name"
    "dec_destinationID (header_decoder a (mem mode) atts) = dest"
    by (simp_all add: header_decoder_def h)
  show "reads (header_decoder a (mem mode) atts) e e'"
    unfolding mem_def by (rule header_reads(2) [OF e(2)]) (use buf a len in \<open>auto simp: mem_def\<close>)
qed

subsection \<open>Properties\<close>

text \<open>
  Claim C1. The end-to-end correctness of message passing, for arguments of any type whose
  coder keeps the coder contract: a message constructed for a destination, with the arguments
  encoded behind the header and the dispatch mode set, is always built when memory is granted;
  the receiver accepts it, finds the same name, destination and mode, decodes exactly the
  arguments that were sent and has then read the message to its end.
\<close>

theorem message_roundtrip:
  assumes "argument_coder enc dec ok bound" and "ok x" and "16 + bound x \<le> 2 ^ 63"
    and "malloc_ok tryFastMalloc" and "\<And>n. n \<le> 16 + bound x \<Longrightarrow> tryFastMalloc n \<noteq> None"
    and "buffer \<noteq> 0" and "isValidName name"
  shows "\<exists>e0 e d d'. Encoder (\<lambda>_. True) name dest = Some e0 \<and> enc e0 x = Some e \<and>
    Decoder_create isValidName tryFastMalloc buffer
      (enc_buffer (setShouldDispatchMessageWhenWaitingForSyncReply e mode)) False atts = Some d \<and>
    dec_messageName d = name \<and> dec_destinationID d = dest \<and>
    dec_shouldDispatchMessageWhenWaitingForSyncReply d = mode \<and>
    dec d = (Some x, d') \<and> dec_isValid d' \<and> dec_offset d' = length (dec_memory d')"
proof -
  obtain e0 where e0: "Encoder (\<lambda>_. True) name dest = Some e0" "wf_enc e0"
    "length (enc_buffer e0) = 16" "\<And>c. enc_alloc e0 c"
    using Encoder_buffer [of "\<lambda>_. True" name dest] by auto
  then obtain e where e: "enc e0 x = Some e" "length (enc_buffer e) \<le> 16 + bound x"
    using argument_coder.enc_total [OF assms(1) e0(2) assms(2)] assms(3) by auto
  have grows: "enc_grows e0 e"
    by (rule argument_coder.enc_grows [OF assms(1) e0(2) assms(2) e(1)])
  from assms(5) [OF e(2)] obtain a where a: "tryFastMalloc (length (enc_buffer e)) = Some a" by auto
  let ?d = "header_decoder a (enc_buffer (setShouldDispatchMessageWhenWaitingForSyncReply e mode)) atts"
  note acc = header_accepted [OF e0(1) grows assms(4) a assms(6), of isValidName mode atts,
      OF assms(7)]
  have run: "dec ?d = (Some x, dec_at ?d (length (enc_buffer e)))"
    by (rule argument_coder.roundtrip [OF assms(1) e0(2) assms(2) e(1) acc(5)])
  have "length (enc_buffer e) = length (dec_memory ?d)"
    by (simp add: header_decoder_def length_setShouldDispatch)
  moreover have "wf_dec ?d" using acc(5) by (simp add: reads_def)
  ultimately have "dec_isValid (dec_at ?d (length (enc_buffer e)))"
    "dec_offset (dec_at ?d (length (enc_buffer e)))
      = length (dec_memory (dec_at ?d (length (enc_buffer e))))"
    using dec_at_valid [of ?d "length (enc_buffer e)"] by auto
  with e0(1) e(1) acc(1-4) run show ?thesis by blast
qed

theorem message_roundtrip_witness:
  "\<exists>e0 e d d'. Encoder (\<lambda>_. True) 5 7 = Some e0 \<and>
    encode_HashMap encode_String encode_u64 e0 [(String8 [104, 105], 3), (String16 [955], 4)] = Some e \<and>
    Decoder_create (\<lambda>n. n < 10) (\<lambda>n. if n < 2 ^ 20 then Some 4096 else None) 8193
      (enc_buffer (setShouldDispatchMessageWhenWaitingForSyncReply e SD_Yes)) False [] = Some d \<and>
    decode_HashMap (\<lambda>s. s \<noteq> NullString) decode_String decode_u64 d
      = (Some [(String8 [104, 105], 3), (String16 [955], 4)], d')"
proof -
  have m: "malloc_ok (\<lambda>n::nat. if n < 2 ^ 20 then Some (4096 :: u64) else None)"
    by (simp add: malloc_ok_def)
  have ok: "map_ok (\<lambda>s. s \<noteq> NullString) string_ok (\<lambda>_. True) (2 ^ 32)
      [(String8 [104, 105], 3 :: u64), (String16 [955], 4)]"
    by (simp add: map_ok_def string_ok_def)
  have bd: "(\<lambda>m :: (WTFString \<times> u64) list. 8 + sum_list (map (\<lambda>p. string_bound (fst p) + 16) m))
      [(String8 [104, 105], 3), (String16 [955], 4)] = 68"
    by (simp add: string_bound_def)
  show ?thesis
    using message_roundtrip [OF string_number_map.argument_coder_axioms ok _ m,
        of 8193 "\<lambda>n. n < 10" 5 7 SD_Yes "[]", unfolded bd] by fastforce
qed

text \<open>
  Where a coder has both a legacy and a modern decoder, the two behave the same on
  every decoder, malformed messages included: the same value or failure and the same decoder
  afterwards.
\<close>

theorem modern_legacy_agree:
  "decode_Optional da = decode_Optional_legacy da \<and>
   decode_Box da = decode_Box_legacy da \<and>
   decode_pair da db = decode_pair_legacy da db \<and>
   decode_OptionSet vm = decode_OptionSet_legacy vm \<and>
   decode_WallTime = decode_WallTime_legacy \<and>
   decode_Vector dc = decode_Vector_legacy dc \<and>
   (decode_Vector_fixed sz :: 'w::len word list decode) = decode_Vector_fixed_legacy sz \<and>
   decode_String = decode_String_legacy"
  by (simp only: modern_eqs legacy_eqs simp_thms)

lemma checked_loop_Some:
  "checked_loop da chk n acc d = (Some r, d') \<Longrightarrow>
     \<exists>xs. r = acc @ xs \<and> length xs = n \<and> chk_all chk acc xs"
proof (induction n arbitrary: acc d)
  case 0
  then show ?case by (simp add: dec_return_def)
next
  case (Suc n)
  then obtain x d1 where x: "chk acc x" "checked_loop da chk n (acc @ [x]) d1 = (Some r, d')"
    by (auto simp: dec_bind_def dec_fail_invalid_def split: prod.splits option.splits if_splits)
  from Suc.IH [OF x(2)] obtain xs where "r = (acc @ [x]) @ xs" "length xs = n"
    "chk_all chk (acc @ [x]) xs" by blast
  with x(1) show ?case by (intro exI [of _ "x # xs"]) simp
qed

text \<open>
  Claim C24. Hash tables decoded from an arbitrary message are well formed: no key of a hash map
  and no element of a hash set occurs twice, and none is one of the reserved keys that mark
  empty and deleted buckets.
\<close>

theorem decoded_tables_well_formed:
  "(\<forall>d m d'. decode_HashMap isValidKey dk dv d = (Some m, d') \<longrightarrow>
      distinct (map fst m) \<and> (\<forall>x\<in>set m. isValidKey (fst x))) \<and>
   (\<forall>d s d'. decode_HashSet isValidKey dk d = (Some s, d') \<longrightarrow>
      distinct s \<and> (\<forall>k\<in>set s. isValidKey k)) \<and>
   (\<forall>d c d'. decode_HashCountedSet isValidKey dk d = (Some c, d') \<longrightarrow>
      distinct (map fst c) \<and> (\<forall>x\<in>set c. isValidKey (fst x)))"
proof (intro conjI allI impI)
  have all: "chk_all (\<lambda>acc k. isValidKey k \<and> k \<notin> set acc) [] s \<Longrightarrow>
      distinct s \<and> (\<forall>k\<in>set s. isValidKey k)" for s
    using chk_all_distinct [of isValidKey "\<lambda>x. x" "[]" s] by simp
  note split = prod.splits option.splits
  fix d d'
  {
    fix m assume "decode_HashMap isValidKey dk dv d = (Some m, d')"
    then have "chk_all (\<lambda>acc x. isValidKey (fst x) \<and> fst x \<notin> fst ` set acc) [] m"
      by (auto simp: decode_HashMap_def dec_bind_def loop_eqs split: split dest!: checked_loop_Some)
    then show "distinct (map fst m)" "\<forall>x\<in>set m. isValidKey (fst x)"
      by (simp_all add: chk_all_distinct)
  next
    fix s assume "decode_HashSet isValidKey dk d = (Some s, d')"
    then have "chk_all (\<lambda>acc k. isValidKey k \<and> k \<notin> set acc) [] s"
      by (auto simp: decode_HashSet_def dec_bind_def loop_eqs split: split dest!: checked_loop_Some)
    then show "distinct s" "\<forall>k\<in>set s. isValidKey k" using all by auto
  next
    fix c assume "decode_HashCountedSet isValidKey dk d = (Some c, d')"
    then have "chk_all (\<lambda>acc x. isValidKey (fst x) \<and> fst x \<notin> fst ` set acc) [] c"
      by (auto simp: decode_HashCountedSet_def dec_bind_def loop_eqs split: split
          dest!: checked_loop_Some)
    then show "distinct (map fst c)" "\<forall>x\<in>set c. isValidKey (fst x)"
      by (simp_all add: chk_all_distinct)
  }
qed

definition example_map_message :: "u8 \<Rightarrow> decoder" where
  "example_map_message k = \<lparr>dec_buffer = 4096, dec_bufferPos = 4096, dec_bufferEnd = 4104,
     dec_memory = [2, 0, 0, 0, 7, 1, k, 2], dec_attachments = [], dec_messageFlags = 0,
     dec_messageName = 0, dec_destinationID = 0\<rparr>"

lemma example_map_message_simps:
  "wf_dec (example_map_message k)" "dec_isValid (example_map_message k)"
  "dec_offset (example_map_message k) = 0" "dec_memory (example_map_message k) = [2, 0, 0, 0, 7, 1, k, 2]"
  by (simp_all add: example_map_message_def wf_dec_def dec_isValid_def dec_offset_def)

text \<open>Two entries with keys 7 and 8 are accepted; with the key 7 twice the message is refused.\<close>

theorem decoded_tables_well_formed_witness:
  "(\<exists>d'. decode_HashMap (\<lambda>k. k \<noteq> 0) decode_u8 decode_u8 (example_map_message 8)
      = (Some [(7, 1), (8, 2)], d')) \<and> distinct (map fst [(7 :: u8, 1 :: u8), (8, 2)]) \<and>
   fst (decode_HashMap (\<lambda>k. k \<noteq> 0) decode_u8 decode_u8 (example_map_message 7)) = None"
proof -
  have al: "align_up 4 0 = 0" "align_up (Suc 0) n = n" for n by (simp_all add: align_up_def)
  have two: "unat (2 :: u32) = Suc (Suc 0)" by simp
  note eval = dec_bind_def dec_return_def decode_arith_valid dec_at_valid example_map_message_simps al
  have "decode_u32 (example_map_message k) = (Some 2, dec_at (example_map_message k) 4)" for k
    by (simp add: decode_u32_def eval)
  then have "decode_HashMap P decode_u8 decode_u8 (example_map_message k)
      = decode_HashMap_loop P decode_u8 decode_u8 (Suc (Suc 0)) [] (dec_at (example_map_message k) 4)"
    for P k by (simp only: decode_HashMap_def dec_bind_def [of decode_u32] two prod.case option.case)
  moreover have "\<exists>d'. decode_HashMap_loop (\<lambda>k. k \<noteq> 0) decode_u8 decode_u8 (Suc (Suc 0)) []
      (dec_at (example_map_message 8) 4) = (Some [(7, 1), (8, 2)], d')"
    by (simp add: decode_u8_def eval)
  moreover have "fst (decode_HashMap_loop (\<lambda>k. k \<noteq> 0) decode_u8 decode_u8 (Suc (Suc 0)) []
      (dec_at (example_map_message 7) 4)) = None"
    by (simp add: decode_u8_def eval dec_fail_invalid_def)
  ultimately show ?thesis
    using decoded_tables_well_formed [of "\<lambda>k. k \<noteq> 0" decode_u8 decode_u8] by auto
qed

text \<open>A decoder that reads at least one byte for every value it returns.\<close>

definition consumes :: "'a decode \<Rightarrow> bool" where
  "consumes da \<longleftrightarrow> (\<forall>d x d'. wf_dec d \<longrightarrow> da d = (Some x, d') \<longrightarrow>
     dec_isValid d' \<and> dec_offset d < dec_offset d')"

lemma consumes_arith:
  assumes "sz \<in> {1, 2, 4, 8}"
  shows "consumes (decode_arith sz)"
proof -
  have "dec_isValid d' \<and> dec_offset d < dec_offset d'"
    if wf: "wf_dec d" and run: "decode_arith sz d = (Some x, d')" for d x d'
  proof (cases "dec_isValid d")
    case True
    have "dec_offset d \<le> align_up sz (dec_offset d)" using assms by (intro align_up_ge) auto
    then show ?thesis
      using decode_arith_valid [OF wf True assms] run wf assms
      by (auto simp: dec_at_valid split: if_splits)
  next
    case False
    have "is_alignment (of_nat sz)" using assms by (auto simp: is_alignment_def)
    then show ?thesis
      using decodeFixedLength_invalid [OF wf False] run by (simp add: decode_arith_def dec_bind_def)
  qed
  then show ?thesis by (auto simp: consumes_def)
qed

lemma consumes_bind:
  assumes "consumes m" "dec_safe m" "\<And>x. dec_safe (f x)"
    and "\<And>x d y d'. wf_dec d \<Longrightarrow> dec_isValid d \<Longrightarrow> f x d = (Some y, d') \<Longrightarrow> dec_isValid d'"
  shows "consumes (dec_bind m f)"
  unfolding consumes_def
proof (intro allI impI)
  fix d y d' assume wf: "wf_dec d" and run: "dec_bind m f d = (Some y, d')"
  then obtain x d1 where 1: "m d = (Some x, d1)" and 2: "f x d1 = (Some y, d')"
    by (auto simp: dec_bind_def split: prod.splits option.splits)
  have "dec_isValid d1 \<and> dec_offset d < dec_offset d1" using assms(1) wf 1 by (auto simp: consumes_def)
  moreover have wf1: "wf_dec d1" by (rule dec_safeD(1) [OF assms(2) wf 1])
  ultimately show "dec_isValid d' \<and> dec_offset d < dec_offset d'"
    using assms(4) [OF wf1 _ 2] dec_safeD(4) [OF assms(3) wf1 2] by auto
qed

lemma consumes_words: "consumes decode_u8" "consumes decode_u16" "consumes decode_u32"
  "consumes decode_u64" "consumes decode_bool"
  unfolding decode_u8_def decode_u16_def decode_u32_def decode_u64_def decode_bool_def
  by (rule consumes_bind; auto simp: dec_return_def intro: consumes_arith wf_intros)+

lemma checked_loop_bound:
  assumes "consumes da" "dec_safe da" "wf_dec d" "dec_isValid d"
    and "checked_loop da chk n acc d = (Some r, d')"
  shows "dec_isValid d' \<and> wf_dec d' \<and> dec_frame d d' \<and> n + dec_offset d \<le> dec_offset d'"
  using assms(3-5)
proof (induction n arbitrary: acc d)
  case 0
  then show ?case by (simp add: dec_return_def)
next
  case (Suc n)
  then obtain x d1 where 1: "da d = (Some x, d1)"
    and 2: "checked_loop da chk n (acc @ [x]) d1 = (Some r, d')"
    by (auto simp: dec_bind_def dec_fail_invalid_def split: prod.splits option.splits if_splits)
  have "dec_isValid d1 \<and> dec_offset d < dec_offset d1"
    using assms(1) Suc.prems(1) 1 by (auto simp: consumes_def)
  moreover note dec_safeD(1,2) [OF assms(2) Suc.prems(1) 1]
  ultimately show ?case using Suc.IH [OF _ _ 2] by (auto intro: dec_frame_trans)
qed

lemma length_bytes_words [simp]: "length (bytes_words sz n bs) = n"
  by (induction n arbitrary: bs) simp_all


text \<open>A decoder at the start of a block at address 4096.\<close>

definition block_decoder :: "bytes \<Rightarrow> decoder" where
  "block_decoder mem = \<lparr>dec_buffer = 4096, dec_bufferPos = 4096,
     dec_bufferEnd = 4096 + of_nat (length mem), dec_memory = mem, dec_attachments = [],
     dec_messageFlags = 0, dec_messageName = 0, dec_destinationID = 0\<rparr>"

lemma block_decoder_simps:
  assumes "length mem < 2 ^ 63"
  shows "wf_dec (block_decoder mem)" "dec_isValid (block_decoder mem)"
    "dec_offset (block_decoder mem) = 0" "dec_memory (block_decoder mem) = mem"
    "dec_buffer (block_decoder mem) = 4096"
proof -
  show "dec_memory (block_decoder mem) = mem" "dec_isValid (block_decoder mem)"
    "dec_offset (block_decoder mem) = 0" "dec_buffer (block_decoder mem) = 4096"
    by (simp_all add: block_decoder_def dec_isValid_def dec_offset_def)
  have "unat (4096 + of_nat (length mem) :: u64) = 4096 + length mem"
    using assms by (simp add: unat_word_ariths(1) unat_of_nat_u64)
  then show "wf_dec (block_decoder mem)"
    using assms by (simp add: block_decoder_def wf_dec_def word_le_nat_alt)
qed

lemma decode_u64_block:
  assumes "8 \<le> length mem" "length mem < 2 ^ 63"
  shows "decode_u64 (block_decoder mem) =
    (Some (of_nat (le_value (take 8 mem))), dec_at (block_decoder mem) 8)"
  using assms by (simp add: decode_u64_def dec_bind_def dec_return_def decode_arith_valid
      block_decoder_simps align_up_def)


text \<open>
  A reference to bytes (\<^verbatim>\<open>DataReference\<close>) decoded from any message lies inside the
  message: the address is in the block and the bytes up to its size are bytes of the message.
\<close>

theorem DataReference_in_bounds:
  assumes "wf_dec d" and "decode_ArrayReference 1 1 d = (Some (data, sz), d')"
  shows "sz = 0 \<or> (\<exists>off. data = dec_buffer d + of_nat off \<and> dec_offset d \<le> off \<and>
     off + unat sz \<le> length (dec_memory d) \<and> wf_dec d' \<and> dec_offset d' = off + unat sz)"
proof -
  from assms(2) obtain n d1 where n: "decode_u64 d = (Some n, d1)"
    and rest: "(if n = 0 then dec_return (0, 0)
       else dec_bind (decodeFixedLengthReference (n * 1) 1) (\<lambda>data. dec_return (data, n))) d1
       = (Some (data, sz), d')"
    by (auto simp: decode_ArrayReference_def dec_bind_def split: prod.splits option.splits)
  have 1: "dec_isValid d1" "dec_offset d < dec_offset d1"
    using consumes_words(4) assms(1) n by (auto simp: consumes_def)
  note f1 = dec_safeD(1,2) [OF dec_safe_words(4) assms(1) n]
  show ?thesis
  proof (cases "n = 0")
    case True
    then show ?thesis using rest by (simp add: dec_return_def)
  next
    case False
    then show ?thesis
      using rest decodeFixedLengthReference_valid [OF f1(1) 1(1), of 1 n] 1(2) f1(1)
        dec_frameD(1,3) [OF f1(2)]
      by (auto simp: dec_bind_def dec_return_def dec_at_valid split: if_splits
          intro!: exI [of _ "dec_offset d1"])
  qed
qed

theorem DataReference_in_bounds_witness:
  "\<exists>d'. decode_ArrayReference 1 1 (block_decoder [2, 0, 0, 0, 0, 0, 0, 0, 5, 6])
      = (Some (4104, 2), d') \<and> wf_dec d' \<and> dec_offset d' = 10"
proof -
  let ?d = "block_decoder [2, 0, 0, 0, 0, 0, 0, 0, 5, 6]"
  have wf: "wf_dec ?d" by (simp add: block_decoder_simps)
  have "decode_u64 ?d = (Some 2, dec_at ?d 8)" by (simp add: decode_u64_block)
  then have run: "decode_ArrayReference 1 1 ?d = (Some (4104, 2), dec_at ?d 10)"
    by (simp add: decode_ArrayReference_def dec_bind_def dec_return_def
        decodeFixedLengthReference_valid dec_at_valid block_decoder_simps)
  then show ?thesis
    using DataReference_in_bounds [OF wf run] dec_at_valid [OF wf, of 10]
    by (auto simp: block_decoder_simps)
qed

text \<open>
  Claim C34. For elements of more than one byte the check can be defeated: the size in bytes is
  computed modulo \<^verbatim>\<open>2^64\<close>, so a message of eight bytes that claims \<^verbatim>\<open>2^62\<close> numbers of four
  bytes is accepted, and the decoder hands out a reference to \<^verbatim>\<open>2^62\<close> elements at the very end
  of the block and stays valid.
\<close>

theorem ArrayReference_size_wraps:
  "\<exists>d d'. wf_dec d \<and> dec_isValid d \<and> length (dec_memory d) = 8 \<and>
     decode_ArrayReference 4 4 d = (Some (dec_bufferEnd d, 2 ^ 62), d') \<and> dec_isValid d'"
proof -
  let ?d = "block_decoder [0, 0, 0, 0, 0, 0, 0, 64]"
  have "decode_u64 ?d = (Some (2 ^ 62), dec_at ?d 8)" by (simp add: decode_u64_block)
  then have "decode_ArrayReference 4 4 ?d = (Some (4104, 2 ^ 62), dec_at ?d 8)"
    by (simp add: decode_ArrayReference_def dec_bind_def dec_return_def
        decodeFixedLengthReference_valid dec_at_valid block_decoder_simps align_up_def)
  moreover have "dec_bufferEnd ?d = 4104" by (simp add: block_decoder_def)
  ultimately show ?thesis
    using dec_at_valid [of ?d 8]
    by (intro exI [of _ ?d] exI [of _ "dec_at ?d 8"]) (simp add: block_decoder_simps)
qed

text \<open>
  A variant with an index that is none of its alternatives is decoded as the first
  alternative: beyond the last index the search ends in \<^verbatim>\<open>VariantCoder<0>\<close>, whose assertion
  that the index is 0 is not part of a release build.
\<close>

theorem Variant_bad_index_accepted:
  assumes "decs \<noteq> []" and "length decs \<le> 2 ^ 32" and "length decs \<le> unat i"
    and "decode_u32 d = (Some i, d1)" and "(decs ! 0) d1 = (Some x, d2)"
  shows "decode_Variant decs d = (Some (0, x), d2)"
proof -
  have "variant_pick (length decs - 1) i = 0"
    using assms(1,3) by (cases decs) (auto simp: variant_pick_def)
  then show ?thesis
    using VariantCoder_pick(2) [of "length decs - 1" decs i] assms
    by (simp add: decode_Variant_def dec_bind_def dec_return_def)
qed

theorem Variant_bad_index_accepted_witness:
  "\<exists>d2. decode_Variant [decode_u8, decode_u8] (block_decoder [77, 0, 0, 0, 9]) = (Some (0, 9), d2)"
proof -
  let ?d = "block_decoder [77, 0, 0, 0, 9]"
  have al: "align_up (Suc 0) n = n" "align_up 4 0 = 0" for n by (simp_all add: align_up_def)
  have "decode_u32 ?d = (Some 77, dec_at ?d 4)"
    by (simp add: decode_u32_def dec_bind_def dec_return_def decode_arith_valid
        block_decoder_simps al)
  moreover have "decode_u8 (dec_at ?d 4) = (Some 9, dec_at ?d 5)"
    by (simp add: decode_u8_def dec_bind_def dec_return_def decode_arith_valid dec_at_valid
        block_decoder_simps al)
  ultimately show ?thesis
    using Variant_bad_index_accepted [of "[decode_u8, decode_u8]" 77 ?d "dec_at ?d 4" 9 "dec_at ?d 5"]
    by auto
qed

subsection \<open>Wrapped messages\<close>

lemma reads_attachments: "reads (d\<lparr>dec_attachments := as\<rparr>) e e' \<longleftrightarrow> reads d e e'"
  by (simp add: reads_def wf_dec_def dec_isValid_def dec_offset_def)

lemma takeAttachments_all:
  "length (dec_attachments d) < n \<Longrightarrow>
     takeAttachments n d acc = (acc @ rev (dec_attachments d), d\<lparr>dec_attachments := []\<rparr>)"
proof (induction n arbitrary: d acc)
  case (Suc n)
  show ?case
  proof (cases "dec_attachments d" rule: rev_cases)
    case Nil
    then show ?thesis by (simp add: removeAttachment_def)
  next
    case (snoc xs x)
    then show ?thesis using Suc by (simp add: removeAttachment_def)
  qed
qed simp

lemma fold_addAttachment:
  "fold (\<lambda>a e. addAttachment e a) as e = e\<lparr>enc_attachments := enc_attachments e @ as\<rparr>"
  by (induction as arbitrary: e) (simp_all add: addAttachment_def)

lemma ArrayReference_nonnull:
  assumes "wf_dec d" "decode_ArrayReference 1 1 d = (Some (data, sz), d')" "sz \<noteq> 0"
  shows "data \<noteq> 0"
proof -
  from assms(2,3) obtain d1 where n: "decode_u64 d = (Some sz, d1)"
    and ref: "decodeFixedLengthReference sz 1 d1 = (Some data, d')"
    by (auto simp: decode_ArrayReference_def dec_bind_def dec_return_def
        split: prod.splits option.splits if_splits)
  have wf1: "wf_dec d1" by (rule dec_safeD(1) [OF dec_safe_words(4) assms(1) n])
  show ?thesis
  proof (cases "dec_isValid d1")
    case True
    then have "data = dec_buffer d1 + of_nat (align_up 1 (dec_offset d1))"
      "align_up 1 (dec_offset d1) \<le> length (dec_memory d1)"
      using ref decodeFixedLengthReference_valid [OF wf1 True, of 1 sz] by (auto split: if_splits)
    then have "unat data = unat (dec_buffer d1) + align_up 1 (dec_offset d1)"
      using unat_dec_at [OF wf1] by simp
    then have "unat data \<noteq> 0" using wf_decD(2) [OF wf1] by simp
    then show ?thesis by auto
  next
    case False
    then show ?thesis using ref decodeFixedLength_invalid(2) [OF wf1 False, of 1 sz] by simp
  qed
qed

lemma wrapForTesting_returns:
  assumes "wf_enc e" "\<And>c. enc_alloc e c" "length (enc_attachments original) \<le> 2 ^ 63"
    and "length (enc_buffer e) + (17 + length (enc_buffer original)) \<le> 2 ^ 63"
  defines "wrapped \<equiv> enc_buffer (setShouldDispatchMessageWhenWaitingForSyncReply original SD_Yes)"
  shows "\<exists>e1 e'. encode_DataReference e wrapped = Some e1 \<and> wrapForTesting e original = Some e' \<and>
    enc_buffer e' = enc_buffer e1 \<and>
    length (enc_buffer e') \<le> length (enc_buffer e) + (17 + length (enc_buffer original)) \<and>
    enc_attachments e' = enc_attachments e @ enc_attachments original"
proof -
  have len: "length wrapped = length (enc_buffer original)"
    by (simp add: wrapped_def length_setShouldDispatch)
  have "length wrapped < 2 ^ 64" using assms(4) len by simp
  moreover have "length (enc_buffer e) + (16 + (1 + length wrapped)) \<le> 2 ^ 63" using assms(4) len by simp
  ultimately obtain e1 where e1: "encode_DataReference e wrapped = Some e1"
    and b1: "length (enc_buffer e1) \<le> length (enc_buffer e) + (16 + (1 + length wrapped))"
    using DataReference.enc_total [OF assms(1) _ assms(2)] by blast
  have g: "enc_grows e e1"
    by (rule DataReference.enc_grows [OF assms(1) _ e1]) fact
  then have wf1: "wf_enc e1" and al1: "enc_alloc e1 c" for c
    using assms(2) by (auto simp: enc_grows_def enc_frame_def)
  have "unat (of_nat (length (enc_attachments original)) :: u64) \<le> 2 ^ 63"
    using assms(3) by (subst unat_of_nat_u64) auto
  with reserve_total [OF wf1 _ al1] obtain e2
    where e2: "reserve e1 (of_nat (length (enc_attachments original))) = Some e2" by blast
  then obtain c where "e2 = e1\<lparr>enc_bufferCapacity := c\<rparr>" using reserve_SomeD(3) [OF wf1] by blast
  moreover have "enc_attachments (setShouldDispatchMessageWhenWaitingForSyncReply original SD_Yes)
      = enc_attachments original"
    by (simp add: setShouldDispatchMessageWhenWaitingForSyncReply_def update_messageFlags_def
        split: list.split)
  ultimately show ?thesis
    using e1 e2 g b1 len
    by (simp add: wrapForTesting_def Let_def releaseAttachments_def fold_addAttachment wrapped_def
        enc_grows_def enc_frame_def)
qed

text \<open>
  In the fully synchronous testing mode, wrapping a message into another and
  unwrapping it gives back the message: the wrapping always returns when memory is granted,
  and the receiver of the wrapper creates a decoder from exactly the bytes of the original
  message, marked for dispatch during a synchronous wait, with its attachments in order.
\<close>

theorem wrapForTesting_roundtrip:
  assumes "wf_enc e" and "\<And>c. enc_alloc e c" and "enc_attachments e = []"
    and "enc_buffer original \<noteq> []" and "length (enc_attachments original) \<le> 2 ^ 63"
    and "length (enc_buffer e) + (17 + length (enc_buffer original)) \<le> 2 ^ 63"
  shows "\<exists>e'. wrapForTesting e original = Some e' \<and>
    (\<forall>d. reads d e e' \<longrightarrow> dec_attachments d = enc_attachments e' \<longrightarrow>
      (\<exists>data. data \<noteq> 0 \<and> fst (unwrapForTesting isValidName tryFastMalloc d) =
        Decoder_create isValidName tryFastMalloc data
          (enc_buffer (setShouldDispatchMessageWhenWaitingForSyncReply original SD_Yes)) False
          (enc_attachments original)))"
proof -
  let ?w = "enc_buffer (setShouldDispatchMessageWhenWaitingForSyncReply original SD_Yes)"
  have len: "length ?w = length (enc_buffer original)" by (rule length_setShouldDispatch)
  have w64: "length ?w < 2 ^ 64" using assms(6) len by simp
  from wrapForTesting_returns [OF assms(1,2,5,6)] obtain e1 e' where
    e1: "encode_DataReference e ?w = Some e1" and e': "wrapForTesting e original = Some e'"
    and buf: "enc_buffer e' = enc_buffer e1" and atts: "enc_attachments e' = enc_attachments original"
    using assms(3) by auto
  have "\<exists>data. data \<noteq> 0 \<and> fst (unwrapForTesting isValidName tryFastMalloc d) =
      Decoder_create isValidName tryFastMalloc data ?w False (enc_attachments original)"
    if r: "reads d e e'" and da: "dec_attachments d = enc_attachments e'" for d
  proof -
    let ?d = "d\<lparr>dec_attachments := []\<rparr>"
    have r1: "reads ?d e e1" using r buf unfolding reads_attachments by (simp add: reads_def)
    have run: "decode_DataReference ?d = (Some ?w, dec_at ?d (length (enc_buffer e1)))"
      by (rule DataReference.roundtrip [OF assms(1) w64 e1 r1])
    then obtain data sz d2 where ref: "decode_ArrayReference 1 1 ?d = (Some (data, sz), d2)"
      and w: "mem_read d2 data (unat sz) = ?w"
      by (auto simp: decode_DataReference_def dec_bind_def split: prod.splits option.splits)
    have "sz \<noteq> 0" using w len assms(4) by (auto simp: mem_read_def)
    moreover have "wf_dec ?d" using r1 by (simp add: reads_def)
    ultimately have "data \<noteq> 0" using ref ArrayReference_nonnull by blast
    moreover have "takeAttachments (Suc (length (dec_attachments d))) d []
        = (rev (enc_attachments original), ?d)"
      using takeAttachments_all [of d "Suc (length (dec_attachments d))" "[]"] da atts by simp
    ultimately show ?thesis
      using ref w by (intro exI [of _ data]) (simp add: unwrapForTesting_def del: takeAttachments.simps)
  qed
  with e' show ?thesis by blast
qed

theorem wrapForTesting_roundtrip_witness:
  "\<exists>e' d data. data \<noteq> 0 \<and>
     wrapForTesting (Encoder_WithoutHeader (\<lambda>_. True))
       ((Encoder_WithoutHeader (\<lambda>_. True))\<lparr>enc_buffer := [0, 9], enc_attachments := [4, 5]\<rparr>) = Some e' \<and>
     fst (unwrapForTesting (\<lambda>n. n < 10) (\<lambda>n. None) d)
       = Decoder_create (\<lambda>n. n < 10) (\<lambda>n. None) data [1, 9] False [4, 5]"
proof -
  let ?e = "Encoder_WithoutHeader (\<lambda>_. True)"
  let ?o = "?e\<lparr>enc_buffer := [0, 9], enc_attachments := [4, 5]\<rparr>"
  have e: "wf_enc ?e" "\<And>c. enc_alloc ?e c" "enc_attachments ?e = []" "enc_buffer ?e = []"
    by (rule wf_Encoder_WithoutHeader) (simp_all add: Encoder_WithoutHeader_def)
  have o: "enc_buffer (setShouldDispatchMessageWhenWaitingForSyncReply ?o SD_Yes) = [1, 9]"
    by (simp add: setShouldDispatchMessageWhenWaitingForSyncReply_def update_messageFlags_def
        flags_op_defs flag_defs)
  obtain e' where e': "wrapForTesting ?e ?o = Some e'" "length (enc_buffer e') \<le> 19"
    using wrapForTesting_returns [of ?e ?o] e by auto
  let ?d = "(block_decoder (enc_buffer e'))\<lparr>dec_attachments := enc_attachments e'\<rparr>"
  have "reads (block_decoder (enc_buffer e')) ?e e'"
    using e'(2) e(4) by (simp add: reads_def block_decoder_simps)
  then have "reads ?d ?e e'" by (simp only: reads_attachments)
  moreover have "dec_attachments ?d = enc_attachments e'" by simp
  ultimately have "\<exists>data. data \<noteq> 0 \<and> fst (unwrapForTesting (\<lambda>n. n < 10) (\<lambda>n. None) ?d)
      = Decoder_create (\<lambda>n. n < 10) (\<lambda>n. None) data [1, 9] False [4, 5]"
    using wrapForTesting_roundtrip [of ?e ?o "\<lambda>n. n < 10" "\<lambda>n. None"] e e' o by auto
  then show ?thesis using e'(1) by blast
qed

end
