(* ===== verification/IPC_ReceiverMap.thy ===== *)
theory IPC_ReceiverMap
  imports IPC_Decoder
begin

text \<open>
  \<^verbatim>\<open>IPC::MessageReceiverMap\<close> (src/Platform/IPC/MessageReceiverMap.cpp): which receiver gets a
  message, by receiver name alone or by receiver name and destination. The two hash maps are
  their lists of entries; receivers are numbered, and \<open>mapCount\<close> is the debug counter
  \<^verbatim>\<open>m_messageReceiverMapCount\<close> each receiver carries (src/Platform/IPC/MessageReceiver.h). An
  operation returns \<^term>\<open>None\<close> where the code would use an iterator of an absent entry. The
  generated function from message names to receiver names is a parameter.
\<close>

type_synonym receiver = nat
type_synonym receiver_name = u8

record receiver_map =
  globalMessageReceivers :: "(receiver_name \<times> receiver) list"
  messageReceivers :: "((receiver_name \<times> u64) \<times> receiver) list"
  mapCount :: "receiver \<Rightarrow> nat"

definition MessageReceiverMap_empty :: receiver_map where
  "MessageReceiverMap_empty =
     \<lparr>globalMessageReceivers = [], messageReceivers = [], mapCount = (\<lambda>_. 0)\<rparr>"

definition willBeAddedToMessageReceiverMap :: "receiver \<Rightarrow> receiver_map \<Rightarrow> receiver_map" where
  "willBeAddedToMessageReceiverMap r m = m\<lparr>mapCount := (mapCount m)(r := mapCount m r + 1)\<rparr>"

definition willBeRemovedFromMessageReceiverMap :: "receiver \<Rightarrow> receiver_map \<Rightarrow> receiver_map" where
  "willBeRemovedFromMessageReceiverMap r m = m\<lparr>mapCount := (mapCount m)(r := mapCount m r - 1)\<rparr>"

definition addMessageReceiver_global ::
    "receiver_map \<Rightarrow> receiver_name \<Rightarrow> receiver \<Rightarrow> receiver_map" where
  "addMessageReceiver_global m name r =
     (let m = willBeAddedToMessageReceiverMap r m in
      m\<lparr>globalMessageReceivers := AList.update name r (globalMessageReceivers m)\<rparr>)"

definition addMessageReceiver ::
    "receiver_map \<Rightarrow> receiver_name \<Rightarrow> u64 \<Rightarrow> receiver \<Rightarrow> receiver_map" where
  "addMessageReceiver m name destinationID r =
     (let m = willBeAddedToMessageReceiverMap r m in
      m\<lparr>messageReceivers := AList.update (name, destinationID) r (messageReceivers m)\<rparr>)"

definition removeMessageReceiver_global ::
    "receiver_map \<Rightarrow> receiver_name \<Rightarrow> receiver_map option" where
  "removeMessageReceiver_global m name =
     (case map_of (globalMessageReceivers m) name of
        None \<Rightarrow> None
      | Some r \<Rightarrow> (let m = willBeRemovedFromMessageReceiverMap r m in
          Some (m\<lparr>globalMessageReceivers := AList.delete name (globalMessageReceivers m)\<rparr>)))"

definition removeMessageReceiver ::
    "receiver_map \<Rightarrow> receiver_name \<Rightarrow> u64 \<Rightarrow> receiver_map option" where
  "removeMessageReceiver m name destinationID =
     (case map_of (messageReceivers m) (name, destinationID) of
        None \<Rightarrow> None
      | Some r \<Rightarrow> (let m = willBeRemovedFromMessageReceiverMap r m in
          Some (m\<lparr>messageReceivers := AList.delete (name, destinationID) (messageReceivers m)\<rparr>)))"

primrec removeAll_global :: "receiver_map \<Rightarrow> receiver_name list \<Rightarrow> receiver_map option" where
  "removeAll_global m [] = Some m"
| "removeAll_global m (name # names) =
     do { m \<leftarrow> removeMessageReceiver_global m name; removeAll_global m names }"

primrec removeAll_dest ::
    "receiver_map \<Rightarrow> (receiver_name \<times> u64) list \<Rightarrow> receiver_map option" where
  "removeAll_dest m [] = Some m"
| "removeAll_dest m (k # ks) =
     do { m \<leftarrow> removeMessageReceiver m (fst k) (snd k); removeAll_dest m ks }"

definition removeMessageReceiver_all :: "receiver_map \<Rightarrow> receiver \<Rightarrow> receiver_map option" where
  "removeMessageReceiver_all m r = do {
     let globalReceiversToRemove = map fst (filter (\<lambda>(name, x). x = r) (globalMessageReceivers m));
     m \<leftarrow> removeAll_global m globalReceiversToRemove;
     let receiversToRemove = map fst (filter (\<lambda>(k, x). x = r) (messageReceivers m));
     removeAll_dest m receiversToRemove
   }"

definition rmap_invalidate :: "receiver_map \<Rightarrow> receiver_map" where
  "rmap_invalidate m =
     (let m = fold willBeRemovedFromMessageReceiverMap (map snd (globalMessageReceivers m)) m;
          m = m\<lparr>globalMessageReceivers := []\<rparr>;
          m = fold willBeRemovedFromMessageReceiverMap (map snd (messageReceivers m)) m in
      m\<lparr>messageReceivers := []\<rparr>)"

text \<open>
  The receiver that \<^verbatim>\<open>dispatchMessage\<close> and \<^verbatim>\<open>dispatchSyncMessage\<close> call, \<^term>\<open>None\<close> where they
  return false.
\<close>

definition rmap_dispatchMessage ::
    "(u16 \<Rightarrow> receiver_name) \<Rightarrow> receiver_map \<Rightarrow> decoder \<Rightarrow> receiver option" where
  "rmap_dispatchMessage receiverName m d =
     (case map_of (globalMessageReceivers m) (receiverName (dec_messageName d)) of
        Some r \<Rightarrow> Some r
      | None \<Rightarrow>
          (case map_of (messageReceivers m)
                  (receiverName (dec_messageName d), dec_destinationID d) of
             Some r \<Rightarrow> Some r
           | None \<Rightarrow> None))"

definition rmap_dispatchSyncMessage ::
    "(u16 \<Rightarrow> receiver_name) \<Rightarrow> receiver_map \<Rightarrow> decoder \<Rightarrow> receiver option" where
  "rmap_dispatchSyncMessage receiverName m d =
     (case map_of (globalMessageReceivers m) (receiverName (dec_messageName d)) of
        Some r \<Rightarrow> Some r
      | None \<Rightarrow>
          (case map_of (messageReceivers m)
                  (receiverName (dec_messageName d), dec_destinationID d) of
             Some r \<Rightarrow> Some r
           | None \<Rightarrow> None))"

subsection \<open>The invariant\<close>

text \<open>
  What the assertions of the code state: keys are unique, no destination is 0, no name is
  registered both globally and with a destination, and every receiver's counter is the number
  of its entries.
\<close>

definition occurrences :: "receiver \<Rightarrow> receiver_map \<Rightarrow> nat" where
  "occurrences r m = count_list (map snd (globalMessageReceivers m)) r
     + count_list (map snd (messageReceivers m)) r"

definition wf_rmap :: "receiver_map \<Rightarrow> bool" where
  "wf_rmap m \<longleftrightarrow> distinct (map fst (globalMessageReceivers m)) \<and>
     distinct (map fst (messageReceivers m)) \<and>
     0 \<notin> snd ` fst ` set (messageReceivers m) \<and>
     fst ` fst ` set (messageReceivers m) \<inter> fst ` set (globalMessageReceivers m) = {} \<and>
     (\<forall>r. mapCount m r = occurrences r m)"

lemma count_update_new:
  "k \<notin> fst ` set xs \<Longrightarrow> count_list (map snd (AList.update k v xs)) r
     = count_list (map snd xs) r + (if r = v then 1 else 0)"
  by (induction xs) auto

lemma count_delete:
  "distinct (map fst xs) \<Longrightarrow> map_of xs k = Some v \<Longrightarrow>
     count_list (map snd xs) r = count_list (map snd (AList.delete k xs)) r + (if r = v then 1 else 0)"
proof (induction xs)
  case (Cons x xs)
  show ?case
  proof (cases "fst x = k")
    case True
    then have "AList.delete k xs = xs" using Cons.prems by (intro delete_id) auto
    then show ?thesis using Cons True by (cases x) auto
  next
    case False
    then show ?thesis using Cons by (cases x) auto
  qed
qed simp

lemma fst_delete: "fst ` set (AList.delete k xs) = fst ` set xs - {k}"
  by (induction xs) auto

lemma fst_update: "fst ` set (AList.update k v xs) = insert k (fst ` set xs)"
  by (induction xs) auto

lemma wf_empty [simp]: "wf_rmap MessageReceiverMap_empty"
  by (simp add: wf_rmap_def MessageReceiverMap_empty_def occurrences_def)

lemma wf_rmapD:
  assumes "wf_rmap m"
  shows "distinct (map fst (globalMessageReceivers m))" "distinct (map fst (messageReceivers m))"
    "0 \<notin> snd ` fst ` set (messageReceivers m)"
    "fst ` fst ` set (messageReceivers m) \<inter> fst ` set (globalMessageReceivers m) = {}"
    "mapCount m r = count_list (map snd (globalMessageReceivers m)) r
       + count_list (map snd (messageReceivers m)) r"
  using assms unfolding wf_rmap_def occurrences_def by blast+

lemma wf_add_global:
  assumes wf: "wf_rmap m" and new: "name \<notin> fst ` set (globalMessageReceivers m)"
    and "name \<notin> fst ` fst ` set (messageReceivers m)"
  shows "wf_rmap (addMessageReceiver_global m name r)"
proof -
  let ?g = "AList.update name r (globalMessageReceivers m)"
  have "addMessageReceiver_global m name r
      = m\<lparr>mapCount := (mapCount m)(r := mapCount m r + 1), globalMessageReceivers := ?g\<rparr>"
    by (simp add: addMessageReceiver_global_def willBeAddedToMessageReceiverMap_def Let_def)
  moreover have "distinct (map fst ?g)" using wf_rmapD(1) [OF wf] by (rule distinct_update)
  moreover have "fst ` fst ` set (messageReceivers m) \<inter> fst ` set ?g = {}"
    unfolding fst_update using wf_rmapD(4) [OF wf] assms(3) by blast
  ultimately show ?thesis
    using wf_rmapD(2,3) [OF wf] wf_rmapD(5) [OF wf]
    by (simp only: wf_rmap_def occurrences_def receiver_map.simps) (auto simp: count_update_new [OF new])
qed

lemma wf_add:
  assumes wf: "wf_rmap m" and "destinationID \<noteq> 0" "name \<notin> fst ` set (globalMessageReceivers m)"
    and new: "(name, destinationID) \<notin> fst ` set (messageReceivers m)"
  shows "wf_rmap (addMessageReceiver m name destinationID r)"
proof -
  let ?k = "AList.update (name, destinationID) r (messageReceivers m)"
  have "addMessageReceiver m name destinationID r
      = m\<lparr>mapCount := (mapCount m)(r := mapCount m r + 1), messageReceivers := ?k\<rparr>"
    by (simp add: addMessageReceiver_def willBeAddedToMessageReceiverMap_def Let_def)
  moreover have "distinct (map fst ?k)" using wf_rmapD(2) [OF wf] by (rule distinct_update)
  moreover have "fst ` fst ` set ?k \<inter> fst ` set (globalMessageReceivers m) = {}"
    unfolding fst_update image_insert fst_conv using wf_rmapD(4) [OF wf] assms(3) by blast
  moreover have "0 \<notin> snd ` fst ` set ?k"
    unfolding fst_update image_insert snd_conv using wf_rmapD(3) [OF wf] assms(2) by blast
  ultimately show ?thesis
    using wf_rmapD(1) [OF wf] wf_rmapD(5) [OF wf]
    by (simp only: wf_rmap_def occurrences_def receiver_map.simps) (auto simp: count_update_new [OF new])
qed

lemma wf_remove_global:
  assumes wf: "wf_rmap m" and run: "removeMessageReceiver_global m name = Some m'"
  shows "wf_rmap m'"
proof -
  from run obtain r where r: "map_of (globalMessageReceivers m) name = Some r"
    and m': "m' = m\<lparr>mapCount := (mapCount m)(r := mapCount m r - 1),
      globalMessageReceivers := AList.delete name (globalMessageReceivers m)\<rparr>"
    by (auto simp: removeMessageReceiver_global_def willBeRemovedFromMessageReceiverMap_def Let_def
        simp del: map_of_eq_Some_iff split: option.splits)
  have d: "distinct (map fst (globalMessageReceivers m))" using wf by (simp add: wf_rmap_def)
  show ?thesis using wf count_delete [OF d r]
    by (simp add: m' wf_rmap_def occurrences_def distinct_delete fst_delete Diff_Int_distrib)
qed

lemma wf_remove:
  assumes wf: "wf_rmap m" and run: "removeMessageReceiver m name destinationID = Some m'"
  shows "wf_rmap m'"
proof -
  from run obtain r where r: "map_of (messageReceivers m) (name, destinationID) = Some r"
    and m': "m' = m\<lparr>mapCount := (mapCount m)(r := mapCount m r - 1),
      messageReceivers := AList.delete (name, destinationID) (messageReceivers m)\<rparr>"
    by (auto simp: removeMessageReceiver_def willBeRemovedFromMessageReceiverMap_def Let_def
        simp del: map_of_eq_Some_iff split: option.splits)
  have d: "distinct (map fst (messageReceivers m))" using wf by (simp add: wf_rmap_def)
  have sub: "fst ` set (AList.delete (name, destinationID) (messageReceivers m))
      \<subseteq> fst ` set (messageReceivers m)"
    by (auto simp: fst_delete)
  have zero: "0 \<notin> snd ` fst ` set (messageReceivers m)"
    and disj: "fst ` fst ` set (messageReceivers m) \<inter> fst ` set (globalMessageReceivers m) = {}"
    using wf by (simp_all add: wf_rmap_def)
  have "0 \<notin> snd ` fst ` set (AList.delete (name, destinationID) (messageReceivers m))"
    using zero image_mono [OF sub, of snd] by blast
  moreover have "fst ` fst ` set (AList.delete (name, destinationID) (messageReceivers m))
      \<inter> fst ` set (globalMessageReceivers m) = {}"
    using disj image_mono [OF sub, of fst] by blast
  moreover have "\<forall>r. mapCount m' r = occurrences r m'"
    using wf count_delete [OF d r] by (simp add: m' wf_rmap_def occurrences_def)
  moreover have "distinct (map fst (globalMessageReceivers m))"
    "distinct (map fst (AList.delete (name, destinationID) (messageReceivers m)))"
    using wf d distinct_delete by (auto simp: wf_rmap_def)
  moreover have "messageReceivers m' = AList.delete (name, destinationID) (messageReceivers m)"
    "globalMessageReceivers m' = globalMessageReceivers m" by (simp_all add: m')
  ultimately show ?thesis by (simp only: wf_rmap_def simp_thms)
qed

lemma removeAll_total:
  "distinct names \<Longrightarrow> set names \<subseteq> fst ` set (globalMessageReceivers m) \<Longrightarrow> wf_rmap m \<Longrightarrow>
     \<exists>m'. removeAll_global m names = Some m' \<and> wf_rmap m' \<and>
       globalMessageReceivers m' = filter (\<lambda>x. fst x \<notin> set names) (globalMessageReceivers m) \<and>
       messageReceivers m' = messageReceivers m"
proof (induction names arbitrary: m)
  case (Cons n ns)
  from Cons.prems obtain r where "map_of (globalMessageReceivers m) n = Some r"
    by (fastforce simp: wf_rmap_def)
  then obtain m1 where m1: "removeMessageReceiver_global m n = Some m1"
    "globalMessageReceivers m1 = AList.delete n (globalMessageReceivers m)"
    "messageReceivers m1 = messageReceivers m"
    by (simp add: removeMessageReceiver_global_def Let_def willBeRemovedFromMessageReceiverMap_def
        del: map_of_eq_Some_iff)
  have "wf_rmap m1" by (rule wf_remove_global [OF Cons.prems(3) m1(1)])
  moreover have "set ns \<subseteq> fst ` set (globalMessageReceivers m1)"
    using Cons.prems m1(2) by (auto simp: fst_delete)
  ultimately obtain m' where m': "removeAll_global m1 ns = Some m'" "wf_rmap m'"
    "globalMessageReceivers m' = filter (\<lambda>x. fst x \<notin> set ns) (globalMessageReceivers m1)"
    "messageReceivers m' = messageReceivers m1"
    using Cons.IH [of m1] Cons.prems(1) by auto
  have "filter (\<lambda>x. fst x \<notin> set ns) (AList.delete n (globalMessageReceivers m))
      = filter (\<lambda>x. fst x \<notin> set (n # ns)) (globalMessageReceivers m)"
    unfolding AList.delete_eq filter_filter by (rule filter_cong) auto
  then show ?case using m1 m' by simp
qed simp

lemma removeAll_dest_total:
  "distinct ks \<Longrightarrow> set ks \<subseteq> fst ` set (messageReceivers m) \<Longrightarrow> wf_rmap m \<Longrightarrow>
     \<exists>m'. removeAll_dest m ks = Some m' \<and> wf_rmap m' \<and>
       messageReceivers m' = filter (\<lambda>x. fst x \<notin> set ks) (messageReceivers m) \<and>
       globalMessageReceivers m' = globalMessageReceivers m"
proof (induction ks arbitrary: m)
  case (Cons k ks)
  from Cons.prems obtain r where "map_of (messageReceivers m) k = Some r"
    by (fastforce simp: wf_rmap_def)
  then obtain m1 where m1: "removeMessageReceiver m (fst k) (snd k) = Some m1"
    "messageReceivers m1 = AList.delete k (messageReceivers m)"
    "globalMessageReceivers m1 = globalMessageReceivers m"
    by (simp add: removeMessageReceiver_def Let_def willBeRemovedFromMessageReceiverMap_def
        del: map_of_eq_Some_iff)
  have "wf_rmap m1" by (rule wf_remove [OF Cons.prems(3) m1(1)])
  moreover have "set ks \<subseteq> fst ` set (messageReceivers m1)"
    using Cons.prems m1(2) by (auto simp: fst_delete)
  ultimately obtain m' where m': "removeAll_dest m1 ks = Some m'" "wf_rmap m'"
    "messageReceivers m' = filter (\<lambda>x. fst x \<notin> set ks) (messageReceivers m1)"
    "globalMessageReceivers m' = globalMessageReceivers m1"
    using Cons.IH [of m1] Cons.prems(1) by auto
  have "filter (\<lambda>x. fst x \<notin> set ks) (AList.delete k (messageReceivers m))
      = filter (\<lambda>x. fst x \<notin> set (k # ks)) (messageReceivers m)"
    unfolding AList.delete_eq filter_filter by (rule filter_cong) auto
  then show ?case using m1 m' by simp
qed simp

lemma filter_keys:
  assumes "distinct (map fst xs)"
  shows "filter (\<lambda>x. fst x \<notin> set (map fst (filter (\<lambda>(k, y). P y) xs))) xs
    = filter (\<lambda>x. \<not> P (snd x)) xs"
proof (rule filter_cong [OF refl])
  fix x assume x: "x \<in> set xs"
  have eq: "y = x" if "y \<in> set xs" "fst y = fst x" for y
    using that x assms by (auto simp: distinct_map inj_on_def)
  show "fst x \<notin> set (map fst (filter (\<lambda>(k, y). P y) xs)) \<longleftrightarrow> \<not> P (snd x)"
  proof
    assume "fst x \<notin> set (map fst (filter (\<lambda>(k, y). P y) xs))"
    then show "\<not> P (snd x)" using x by (auto simp: split_beta)
  next
    assume "\<not> P (snd x)"
    then show "fst x \<notin> set (map fst (filter (\<lambda>(k, y). P y) xs))"
      using eq by (auto simp: split_beta)
  qed
qed

lemma removeMessageReceiver_all_result:
  assumes wf: "wf_rmap m"
  shows "\<exists>m'. removeMessageReceiver_all m r = Some m' \<and> wf_rmap m' \<and>
    globalMessageReceivers m' = filter (\<lambda>x. snd x \<noteq> r) (globalMessageReceivers m) \<and>
    messageReceivers m' = filter (\<lambda>x. snd x \<noteq> r) (messageReceivers m)"
proof -
  let ?g = "map fst (filter (\<lambda>(name, x). x = r) (globalMessageReceivers m))"
  have d: "distinct (map fst (globalMessageReceivers m))" "distinct (map fst (messageReceivers m))"
    using wf by (auto simp: wf_rmap_def)
  have "distinct ?g" using d(1) by (simp add: distinct_map_filter)
  moreover have "set ?g \<subseteq> fst ` set (globalMessageReceivers m)" by auto
  ultimately obtain m1 where m1: "removeAll_global m ?g = Some m1" "wf_rmap m1"
    "globalMessageReceivers m1 = filter (\<lambda>x. fst x \<notin> set ?g) (globalMessageReceivers m)"
    "messageReceivers m1 = messageReceivers m"
    using removeAll_total [OF _ _ wf] by blast
  let ?k = "map fst (filter (\<lambda>(k, x). x = r) (messageReceivers m1))"
  have "distinct ?k" using d(2) m1(4) by (simp add: distinct_map_filter)
  moreover have "set ?k \<subseteq> fst ` set (messageReceivers m1)" by auto
  ultimately obtain m2 where m2: "removeAll_dest m1 ?k = Some m2" "wf_rmap m2"
    "messageReceivers m2 = filter (\<lambda>x. fst x \<notin> set ?k) (messageReceivers m1)"
    "globalMessageReceivers m2 = globalMessageReceivers m1"
    using removeAll_dest_total [OF _ _ m1(2)] by blast
  have "removeMessageReceiver_all m r = Some m2"
    using m1(1) m2(1) by (simp add: removeMessageReceiver_all_def Let_def)
  then show ?thesis
    using m1 m2 filter_keys [OF d(1), of "\<lambda>x. x = r"] filter_keys [OF d(2), of "\<lambda>x. x = r"] by auto
qed

lemma fold_willBeRemoved:
  "fold willBeRemovedFromMessageReceiverMap rs m
     = m\<lparr>mapCount := \<lambda>r. mapCount m r - count_list rs r\<rparr>"
proof (induction rs arbitrary: m)
  case (Cons x rs)
  show ?case
    unfolding fold_simps comp_def Cons
    by (simp add: willBeRemovedFromMessageReceiverMap_def fun_eq_iff)
qed simp

lemma rmap_invalidate_result:
  assumes "wf_rmap m"
  shows "rmap_invalidate m = MessageReceiverMap_empty"
  using wf_rmapD(5) [OF assms]
  by (simp add: rmap_invalidate_def Let_def fold_willBeRemoved MessageReceiverMap_empty_def)

lemma rmap_route:
  "rmap_dispatchMessage rn m d = (case map_of (globalMessageReceivers m) (rn (dec_messageName d)) of
     Some r \<Rightarrow> Some r
   | None \<Rightarrow> map_of (messageReceivers m) (rn (dec_messageName d), dec_destinationID d))"
  by (simp add: rmap_dispatchMessage_def split: option.split)

lemma map_of_filter_snd:
  "distinct (map fst xs) \<Longrightarrow>
     map_of (filter (\<lambda>x. snd x \<noteq> r) xs) k = (if map_of xs k = Some r then None else map_of xs k)"
proof (induction xs)
  case (Cons x xs)
  have "map_of xs k = None" if "fst x = k"
    using that Cons.prems by (simp add: map_of_eq_None_iff)
  then show ?case using Cons by (cases x) auto
qed simp

lemma rmap_tables_apart:
  assumes "wf_rmap m" "map_of (messageReceivers m) (name, dest) = Some x"
  shows "map_of (globalMessageReceivers m) name = None"
proof -
  have "((name, dest), x) \<in> set (messageReceivers m)" using assms(2) by (rule map_of_SomeD)
  then have "name \<in> fst ` fst ` set (messageReceivers m)" by force
  then have "name \<notin> fst ` set (globalMessageReceivers m)" using wf_rmapD(4) [OF assms(1)] by blast
  then show ?thesis by (simp add: map_of_eq_None_iff)
qed

subsection \<open>Properties\<close>



text \<open>
  Routing: a message goes to the receiver registered for its receiver name, or else
  for its name and destination; registering a receiver changes the route of exactly the
  messages it is registered for, removing a registration leaves those without a receiver,
  removing a receiver takes exactly the messages routed to it out of the map, and synchronous
  and asynchronous messages are routed alike.
\<close>

theorem receiver_map_routes:
  assumes "wf_rmap m"
  shows "(name \<notin> fst ` set (globalMessageReceivers m) \<longrightarrow>
      rmap_dispatchMessage rn (addMessageReceiver m name dest r) d =
        (if rn (dec_messageName d) = name \<and> dec_destinationID d = dest then Some r
         else rmap_dispatchMessage rn m d)) \<and>
    rmap_dispatchMessage rn (addMessageReceiver_global m name r) d =
        (if rn (dec_messageName d) = name then Some r else rmap_dispatchMessage rn m d) \<and>
    (removeMessageReceiver m name dest = Some m1 \<longrightarrow> rmap_dispatchMessage rn m1 d =
        (if rn (dec_messageName d) = name \<and> dec_destinationID d = dest then None
         else rmap_dispatchMessage rn m d)) \<and>
    (removeMessageReceiver_all m r = Some m2 \<longrightarrow> rmap_dispatchMessage rn m2 d =
        (if rmap_dispatchMessage rn m d = Some r then None else rmap_dispatchMessage rn m d)) \<and>
    rmap_dispatchSyncMessage rn m d = rmap_dispatchMessage rn m d"
proof (intro conjI impI)
  assume "name \<notin> fst ` set (globalMessageReceivers m)"
  then have "map_of (globalMessageReceivers m) name = None" by (simp add: map_of_eq_None_iff)
  then show "rmap_dispatchMessage rn (addMessageReceiver m name dest r) d =
      (if rn (dec_messageName d) = name \<and> dec_destinationID d = dest then Some r
       else rmap_dispatchMessage rn m d)"
    by (auto simp: rmap_route addMessageReceiver_def willBeAddedToMessageReceiverMap_def Let_def
        update_conv' split: option.split)
next
  show "rmap_dispatchMessage rn (addMessageReceiver_global m name r) d =
      (if rn (dec_messageName d) = name then Some r else rmap_dispatchMessage rn m d)"
    by (simp add: rmap_route addMessageReceiver_global_def willBeAddedToMessageReceiverMap_def Let_def
        update_conv' split: option.split)
next
  assume run: "removeMessageReceiver m name dest = Some m1"
  then obtain x where x: "map_of (messageReceivers m) (name, dest) = Some x"
    and m1: "globalMessageReceivers m1 = globalMessageReceivers m"
      "messageReceivers m1 = AList.delete (name, dest) (messageReceivers m)"
    unfolding removeMessageReceiver_def Let_def willBeRemovedFromMessageReceiverMap_def
    by (cases "map_of (messageReceivers m) (name, dest)") auto
  show "rmap_dispatchMessage rn m1 d =
      (if rn (dec_messageName d) = name \<and> dec_destinationID d = dest then None
       else rmap_dispatchMessage rn m d)"
    using rmap_tables_apart [OF assms x] by (auto simp: rmap_route m1 delete_conv' split: option.split)
next
  assume run: "removeMessageReceiver_all m r = Some m2"
  then have m2: "globalMessageReceivers m2 = filter (\<lambda>x. snd x \<noteq> r) (globalMessageReceivers m)"
    "messageReceivers m2 = filter (\<lambda>x. snd x \<noteq> r) (messageReceivers m)"
    using removeMessageReceiver_all_result [OF assms, of r] by auto
  let ?n = "rn (dec_messageName d)"
  have "map_of (messageReceivers m) (?n, dec_destinationID d) = None"
    if "map_of (globalMessageReceivers m) ?n \<noteq> None"
    using that rmap_tables_apart [OF assms] by (metis option.exhaust)
  then show "rmap_dispatchMessage rn m2 d =
      (if rmap_dispatchMessage rn m d = Some r then None else rmap_dispatchMessage rn m d)"
    using wf_rmapD(1,2) [OF assms]
    by (cases "map_of (globalMessageReceivers m) ?n")
      (simp_all add: rmap_route m2 map_of_filter_snd del: map_of_eq_Some_iff)
qed (simp add: rmap_dispatchSyncMessage_def rmap_dispatchMessage_def)

theorem receiver_map_routes_witness:
  "rmap_dispatchMessage (\<lambda>n. 3) (addMessageReceiver MessageReceiverMap_empty 3 9 7)
     (example_decoder\<lparr>dec_destinationID := 9\<rparr>) = Some 7 \<and>
   rmap_dispatchMessage (\<lambda>n. 3) (addMessageReceiver MessageReceiverMap_empty 3 9 7)
     (example_decoder\<lparr>dec_destinationID := 8\<rparr>) = None"
proof -
  have "rmap_dispatchMessage (\<lambda>n. 3) MessageReceiverMap_empty d = None" for d
    by (simp add: rmap_dispatchMessage_def MessageReceiverMap_empty_def)
  moreover have "(3 :: u8) \<notin> fst ` set (globalMessageReceivers MessageReceiverMap_empty)"
    by (simp add: MessageReceiverMap_empty_def)
  ultimately show ?thesis
    using receiver_map_routes [OF wf_empty, of 3 "\<lambda>n. 3" 9 7] by simp
qed

end
