(* ===== verification/IPC_Connection.thy ===== *)
theory IPC_Connection
  imports IPC_Coders IPC_ReceiverMap
begin

text \<open>
  \<^verbatim>\<open>IPC::Connection\<close> (src/Platform/IPC/Connection.cpp, Connection.h), as the Cocoa ports build it,
  without the testing interface of \<^verbatim>\<open>ENABLE(IPC_TESTING_API)\<close>. The record \<open>connection\<close> has the
  fields of the class; a connection is named by a number. The record \<open>world\<close> holds what the
  connections of a process share: the \<^verbatim>\<open>SyncMessageState\<close> singleton, the table of asynchronous
  reply handlers, and the queues of tasks (main run loop, connection queue, work queues and
  threads of receivers) whose entries the code posts with \<^verbatim>\<open>dispatch\<close>.

  The generated message names, the client's callbacks, the transport and the allocator are
  parameters. A function of type \<^typ>\<open>'a option\<close> is \<^term>\<open>None\<close> where the code stops the process
  or does not return. The places where the code can block take the list of what the other
  threads do while it is blocked.
\<close>

subsection \<open>State\<close>

datatype SendOption =
    DispatchMessageEvenWhenWaitingForSyncReply
  | DispatchMessageEvenWhenWaitingForUnboundedSyncReply
  | IgnoreFullySynchronousMode

datatype SendSyncOption =
    InformPlatformProcessWillSuspend
  | SSO_UseFullySynchronousModeForTesting
  | ForceDispatchWhenDestinationIsWaitingForUnboundedSyncReply
  | SSO_MaintainOrderingWithAsyncMessages

datatype WaitForOption =
    InterruptWaitingIfSyncMessageArrives
  | DispatchIncomingSyncMessagesWhileWaiting

record WaitForMessageState =
  ws_messageName :: u16
  ws_destinationID :: u64
  ws_waitForOptions :: "WaitForOption set"
  ws_messageWaitingInterrupted :: bool
  ws_decoder :: "decoder option"

record PendingSyncReply =
  psr_syncRequestID :: u64
  psr_replyDecoder :: "decoder option"
  psr_didReceiveReply :: bool

type_synonym receiver_key = "u8 \<times> u64"
type_synonym connection_id = nat

text \<open>
  \<open>m_throttlingLevel\<close> is the level of the throttler (\<^term>\<open>None\<close> for no throttler) and
  \<open>m_dispatchMessagesTimer\<close> tells whether its timer is running.
\<close>

record connection =
  m_isValid :: bool
  m_isConnected :: bool
  m_syncRequestID :: u64
  m_onlySendMessagesAsDispatchWhenWaitingForSyncReplyWhenProcessingSuchAMessage :: bool
  m_shouldExitOnSyncMessageSendFailure :: bool
  m_didCloseOnConnectionWorkQueueCallback :: bool
  m_workQueueMessageReceivers :: "(receiver_key \<times> (nat \<times> nat)) list"
  m_threadMessageReceivers :: "(receiver_key \<times> nat) list"
  m_inSendSyncCount :: u32
  m_inDispatchMessageCount :: u32
  m_inDispatchMessageMarkedDispatchWhenWaitingForSyncReplyCount :: u32
  m_inDispatchMessageMarkedToUseFullySynchronousModeForTesting :: u32
  m_fullySynchronousModeIsAllowedForTesting :: bool
  m_ignoreTimeoutsForTesting :: bool
  m_didReceiveInvalidMessage :: bool
  m_incomingMessages :: "decoder list"
  m_throttlingLevel :: "nat option"
  m_dispatchMessagesTimer :: bool
  m_outgoingMessages :: "encoder list"
  m_waitingForMessage :: "WaitForMessageState option"
  m_shouldWaitForSyncReplies :: bool
  m_shouldWaitForMessages :: bool
  m_pendingSyncReplies :: "PendingSyncReply list"
  m_incomingSyncMessageCallbacks :: "(u64 \<times> nat) list"
  m_nextIncomingSyncMessageCallbackID :: u64
  m_wasKilled :: bool

datatype main_task =
    MT_dispatchIncoming connection_id
  | MT_throttledDispatch connection_id
  | MT_dispatchSyncMessages connection_id
  | MT_invalidMessage connection_id u16
  | MT_didClose connection_id

datatype queue_task =
    QT_sendOutgoingMessages connection_id
  | QT_platformInvalidate connection_id
  | QT_connectionDidClose connection_id

datatype receiver_task =
    RT_workQueue nat connection_id nat decoder
  | RT_thread connection_id nat decoder

record world =
  w_connections :: "connection_id \<Rightarrow> connection"
  w_didScheduleDispatchMessagesWorkSet :: "connection_id list"
  w_messagesToDispatchWhileWaitingForSyncReply :: "(connection_id \<times> decoder) list"
  w_waitForSyncReplySemaphore :: bool
  w_unboundedSynchronousIPCCount :: u32
  w_asyncReplyHandlerMap :: "(connection_id \<times> (u64 \<times> nat) list) list"
  w_nextAsyncReplyHandlerID :: u64
  w_mainRunLoop :: "main_task list"
  w_connectionQueue :: "queue_task list"
  w_receiverTasks :: "receiver_task list"
  w_callbackQueue :: "nat list"

text \<open>
  What the connection calls and is not part of it: the names generated from the message files,
  \<^verbatim>\<open>isValidKey\<close> of the hash tables, the allocator, the client, the receivers, the completion
  handlers and the transport. A callback gets the world and returns it changed; one that does
  not return is \<^term>\<open>None\<close>.
\<close>

record environment =
  env_receiverName :: "u16 \<Rightarrow> u8"
  env_isSync :: "u16 \<Rightarrow> bool"
  env_isValidName :: "u16 \<Rightarrow> bool"
  env_SyncMessageReply :: u16
  env_WrappedAsyncMessageForTesting :: u16
  env_ReceiverName_IPC :: u8
  env_ReceiverName_AsyncReply :: u8
  env_isValidReceiverKey :: "receiver_key \<Rightarrow> bool"
  env_isValidHandlerKey :: "u64 \<Rightarrow> bool"
  env_alloc :: "u64 \<Rightarrow> bool"
  env_tryFastMalloc :: "nat \<Rightarrow> u64 option"
  env_didReceiveMessage :: "connection_id \<Rightarrow> decoder \<Rightarrow> world \<Rightarrow> (decoder \<times> world) option"
  env_didReceiveSyncMessage ::
    "connection_id \<Rightarrow> decoder \<Rightarrow> encoder \<Rightarrow> world \<Rightarrow> (decoder \<times> encoder option \<times> world) option"
  env_didReceiveInvalidMessage :: "connection_id \<Rightarrow> u16 \<Rightarrow> world \<Rightarrow> world option"
  env_didClose :: "connection_id \<Rightarrow> world \<Rightarrow> world option"
  env_didCloseOnConnectionWorkQueue :: "connection_id \<Rightarrow> world \<Rightarrow> world option"
  env_receiverDidReceiveMessage ::
    "nat \<Rightarrow> connection_id \<Rightarrow> decoder \<Rightarrow> world \<Rightarrow> (decoder \<times> world) option"
  env_receiverDidReceiveSyncMessage ::
    "nat \<Rightarrow> connection_id \<Rightarrow> decoder \<Rightarrow> encoder \<Rightarrow> world \<Rightarrow> (decoder \<times> encoder option \<times> world) option"
  env_callReply :: "nat \<Rightarrow> decoder \<Rightarrow> world \<Rightarrow> (decoder \<times> world) option"
  env_cancelReply :: "nat \<Rightarrow> world \<Rightarrow> world option"
  env_hasXPCConnection :: "connection_id \<Rightarrow> bool"
  env_platformCanSendOutgoingMessages :: "connection_id \<Rightarrow> bool"
  env_sendOutgoingMessage :: "connection_id \<Rightarrow> encoder \<Rightarrow> bool"

definition conn :: "world \<Rightarrow> connection_id \<Rightarrow> connection" where
  "conn w c = w_connections w c"

definition upd :: "connection_id \<Rightarrow> (connection \<Rightarrow> connection) \<Rightarrow> world \<Rightarrow> world" where
  "upd c f w = w\<lparr>w_connections := (w_connections w)(c := f (w_connections w c))\<rparr>"

definition dispatch_main :: "main_task \<Rightarrow> world \<Rightarrow> world" where
  "dispatch_main t w = w\<lparr>w_mainRunLoop := w_mainRunLoop w @ [t]\<rparr>"

definition dispatch_queue :: "queue_task \<Rightarrow> world \<Rightarrow> world" where
  "dispatch_queue t w = w\<lparr>w_connectionQueue := w_connectionQueue w @ [t]\<rparr>"

definition dec_receiverName :: "environment \<Rightarrow> decoder \<Rightarrow> u8" where
  "dec_receiverName E d = env_receiverName E (dec_messageName d)"

definition dec_isSyncMessage :: "environment \<Rightarrow> decoder \<Rightarrow> bool" where
  "dec_isSyncMessage E d = env_isSync E (dec_messageName d)"

definition hasOngoingUnboundedSyncIPC :: "world \<Rightarrow> bool" where
  "hasOngoingUnboundedSyncIPC w \<longleftrightarrow> w_unboundedSynchronousIPCCount w > 0"

definition UnboundedSynchronousIPCScope_enter :: "world \<Rightarrow> world" where
  "UnboundedSynchronousIPCScope_enter w =
     w\<lparr>w_unboundedSynchronousIPCCount := w_unboundedSynchronousIPCCount w + 1\<rparr>"

definition UnboundedSynchronousIPCScope_leave :: "world \<Rightarrow> world" where
  "UnboundedSynchronousIPCScope_leave w =
     w\<lparr>w_unboundedSynchronousIPCCount := w_unboundedSynchronousIPCCount w - 1\<rparr>"

definition Connection_new :: connection where
  "Connection_new = \<lparr>m_isValid = True, m_isConnected = False, m_syncRequestID = 0,
     m_onlySendMessagesAsDispatchWhenWaitingForSyncReplyWhenProcessingSuchAMessage = False,
     m_shouldExitOnSyncMessageSendFailure = False,
     m_didCloseOnConnectionWorkQueueCallback = False,
     m_workQueueMessageReceivers = [], m_threadMessageReceivers = [],
     m_inSendSyncCount = 0, m_inDispatchMessageCount = 0,
     m_inDispatchMessageMarkedDispatchWhenWaitingForSyncReplyCount = 0,
     m_inDispatchMessageMarkedToUseFullySynchronousModeForTesting = 0,
     m_fullySynchronousModeIsAllowedForTesting = False, m_ignoreTimeoutsForTesting = False,
     m_didReceiveInvalidMessage = False, m_incomingMessages = [], m_throttlingLevel = None,
     m_dispatchMessagesTimer = False, m_outgoingMessages = [], m_waitingForMessage = None,
     m_shouldWaitForSyncReplies = True, m_shouldWaitForMessages = True,
     m_pendingSyncReplies = [], m_incomingSyncMessageCallbacks = [],
     m_nextIncomingSyncMessageCallbackID = 0, m_wasKilled = False\<rparr>"

subsection \<open>Receivers on work queues and threads\<close>

text \<open>\<^verbatim>\<open>HashMap::add\<close> keeps an entry that is there.\<close>

definition table_add :: "'k \<Rightarrow> 'v \<Rightarrow> ('k \<times> 'v) list \<Rightarrow> ('k \<times> 'v) list" where
  "table_add k v m = (if map_of m k = None then AList.update k v m else m)"

definition addWorkQueueMessageReceiver ::
    "connection_id \<Rightarrow> u8 \<Rightarrow> nat \<Rightarrow> nat \<Rightarrow> u64 \<Rightarrow> world \<Rightarrow> world" where
  "addWorkQueueMessageReceiver c name queue receiver destinationID =
     upd c (\<lambda>cn. cn\<lparr>m_workQueueMessageReceivers :=
       table_add (name, destinationID) (queue, receiver) (m_workQueueMessageReceivers cn)\<rparr>)"

definition removeWorkQueueMessageReceiver :: "connection_id \<Rightarrow> u8 \<Rightarrow> u64 \<Rightarrow> world \<Rightarrow> world" where
  "removeWorkQueueMessageReceiver c name destinationID =
     upd c (\<lambda>cn. cn\<lparr>m_workQueueMessageReceivers :=
       AList.delete (name, destinationID) (m_workQueueMessageReceivers cn)\<rparr>)"

definition addThreadMessageReceiver ::
    "connection_id \<Rightarrow> u8 \<Rightarrow> nat \<Rightarrow> u64 \<Rightarrow> world \<Rightarrow> world" where
  "addThreadMessageReceiver c name receiver destinationID =
     upd c (\<lambda>cn. cn\<lparr>m_threadMessageReceivers :=
       table_add (name, destinationID) receiver (m_threadMessageReceivers cn)\<rparr>)"

definition removeThreadMessageReceiver :: "connection_id \<Rightarrow> u8 \<Rightarrow> u64 \<Rightarrow> world \<Rightarrow> world" where
  "removeThreadMessageReceiver c name destinationID =
     upd c (\<lambda>cn. cn\<lparr>m_threadMessageReceivers :=
       AList.delete (name, destinationID) (m_threadMessageReceivers cn)\<rparr>)"

definition threadMessageReceiver ::
    "environment \<Rightarrow> (receiver_key \<times> nat) list \<Rightarrow> decoder \<Rightarrow> nat option" where
  "threadMessageReceiver E m message =
     (case map_of m (dec_receiverName E message, 0) of
        Some r \<Rightarrow> Some r
      | None \<Rightarrow>
          if dec_destinationID message \<noteq> 0
          then map_of m (dec_receiverName E message, dec_destinationID message)
          else None)"

definition workQueueMessageReceiver ::
    "environment \<Rightarrow> (receiver_key \<times> (nat \<times> nat)) list \<Rightarrow> decoder \<Rightarrow> (nat \<times> nat) option" where
  "workQueueMessageReceiver E m message =
     (case map_of m (dec_receiverName E message, 0) of
        Some r \<Rightarrow> Some r
      | None \<Rightarrow>
          if dec_destinationID message \<noteq> 0
          then map_of m (dec_receiverName E message, dec_destinationID message)
          else None)"

definition dispatchMessageToWorkQueueReceiver ::
    "environment \<Rightarrow> connection_id \<Rightarrow> decoder \<Rightarrow> world \<Rightarrow> bool \<times> world" where
  "dispatchMessageToWorkQueueReceiver E c message w =
     (case workQueueMessageReceiver E (m_workQueueMessageReceivers (conn w c)) message of
        None \<Rightarrow> (False, w)
      | Some (queue, receiver) \<Rightarrow>
          (True, w\<lparr>w_receiverTasks := w_receiverTasks w @ [RT_workQueue queue c receiver message]\<rparr>))"

definition dispatchMessageToThreadReceiver ::
    "environment \<Rightarrow> connection_id \<Rightarrow> decoder \<Rightarrow> world \<Rightarrow> bool \<times> world" where
  "dispatchMessageToThreadReceiver E c message w =
     (case threadMessageReceiver E (m_threadMessageReceivers (conn w c)) message of
        None \<Rightarrow> (False, w)
      | Some receiver \<Rightarrow>
          (True, w\<lparr>w_receiverTasks := w_receiverTasks w @ [RT_thread c receiver message]\<rparr>))"

subsection \<open>Configuration\<close>

definition setOnlySendMessagesAsDispatchWhenWaitingForSyncReplyWhenProcessingSuchAMessage ::
    "connection_id \<Rightarrow> bool \<Rightarrow> world \<Rightarrow> world" where
  "setOnlySendMessagesAsDispatchWhenWaitingForSyncReplyWhenProcessingSuchAMessage c flag =
     upd c (\<lambda>cn. cn\<lparr>m_onlySendMessagesAsDispatchWhenWaitingForSyncReplyWhenProcessingSuchAMessage
       := flag\<rparr>)"

definition setShouldExitOnSyncMessageSendFailure ::
    "connection_id \<Rightarrow> bool \<Rightarrow> world \<Rightarrow> world" where
  "setShouldExitOnSyncMessageSendFailure c flag =
     upd c (\<lambda>cn. cn\<lparr>m_shouldExitOnSyncMessageSendFailure := flag\<rparr>)"

definition setDidCloseOnConnectionWorkQueueCallback ::
    "connection_id \<Rightarrow> bool \<Rightarrow> world \<Rightarrow> world" where
  "setDidCloseOnConnectionWorkQueueCallback c callback =
     upd c (\<lambda>cn. cn\<lparr>m_didCloseOnConnectionWorkQueueCallback := callback\<rparr>)"

definition enableIncomingMessagesThrottling :: "connection_id \<Rightarrow> world \<Rightarrow> world" where
  "enableIncomingMessagesThrottling c w =
     (if m_throttlingLevel (conn w c) \<noteq> None then w
      else upd c (\<lambda>cn. cn\<lparr>m_throttlingLevel := Some 0\<rparr>) w)"

definition installIncomingSyncMessageCallback ::
    "connection_id \<Rightarrow> nat \<Rightarrow> world \<Rightarrow> u64 \<times> world" where
  "installIncomingSyncMessageCallback c callback w =
     (let callbackID = m_nextIncomingSyncMessageCallbackID (conn w c) + 1 in
      (callbackID,
       upd c (\<lambda>cn. cn\<lparr>m_nextIncomingSyncMessageCallbackID := callbackID,
         m_incomingSyncMessageCallbacks :=
           table_add callbackID callback (m_incomingSyncMessageCallbacks cn)\<rparr>) w))"

definition uninstallIncomingSyncMessageCallback :: "connection_id \<Rightarrow> u64 \<Rightarrow> world \<Rightarrow> world" where
  "uninstallIncomingSyncMessageCallback c callbackID =
     upd c (\<lambda>cn. cn\<lparr>m_incomingSyncMessageCallbacks :=
       AList.delete callbackID (m_incomingSyncMessageCallbacks cn)\<rparr>)"

definition hasIncomingSyncMessage :: "environment \<Rightarrow> connection_id \<Rightarrow> world \<Rightarrow> bool" where
  "hasIncomingSyncMessage E c w = list_ex (dec_isSyncMessage E) (m_incomingMessages (conn w c))"

subsection \<open>Incoming messages\<close>

definition maxPendingIncomingMessagesKillingThreshold :: nat where
  "maxPendingIncomingMessagesKillingThreshold = 50000"

definition wakeUpClientRunLoop :: "world \<Rightarrow> world" where
  "wakeUpClientRunLoop w = w\<lparr>w_waitForSyncReplySemaphore := True\<rparr>"

text \<open>\<^verbatim>\<open>kill()\<close> succeeds on a connection that has an XPC connection.\<close>

definition conn_kill :: "environment \<Rightarrow> connection_id \<Rightarrow> world \<Rightarrow> bool \<times> world" where
  "conn_kill E c w =
     (if env_hasXPCConnection E c then (True, upd c (\<lambda>cn. cn\<lparr>m_wasKilled := True\<rparr>) w)
      else (False, w))"

definition enqueueIncomingMessage ::
    "environment \<Rightarrow> connection_id \<Rightarrow> decoder \<Rightarrow> world \<Rightarrow> world" where
  "enqueueIncomingMessage E c incomingMessage w =
     (if m_wasKilled (conn w c) then w
      else if m_throttlingLevel (conn w c) \<noteq> None \<and>
        length (m_incomingMessages (conn w c)) \<ge> maxPendingIncomingMessagesKillingThreshold
      then (case conn_kill E c w of
          (killed, w) \<Rightarrow> if killed then upd c (\<lambda>cn. cn\<lparr>m_incomingMessages := []\<rparr>) w else w)
      else
        (let w = upd c (\<lambda>cn. cn\<lparr>m_incomingMessages := m_incomingMessages cn @ [incomingMessage]\<rparr>) w in
         if m_throttlingLevel (conn w c) \<noteq> None \<and> length (m_incomingMessages (conn w c)) \<noteq> 1 then w
         else dispatch_main (MT_dispatchIncoming c) w))"

text \<open>The loop that moves the pending asynchronous messages before the synchronous one.\<close>

definition moveIncomingMessages :: "connection_id \<Rightarrow> world \<Rightarrow> world" where
  "moveIncomingMessages c w =
     (let messages = m_incomingMessages (conn w c);
          w = w\<lparr>w_messagesToDispatchWhileWaitingForSyncReply :=
                  w_messagesToDispatchWhileWaitingForSyncReply w @ map (Pair c) messages\<rparr> in
      upd c (\<lambda>cn. cn\<lparr>m_incomingMessages := []\<rparr>) w)"

definition sync_processIncomingMessage ::
    "connection_id \<Rightarrow> decoder \<Rightarrow> world \<Rightarrow> bool \<times> world" where
  "sync_processIncomingMessage c message w =
     (let flag = dec_shouldDispatchMessageWhenWaitingForSyncReply message in
      if flag = SD_No \<or> flag = SD_YesDuringUnboundedIPC \<and> \<not> hasOngoingUnboundedSyncIPC w
      then (False, w)
      else
        (let shouldDispatch = c \<notin> set (w_didScheduleDispatchMessagesWorkSet w);
             w = w\<lparr>w_didScheduleDispatchMessagesWorkSet :=
                     List.insert c (w_didScheduleDispatchMessagesWorkSet w)\<rparr>;
             w = (if shouldMaintainOrderingWithAsyncMessages message
                  then moveIncomingMessages c w else w);
             w = w\<lparr>w_messagesToDispatchWhileWaitingForSyncReply :=
                     w_messagesToDispatchWhileWaitingForSyncReply w @ [(c, message)]\<rparr>;
             w = (if shouldDispatch then dispatch_main (MT_dispatchSyncMessages c) w else w) in
         (True, wakeUpClientRunLoop w)))"

text \<open>The scan from the top of the stack: the entry it answers and its index.\<close>

primrec findPendingSyncReply :: "PendingSyncReply list \<Rightarrow> u64 \<Rightarrow> nat \<Rightarrow> nat option" where
  "findPendingSyncReply replies requestID 0 = None"
| "findPendingSyncReply replies requestID (Suc i) =
     (if psr_syncRequestID (replies ! i) \<noteq> requestID then findPendingSyncReply replies requestID i
      else Some i)"

definition processIncomingSyncReply :: "connection_id \<Rightarrow> decoder \<Rightarrow> world \<Rightarrow> world" where
  "processIncomingSyncReply c message w =
     (let replies = m_pendingSyncReplies (conn w c) in
      case findPendingSyncReply replies (dec_destinationID message) (length replies) of
        None \<Rightarrow> w
      | Some i \<Rightarrow>
          (let w = upd c (\<lambda>cn. cn\<lparr>m_pendingSyncReplies := replies[i :=
                     (replies ! i)\<lparr>psr_replyDecoder := Some message, psr_didReceiveReply := True\<rparr>]\<rparr>) w in
           if i + 1 = length replies then wakeUpClientRunLoop w else w))"

text \<open>The section of \<^verbatim>\<open>processIncomingMessage\<close> under the lock of the waiting state.\<close>

definition processIncomingMessage_fallback ::
    "environment \<Rightarrow> connection_id \<Rightarrow> decoder \<Rightarrow> world \<Rightarrow> world" where
  "processIncomingMessage_fallback E c message w =
     (case sync_processIncomingMessage c message w of
        (True, w) \<Rightarrow> w
      | (False, w) \<Rightarrow> enqueueIncomingMessage E c message w)"

definition processIncomingMessage_locked ::
    "environment \<Rightarrow> connection_id \<Rightarrow> decoder \<Rightarrow> world \<Rightarrow> world" where
  "processIncomingMessage_locked E c message w =
     (case m_waitingForMessage (conn w c) of
        None \<Rightarrow> processIncomingMessage_fallback E c message w
      | Some ws \<Rightarrow>
          if ws_decoder ws \<noteq> None then processIncomingMessage_fallback E c message w
          else if ws_messageName ws = dec_messageName message \<and>
            ws_destinationID ws = dec_destinationID message
          then upd c (\<lambda>cn. cn\<lparr>m_waitingForMessage := Some (ws\<lparr>ws_decoder := Some message\<rparr>)\<rparr>) w
          else if DispatchIncomingSyncMessagesWhileWaiting \<in> ws_waitForOptions ws \<and>
            dec_isSyncMessage E message \<and> fst (sync_processIncomingMessage c message w)
          then snd (sync_processIncomingMessage c message w)
          else if InterruptWaitingIfSyncMessageArrives \<in> ws_waitForOptions ws \<and>
            dec_isSyncMessage E message
          then enqueueIncomingMessage E c message
            (upd c (\<lambda>cn. cn\<lparr>m_waitingForMessage :=
               Some (ws\<lparr>ws_messageWaitingInterrupted := True\<rparr>)\<rparr>) w)
          else processIncomingMessage_fallback E c message w)"

text \<open>The callbacks for a synchronous message are handed to their queue and forgotten.\<close>

definition dispatchIncomingSyncMessageCallbacks ::
    "environment \<Rightarrow> connection_id \<Rightarrow> decoder \<Rightarrow> world \<Rightarrow> world" where
  "dispatchIncomingSyncMessageCallbacks E c message w =
     (if dec_isSyncMessage E message
      then upd c (\<lambda>cn. cn\<lparr>m_incomingSyncMessageCallbacks := []\<rparr>)
        (w\<lparr>w_callbackQueue :=
             w_callbackQueue w @ map snd (m_incomingSyncMessageCallbacks (conn w c))\<rparr>)
      else w)"

definition processIncomingMessage ::
    "environment \<Rightarrow> connection_id \<Rightarrow> decoder \<Rightarrow> world \<Rightarrow> world" where
  "processIncomingMessage E c message w =
     (if dec_messageName message = env_SyncMessageReply E then processIncomingSyncReply c message w
      else if \<not> env_isValidReceiverKey E (dec_receiverName E message, dec_destinationID message)
      then dispatch_main (MT_invalidMessage c (dec_messageName message)) w
      else case dispatchMessageToWorkQueueReceiver E c message w of
        (True, w) \<Rightarrow> w
      | (False, w) \<Rightarrow> (case dispatchMessageToThreadReceiver E c message w of
        (True, w) \<Rightarrow> w
      | (False, w) \<Rightarrow>
          processIncomingMessage_locked E c message
            (dispatchIncomingSyncMessageCallbacks E c message w)))"

subsection \<open>Sending\<close>

definition conn_invalidate :: "connection_id \<Rightarrow> world \<Rightarrow> world" where
  "conn_invalidate c w =
     (if \<not> m_isValid (conn w c) then w
      else dispatch_queue (QT_platformInvalidate c) (upd c (\<lambda>cn. cn\<lparr>m_isValid := False\<rparr>) w))"

definition markCurrentlyDispatchedMessageAsInvalid :: "connection_id \<Rightarrow> world \<Rightarrow> world" where
  "markCurrentlyDispatchedMessageAsInvalid c =
     upd c (\<lambda>cn. cn\<lparr>m_didReceiveInvalidMessage := True\<rparr>)"

definition createSyncMessageEncoder ::
    "environment \<Rightarrow> connection_id \<Rightarrow> u16 \<Rightarrow> u64 \<Rightarrow> world \<Rightarrow> (encoder \<times> u64 \<times> world) option" where
  "createSyncMessageEncoder E c messageName destinationID w = do {
     e \<leftarrow> Encoder (env_alloc E) messageName destinationID;
     let w = upd c (\<lambda>cn. cn\<lparr>m_syncRequestID := m_syncRequestID cn + 1\<rparr>) w;
     let syncRequestID = m_syncRequestID (conn w c);
     e \<leftarrow> encode_u64 e syncRequestID;
     Some (e, syncRequestID, w)
   }"

text \<open>
  \<^verbatim>\<open>sendMessage\<close> for a message that is not wrapped: a synchronous message, a reply, or any message
  outside the fully synchronous mode.
\<close>

definition sendMessage_post ::
    "connection_id \<Rightarrow> encoder \<Rightarrow> SendOption set \<Rightarrow> world \<Rightarrow> bool \<times> world" where
  "sendMessage_post c e sendOptions w =
     (if \<not> m_isValid (conn w c) then (False, w)
      else
        (let e = (if DispatchMessageEvenWhenWaitingForSyncReply \<in> sendOptions \<and>
                    (\<not> m_onlySendMessagesAsDispatchWhenWaitingForSyncReplyWhenProcessingSuchAMessage
                         (conn w c) \<or>
                     m_inDispatchMessageMarkedDispatchWhenWaitingForSyncReplyCount (conn w c) \<noteq> 0)
                  then setShouldDispatchMessageWhenWaitingForSyncReply e SD_Yes
                  else if DispatchMessageEvenWhenWaitingForUnboundedSyncReply \<in> sendOptions
                  then setShouldDispatchMessageWhenWaitingForSyncReply e SD_YesDuringUnboundedIPC
                  else e);
             w = upd c (\<lambda>cn. cn\<lparr>m_outgoingMessages := m_outgoingMessages cn @ [e]\<rparr>) w in
         (True, dispatch_queue (QT_sendOutgoingMessages c) w)))"

text \<open>The reply's receiver name is \<^verbatim>\<open>IPC\<close>, so it is never wrapped.\<close>

definition sendSyncReply :: "connection_id \<Rightarrow> encoder \<Rightarrow> world \<Rightarrow> world" where
  "sendSyncReply c e w = snd (sendMessage_post c e {} w)"

fun sendOutgoingLoop :: "(encoder \<Rightarrow> bool) \<Rightarrow> encoder list \<Rightarrow> encoder list" where
  "sendOutgoingLoop send [] = []"
| "sendOutgoingLoop send (e # es) = (if \<not> send e then es else sendOutgoingLoop send es)"

definition canSendOutgoingMessages :: "environment \<Rightarrow> connection_id \<Rightarrow> world \<Rightarrow> bool" where
  "canSendOutgoingMessages E c w \<longleftrightarrow>
     m_isConnected (conn w c) \<and> env_platformCanSendOutgoingMessages E c"

definition sendOutgoingMessages :: "environment \<Rightarrow> connection_id \<Rightarrow> world \<Rightarrow> world" where
  "sendOutgoingMessages E c w =
     (if \<not> canSendOutgoingMessages E c w then w
      else upd c (\<lambda>cn. cn\<lparr>m_outgoingMessages :=
        sendOutgoingLoop (env_sendOutgoingMessage E c) (m_outgoingMessages cn)\<rparr>) w)"

subsection \<open>Asynchronous replies\<close>

definition nextAsyncReplyHandlerID :: "world \<Rightarrow> u64 \<times> world" where
  "nextAsyncReplyHandlerID w =
     (let identifier = w_nextAsyncReplyHandlerID w + 1 in
      (identifier, w\<lparr>w_nextAsyncReplyHandlerID := identifier\<rparr>))"

definition addAsyncReplyHandler :: "connection_id \<Rightarrow> u64 \<Rightarrow> nat \<Rightarrow> world \<Rightarrow> world" where
  "addAsyncReplyHandler c identifier handler w =
     (let handlers = (case map_of (w_asyncReplyHandlerMap w) c of None \<Rightarrow> [] | Some hs \<Rightarrow> hs) in
      w\<lparr>w_asyncReplyHandlerMap :=
          AList.update c (table_add identifier handler handlers) (w_asyncReplyHandlerMap w)\<rparr>)"

text \<open>The completion handler that \<^verbatim>\<open>sendWithAsyncReply\<close> registers.\<close>

definition callCompletionHandler ::
    "environment \<Rightarrow> nat \<Rightarrow> decoder \<Rightarrow> world \<Rightarrow> (decoder \<times> world) option" where
  "callCompletionHandler E handler d w =
     (if dec_isValid d then env_callReply E handler d w
      else do { w \<leftarrow> env_cancelReply E handler w; Some (d, w) })"

primrec cancelAll :: "environment \<Rightarrow> nat list \<Rightarrow> world \<Rightarrow> world option" where
  "cancelAll E [] w = Some w"
| "cancelAll E (handler # handlers) w =
     do { w \<leftarrow> env_cancelReply E handler w; cancelAll E handlers w }"

definition clearAsyncReplyHandlers :: "environment \<Rightarrow> connection_id \<Rightarrow> world \<Rightarrow> world option" where
  "clearAsyncReplyHandlers E c w =
     (let handlers = (case map_of (w_asyncReplyHandlerMap w) c of None \<Rightarrow> [] | Some hs \<Rightarrow> hs);
          w = w\<lparr>w_asyncReplyHandlerMap := AList.delete c (w_asyncReplyHandlerMap w)\<rparr> in
      cancelAll E (map snd handlers) w)"

definition takeAsyncReplyHandler ::
    "environment \<Rightarrow> connection_id \<Rightarrow> u64 \<Rightarrow> world \<Rightarrow> nat option \<times> world" where
  "takeAsyncReplyHandler E c identifier w =
     (case map_of (w_asyncReplyHandlerMap w) c of
        None \<Rightarrow> (None, w)
      | Some handlers \<Rightarrow>
          if \<not> env_isValidHandlerKey E identifier
          then (None, markCurrentlyDispatchedMessageAsInvalid c w)
          else (map_of handlers identifier,
                w\<lparr>w_asyncReplyHandlerMap :=
                    AList.update c (AList.delete identifier handlers) (w_asyncReplyHandlerMap w)\<rparr>))"

subsection \<open>Dispatching\<close>

text \<open>
  \<open>dispatchMessages_with\<close>, \<open>dispatchSyncMessage_with\<close> and \<open>dispatchMessage_with\<close> are the bodies
  of the methods that call each other; \<open>dispatchAll\<close> closes the recursion, with a bound on how
  deep wrapped messages are dispatched inside one another.
\<close>

type_synonym dispatcher = "(connection_id \<times> decoder) list \<Rightarrow> world \<Rightarrow> world option"

definition dispatchMessages_with :: "dispatcher \<Rightarrow> world \<Rightarrow> world option" where
  "dispatchMessages_with dispatch w =
     (let messages = w_messagesToDispatchWhileWaitingForSyncReply w in
      dispatch messages (w\<lparr>w_messagesToDispatchWhileWaitingForSyncReply := []\<rparr>))"

definition dispatchSyncMessage_with ::
    "environment \<Rightarrow> dispatcher \<Rightarrow> connection_id \<Rightarrow> decoder \<Rightarrow> world \<Rightarrow> (decoder \<times> world) option" where
  "dispatchSyncMessage_with E dispatch c d w =
     (case decode_u64 d of
        (None, d) \<Rightarrow> Some (markInvalid d, w)
      | (Some syncRequestID, d) \<Rightarrow>
          if syncRequestID = 0 then Some (markInvalid d, w)
          else do {
            replyEncoder \<leftarrow> Encoder (env_alloc E) (env_SyncMessageReply E) syncRequestID;
            if dec_messageName d = env_WrappedAsyncMessageForTesting E
            then
              (if \<not> m_fullySynchronousModeIsAllowedForTesting (conn w c) then Some (markInvalid d, w)
               else case unwrapForTesting (env_isValidName E) (env_tryFastMalloc E) d of
                 (None, d) \<Rightarrow> None
               | (Some unwrappedDecoder, d) \<Rightarrow> do {
                   let w = processIncomingMessage E c unwrappedDecoder w;
                   w \<leftarrow> dispatchMessages_with dispatch w;
                   Some (d, sendSyncReply c replyEncoder w)
                 })
            else do {
              (d, reply, w) \<leftarrow> env_didReceiveSyncMessage E c d replyEncoder w;
              Some (d, case reply of None \<Rightarrow> w | Some e \<Rightarrow> sendSyncReply c e w)
            }
          })"

definition dispatchMessage_decoder ::
    "environment \<Rightarrow> connection_id \<Rightarrow> decoder \<Rightarrow> world \<Rightarrow> (decoder \<times> world) option" where
  "dispatchMessage_decoder E c d w =
     (if \<not> m_isValid (conn w c) then None
      else if dec_receiverName E d = env_ReceiverName_AsyncReply E
      then (case decode_u64 d of
          (None, d) \<Rightarrow> Some (d, w)
        | (Some listenerID, d) \<Rightarrow> (case takeAsyncReplyHandler E c listenerID w of
            (None, w) \<Rightarrow> Some (d, w)
          | (Some handler, w) \<Rightarrow> callCompletionHandler E handler d w))
      else env_didReceiveMessage E c d w)"

definition isDispatchingMessageWhileWaitingForSyncReply :: "decoder \<Rightarrow> world \<Rightarrow> bool" where
  "isDispatchingMessageWhileWaitingForSyncReply message w \<longleftrightarrow>
     dec_shouldDispatchMessageWhenWaitingForSyncReply message = SD_Yes \<or>
     dec_shouldDispatchMessageWhenWaitingForSyncReply message = SD_YesDuringUnboundedIPC \<and>
     hasOngoingUnboundedSyncIPC w"

definition beginDispatch :: "bool \<Rightarrow> bool \<Rightarrow> connection \<Rightarrow> connection" where
  "beginDispatch fullySync marked cn =
     cn\<lparr>m_inDispatchMessageMarkedToUseFullySynchronousModeForTesting :=
          m_inDispatchMessageMarkedToUseFullySynchronousModeForTesting cn
            + (if fullySync then 1 else 0),
        m_inDispatchMessageCount := m_inDispatchMessageCount cn + 1,
        m_inDispatchMessageMarkedDispatchWhenWaitingForSyncReplyCount :=
          m_inDispatchMessageMarkedDispatchWhenWaitingForSyncReplyCount cn + (if marked then 1 else 0),
        m_didReceiveInvalidMessage := False\<rparr>"

definition endDispatch :: "bool \<Rightarrow> bool \<Rightarrow> decoder \<Rightarrow> connection \<Rightarrow> connection" where
  "endDispatch fullySync marked message cn =
     cn\<lparr>m_didReceiveInvalidMessage := (m_didReceiveInvalidMessage cn \<or> \<not> dec_isValid message),
        m_inDispatchMessageCount := m_inDispatchMessageCount cn - 1,
        m_inDispatchMessageMarkedDispatchWhenWaitingForSyncReplyCount :=
          m_inDispatchMessageMarkedDispatchWhenWaitingForSyncReplyCount cn - (if marked then 1 else 0),
        m_inDispatchMessageMarkedToUseFullySynchronousModeForTesting :=
          m_inDispatchMessageMarkedToUseFullySynchronousModeForTesting cn
            - (if fullySync then 1 else 0)\<rparr>"

definition dispatchMessage_with ::
    "environment \<Rightarrow> dispatcher \<Rightarrow> connection_id \<Rightarrow> decoder \<Rightarrow> world \<Rightarrow> world option" where
  "dispatchMessage_with E dispatch c message w =
     (if \<not> m_isValid (conn w c) then Some w
      else case dispatchMessageToWorkQueueReceiver E c message w of
        (True, w) \<Rightarrow> Some w
      | (False, w) \<Rightarrow>
          if shouldUseFullySynchronousModeForTesting message \<and>
             \<not> m_fullySynchronousModeIsAllowedForTesting (conn w c)
          then env_didReceiveInvalidMessage E c (dec_messageName message) w
          else do {
            let marked = isDispatchingMessageWhileWaitingForSyncReply message w;
            let oldDidReceiveInvalidMessage = m_didReceiveInvalidMessage (conn w c);
            let w = upd c (beginDispatch (shouldUseFullySynchronousModeForTesting message) marked) w;
            (d, w) \<leftarrow> (if dec_isSyncMessage E message
                       then dispatchSyncMessage_with E dispatch c message w
                       else dispatchMessage_decoder E c message w);
            let w = upd c (endDispatch (shouldUseFullySynchronousModeForTesting d) marked d) w;
            w \<leftarrow> (if m_didReceiveInvalidMessage (conn w c) \<and> m_isValid (conn w c)
                  then env_didReceiveInvalidMessage E c (dec_messageName d) w else Some w);
            Some (upd c (\<lambda>cn. cn\<lparr>m_didReceiveInvalidMessage := oldDidReceiveInvalidMessage\<rparr>) w)
          })"

fun dispatchAll :: "environment \<Rightarrow> nat \<Rightarrow> dispatcher" where
  "dispatchAll E n [] w = Some w"
| "dispatchAll E 0 (m # ms) w = None"
| "dispatchAll E (Suc n) (m # ms) w = do {
     w \<leftarrow> dispatchMessage_with E (\<lambda>ms w. dispatchAll E n ms w) (fst m) (snd m) w;
     dispatchAll E (Suc n) ms w
   }"

definition conn_dispatchMessage ::
    "environment \<Rightarrow> nat \<Rightarrow> connection_id \<Rightarrow> decoder \<Rightarrow> world \<Rightarrow> world option" where
  "conn_dispatchMessage E n = dispatchMessage_with E (dispatchAll E n)"

definition conn_dispatchSyncMessage ::
    "environment \<Rightarrow> nat \<Rightarrow> connection_id \<Rightarrow> decoder \<Rightarrow> world \<Rightarrow> (decoder \<times> world) option" where
  "conn_dispatchSyncMessage E n = dispatchSyncMessage_with E (dispatchAll E n)"

definition sync_dispatchMessages :: "environment \<Rightarrow> nat \<Rightarrow> world \<Rightarrow> world option" where
  "sync_dispatchMessages E n = dispatchMessages_with (dispatchAll E n)"

text \<open>The loop that dispatches the messages of one connection and keeps the others.\<close>

primrec dispatchMessagesOf ::
    "environment \<Rightarrow> nat \<Rightarrow> connection_id \<Rightarrow> (connection_id \<times> decoder) list \<Rightarrow>
     (connection_id \<times> decoder) list \<Rightarrow> world \<Rightarrow>
     ((connection_id \<times> decoder) list \<times> world) option" where
  "dispatchMessagesOf E n c [] messagesToPutBack w = Some (messagesToPutBack, w)"
| "dispatchMessagesOf E n c (m # ms) messagesToPutBack w =
     (if fst m = c
      then do { w \<leftarrow> conn_dispatchMessage E n c (snd m) w; dispatchMessagesOf E n c ms messagesToPutBack w }
      else dispatchMessagesOf E n c ms (messagesToPutBack @ [m]) w)"

definition dispatchMessagesAndResetDidScheduleDispatchMessagesForConnection ::
    "environment \<Rightarrow> nat \<Rightarrow> connection_id \<Rightarrow> world \<Rightarrow> world option" where
  "dispatchMessagesAndResetDidScheduleDispatchMessagesForConnection E n c w = do {
     let messages = w_messagesToDispatchWhileWaitingForSyncReply w;
     let w = w\<lparr>w_didScheduleDispatchMessagesWorkSet :=
                 removeAll c (w_didScheduleDispatchMessagesWorkSet w),
               w_messagesToDispatchWhileWaitingForSyncReply := []\<rparr>;
     (messagesToPutBack, w) \<leftarrow> dispatchMessagesOf E n c messages [] w;
     Some (if messagesToPutBack \<noteq> []
           then w\<lparr>w_messagesToDispatchWhileWaitingForSyncReply :=
                    messagesToPutBack @ w_messagesToDispatchWhileWaitingForSyncReply w\<rparr>
           else w)
   }"

subsection \<open>Throttling and the main run loop\<close>

definition maxIncomingMessagesDispatchingBatchSize :: nat where
  "maxIncomingMessagesDispatchingBatchSize = 600"

definition maxThrottlingLevel :: nat where
  "maxThrottlingLevel = 9"

text \<open>The number of messages to process and the new throttling level.\<close>

definition numberOfMessagesToProcess :: "nat \<Rightarrow> nat \<Rightarrow> nat \<times> nat" where
  "numberOfMessagesToProcess throttlingLevel totalMessages =
     (let batchSize = maxIncomingMessagesDispatchingBatchSize div (throttlingLevel + 1);
          level = (if totalMessages > maxIncomingMessagesDispatchingBatchSize
                   then min (throttlingLevel + 1) maxThrottlingLevel
                   else if throttlingLevel \<noteq> 0 then throttlingLevel - 1 else throttlingLevel) in
      (min totalMessages batchSize, level))"

definition scheduleMessagesDispatch :: "connection_id \<Rightarrow> world \<Rightarrow> world" where
  "scheduleMessagesDispatch c w =
     (if m_throttlingLevel (conn w c) \<noteq> Some 0
      then upd c (\<lambda>cn. cn\<lparr>m_dispatchMessagesTimer := True\<rparr>) w
      else dispatch_main (MT_throttledDispatch c) w)"

definition dispatchOneIncomingMessage ::
    "environment \<Rightarrow> nat \<Rightarrow> connection_id \<Rightarrow> world \<Rightarrow> world option" where
  "dispatchOneIncomingMessage E n c w =
     (case m_incomingMessages (conn w c) of
        [] \<Rightarrow> Some w
      | message # rest \<Rightarrow>
          conn_dispatchMessage E n c message (upd c (\<lambda>cn. cn\<lparr>m_incomingMessages := rest\<rparr>) w))"

text \<open>The loop over the rest of the batch: it ends early on an empty queue.\<close>

primrec dispatchBatch :: "environment \<Rightarrow> nat \<Rightarrow> connection_id \<Rightarrow> nat \<Rightarrow> world \<Rightarrow> world option" where
  "dispatchBatch E n c 0 w = Some w"
| "dispatchBatch E n c (Suc k) w =
     (case m_incomingMessages (conn w c) of
        [] \<Rightarrow> Some w
      | message # rest \<Rightarrow> do {
          w \<leftarrow> conn_dispatchMessage E n c message (upd c (\<lambda>cn. cn\<lparr>m_incomingMessages := rest\<rparr>) w);
          dispatchBatch E n c k w
        })"

definition dispatchIncomingMessages ::
    "environment \<Rightarrow> nat \<Rightarrow> connection_id \<Rightarrow> world \<Rightarrow> world option" where
  "dispatchIncomingMessages E n c w =
     (case m_incomingMessages (conn w c) of
        [] \<Rightarrow> Some w
      | message # rest \<Rightarrow>
          (case m_throttlingLevel (conn w c) of
             None \<Rightarrow> None
           | Some throttlingLevel \<Rightarrow> do {
               let (messagesToProcess, level) =
                 numberOfMessagesToProcess throttlingLevel (length rest);
               let w = upd c (\<lambda>cn. cn\<lparr>m_incomingMessages := rest, m_throttlingLevel := Some level\<rparr>) w;
               let w = (if rest \<noteq> [] then scheduleMessagesDispatch c w else w);
               w \<leftarrow> conn_dispatchMessage E n c message w;
               dispatchBatch E n c (messagesToProcess - 1) w
             }))"

definition dispatchDidReceiveInvalidMessage ::
    "environment \<Rightarrow> connection_id \<Rightarrow> u16 \<Rightarrow> world \<Rightarrow> world option" where
  "dispatchDidReceiveInvalidMessage E c messageName w =
     (if \<not> m_isValid (conn w c) then Some w
      else env_didReceiveInvalidMessage E c messageName w)"

subsection \<open>Closing\<close>

definition platformInvalidate :: "connection_id \<Rightarrow> world \<Rightarrow> world" where
  "platformInvalidate c = upd c (\<lambda>cn. cn\<lparr>m_isConnected := False\<rparr>)"

definition postConnectionDidCloseOnConnectionWorkQueue :: "connection_id \<Rightarrow> world \<Rightarrow> world" where
  "postConnectionDidCloseOnConnectionWorkQueue c = dispatch_queue (QT_connectionDidClose c)"

text \<open>The two sections under locks, which release the threads that wait.\<close>

definition stopWaiting :: "connection_id \<Rightarrow> world \<Rightarrow> world" where
  "stopWaiting c w =
     (let w = upd c (\<lambda>cn. cn\<lparr>m_shouldWaitForSyncReplies := False\<rparr>) w;
          w = (if m_pendingSyncReplies (conn w c) \<noteq> [] then wakeUpClientRunLoop w else w) in
      upd c (\<lambda>cn. cn\<lparr>m_shouldWaitForMessages := False,
        m_waitingForMessage := map_option (\<lambda>ws. ws\<lparr>ws_messageWaitingInterrupted := True\<rparr>)
          (m_waitingForMessage cn)\<rparr>) w)"

definition connectionDidClose :: "environment \<Rightarrow> connection_id \<Rightarrow> world \<Rightarrow> world option" where
  "connectionDidClose E c w = do {
     let w = platformInvalidate c w;
     let w = stopWaiting c w;
     w \<leftarrow> (if m_didCloseOnConnectionWorkQueueCallback (conn w c)
           then env_didCloseOnConnectionWorkQueue E c w else Some w);
     Some (dispatch_main (MT_didClose c) w)
   }"

text \<open>The task that \<^verbatim>\<open>connectionDidClose\<close> posts to the main run loop.\<close>

definition didCloseOnMainRunLoop :: "environment \<Rightarrow> connection_id \<Rightarrow> world \<Rightarrow> world option" where
  "didCloseOnMainRunLoop E c w =
     (if \<not> m_isValid (conn w c) then Some w
      else do {
        let w = upd c (\<lambda>cn. cn\<lparr>m_isValid := False\<rparr>) w;
        w \<leftarrow> env_didClose E c w;
        clearAsyncReplyHandlers E c w
      })"

subsection \<open>Running tasks\<close>

definition runMainTask :: "environment \<Rightarrow> nat \<Rightarrow> main_task \<Rightarrow> world \<Rightarrow> world option" where
  "runMainTask E n t w =
     (case t of
        MT_dispatchIncoming c \<Rightarrow>
          if m_throttlingLevel (conn w c) \<noteq> None then dispatchIncomingMessages E n c w
          else dispatchOneIncomingMessage E n c w
      | MT_throttledDispatch c \<Rightarrow> dispatchIncomingMessages E n c w
      | MT_dispatchSyncMessages c \<Rightarrow>
          dispatchMessagesAndResetDidScheduleDispatchMessagesForConnection E n c w
      | MT_invalidMessage c messageName \<Rightarrow> dispatchDidReceiveInvalidMessage E c messageName w
      | MT_didClose c \<Rightarrow> didCloseOnMainRunLoop E c w)"

definition runQueueTask :: "environment \<Rightarrow> queue_task \<Rightarrow> world \<Rightarrow> world option" where
  "runQueueTask E t w =
     (case t of
        QT_sendOutgoingMessages c \<Rightarrow> Some (sendOutgoingMessages E c w)
      | QT_platformInvalidate c \<Rightarrow> Some (platformInvalidate c w)
      | QT_connectionDidClose c \<Rightarrow> connectionDidClose E c w)"

definition dispatchWorkQueueMessageReceiverMessage ::
    "environment \<Rightarrow> nat \<Rightarrow> connection_id \<Rightarrow> decoder \<Rightarrow> world \<Rightarrow> (decoder \<times> world) option" where
  "dispatchWorkQueueMessageReceiverMessage E receiver c d w =
     (if \<not> dec_isSyncMessage E d then env_receiverDidReceiveMessage E receiver c d w
      else case decode_u64 d of
        (None, d) \<Rightarrow> Some (markInvalid d, w)
      | (Some syncRequestID, d) \<Rightarrow>
          if syncRequestID = 0 then Some (markInvalid d, w)
          else do {
            replyEncoder \<leftarrow> Encoder (env_alloc E) (env_SyncMessageReply E) syncRequestID;
            (d, reply, w) \<leftarrow> env_receiverDidReceiveSyncMessage E receiver c d replyEncoder w;
            Some (d, case reply of None \<Rightarrow> w | Some e \<Rightarrow> sendSyncReply c e w)
          })"

definition dispatchThreadMessageReceiverMessage ::
    "environment \<Rightarrow> nat \<Rightarrow> connection_id \<Rightarrow> decoder \<Rightarrow> world \<Rightarrow> (decoder \<times> world) option" where
  "dispatchThreadMessageReceiverMessage E receiver c d w =
     (if \<not> dec_isSyncMessage E d then env_receiverDidReceiveMessage E receiver c d w
      else case decode_u64 d of
        (None, d) \<Rightarrow> Some (markInvalid d, w)
      | (Some syncRequestID, d) \<Rightarrow>
          if syncRequestID = 0 then Some (markInvalid d, w)
          else do {
            replyEncoder \<leftarrow> Encoder (env_alloc E) (env_SyncMessageReply E) syncRequestID;
            (d, reply, w) \<leftarrow> env_receiverDidReceiveSyncMessage E receiver c d replyEncoder w;
            Some (d, case reply of None \<Rightarrow> w | Some e \<Rightarrow> sendSyncReply c e w)
          })"

definition runReceiverTask :: "environment \<Rightarrow> receiver_task \<Rightarrow> world \<Rightarrow> world option" where
  "runReceiverTask E t w =
     (case t of
        RT_workQueue queue c receiver d \<Rightarrow>
          map_option snd (dispatchWorkQueueMessageReceiverMessage E receiver c d w)
      | RT_thread c receiver d \<Rightarrow>
          map_option snd (dispatchThreadMessageReceiverMessage E receiver c d w))"

text \<open>The timer of the throttler fires.\<close>

definition fireDispatchMessagesTimer ::
    "environment \<Rightarrow> nat \<Rightarrow> connection_id \<Rightarrow> world \<Rightarrow> world option" where
  "fireDispatchMessagesTimer E n c w =
     dispatchIncomingMessages E n c (upd c (\<lambda>cn. cn\<lparr>m_dispatchMessagesTimer := False\<rparr>) w)"

definition runMainRunLoop :: "environment \<Rightarrow> nat \<Rightarrow> world \<Rightarrow> world option" where
  "runMainRunLoop E n w =
     (case w_mainRunLoop w of
        [] \<Rightarrow> Some w
      | t # ts \<Rightarrow> runMainTask E n t (w\<lparr>w_mainRunLoop := ts\<rparr>))"

definition runConnectionQueue :: "environment \<Rightarrow> world \<Rightarrow> world option" where
  "runConnectionQueue E w =
     (case w_connectionQueue w of
        [] \<Rightarrow> Some w
      | t # ts \<Rightarrow> runQueueTask E t (w\<lparr>w_connectionQueue := ts\<rparr>))"

subsection \<open>Waiting\<close>

text \<open>
  What the other threads do while the main thread waits: the connection's thread receives
  messages and runs the tasks of its queue. One element of the list of wake-ups is what happens
  up to a point at which the waiting thread could go on, and whether its deadline has passed.
  With no wake-up left the thread stays blocked.
\<close>

datatype thread_action =
    TA_receive connection_id decoder
  | TA_runConnectionQueue

type_synonym wakeups = "(thread_action list \<times> bool) list"

primrec runThreadActions :: "environment \<Rightarrow> thread_action list \<Rightarrow> world \<Rightarrow> world option" where
  "runThreadActions E [] w = Some w"
| "runThreadActions E (a # as) w = do {
     w \<leftarrow> (case a of
           TA_receive c message \<Rightarrow> Some (processIncomingMessage E c message w)
         | TA_runConnectionQueue \<Rightarrow> runConnectionQueue E w);
     runThreadActions E as w
   }"

text \<open>A timeout is a number of seconds, \<^term>\<open>None\<close> for infinity.\<close>

definition timeoutRespectingIgnoreTimeoutsForTesting :: "connection \<Rightarrow> nat option \<Rightarrow> nat option" where
  "timeoutRespectingIgnoreTimeoutsForTesting cn timeout =
     (if m_ignoreTimeoutsForTesting cn then None else timeout)"

fun sync_wait ::
    "environment \<Rightarrow> nat option \<Rightarrow> wakeups \<Rightarrow> world \<Rightarrow> (bool \<times> wakeups \<times> world) option" where
  "sync_wait E timeout [] w = None"
| "sync_wait E timeout ((actions, late) # wakes) w = do {
     w \<leftarrow> runThreadActions E actions w;
     if w_waitForSyncReplySemaphore w
     then Some (True, wakes, w\<lparr>w_waitForSyncReplySemaphore := False\<rparr>)
     else if late \<and> timeout \<noteq> None then Some (False, wakes, w)
     else sync_wait E timeout wakes w
   }"

lemma sync_wait_shorter:
  "sync_wait E timeout wakes w = Some (b, wakes', w') \<Longrightarrow> length wakes' < length wakes"
  by (induction E timeout wakes w rule: sync_wait.induct)
     (auto split: if_splits Option.bind_splits)

function waitForSyncReply_loop ::
    "environment \<Rightarrow> nat \<Rightarrow> connection_id \<Rightarrow> nat option \<Rightarrow> wakeups \<Rightarrow> world \<Rightarrow>
     (decoder option \<times> wakeups \<times> world) option" where
  "waitForSyncReply_loop E n c timeout wakes w =
     (case sync_dispatchMessages E n w of
        None \<Rightarrow> None
      | Some w \<Rightarrow>
          (let replies = m_pendingSyncReplies (conn w c) in
           if replies = [] then None
           else if psr_didReceiveReply (last replies) \<or> \<not> m_shouldWaitForSyncReplies (conn w c)
           then Some (psr_replyDecoder (last replies), wakes,
             upd c (\<lambda>cn. cn\<lparr>m_pendingSyncReplies :=
               butlast replies @ [(last replies)\<lparr>psr_replyDecoder := None\<rparr>]\<rparr>) w)
           else if \<not> m_isValid (conn w c) then Some (None, wakes, w)
           else case sync_wait E timeout wakes w of
             None \<Rightarrow> None
           | Some (signalled, wakes, w) \<Rightarrow>
               if signalled then waitForSyncReply_loop E n c timeout wakes w
               else Some (None, wakes, w)))"
  by pat_completeness auto
termination
  by (relation "measure (\<lambda>(E, n, c, timeout, wakes, w). length wakes)")
     (auto dest: sync_wait_shorter)

declare waitForSyncReply_loop.simps [simp del]

definition waitForSyncReply ::
    "environment \<Rightarrow> nat \<Rightarrow> connection_id \<Rightarrow> nat option \<Rightarrow> wakeups \<Rightarrow> world \<Rightarrow>
     (decoder option \<times> wakeups \<times> world) option" where
  "waitForSyncReply E n c timeout wakes w =
     waitForSyncReply_loop E n c
       (timeoutRespectingIgnoreTimeoutsForTesting (conn w c) timeout) wakes w"

datatype sync_result =
    SR_reply decoder
  | SR_failed
  | SR_exit

definition didFailToSendSyncMessage :: "connection_id \<Rightarrow> world \<Rightarrow> sync_result" where
  "didFailToSendSyncMessage c w =
     (if \<not> m_shouldExitOnSyncMessageSendFailure (conn w c) then SR_failed else SR_exit)"

text \<open>The message is synchronous, so \<^verbatim>\<open>sendMessage\<close> does not wrap it.\<close>

definition sendSyncMessage ::
    "environment \<Rightarrow> nat \<Rightarrow> connection_id \<Rightarrow> u64 \<Rightarrow> encoder \<Rightarrow> nat option \<Rightarrow> SendSyncOption set \<Rightarrow>
     wakeups \<Rightarrow> world \<Rightarrow> (sync_result \<times> wakeups \<times> world) option" where
  "sendSyncMessage E n c syncRequestID e timeout sendSyncOptions wakes w =
     (if \<not> m_isValid (conn w c) then Some (didFailToSendSyncMessage c w, wakes, w)
      else if \<not> m_shouldWaitForSyncReplies (conn w c)
      then Some (didFailToSendSyncMessage c w, wakes, w)
      else do {
        let w = upd c (\<lambda>cn. cn\<lparr>m_pendingSyncReplies := m_pendingSyncReplies cn @
                  [\<lparr>psr_syncRequestID = syncRequestID, psr_replyDecoder = None,
                    psr_didReceiveReply = False\<rparr>],
                  m_inSendSyncCount := m_inSendSyncCount cn + 1\<rparr>) w;
        let sendOptions = {DispatchMessageEvenWhenWaitingForSyncReply} \<union>
              (if ForceDispatchWhenDestinationIsWaitingForUnboundedSyncReply \<in> sendSyncOptions
               then {DispatchMessageEvenWhenWaitingForUnboundedSyncReply} else {});
        let e = (if SSO_MaintainOrderingWithAsyncMessages \<in> sendSyncOptions
                 then setShouldMaintainOrderingWithAsyncMessages e else e);
        let w = snd (sendMessage_post c e sendOptions w);
        (reply, wakes, w) \<leftarrow> waitForSyncReply E n c timeout wakes w;
        let w = upd c (\<lambda>cn. cn\<lparr>m_inSendSyncCount := m_inSendSyncCount cn - 1,
                  m_pendingSyncReplies := butlast (m_pendingSyncReplies cn)\<rparr>) w;
        Some (case reply of None \<Rightarrow> didFailToSendSyncMessage c w | Some d \<Rightarrow> SR_reply d, wakes, w)
      })"

definition sendMessage ::
    "environment \<Rightarrow> nat \<Rightarrow> bool \<Rightarrow> connection_id \<Rightarrow> encoder \<Rightarrow> SendOption set \<Rightarrow> wakeups \<Rightarrow> world \<Rightarrow>
     (bool \<times> wakeups \<times> world) option" where
  "sendMessage E n isMainThread c e sendOptions wakes w =
     (if \<not> m_isValid (conn w c) then Some (False, wakes, w)
      else if isMainThread \<and>
        m_inDispatchMessageMarkedToUseFullySynchronousModeForTesting (conn w c) \<noteq> 0 \<and>
        \<not> env_isSync E (enc_messageName e) \<and>
        env_receiverName E (enc_messageName e) \<noteq> env_ReceiverName_IPC E \<and>
        IgnoreFullySynchronousMode \<notin> sendOptions
      then do {
        (wrappedMessage, syncRequestID, w) \<leftarrow>
          createSyncMessageEncoder E c (env_WrappedAsyncMessageForTesting E) (enc_destinationID e) w;
        let wrappedMessage = setFullySynchronousModeForTesting wrappedMessage;
        wrappedMessage \<leftarrow> wrapForTesting wrappedMessage e;
        (r, wakes, w) \<leftarrow> sendSyncMessage E n c syncRequestID wrappedMessage None {} wakes w;
        (case r of SR_reply d \<Rightarrow> Some (True, wakes, w)
         | SR_failed \<Rightarrow> Some (False, wakes, w) | SR_exit \<Rightarrow> None)
      }
      else case sendMessage_post c e sendOptions w of (sent, w) \<Rightarrow> Some (sent, wakes, w))"

text \<open>The first message of the queue with the name and the destination, and the queue without it.\<close>

fun takeIncomingMessage :: "u16 \<Rightarrow> u64 \<Rightarrow> decoder list \<Rightarrow> (decoder \<times> decoder list) option" where
  "takeIncomingMessage name dest [] = None"
| "takeIncomingMessage name dest (d # ds) =
     (if dec_messageName d = name \<and> dec_destinationID d = dest then Some (d, ds)
      else map_option (\<lambda>(x, xs). (x, d # xs)) (takeIncomingMessage name dest ds))"

fun waitForMessage_loop ::
    "environment \<Rightarrow> nat \<Rightarrow> connection_id \<Rightarrow> nat option \<Rightarrow> wakeups \<Rightarrow> world \<Rightarrow>
     (decoder option \<times> wakeups \<times> world) option" where
  "waitForMessage_loop E n c timeout wakes w = do {
     w \<leftarrow> sync_dispatchMessages E n w;
     ws \<leftarrow> m_waitingForMessage (conn w c);
     (case ws_decoder ws of
        Some d \<Rightarrow> Some (Some d, wakes, upd c (\<lambda>cn. cn\<lparr>m_waitingForMessage := None\<rparr>) w)
      | None \<Rightarrow>
          (case wakes of
             [] \<Rightarrow> None
           | (actions, late) # wakes \<Rightarrow> do {
               w \<leftarrow> runThreadActions E actions w;
               ws \<leftarrow> m_waitingForMessage (conn w c);
               if (late \<and> timeout \<noteq> None) \<or> ws_messageWaitingInterrupted ws
               then Some (None, wakes, upd c (\<lambda>cn. cn\<lparr>m_waitingForMessage := None\<rparr>) w)
               else waitForMessage_loop E n c timeout wakes w
             }))
   }"

declare waitForMessage_loop.simps [simp del]

definition waitForMessage ::
    "environment \<Rightarrow> nat \<Rightarrow> connection_id \<Rightarrow> u16 \<Rightarrow> u64 \<Rightarrow> nat option \<Rightarrow> WaitForOption set \<Rightarrow> wakeups \<Rightarrow>
     world \<Rightarrow> (decoder option \<times> wakeups \<times> world) option" where
  "waitForMessage E n c messageName destinationID timeout waitForOptions wakes w =
     (let timeout = timeoutRespectingIgnoreTimeoutsForTesting (conn w c) timeout in
      if m_waitingForMessage (conn w c) \<noteq> None then Some (None, wakes, w)
      else if \<not> m_shouldWaitForMessages (conn w c) then Some (None, wakes, w)
      else case takeIncomingMessage messageName destinationID (m_incomingMessages (conn w c)) of
        Some (message, rest) \<Rightarrow>
          Some (Some message, wakes, upd c (\<lambda>cn. cn\<lparr>m_incomingMessages := rest\<rparr>) w)
      | None \<Rightarrow>
          if list_ex (dec_isSyncMessage E) (m_incomingMessages (conn w c)) \<and>
            InterruptWaitingIfSyncMessageArrives \<in> waitForOptions
          then Some (None, wakes, w)
          else waitForMessage_loop E n c timeout wakes
            (upd c (\<lambda>cn. cn\<lparr>m_waitingForMessage := Some
               \<lparr>ws_messageName = messageName, ws_destinationID = destinationID,
                ws_waitForOptions = waitForOptions, ws_messageWaitingInterrupted = False,
                ws_decoder = None\<rparr>\<rparr>) w))"

subsection \<open>The typed interface\<close>

text \<open>
  \<^verbatim>\<open>send\<close>, \<^verbatim>\<open>sendWithAsyncReply\<close>, \<^verbatim>\<open>sendSync\<close> and \<^verbatim>\<open>waitForAndDispatchImmediately\<close>, with the coder
  of the arguments and of the reply as arguments.
\<close>

definition conn_send ::
    "environment \<Rightarrow> nat \<Rightarrow> bool \<Rightarrow> connection_id \<Rightarrow> u16 \<Rightarrow> (encoder \<Rightarrow> encoder option) \<Rightarrow> u64 \<Rightarrow>
     SendOption set \<Rightarrow> wakeups \<Rightarrow> world \<Rightarrow> (bool \<times> wakeups \<times> world) option" where
  "conn_send E n isMainThread c name arguments destinationID sendOptions wakes w = do {
     e \<leftarrow> Encoder (env_alloc E) name destinationID;
     e \<leftarrow> arguments e;
     sendMessage E n isMainThread c e sendOptions wakes w
   }"

definition sendWithAsyncReply ::
    "environment \<Rightarrow> nat \<Rightarrow> bool \<Rightarrow> connection_id \<Rightarrow> u16 \<Rightarrow> (encoder \<Rightarrow> encoder option) \<Rightarrow> nat \<Rightarrow> u64 \<Rightarrow>
     SendOption set \<Rightarrow> wakeups \<Rightarrow> world \<Rightarrow> (wakeups \<times> world) option" where
  "sendWithAsyncReply E n isMainThread c name arguments handler destinationID sendOptions wakes w = do {
     e \<leftarrow> Encoder (env_alloc E) name destinationID;
     let (listenerID, w) = nextAsyncReplyHandlerID w;
     let w = addAsyncReplyHandler c listenerID handler w;
     e \<leftarrow> encode_u64 e listenerID;
     e \<leftarrow> arguments e;
     (sent, wakes, w) \<leftarrow> sendMessage E n isMainThread c e sendOptions wakes w;
     Some (wakes, w)
   }"

definition sendSync ::
    "environment \<Rightarrow> nat \<Rightarrow> connection_id \<Rightarrow> u16 \<Rightarrow> (encoder \<Rightarrow> encoder option) \<Rightarrow> 'r decode \<Rightarrow> u64 \<Rightarrow>
     nat option \<Rightarrow> SendSyncOption set \<Rightarrow> wakeups \<Rightarrow> world \<Rightarrow>
     ((decoder \<times> 'r) option \<times> wakeups \<times> world) option" where
  "sendSync E n c name arguments decodeReply destinationID timeout sendSyncOptions wakes w = do {
     (e, syncRequestID, w) \<leftarrow> createSyncMessageEncoder E c name destinationID w;
     let fully = SSO_UseFullySynchronousModeForTesting \<in> sendSyncOptions;
     let e = (if fully then setFullySynchronousModeForTesting e else e);
     let w = (if fully then upd c (\<lambda>cn. cn\<lparr>m_fullySynchronousModeIsAllowedForTesting := True\<rparr>) w
              else w);
     e \<leftarrow> arguments e;
     (r, wakes, w) \<leftarrow> sendSyncMessage E n c syncRequestID e timeout sendSyncOptions wakes w;
     (case r of
        SR_exit \<Rightarrow> None
      | SR_failed \<Rightarrow> Some (None, wakes, w)
      | SR_reply d \<Rightarrow> (case decodeReply d of
          (None, d) \<Rightarrow> Some (None, wakes, w)
        | (Some reply, d) \<Rightarrow> Some (Some (d, reply), wakes, w)))
   }"

definition waitForAndDispatchImmediately ::
    "environment \<Rightarrow> nat \<Rightarrow> connection_id \<Rightarrow> u16 \<Rightarrow> u64 \<Rightarrow> nat option \<Rightarrow> WaitForOption set \<Rightarrow> wakeups \<Rightarrow>
     world \<Rightarrow> (bool \<times> wakeups \<times> world) option" where
  "waitForAndDispatchImmediately E n c name destinationID timeout waitForOptions wakes w = do {
     (d, wakes, w) \<leftarrow> waitForMessage E n c name destinationID timeout waitForOptions wakes w;
     (case d of
        None \<Rightarrow> Some (False, wakes, w)
      | Some d \<Rightarrow> do { (d, w) \<leftarrow> env_didReceiveMessage E c d w; Some (True, wakes, w) })
   }"

end
