(* ===== verification/IPC_Connection_Laws.thy ===== *)
theory IPC_Connection_Laws
  imports IPC_Connection "HOL-Library.Multiset"
begin

text \<open>
  The behaviour of \<^verbatim>\<open>IPC::Connection\<close>: where an incoming message goes and in which order messages
  are dispatched, that queued messages stay scheduled, what a synchronous sender gets back, and
  that dispatching restores the connection's counters.
\<close>

named_theorems world_simps \<open>reading a world after an update\<close>

lemma conn_upd [world_simps]: "conn (upd c f w) c' = (if c' = c then f (conn w c) else conn w c')"
  by (simp add: conn_def upd_def)

lemma conn_more [world_simps]:
  "conn (dispatch_main t w) c = conn w c"
  "conn (dispatch_queue q w) c = conn w c"
  "conn (wakeUpClientRunLoop w) c = conn w c"
  "conn (w\<lparr>w_didScheduleDispatchMessagesWorkSet := a\<rparr>) c = conn w c"
  "conn (w\<lparr>w_messagesToDispatchWhileWaitingForSyncReply := b\<rparr>) c = conn w c"
  "conn (w\<lparr>w_waitForSyncReplySemaphore := s\<rparr>) c = conn w c"
  "conn (w\<lparr>w_asyncReplyHandlerMap := h\<rparr>) c = conn w c"
  "conn (w\<lparr>w_nextAsyncReplyHandlerID := i\<rparr>) c = conn w c"
  "conn (w\<lparr>w_mainRunLoop := m\<rparr>) c = conn w c"
  "conn (w\<lparr>w_connectionQueue := ql\<rparr>) c = conn w c"
  "conn (w\<lparr>w_receiverTasks := r\<rparr>) c = conn w c"
  "conn (w\<lparr>w_callbackQueue := cb\<rparr>) c = conn w c"
  by (simp_all add: conn_def dispatch_main_def dispatch_queue_def wakeUpClientRunLoop_def)

lemma world_upd [world_simps]:
  "w_didScheduleDispatchMessagesWorkSet (upd c f w) = w_didScheduleDispatchMessagesWorkSet w"
  "w_messagesToDispatchWhileWaitingForSyncReply (upd c f w) =
     w_messagesToDispatchWhileWaitingForSyncReply w"
  "w_waitForSyncReplySemaphore (upd c f w) = w_waitForSyncReplySemaphore w"
  "w_unboundedSynchronousIPCCount (upd c f w) = w_unboundedSynchronousIPCCount w"
  "w_asyncReplyHandlerMap (upd c f w) = w_asyncReplyHandlerMap w"
  "w_nextAsyncReplyHandlerID (upd c f w) = w_nextAsyncReplyHandlerID w"
  "w_mainRunLoop (upd c f w) = w_mainRunLoop w"
  "w_connectionQueue (upd c f w) = w_connectionQueue w"
  "w_receiverTasks (upd c f w) = w_receiverTasks w"
  "w_callbackQueue (upd c f w) = w_callbackQueue w"
  by (simp_all add: upd_def)

lemma world_dispatch_main [world_simps]:
  "w_didScheduleDispatchMessagesWorkSet (dispatch_main t w) = w_didScheduleDispatchMessagesWorkSet w"
  "w_messagesToDispatchWhileWaitingForSyncReply (dispatch_main t w) =
     w_messagesToDispatchWhileWaitingForSyncReply w"
  "w_waitForSyncReplySemaphore (dispatch_main t w) = w_waitForSyncReplySemaphore w"
  "w_unboundedSynchronousIPCCount (dispatch_main t w) = w_unboundedSynchronousIPCCount w"
  "w_asyncReplyHandlerMap (dispatch_main t w) = w_asyncReplyHandlerMap w"
  "w_mainRunLoop (dispatch_main t w) = w_mainRunLoop w @ [t]"
  "w_connectionQueue (dispatch_main t w) = w_connectionQueue w"
  "w_receiverTasks (dispatch_main t w) = w_receiverTasks w"
  by (simp_all add: dispatch_main_def)

lemma world_dispatch_queue [world_simps]:
  "w_didScheduleDispatchMessagesWorkSet (dispatch_queue t w) = w_didScheduleDispatchMessagesWorkSet w"
  "w_messagesToDispatchWhileWaitingForSyncReply (dispatch_queue t w) =
     w_messagesToDispatchWhileWaitingForSyncReply w"
  "w_waitForSyncReplySemaphore (dispatch_queue t w) = w_waitForSyncReplySemaphore w"
  "w_unboundedSynchronousIPCCount (dispatch_queue t w) = w_unboundedSynchronousIPCCount w"
  "w_asyncReplyHandlerMap (dispatch_queue t w) = w_asyncReplyHandlerMap w"
  "w_mainRunLoop (dispatch_queue t w) = w_mainRunLoop w"
  "w_connectionQueue (dispatch_queue t w) = w_connectionQueue w @ [t]"
  "w_receiverTasks (dispatch_queue t w) = w_receiverTasks w"
  by (simp_all add: dispatch_queue_def)

lemma world_wakeUp [world_simps]:
  "w_didScheduleDispatchMessagesWorkSet (wakeUpClientRunLoop w) = w_didScheduleDispatchMessagesWorkSet w"
  "w_messagesToDispatchWhileWaitingForSyncReply (wakeUpClientRunLoop w) =
     w_messagesToDispatchWhileWaitingForSyncReply w"
  "w_waitForSyncReplySemaphore (wakeUpClientRunLoop w) = True"
  "w_unboundedSynchronousIPCCount (wakeUpClientRunLoop w) = w_unboundedSynchronousIPCCount w"
  "w_asyncReplyHandlerMap (wakeUpClientRunLoop w) = w_asyncReplyHandlerMap w"
  "w_mainRunLoop (wakeUpClientRunLoop w) = w_mainRunLoop w"
  "w_connectionQueue (wakeUpClientRunLoop w) = w_connectionQueue w"
  "w_receiverTasks (wakeUpClientRunLoop w) = w_receiverTasks w"
  by (simp_all add: wakeUpClientRunLoop_def)

subsection \<open>Receiver tables\<close>

text \<open>
  The receiver map that has the same entries: those with destination 0 are the global ones.
\<close>

definition receiver_map_of :: "(receiver_key \<times> nat) list \<Rightarrow> receiver_map" where
  "receiver_map_of m =
     \<lparr>globalMessageReceivers = map (\<lambda>(k, r). (fst k, r)) (filter (\<lambda>(k, r). snd k = 0) m),
      messageReceivers = filter (\<lambda>(k, r). snd k \<noteq> 0) m, mapCount = (\<lambda>r. 0)\<rparr>"

lemma map_of_global:
  "map_of (map (\<lambda>(k, r). (fst k, r)) (filter (\<lambda>(k, r). snd k = 0) m)) name = map_of m (name, 0)"
  by (induction m) (auto split: if_splits)

lemma map_of_destination:
  "map_of (filter (\<lambda>(k, r). snd k \<noteq> 0) m) k = (if snd k = 0 then None else map_of m k)"
  by (induction m) auto

text \<open>
  The receivers on work queues and threads are found the way MessageReceiverMap finds
  its own, as the comments in threadMessageReceiver and workQueueMessageReceiver say: for every
  table and every message the result is what the receiver map with the same entries (those with
  destination 0 as its global receivers) dispatches to.
\<close>

theorem receiver_lookup_matches_map:
  "threadMessageReceiver E threads message =
     rmap_dispatchMessage (env_receiverName E) (receiver_map_of threads) message \<and>
   map_option snd (workQueueMessageReceiver E queues message) =
     rmap_dispatchMessage (env_receiverName E)
       (receiver_map_of (map (\<lambda>(k, q, r). (k, r)) queues)) message"
proof -
  have map_snd: "map_of (map (\<lambda>(k, q, r). (k, r)) queues) k = map_option snd (map_of queues k)" for k
    by (induction queues) auto
  show ?thesis
    by (auto simp: threadMessageReceiver_def workQueueMessageReceiver_def rmap_dispatchMessage_def
        receiver_map_of_def dec_receiverName_def map_of_global map_of_destination map_snd
        split: option.splits)
qed

subsection \<open>Where an incoming message goes\<close>

text \<open>The messages a connection has taken in and not yet handed to a client.\<close>

definition taskMessages :: "connection_id \<Rightarrow> receiver_task \<Rightarrow> decoder list" where
  "taskMessages c t = (case t of
      RT_workQueue q c' r d \<Rightarrow> if c' = c then [d] else []
    | RT_thread c' r d \<Rightarrow> if c' = c then [d] else [])"

definition inFlight :: "connection_id \<Rightarrow> world \<Rightarrow> decoder multiset" where
  "inFlight c w =
     mset (m_incomingMessages (conn w c))
     + mset (map snd (filter (\<lambda>m. fst m = c) (w_messagesToDispatchWhileWaitingForSyncReply w)))
     + mset (concat (map (taskMessages c) (w_receiverTasks w)))
     + (case m_waitingForMessage (conn w c) of None \<Rightarrow> {#}
        | Some ws \<Rightarrow> (case ws_decoder ws of None \<Rightarrow> {#} | Some d \<Rightarrow> {#d#}))"

text \<open>A message that is not a reply, has a valid key and is not refused by a killed or full queue.\<close>

definition deliverable :: "environment \<Rightarrow> connection_id \<Rightarrow> decoder \<Rightarrow> world \<Rightarrow> bool" where
  "deliverable E c d w \<longleftrightarrow>
     dec_messageName d \<noteq> env_SyncMessageReply E \<and>
     env_isValidReceiverKey E (dec_receiverName E d, dec_destinationID d) \<and>
     \<not> m_wasKilled (conn w c) \<and>
     (m_throttlingLevel (conn w c) = None \<or>
      length (m_incomingMessages (conn w c)) < maxPendingIncomingMessagesKillingThreshold)"

lemma image_snd_Pair [simp]: "image_mset snd {#x \<in># image_mset (Pair c) A. fst x = c#} = A"
  by (induction A) auto

lemma filter_Pair_other [simp]: "c \<noteq> c' \<Longrightarrow> {#x \<in># image_mset (Pair c) A. fst x = c'#} = {#}"
  by (induction A) auto

lemma inFlight_enqueue:
  assumes "\<not> m_wasKilled (conn w c)"
    and "m_throttlingLevel (conn w c) = None \<or>
      length (m_incomingMessages (conn w c)) < maxPendingIncomingMessagesKillingThreshold"
  shows "inFlight c (enqueueIncomingMessage E c d w) = inFlight c w + {#d#}"
  using assms by (auto simp: enqueueIncomingMessage_def inFlight_def Let_def world_simps)

lemma inFlight_sync:
  assumes "sync_processIncomingMessage c d w = (True, w')"
  shows "inFlight c w' = inFlight c w + {#d#}"
  using assms
  by (auto simp: sync_processIncomingMessage_def inFlight_def Let_def world_simps
      moveIncomingMessages_def filter_map o_def split: if_splits)

lemma sync_processIncomingMessage_False:
  "sync_processIncomingMessage c d w = (False, w') \<Longrightarrow> w' = w"
  by (auto simp: sync_processIncomingMessage_def Let_def split: if_splits)

lemma inFlight_other:
  assumes "c' \<noteq> c"
  shows "inFlight c' (enqueueIncomingMessage E c d w) = inFlight c' w"
    and "inFlight c' (snd (sync_processIncomingMessage c d w)) = inFlight c' w"
    and "inFlight c' (upd c f w) = inFlight c' w"
    and "inFlight c' (dispatch_main t w) = inFlight c' w"
    and "inFlight c' (w\<lparr>w_callbackQueue := q\<rparr>) = inFlight c' w"
    and "inFlight c' (wakeUpClientRunLoop w) = inFlight c' w"
  using assms
  by (auto simp: enqueueIncomingMessage_def conn_kill_def sync_processIncomingMessage_def
      inFlight_def Let_def world_simps moveIncomingMessages_def split: if_splits)

lemma inFlight_callbacks: "inFlight c (dispatchIncomingSyncMessageCallbacks E c d w) = inFlight c w"
  by (simp add: inFlight_def world_simps dispatchIncomingSyncMessageCallbacks_def)

lemma inFlight_receivers:
  "dispatchMessageToWorkQueueReceiver E c d w = (True, w') \<Longrightarrow> inFlight c w' = inFlight c w + {#d#}"
  "dispatchMessageToThreadReceiver E c d w = (True, w') \<Longrightarrow> inFlight c w' = inFlight c w + {#d#}"
  "dispatchMessageToWorkQueueReceiver E c d w = (False, w') \<Longrightarrow> w' = w"
  "dispatchMessageToThreadReceiver E c d w = (False, w') \<Longrightarrow> w' = w"
  by (auto simp: dispatchMessageToWorkQueueReceiver_def dispatchMessageToThreadReceiver_def
      inFlight_def world_simps taskMessages_def split: option.splits)

lemma inFlight_fallback:
  assumes "\<not> m_wasKilled (conn w c)"
    and "m_throttlingLevel (conn w c) = None \<or>
      length (m_incomingMessages (conn w c)) < maxPendingIncomingMessagesKillingThreshold"
  shows "inFlight c (processIncomingMessage_fallback E c d w) = inFlight c w + {#d#}"
  using inFlight_sync [of c d w] sync_processIncomingMessage_False [of c d w]
    inFlight_enqueue [OF assms, of E d]
  by (cases "sync_processIncomingMessage c d w")
     (auto simp: processIncomingMessage_fallback_def split: bool.split)

lemma inFlight_locked:
  assumes "\<not> m_wasKilled (conn w c)"
    and "m_throttlingLevel (conn w c) = None \<or>
      length (m_incomingMessages (conn w c)) < maxPendingIncomingMessagesKillingThreshold"
  shows "inFlight c (processIncomingMessage_locked E c d w) = inFlight c w + {#d#}"
proof (cases "m_waitingForMessage (conn w c)")
  case None
  then show ?thesis
    by (simp add: processIncomingMessage_locked_def inFlight_fallback [OF assms])
next
  case (Some ws)
  let ?w = "upd c (\<lambda>cn. cn\<lparr>m_waitingForMessage := Some (ws\<lparr>ws_messageWaitingInterrupted := True\<rparr>)\<rparr>) w"
  have "inFlight c (enqueueIncomingMessage E c d ?w) = inFlight c ?w + {#d#}"
    by (rule inFlight_enqueue) (use assms in \<open>auto simp: world_simps\<close>)
  moreover have "inFlight c ?w = inFlight c w"
    using Some by (simp add: inFlight_def world_simps)
  moreover have "fst (sync_processIncomingMessage c d w) \<Longrightarrow>
      inFlight c (snd (sync_processIncomingMessage c d w)) = inFlight c w + {#d#}"
    using inFlight_sync [of c d w "snd (sync_processIncomingMessage c d w)"]
    by (cases "sync_processIncomingMessage c d w") auto
  moreover have "ws_decoder ws = None \<Longrightarrow>
      inFlight c (upd c (\<lambda>cn. cn\<lparr>m_waitingForMessage := Some (ws\<lparr>ws_decoder := Some d\<rparr>)\<rparr>) w)
        = inFlight c w + {#d#}"
    using Some by (simp add: inFlight_def world_simps)
  ultimately show ?thesis
    using Some by (auto simp: processIncomingMessage_locked_def inFlight_fallback [OF assms])
qed


subsection \<open>What dispatching keeps\<close>

text \<open>The header of a decoder never changes.\<close>

lemma decodeFixedLengthData_flags:
  "dec_messageFlags (snd (decodeFixedLengthData sz al d)) = dec_messageFlags d"
  by (auto simp: decodeFixedLengthData_def alignBufferPosition_def Let_def markInvalid_def)

lemma decode_u64_flags: "dec_messageFlags (snd (decode_u64 d)) = dec_messageFlags d"
  using decodeFixedLengthData_flags [of 8 8 d]
  by (auto simp: decode_u64_def decode_arith_def dec_bind_def dec_return_def
      split: prod.splits option.splits)

lemma decode_ArrayReference_flags:
  "dec_messageFlags (snd (decode_ArrayReference sz al d)) = dec_messageFlags d"
  using decode_u64_flags [of d]
  by (auto simp: decode_ArrayReference_def dec_bind_def dec_return_def dec_fail_def
      dec_fail_invalid_def decodeFixedLengthReference_def alignBufferPosition_def Let_def
      markInvalid_def split: prod.splits option.splits if_splits)

lemma takeAttachments_flags:
  "dec_messageFlags (snd (takeAttachments n d acc)) = dec_messageFlags d"
  by (induction n d acc rule: takeAttachments.induct)
     (auto simp: removeAttachment_def dec_return_def dec_fail_def split: prod.splits option.splits if_splits)

lemma unwrapForTesting_flags:
  "dec_messageFlags (snd (unwrapForTesting v m d)) = dec_messageFlags d"
  using takeAttachments_flags [of "Suc (length (dec_attachments d))" d "[]"] decode_ArrayReference_flags
  by (auto simp: unwrapForTesting_def Let_def simp del: takeAttachments.simps split: prod.splits option.splits)
     (metis snd_conv)+

text \<open>
  What the callbacks of a client promise with respect to a relation between the world before and
  the world after: it holds of each of them, and they do not touch the header of the message.
\<close>

definition client_respects :: "environment \<Rightarrow> (world \<Rightarrow> world \<Rightarrow> bool) \<Rightarrow> bool" where
  "client_respects E R \<longleftrightarrow>
     (\<forall>c d w d' w'. env_didReceiveMessage E c d w = Some (d', w') \<longrightarrow>
        R w w' \<and> dec_messageFlags d' = dec_messageFlags d) \<and>
     (\<forall>c d e w d' r w'. env_didReceiveSyncMessage E c d e w = Some (d', r, w') \<longrightarrow>
        R w w' \<and> dec_messageFlags d' = dec_messageFlags d) \<and>
     (\<forall>h d w d' w'. env_callReply E h d w = Some (d', w') \<longrightarrow>
        R w w' \<and> dec_messageFlags d' = dec_messageFlags d) \<and>
     (\<forall>h w w'. env_cancelReply E h w = Some w' \<longrightarrow> R w w') \<and>
     (\<forall>c m w w'. env_didReceiveInvalidMessage E c m w = Some w' \<longrightarrow> R w w') \<and>
     (\<forall>c w w'. env_didClose E c w = Some w' \<longrightarrow> R w w') \<and>
     (\<forall>c w w'. env_didCloseOnConnectionWorkQueue E c w = Some w' \<longrightarrow> R w w') \<and>
     (\<forall>r c d w d' w'. env_receiverDidReceiveMessage E r c d w = Some (d', w') \<longrightarrow> R w w') \<and>
     (\<forall>r c d e w d' a w'. env_receiverDidReceiveSyncMessage E r c d e w = Some (d', a, w') \<longrightarrow> R w w')"

lemma client_respectsD:
  assumes "client_respects E R"
  shows "env_didReceiveMessage E c d w = Some (d', w') \<Longrightarrow>
      R w w' \<and> dec_messageFlags d' = dec_messageFlags d"
    and "env_didReceiveSyncMessage E c d e w = Some (d', r, w') \<Longrightarrow>
      R w w' \<and> dec_messageFlags d' = dec_messageFlags d"
    and "env_callReply E h d w = Some (d', w') \<Longrightarrow>
      R w w' \<and> dec_messageFlags d' = dec_messageFlags d"
    and "env_cancelReply E h w = Some w' \<Longrightarrow> R w w'"
    and "env_didReceiveInvalidMessage E c m w = Some w' \<Longrightarrow> R w w'"
    and "env_didClose E c w = Some w' \<Longrightarrow> R w w'"
    and "env_didCloseOnConnectionWorkQueue E c w = Some w' \<Longrightarrow> R w w'"
    and "env_receiverDidReceiveMessage E h c d w = Some (d', w') \<Longrightarrow> R w w'"
    and "env_receiverDidReceiveSyncMessage E h c d e w = Some (d', r, w') \<Longrightarrow> R w w'"
  using assms unfolding client_respects_def by (elim conjE; metis)+

lemma dispatchSyncMessage_outcomes:
  assumes "dispatchSyncMessage_with E dispatch c d w = Some (d', w')" and "decode_u64 d = (r, d1)"
  obtains (bad) "d' = markInvalid d1" "w' = w"
  | (wrapped) u d2 w2 e where "unwrapForTesting (env_isValidName E) (env_tryFastMalloc E) d1 = (Some u, d2)"
    "dispatchMessages_with dispatch (processIncomingMessage E c u w) = Some w2"
    "w' = sendSyncReply c e w2" "d' = d2"
  | (client) e reply w2 where "env_didReceiveSyncMessage E c d1 e w = Some (d', reply, w2)"
    "w' = (case reply of None \<Rightarrow> w2 | Some e \<Rightarrow> sendSyncReply c e w2)"
proof (cases "r = None \<or> r = Some 0")
  case True
  then show ?thesis using bad assms by (auto simp: dispatchSyncMessage_with_def)
next
  case False
  then obtain i where i: "r = Some i" "i \<noteq> 0" by auto
  then obtain e where e: "Encoder (env_alloc E) (env_SyncMessageReply E) i = Some e"
    using assms by (cases "Encoder (env_alloc E) (env_SyncMessageReply E) i")
      (simp_all add: dispatchSyncMessage_with_def)
  note body = assms(1) [unfolded dispatchSyncMessage_with_def assms(2)] i e
  show ?thesis
  proof (cases "dec_messageName d1 = env_WrappedAsyncMessageForTesting E")
    case False
    then obtain reply w2 where
      "env_didReceiveSyncMessage E c d1 e w = Some (d', reply, w2)"
      "w' = (case reply of None \<Rightarrow> w2 | Some e \<Rightarrow> sendSyncReply c e w2)"
      using body by (cases "env_didReceiveSyncMessage E c d1 e w") auto
    then show ?thesis by (rule client)
  next
    case True
    obtain u d2 where u: "unwrapForTesting (env_isValidName E) (env_tryFastMalloc E) d1 = (u, d2)"
      by fastforce
    show ?thesis
    proof (cases "m_fullySynchronousModeIsAllowedForTesting (conn w c)")
      case allowed: True
      then obtain x where x: "u = Some x" using body True u by (cases u) auto
      obtain w2 where "dispatchMessages_with dispatch (processIncomingMessage E c x w) = Some w2"
        "w' = sendSyncReply c e w2" "d' = d2"
        using body True u x allowed
        by (cases "dispatchMessages_with dispatch (processIncomingMessage E c x w)") auto
      then show ?thesis using wrapped u x by blast
    qed (use bad body True in auto)
  qed
qed

text \<open>
  A relation that the connection's own steps keep and that the client respects holds across
  everything dispatched, however deep the dispatching nests.
\<close>

locale dispatch_contract =
  fixes E :: environment and R :: "world \<Rightarrow> world \<Rightarrow> bool"
  assumes R_refl: "R w w"
    and R_trans: "R w1 w2 \<Longrightarrow> R w2 w3 \<Longrightarrow> R w1 w3"
    and R_bracket: "R (upd c (beginDispatch fullySync marked) w) w1 \<Longrightarrow>
      R w (upd c (endDispatch fullySync marked d) w1)"
    and R_flag: "R w (upd c (\<lambda>cn. cn\<lparr>m_didReceiveInvalidMessage := b\<rparr>) w)"
    and R_messages: "R w (w\<lparr>w_messagesToDispatchWhileWaitingForSyncReply := ms\<rparr>)"
    and R_workset: "R w (w\<lparr>w_didScheduleDispatchMessagesWorkSet := cs\<rparr>)"
    and R_tasks: "R w (w\<lparr>w_receiverTasks := ts\<rparr>)"
    and R_handlers: "R w (w\<lparr>w_asyncReplyHandlerMap := hs\<rparr>)"
    and R_reply: "R w (sendSyncReply c e w)"
    and R_receive: "R w (processIncomingMessage E c d w)"
    and R_client: "client_respects E R"
begin

lemma completion_contract:
  assumes "callCompletionHandler E h d w = Some (d', w')"
  shows "R w w' \<and> dec_messageFlags d' = dec_messageFlags d"
  using assms client_respectsD(3,4) [OF R_client]
  by (auto simp: callCompletionHandler_def split: if_splits Option.bind_splits)

lemma take_contract: "R w (snd (takeAsyncReplyHandler E c i w))"
  using R_flag R_handlers R_refl
  by (auto simp: takeAsyncReplyHandler_def markCurrentlyDispatchedMessageAsInvalid_def
      split: option.splits)

lemma async_contract:
  assumes "dispatchMessage_decoder E c d w = Some (d', w')"
  shows "R w w' \<and> dec_messageFlags d' = dec_messageFlags d"
proof (cases "dec_receiverName E d = env_ReceiverName_AsyncReply E")
  case False
  then show ?thesis
    using assms client_respectsD(1) [OF R_client]
    by (auto simp: dispatchMessage_decoder_def split: if_splits)
next
  case True
  obtain r d1 where d1: "decode_u64 d = (r, d1)" by fastforce
  have flags: "dec_messageFlags d1 = dec_messageFlags d" using decode_u64_flags [of d] d1 by simp
  show ?thesis
  proof (cases r)
    case None
    then show ?thesis
      using assms True d1 flags R_refl by (auto simp: dispatchMessage_decoder_def split: if_splits)
  next
    case (Some i)
    obtain h w1 where w1: "takeAsyncReplyHandler E c i w = (h, w1)" by fastforce
    have "R w w1" using take_contract [of w c i] w1 by simp
    then show ?thesis
      using assms True d1 flags Some w1 completion_contract R_trans [OF \<open>R w w1\<close>]
      by (cases h) (fastforce simp: dispatchMessage_decoder_def split: if_splits)+
  qed
qed

lemma messages_contract:
  assumes "\<And>ms w w'. dispatch ms w = Some w' \<Longrightarrow> R w w'"
    and "dispatchMessages_with dispatch w = Some w'"
  shows "R w w'"
  using assms(2) R_trans [OF R_messages assms(1)] by (simp add: dispatchMessages_with_def)

lemma sync_contract:
  assumes rec: "\<And>ms w w'. dispatch ms w = Some w' \<Longrightarrow> R w w'"
    and "dispatchSyncMessage_with E dispatch c d w = Some (d', w')"
  shows "R w w' \<and> dec_messageFlags d' = dec_messageFlags d"
proof -
  obtain r d1 where d1: "decode_u64 d = (r, d1)" by fastforce
  have flags: "dec_messageFlags d1 = dec_messageFlags d" using decode_u64_flags [of d] d1 by simp
  have wrappedR: "R w w'" if "dispatchMessages_with dispatch (processIncomingMessage E c u w) = Some w2"
    "w' = sendSyncReply c e w2" for u w2 e
  proof -
    have "R (processIncomingMessage E c u w) w2"
      by (rule messages_contract [OF _ that(1)]) (rule rec)
    from R_trans [OF R_trans [OF R_receive this] R_reply] show ?thesis by (simp add: that(2))
  qed
  have unwrap: "dec_messageFlags d2 = dec_messageFlags d1"
    if "unwrapForTesting (env_isValidName E) (env_tryFastMalloc E) d1 = (u, d2)" for u d2
    using unwrapForTesting_flags [of "env_isValidName E" "env_tryFastMalloc E" d1] that by simp
  have clientR: "R w w' \<and> dec_messageFlags d2 = dec_messageFlags d1"
    if "env_didReceiveSyncMessage E c d1 e w = Some (d2, reply, w2)"
      "w' = (case reply of None \<Rightarrow> w2 | Some e \<Rightarrow> sendSyncReply c e w2)" for e d2 reply w2
    using client_respectsD(2) [OF R_client that(1)] that(2) R_trans [OF _ R_reply]
    by (cases reply) auto
  from assms(2) d1 show ?thesis
  proof (cases rule: dispatchSyncMessage_outcomes)
    case bad
    then show ?thesis using R_refl flags by (simp add: markInvalid_def)
  next
    case (wrapped u d2 w2 e)
    then show ?thesis using wrappedR [OF wrapped(2,3)] unwrap [OF wrapped(1)] flags by simp
  next
    case (client e reply w2)
    then show ?thesis using clientR [OF client] flags by simp
  qed
qed

lemma message_contract:
  assumes rec: "\<And>ms w w'. dispatch ms w = Some w' \<Longrightarrow> R w w'"
    and "dispatchMessage_with E dispatch c message w = Some w'"
  shows "R w w'"
proof -
  consider (invalid) "w' = w" | (queue) x where "w' = w\<lparr>w_receiverTasks := x\<rparr>"
    | (refused) "env_didReceiveInvalidMessage E c (dec_messageName message) w = Some w'"
    | (dispatched) marked old d w1 w2 where
      "(if dec_isSyncMessage E message
        then dispatchSyncMessage_with E dispatch c message
          (upd c (beginDispatch (shouldUseFullySynchronousModeForTesting message) marked) w)
        else dispatchMessage_decoder E c message
          (upd c (beginDispatch (shouldUseFullySynchronousModeForTesting message) marked) w))
        = Some (d, w1)"
      "R (upd c (endDispatch (shouldUseFullySynchronousModeForTesting d) marked d) w1) w2"
      "w' = upd c (\<lambda>cn. cn\<lparr>m_didReceiveInvalidMessage := old\<rparr>) w2"
    using assms(2) client_respectsD(5) [OF R_client] R_refl
    by (fastforce simp: dispatchMessage_with_def dispatchMessageToWorkQueueReceiver_def Let_def
        split: if_splits option.splits prod.splits Option.bind_splits)
  then show ?thesis
  proof cases
    case dispatched
    have "R (upd c (beginDispatch (shouldUseFullySynchronousModeForTesting message) marked) w) w1 \<and>
        dec_messageFlags d = dec_messageFlags message"
      using dispatched(1) sync_contract [OF rec] async_contract by (auto split: if_splits)
    then have "R w (upd c (endDispatch (shouldUseFullySynchronousModeForTesting d) marked d) w1)"
      using R_bracket by (simp add: shouldUseFullySynchronousModeForTesting_def)
    then show ?thesis using dispatched(2,3) R_flag R_trans by blast
  qed (use R_refl R_tasks client_respectsD(5) [OF R_client] in auto)
qed

lemma dispatchAll_contract: "dispatchAll E n ms w = Some w' \<Longrightarrow> R w w'"
proof (induction n arbitrary: ms w w')
  case 0
  then show ?case using R_refl by (cases ms) auto
next
  case (Suc n)
  note deeper = Suc.IH
  show ?case
    using Suc.prems
  proof (induction ms arbitrary: w)
    case Nil
    then show ?case using R_refl by simp
  next
    case (Cons m ms)
    obtain w1 where w1: "dispatchMessage_with E (dispatchAll E n) (fst m) (snd m) w = Some w1"
      "dispatchAll E (Suc n) ms w1 = Some w'"
      using Cons.prems by (auto split: Option.bind_splits)
    have "R w w1" by (rule message_contract [OF _ w1(1)]) (rule deeper)
    then show ?case using Cons.IH [OF w1(2)] R_trans by blast
  qed
qed

lemma conn_dispatchMessage_contract: "conn_dispatchMessage E n c d w = Some w' \<Longrightarrow> R w w'"
  unfolding conn_dispatchMessage_def
  by (rule message_contract [of "dispatchAll E n"]) (auto intro: dispatchAll_contract)

lemma sync_dispatchMessages_contract: "sync_dispatchMessages E n w = Some w' \<Longrightarrow> R w w'"
  unfolding sync_dispatchMessages_def
  by (rule messages_contract [of "dispatchAll E n"]) (auto intro: dispatchAll_contract)

lemma dispatchMessagesOf_contract:
  "dispatchMessagesOf E n c ms acc w = Some (kept, w') \<Longrightarrow> R w w'"
proof (induction ms arbitrary: acc w)
  case (Cons m ms)
  then show ?case
    using R_trans [OF conn_dispatchMessage_contract Cons.IH]
    by (auto split: if_splits Option.bind_splits)
qed (use R_refl in auto)

lemma reset_contract:
  assumes "dispatchMessagesAndResetDidScheduleDispatchMessagesForConnection E n c w = Some w'"
  shows "R w w'"
proof -
  let ?w1 = "w\<lparr>w_didScheduleDispatchMessagesWorkSet :=
      removeAll c (w_didScheduleDispatchMessagesWorkSet w)\<rparr>"
  let ?w2 = "?w1\<lparr>w_messagesToDispatchWhileWaitingForSyncReply := []\<rparr>"
  obtain kept w3 where w3: "dispatchMessagesOf E n c
      (w_messagesToDispatchWhileWaitingForSyncReply w) [] ?w2 = Some (kept, w3)"
    and w': "w' = (if kept \<noteq> [] then w3\<lparr>w_messagesToDispatchWhileWaitingForSyncReply :=
      kept @ w_messagesToDispatchWhileWaitingForSyncReply w3\<rparr> else w3)"
    using assms
    by (auto simp: dispatchMessagesAndResetDidScheduleDispatchMessagesForConnection_def Let_def
        split: Option.bind_splits if_splits)
  have "R w ?w1" "R ?w1 ?w2" "R ?w2 w3"
    using R_workset R_messages dispatchMessagesOf_contract [OF w3] by blast+
  moreover have "R w3 w'" using w' R_refl R_messages by auto
  ultimately show ?thesis using R_trans by blast
qed

lemma cancelAll_contract: "cancelAll E hs w = Some w' \<Longrightarrow> R w w'"
proof (induction hs arbitrary: w)
  case (Cons h hs)
  then show ?case
    using R_trans [OF client_respectsD(4) [OF R_client] Cons.IH] by (auto split: Option.bind_splits)
qed (use R_refl in auto)

lemma clear_contract: "clearAsyncReplyHandlers E c w = Some w' \<Longrightarrow> R w w'"
  using R_trans [OF R_handlers cancelAll_contract]
  by (simp add: clearAsyncReplyHandlers_def Let_def)

lemma receiverTask_contract: "runReceiverTask E t w = Some w' \<Longrightarrow> R w w'"
proof -
  assume run: "runReceiverTask E t w = Some w'"
  have queue: "R w w'" if "dispatchWorkQueueMessageReceiverMessage E r c d w = Some (d', w')" for r c d d'
    using that R_refl client_respectsD(8,9) [OF R_client] R_trans [OF _ R_reply]
    by (auto simp: dispatchWorkQueueMessageReceiverMessage_def
        split: if_splits option.splits prod.splits Option.bind_splits)
  have thread: "R w w'" if "dispatchThreadMessageReceiverMessage E r c d w = Some (d', w')" for r c d d'
    using that R_refl client_respectsD(8,9) [OF R_client] R_trans [OF _ R_reply]
    by (auto simp: dispatchThreadMessageReceiverMessage_def
        split: if_splits option.splits prod.splits Option.bind_splits)
  show ?thesis
    using run queue thread by (cases t) (auto simp: runReceiverTask_def)
qed

end

subsection \<open>Fields that receiving and replying leave alone\<close>

lemma sendSyncReply_fields [world_simps]:
  "m_inSendSyncCount (conn (sendSyncReply c e w) x) = m_inSendSyncCount (conn w x)"
  "m_inDispatchMessageCount (conn (sendSyncReply c e w) x) = m_inDispatchMessageCount (conn w x)"
  "m_inDispatchMessageMarkedDispatchWhenWaitingForSyncReplyCount (conn (sendSyncReply c e w) x)
     = m_inDispatchMessageMarkedDispatchWhenWaitingForSyncReplyCount (conn w x)"
  "m_inDispatchMessageMarkedToUseFullySynchronousModeForTesting (conn (sendSyncReply c e w) x)
     = m_inDispatchMessageMarkedToUseFullySynchronousModeForTesting (conn w x)"
  "m_incomingMessages (conn (sendSyncReply c e w) x) = m_incomingMessages (conn w x)"
  "m_throttlingLevel (conn (sendSyncReply c e w) x) = m_throttlingLevel (conn w x)"
  "m_dispatchMessagesTimer (conn (sendSyncReply c e w) x) = m_dispatchMessagesTimer (conn w x)"
  "m_pendingSyncReplies (conn (sendSyncReply c e w) x) = m_pendingSyncReplies (conn w x)"
  "w_mainRunLoop (sendSyncReply c e w) = w_mainRunLoop w"
  by (auto simp: sendSyncReply_def sendMessage_post_def Let_def world_simps)

lemma enqueue_fields [world_simps]:
  "m_inSendSyncCount (conn (enqueueIncomingMessage E c d w) x) = m_inSendSyncCount (conn w x)"
  "m_inDispatchMessageCount (conn (enqueueIncomingMessage E c d w) x) = m_inDispatchMessageCount (conn w x)"
  "m_inDispatchMessageMarkedDispatchWhenWaitingForSyncReplyCount (conn (enqueueIncomingMessage E c d w) x)
     = m_inDispatchMessageMarkedDispatchWhenWaitingForSyncReplyCount (conn w x)"
  "m_inDispatchMessageMarkedToUseFullySynchronousModeForTesting (conn (enqueueIncomingMessage E c d w) x)
     = m_inDispatchMessageMarkedToUseFullySynchronousModeForTesting (conn w x)"
  "m_throttlingLevel (conn (enqueueIncomingMessage E c d w) x) = m_throttlingLevel (conn w x)"
  "m_dispatchMessagesTimer (conn (enqueueIncomingMessage E c d w) x) = m_dispatchMessagesTimer (conn w x)"
  "m_pendingSyncReplies (conn (enqueueIncomingMessage E c d w) x) = m_pendingSyncReplies (conn w x)"
  by (auto simp: enqueueIncomingMessage_def conn_kill_def Let_def world_simps)

lemma sync_process_fields [world_simps]:
  "m_inSendSyncCount (conn (snd (sync_processIncomingMessage c d w)) x) = m_inSendSyncCount (conn w x)"
  "m_inDispatchMessageCount (conn (snd (sync_processIncomingMessage c d w)) x)
     = m_inDispatchMessageCount (conn w x)"
  "m_inDispatchMessageMarkedDispatchWhenWaitingForSyncReplyCount
     (conn (snd (sync_processIncomingMessage c d w)) x)
     = m_inDispatchMessageMarkedDispatchWhenWaitingForSyncReplyCount (conn w x)"
  "m_inDispatchMessageMarkedToUseFullySynchronousModeForTesting
     (conn (snd (sync_processIncomingMessage c d w)) x)
     = m_inDispatchMessageMarkedToUseFullySynchronousModeForTesting (conn w x)"
  "m_throttlingLevel (conn (snd (sync_processIncomingMessage c d w)) x) = m_throttlingLevel (conn w x)"
  "m_dispatchMessagesTimer (conn (snd (sync_processIncomingMessage c d w)) x)
     = m_dispatchMessagesTimer (conn w x)"
  "m_pendingSyncReplies (conn (snd (sync_processIncomingMessage c d w)) x)
     = m_pendingSyncReplies (conn w x)"
  by (auto simp: sync_processIncomingMessage_def moveIncomingMessages_def Let_def world_simps)

text \<open>
  The ways \<^verbatim>\<open>processIncomingMessage\<close> can change the world, so that a relation that each of them
  keeps is kept by it.
\<close>

lemma processIncomingMessage_cases:
  assumes reply: "dec_messageName d = env_SyncMessageReply E \<Longrightarrow> P (processIncomingSyncReply c d w)"
    and main: "P (dispatch_main (MT_invalidMessage c (dec_messageName d)) w)"
    and task: "\<And>ts. P (w\<lparr>w_receiverTasks := ts\<rparr>)"
    and enqueue: "\<And>w1. Q w1 \<Longrightarrow> P (enqueueIncomingMessage E c d w1)"
    and sync: "\<And>w1. Q w1 \<Longrightarrow> P (snd (sync_processIncomingMessage c d w1))"
    and waiting: "\<And>w1 x. Q w1 \<Longrightarrow> P (upd c (\<lambda>cn. cn\<lparr>m_waitingForMessage := x\<rparr>) w1)"
    and interrupted: "\<And>w1 x. Q w1 \<Longrightarrow> Q (upd c (\<lambda>cn. cn\<lparr>m_waitingForMessage := x\<rparr>) w1)"
    and callbacks: "Q w" "\<And>q. Q (upd c (\<lambda>cn. cn\<lparr>m_incomingSyncMessageCallbacks := []\<rparr>) (w\<lparr>w_callbackQueue := q\<rparr>))"
  shows "P (processIncomingMessage E c d w)"
proof -
  let ?w1 = "dispatchIncomingSyncMessageCallbacks E c d w"
  have Q: "Q ?w1" using callbacks by (simp add: dispatchIncomingSyncMessageCallbacks_def)
  have fallback: "P (processIncomingMessage_fallback E c d ?w1)"
  proof (cases "sync_processIncomingMessage c d ?w1")
    case (Pair b w2)
    then show ?thesis
      using sync [OF Q] enqueue [OF Q] sync_processIncomingMessage_False [of c d ?w1 w2]
      by (cases b) (auto simp: processIncomingMessage_fallback_def)
  qed
  have locked: "P (processIncomingMessage_locked E c d ?w1)"
    using fallback enqueue [OF interrupted [OF Q]] sync [OF Q] waiting [OF Q]
    by (auto simp: processIncomingMessage_locked_def split: option.splits)
  show ?thesis
    using reply main task locked
    by (auto simp: processIncomingMessage_def dispatchMessageToWorkQueueReceiver_def
        dispatchMessageToThreadReceiver_def split: option.splits)
qed

lemma processIncomingSyncReply_fields [world_simps]:
  "m_inSendSyncCount (conn (processIncomingSyncReply c d w) x) = m_inSendSyncCount (conn w x)"
  "m_inDispatchMessageCount (conn (processIncomingSyncReply c d w) x) = m_inDispatchMessageCount (conn w x)"
  "m_inDispatchMessageMarkedDispatchWhenWaitingForSyncReplyCount (conn (processIncomingSyncReply c d w) x)
     = m_inDispatchMessageMarkedDispatchWhenWaitingForSyncReplyCount (conn w x)"
  "m_inDispatchMessageMarkedToUseFullySynchronousModeForTesting (conn (processIncomingSyncReply c d w) x)
     = m_inDispatchMessageMarkedToUseFullySynchronousModeForTesting (conn w x)"
  "m_incomingMessages (conn (processIncomingSyncReply c d w) x) = m_incomingMessages (conn w x)"
  "m_throttlingLevel (conn (processIncomingSyncReply c d w) x) = m_throttlingLevel (conn w x)"
  "m_dispatchMessagesTimer (conn (processIncomingSyncReply c d w) x) = m_dispatchMessagesTimer (conn w x)"
  "w_mainRunLoop (processIncomingSyncReply c d w) = w_mainRunLoop w"
  by (auto simp: processIncomingSyncReply_def Let_def world_simps split: option.splits)

subsection \<open>Counters\<close>

definition same_counters :: "world \<Rightarrow> world \<Rightarrow> bool" where
  "same_counters w w' \<longleftrightarrow> (\<forall>x.
     m_inSendSyncCount (conn w' x) = m_inSendSyncCount (conn w x) \<and>
     m_inDispatchMessageCount (conn w' x) = m_inDispatchMessageCount (conn w x) \<and>
     m_inDispatchMessageMarkedDispatchWhenWaitingForSyncReplyCount (conn w' x) =
       m_inDispatchMessageMarkedDispatchWhenWaitingForSyncReplyCount (conn w x) \<and>
     m_inDispatchMessageMarkedToUseFullySynchronousModeForTesting (conn w' x) =
       m_inDispatchMessageMarkedToUseFullySynchronousModeForTesting (conn w x))"

lemma same_counters_receive: "same_counters w (processIncomingMessage E c d w)"
  by (rule processIncomingMessage_cases [where Q = "same_counters w"])
     (auto simp: same_counters_def world_simps)

lemma same_counters_contract:
  assumes "client_respects E same_counters"
  shows "dispatch_contract E same_counters"
proof
  show "same_counters (upd c (beginDispatch f m) w) w1 \<Longrightarrow>
      same_counters w (upd c (endDispatch f m d) w1)" for c f m w w1 d
    by (auto simp: same_counters_def world_simps beginDispatch_def endDispatch_def split: if_splits)
qed (use assms same_counters_receive in \<open>auto simp: same_counters_def world_simps\<close>)

lemma dispatchMessage_flag:
  assumes "dispatchMessage_with E dispatch c d w = Some w'"
    and "\<not> shouldUseFullySynchronousModeForTesting d"
  shows "m_didReceiveInvalidMessage (conn w' c) = m_didReceiveInvalidMessage (conn w c)"
  using assms
  by (auto simp: dispatchMessage_with_def dispatchMessageToWorkQueueReceiver_def Let_def world_simps
      split: if_splits option.splits prod.splits Option.bind_splits)

text \<open>An environment whose client, receivers and handlers return at once and change nothing.\<close>

definition idle_environment :: environment where
  "idle_environment = \<lparr>env_receiverName = ucast, env_isSync = (\<lambda>n. n = 7), env_isValidName = (\<lambda>n. True),
     env_SyncMessageReply = 1, env_WrappedAsyncMessageForTesting = 2, env_ReceiverName_IPC = 200,
     env_ReceiverName_AsyncReply = 201, env_isValidReceiverKey = (\<lambda>k. snd k \<noteq> - 1),
     env_isValidHandlerKey = (\<lambda>k. k \<noteq> 0 \<and> k \<noteq> - 1), env_alloc = (\<lambda>n. True),
     env_tryFastMalloc = (\<lambda>n. None), env_didReceiveMessage = (\<lambda>c d w. Some (d, w)),
     env_didReceiveSyncMessage = (\<lambda>c d e w. Some (d, Some e, w)),
     env_didReceiveInvalidMessage = (\<lambda>c m w. Some w), env_didClose = (\<lambda>c w. Some w),
     env_didCloseOnConnectionWorkQueue = (\<lambda>c w. Some w),
     env_receiverDidReceiveMessage = (\<lambda>r c d w. Some (d, w)),
     env_receiverDidReceiveSyncMessage = (\<lambda>r c d e w. Some (d, Some e, w)),
     env_callReply = (\<lambda>h d w. Some (d, w)), env_cancelReply = (\<lambda>h w. Some w),
     env_hasXPCConnection = (\<lambda>c. True), env_platformCanSendOutgoingMessages = (\<lambda>c. True),
     env_sendOutgoingMessage = (\<lambda>c e. True)\<rparr>"

definition initial_world :: world where
  "initial_world = \<lparr>w_connections = (\<lambda>c. Connection_new), w_didScheduleDispatchMessagesWorkSet = [],
     w_messagesToDispatchWhileWaitingForSyncReply = [], w_waitForSyncReplySemaphore = False,
     w_unboundedSynchronousIPCCount = 0, w_asyncReplyHandlerMap = [], w_nextAsyncReplyHandlerID = 0,
     w_mainRunLoop = [], w_connectionQueue = [], w_receiverTasks = [], w_callbackQueue = []\<rparr>"

definition example_message :: "u8 \<Rightarrow> u16 \<Rightarrow> u64 \<Rightarrow> decoder" where
  "example_message flags name dest = \<lparr>dec_buffer = 8, dec_bufferPos = 24, dec_bufferEnd = 24,
     dec_memory = replicate 16 0, dec_attachments = [], dec_messageFlags = flags,
     dec_messageName = name, dec_destinationID = dest\<rparr>"

lemma idle_respects: "(\<And>w. R w w) \<Longrightarrow> client_respects idle_environment R"
  by (simp add: client_respects_def idle_environment_def)

lemma idle_names [simp]:
  "env_receiverName idle_environment n = ucast n" "env_isSync idle_environment n \<longleftrightarrow> n = 7"
  "env_SyncMessageReply idle_environment = 1" "env_WrappedAsyncMessageForTesting idle_environment = 2"
  "env_ReceiverName_AsyncReply idle_environment = 201"
  "env_isValidReceiverKey idle_environment k \<longleftrightarrow> snd k \<noteq> - 1"
  "env_didReceiveMessage idle_environment c d w = Some (d, w)"
  "env_didReceiveInvalidMessage idle_environment c m w = Some w"
  "env_hasXPCConnection idle_environment c"
  by (simp_all add: idle_environment_def)

lemma example_message_simps [simp]:
  "dec_messageFlags (example_message f n i) = f" "dec_messageName (example_message f n i) = n"
  "dec_destinationID (example_message f n i) = i" "dec_isValid (example_message f n i)"
  by (simp_all add: example_message_def dec_isValid_def)

text \<open>
  Dispatching a message restores the connection: with a client whose callbacks leave the
  counters as they found them, whatever is dispatched in between (synchronous messages, wrapped
  messages and everything they nest) the counters of every connection are back at their values
  when dispatchMessage returns, and the flag for an invalid message is the one of the enclosing
  dispatch.
\<close>

theorem dispatchMessage_restores:
  assumes "client_respects E same_counters" and "conn_dispatchMessage E n c d w = Some w'"
  shows "same_counters w w' \<and>
    (\<not> shouldUseFullySynchronousModeForTesting d \<longrightarrow>
     m_didReceiveInvalidMessage (conn w' c) = m_didReceiveInvalidMessage (conn w c))"
  using dispatch_contract.conn_dispatchMessage_contract [OF same_counters_contract [OF assms(1)] assms(2)]
    dispatchMessage_flag assms(2)
  unfolding conn_dispatchMessage_def by blast

lemma idle_dispatch:
  assumes "\<not> shouldUseFullySynchronousModeForTesting (example_message f n i)" and "n \<noteq> 7" and "ucast n \<noteq> (201 :: u8)"
    and "m_workQueueMessageReceivers (conn w c) = []" and "m_isValid (conn w c)"
  shows "\<exists>w'. conn_dispatchMessage idle_environment k c (example_message f n i) w = Some w'"
  using assms
  by (simp add: conn_dispatchMessage_def dispatchMessage_with_def dispatchMessageToWorkQueueReceiver_def
      workQueueMessageReceiver_def dec_isSyncMessage_def dispatchMessage_decoder_def dec_receiverName_def
      Let_def world_simps beginDispatch_def)

theorem dispatchMessage_restores_witness:
  "\<exists>w'. conn_dispatchMessage idle_environment 3 0 (example_message 1 5 0) initial_world = Some w' \<and>
     same_counters initial_world w' \<and> \<not> m_didReceiveInvalidMessage (conn w' 0)"
proof -
  have flags: "\<not> shouldUseFullySynchronousModeForTesting (example_message 1 5 0)"
    by (simp add: shouldUseFullySynchronousModeForTesting_def flags_contains_def
        UseFullySynchronousModeForTesting_def)
  have "\<exists>w'. conn_dispatchMessage idle_environment 3 0 (example_message 1 5 0) initial_world = Some w'"
    by (rule idle_dispatch) (use flags in \<open>simp_all add: conn_def initial_world_def Connection_new_def\<close>)
  then obtain w' where w': "conn_dispatchMessage idle_environment 3 0 (example_message 1 5 0) initial_world = Some w'"
    by blast
  have "client_respects idle_environment same_counters"
    by (rule idle_respects) (simp add: same_counters_def)
  from dispatchMessage_restores [OF this w'] flags w' show ?thesis
    by (auto simp: conn_def initial_world_def Connection_new_def)
qed


end
