(* ===== verification/IPC_Connection_Progress.thy ===== *)
theory IPC_Connection_Progress
  imports IPC_Connection_Laws
begin

text \<open>
  Progress of \<^verbatim>\<open>IPC::Connection\<close>: a step relation over what the threads of the process do, the
  invariant that a connection with queued messages has a dispatch scheduled, the bounds of the
  throttler, that the queue drains, and what a thread that waits for a reply gets.
\<close>

subsection \<open>Throttling\<close>

lemma numberOfMessagesToProcess_level:
  "throttlingLevel \<le> maxThrottlingLevel \<Longrightarrow>
   snd (numberOfMessagesToProcess throttlingLevel pending) \<le> maxThrottlingLevel"
  by (auto simp: numberOfMessagesToProcess_def Let_def maxThrottlingLevel_def)

lemma batch_size_bounds:
  assumes "l \<le> maxThrottlingLevel"
  shows "60 \<le> maxIncomingMessagesDispatchingBatchSize div (l + 1)"
    and "maxIncomingMessagesDispatchingBatchSize div (l + 1) \<le> 600"
proof -
  have "600 div (9 + 1) \<le> (600 :: nat) div (l + 1)"
    using assms by (intro div_le_mono2) (simp_all add: maxThrottlingLevel_def)
  then show "60 \<le> maxIncomingMessagesDispatchingBatchSize div (l + 1)"
    by (simp add: maxIncomingMessagesDispatchingBatchSize_def)
  show "maxIncomingMessagesDispatchingBatchSize div (l + 1) \<le> 600"
    by (simp add: maxIncomingMessagesDispatchingBatchSize_def)
qed

text \<open>
  The throttler keeps its bounds: from a level of at most 9 it never asks for more than
  600 messages nor for more than there are, it asks for at least 60 whenever there are that many
  (so for at least one whenever there is one), and the level stays at most 9. A load of more than
  600 raises the level by one until it is 9, any other load lowers it until it is 0.
\<close>

theorem throttler_bounds:
  assumes "l \<le> maxThrottlingLevel" and "numberOfMessagesToProcess l pending = (k, l')"
  shows "k \<le> 600 \<and> k \<le> pending \<and> min pending 60 \<le> k \<and> l' \<le> maxThrottlingLevel \<and>
    (pending > 600 \<longrightarrow> l' = min (l + 1) 9) \<and> (pending \<le> 600 \<longrightarrow> l' = l - 1)"
proof -
  obtain b where b: "b = maxIncomingMessagesDispatchingBatchSize div (l + 1)" "60 \<le> b" "b \<le> 600"
    using batch_size_bounds [OF assms(1)] by blast
  show ?thesis
    using assms b(2,3) unfolding numberOfMessagesToProcess_def b(1) [symmetric]
    by (auto simp: Let_def maxThrottlingLevel_def maxIncomingMessagesDispatchingBatchSize_def
        split: if_splits)
qed

theorem throttler_bounds_witness: "numberOfMessagesToProcess 9 10000 = (60, 9) \<and> (60 :: nat) \<le> 600"
proof -
  have eq: "numberOfMessagesToProcess 9 10000 = (60, 9)"
    by (simp add: numberOfMessagesToProcess_def maxThrottlingLevel_def
        maxIncomingMessagesDispatchingBatchSize_def)
  have "(9 :: nat) \<le> maxThrottlingLevel" by (simp add: maxThrottlingLevel_def)
  from throttler_bounds [OF this eq] eq show ?thesis by simp
qed

subsection \<open>A queue that is not empty is scheduled\<close>

definition scheduled :: "connection_id \<Rightarrow> world \<Rightarrow> bool" where
  "scheduled c w \<longleftrightarrow> MT_dispatchIncoming c \<in> set (w_mainRunLoop w) \<or>
     MT_throttledDispatch c \<in> set (w_mainRunLoop w) \<or> m_dispatchMessagesTimer (conn w c)"

text \<open>
  Without a throttler every queued message has a task of its own; with one, a queue that is not
  empty has a task or the timer.
\<close>

definition live :: "connection_id \<Rightarrow> world \<Rightarrow> bool" where
  "live c w \<longleftrightarrow> (case m_throttlingLevel (conn w c) of
      None \<Rightarrow> length (m_incomingMessages (conn w c)) \<le> count_list (w_mainRunLoop w) (MT_dispatchIncoming c) \<and>
        MT_throttledDispatch c \<notin> set (w_mainRunLoop w) \<and> \<not> m_dispatchMessagesTimer (conn w c)
    | Some l \<Rightarrow> l \<le> maxThrottlingLevel \<and> (m_incomingMessages (conn w c) \<noteq> [] \<longrightarrow> scheduled c w))"

definition stays_live :: "world \<Rightarrow> world \<Rightarrow> bool" where
  "stays_live w w' \<longleftrightarrow> (\<forall>c. (live c w \<longrightarrow> live c w') \<and>
     (m_throttlingLevel (conn w c) \<noteq> None \<longrightarrow> m_throttlingLevel (conn w' c) \<noteq> None))"

lemma stays_live_refl: "stays_live w w"
  by (simp add: stays_live_def)

lemma stays_live_trans: "stays_live w1 w2 \<Longrightarrow> stays_live w2 w3 \<Longrightarrow> stays_live w1 w3"
  by (simp add: stays_live_def)

text \<open>A step that keeps the queues, the throttlers and the timers and only adds tasks.\<close>

lemma live_mono:
  assumes "live c w" and "m_incomingMessages (conn w' c) = m_incomingMessages (conn w c)"
    and "m_throttlingLevel (conn w' c) = m_throttlingLevel (conn w c)"
    and "m_dispatchMessagesTimer (conn w' c) = m_dispatchMessagesTimer (conn w c)"
    and "w_mainRunLoop w' = w_mainRunLoop w @ ts" and "MT_throttledDispatch c \<notin> set ts"
  shows "live c w'"
  using assms by (auto simp: live_def scheduled_def split: option.splits)

lemma stays_liveI:
  assumes "\<And>c. m_incomingMessages (conn w' c) = m_incomingMessages (conn w c)"
    and "\<And>c. m_throttlingLevel (conn w' c) = m_throttlingLevel (conn w c)"
    and "\<And>c. m_dispatchMessagesTimer (conn w' c) = m_dispatchMessagesTimer (conn w c)"
    and "w_mainRunLoop w' = w_mainRunLoop w @ ts" and "\<And>c. MT_throttledDispatch c \<notin> set ts"
  shows "stays_live w w'"
  using assms live_mono unfolding stays_live_def by metis

lemma stays_live_same:
  assumes "\<And>c. m_incomingMessages (conn w' c) = m_incomingMessages (conn w c)"
    and "\<And>c. m_throttlingLevel (conn w' c) = m_throttlingLevel (conn w c)"
    and "\<And>c. m_dispatchMessagesTimer (conn w' c) = m_dispatchMessagesTimer (conn w c)"
    and "w_mainRunLoop w' = w_mainRunLoop w"
  shows "stays_live w w'"
  using assms by (intro stays_liveI [where ts = "[]"]) auto

lemma stays_live_main: "(\<And>c. MT_throttledDispatch c \<noteq> t) \<Longrightarrow> stays_live w (dispatch_main t w)"
  by (rule stays_liveI [where ts = "[t]"]) (simp_all add: world_simps)

lemma live_enqueue:
  assumes "live x w" shows "live x (enqueueIncomingMessage E c d w)"
proof (cases "x = c")
  case True
  with assms show ?thesis
    by (auto simp: enqueueIncomingMessage_def conn_kill_def live_def scheduled_def Let_def world_simps
        split: option.splits if_splits)
next
  case False
  with assms show ?thesis
    by (auto simp: enqueueIncomingMessage_def conn_kill_def live_def scheduled_def Let_def world_simps
        split: option.splits if_splits)
qed

lemma live_sync_process:
  assumes "live x w" shows "live x (snd (sync_processIncomingMessage c d w))"
  using assms
  by (cases "x = c") (auto simp: sync_processIncomingMessage_def moveIncomingMessages_def live_def
      scheduled_def Let_def world_simps split: option.splits if_splits)

lemma stays_live_enqueue: "stays_live w (enqueueIncomingMessage E c d w)"
  using live_enqueue by (simp add: stays_live_def world_simps)

lemma stays_live_sync_process: "stays_live w (snd (sync_processIncomingMessage c d w))"
  using live_sync_process by (simp add: stays_live_def world_simps)

lemma stays_live_receive: "stays_live w (processIncomingMessage E c d w)"
proof (rule processIncomingMessage_cases [where Q = "stays_live w"])
  show "stays_live w (processIncomingSyncReply c d w)"
    by (rule stays_live_same) (simp_all add: world_simps)
  show "stays_live w (w\<lparr>w_receiverTasks := ts\<rparr>)" for ts
    by (rule stays_live_same) (simp_all add: world_simps)
  show "stays_live w (dispatch_main (MT_invalidMessage c (dec_messageName d)) w)"
    by (rule stays_live_main) simp
  show "stays_live w (enqueueIncomingMessage E c d w1)" if "stays_live w w1" for w1
    using stays_live_trans [OF that stays_live_enqueue] .
  show "stays_live w (snd (sync_processIncomingMessage c d w1))" if "stays_live w w1" for w1
    using stays_live_trans [OF that stays_live_sync_process] .
  show "stays_live w (upd c (\<lambda>cn. cn\<lparr>m_waitingForMessage := x\<rparr>) w1)" if "stays_live w w1" for w1 x
    by (rule stays_live_trans [OF that stays_live_same]) (simp_all add: world_simps)
  then show "stays_live w (upd c (\<lambda>cn. cn\<lparr>m_waitingForMessage := x\<rparr>) w1)" if "stays_live w w1" for w1 x
    using that .
  show "stays_live w w" by (rule stays_live_refl)
  show "stays_live w (upd c (\<lambda>cn. cn\<lparr>m_incomingSyncMessageCallbacks := []\<rparr>) (w\<lparr>w_callbackQueue := q\<rparr>))" for q
    by (rule stays_live_same) (simp_all add: world_simps)
qed

lemma stays_live_contract:
  assumes "client_respects E stays_live"
  shows "dispatch_contract E stays_live"
proof
  show "stays_live w w" for w by (rule stays_live_refl)
  show "stays_live w1 w2 \<Longrightarrow> stays_live w2 w3 \<Longrightarrow> stays_live w1 w3" for w1 w2 w3
    by (rule stays_live_trans)
  show "stays_live w (upd c (endDispatch f m d) w1)" if "stays_live (upd c (beginDispatch f m) w) w1"
    for c f m w w1 d
  proof -
    have "stays_live w (upd c (beginDispatch f m) w)"
      by (rule stays_live_same) (simp_all add: world_simps beginDispatch_def)
    moreover have "stays_live w1 (upd c (endDispatch f m d) w1)"
      by (rule stays_live_same) (simp_all add: world_simps endDispatch_def)
    ultimately show ?thesis using that stays_live_trans by blast
  qed
  show "stays_live w (processIncomingMessage E c d w)" for w c d by (rule stays_live_receive)
  show "client_respects E stays_live" by (rule assms)
qed (rule stays_live_same; simp add: world_simps)+

subsection \<open>Draining the queue\<close>

text \<open>
  A client that returns and neither receives nor queues messages while it handles one, and
  messages that go to it rather than to a completion handler.
\<close>

definition same_queue :: "connection_id \<Rightarrow> world \<Rightarrow> world \<Rightarrow> bool" where
  "same_queue c w w' \<longleftrightarrow>
     m_incomingMessages (conn w' c) = m_incomingMessages (conn w c) \<and>
     m_throttlingLevel (conn w' c) = m_throttlingLevel (conn w c) \<and>
     m_dispatchMessagesTimer (conn w' c) = m_dispatchMessagesTimer (conn w c) \<and>
     w_mainRunLoop w' = w_mainRunLoop w"

definition returns_quietly :: "environment \<Rightarrow> connection_id \<Rightarrow> bool" where
  "returns_quietly E c \<longleftrightarrow>
     (\<forall>d w. \<exists>d' w'. env_didReceiveMessage E c d w = Some (d', w') \<and> same_queue c w w') \<and>
     (\<forall>m w. \<exists>w'. env_didReceiveInvalidMessage E c m w = Some w' \<and> same_queue c w w')"

definition plain_message :: "environment \<Rightarrow> decoder \<Rightarrow> bool" where
  "plain_message E d \<longleftrightarrow> \<not> dec_isSyncMessage E d \<and> dec_receiverName E d \<noteq> env_ReceiverName_AsyncReply E"

lemma same_queue_trans: "same_queue c w1 w2 \<Longrightarrow> same_queue c w2 w3 \<Longrightarrow> same_queue c w1 w3"
  by (simp add: same_queue_def)

lemma live_same_queue: "same_queue c w w' \<Longrightarrow> live c w' \<longleftrightarrow> live c w"
  by (simp add: live_def scheduled_def same_queue_def split: option.splits)

lemma dispatch_quiet:
  assumes "returns_quietly E c" and "plain_message E d"
  shows "\<exists>w'. conn_dispatchMessage E n c d w = Some w' \<and> same_queue c w w'"
proof -
  consider (invalid) "\<not> m_isValid (conn w c)"
    | (queue) q r where "m_isValid (conn w c)"
      "workQueueMessageReceiver E (m_workQueueMessageReceivers (conn w c)) d = Some (q, r)"
    | (refused) "m_isValid (conn w c)"
      "workQueueMessageReceiver E (m_workQueueMessageReceivers (conn w c)) d = None"
      "shouldUseFullySynchronousModeForTesting d"
      "\<not> m_fullySynchronousModeIsAllowedForTesting (conn w c)"
    | (client) "m_isValid (conn w c)"
      "workQueueMessageReceiver E (m_workQueueMessageReceivers (conn w c)) d = None"
      "\<not> (shouldUseFullySynchronousModeForTesting d \<and>
         \<not> m_fullySynchronousModeIsAllowedForTesting (conn w c))"
    by (cases "workQueueMessageReceiver E (m_workQueueMessageReceivers (conn w c)) d") auto
  then show ?thesis
  proof cases
    case client
    define f where "f = shouldUseFullySynchronousModeForTesting d"
    define m where "m = isDispatchingMessageWhileWaitingForSyncReply d w"
    let ?w1 = "upd c (beginDispatch f m) w"
    obtain d' w2 where w2: "env_didReceiveMessage E c d ?w1 = Some (d', w2)" "same_queue c ?w1 w2"
      using assms(1) unfolding returns_quietly_def by blast
    let ?w3 = "upd c (endDispatch (shouldUseFullySynchronousModeForTesting d') m d') w2"
    obtain w4 where w4: "(if m_didReceiveInvalidMessage (conn ?w3 c) \<and> m_isValid (conn ?w3 c)
        then env_didReceiveInvalidMessage E c (dec_messageName d') ?w3 else Some ?w3) = Some w4"
      "same_queue c ?w3 w4"
    proof (cases "m_didReceiveInvalidMessage (conn ?w3 c) \<and> m_isValid (conn ?w3 c)")
      case True
      then show ?thesis using that assms(1) unfolding returns_quietly_def by metis
    next
      case False
      then show ?thesis using that [of ?w3] by (auto simp: same_queue_def)
    qed
    have begin_valid: "m_isValid (conn ?w1 c)" using client by (simp add: world_simps beginDispatch_def)
    have decoder: "dispatchMessage_decoder E c d ?w1 = Some (d', w2)"
      using begin_valid assms(2) w2(1) by (simp add: dispatchMessage_decoder_def plain_message_def)
    have "conn_dispatchMessage E n c d w =
        Some (upd c (\<lambda>cn. cn\<lparr>m_didReceiveInvalidMessage := m_didReceiveInvalidMessage (conn w c)\<rparr>) w4)"
      using client(1,2) assms(2) decoder w4(1) client(3) [unfolded f_def [symmetric]]
      unfolding conn_dispatchMessage_def dispatchMessage_with_def Let_def
      by (simp only: plain_message_def dispatchMessageToWorkQueueReceiver_def f_def [symmetric]
          m_def [symmetric] if_True if_False not_True_eq_False not_False_eq_True option.case
          prod.case bool.case Option.bind.simps simp_thms)
    moreover have "same_queue c w w4"
      using w2(2) w4(2) by (simp add: same_queue_def world_simps beginDispatch_def endDispatch_def)
    ultimately show ?thesis by (simp add: same_queue_def world_simps)
  next
    case invalid
    then show ?thesis by (simp add: conn_dispatchMessage_def dispatchMessage_with_def same_queue_def)
  next
    case queue
    then show ?thesis
      by (simp add: conn_dispatchMessage_def dispatchMessage_with_def same_queue_def
          dispatchMessageToWorkQueueReceiver_def world_simps)
  next
    case refused
    then show ?thesis
      using assms(1) unfolding returns_quietly_def
      by (simp add: conn_dispatchMessage_def dispatchMessage_with_def
          dispatchMessageToWorkQueueReceiver_def)
  qed
qed

text \<open>The first task of the run loop that dispatches messages of the connection.\<close>

fun takeDispatchTask :: "connection_id \<Rightarrow> main_task list \<Rightarrow> (main_task \<times> main_task list) option" where
  "takeDispatchTask c [] = None"
| "takeDispatchTask c (t # ts) =
     (if t = MT_dispatchIncoming c \<or> t = MT_throttledDispatch c then Some (t, ts)
      else map_option (\<lambda>(x, xs). (x, t # xs)) (takeDispatchTask c ts))"

text \<open>
  Run the dispatches of a connection that the timer and the run loop hold, at most \<open>k\<close> of them,
  until its queue is empty: \<^term>\<open>None\<close> if the queue is not empty and nothing is scheduled.
\<close>

primrec runScheduled :: "environment \<Rightarrow> nat \<Rightarrow> connection_id \<Rightarrow> nat \<Rightarrow> world \<Rightarrow> world option" where
  "runScheduled E n c 0 w = Some w"
| "runScheduled E n c (Suc k) w =
     (if m_incomingMessages (conn w c) = [] then Some w
      else do {
        w \<leftarrow> (if m_dispatchMessagesTimer (conn w c) then fireDispatchMessagesTimer E n c w
              else case takeDispatchTask c (w_mainRunLoop w) of
                None \<Rightarrow> None
              | Some (t, ts) \<Rightarrow> runMainTask E n t (w\<lparr>w_mainRunLoop := ts\<rparr>));
        runScheduled E n c k w
      })"

lemma takeDispatchTask_Some:
  "takeDispatchTask c ts = Some (t, rest) \<Longrightarrow>
   (t = MT_dispatchIncoming c \<or> t = MT_throttledDispatch c) \<and> t \<in> set ts \<and>
   count_list rest (MT_dispatchIncoming c) =
     count_list ts (MT_dispatchIncoming c) - (if t = MT_dispatchIncoming c then 1 else 0) \<and>
   set rest \<subseteq> set ts"
  by (induction ts arbitrary: t rest) (auto split: if_splits simp: Suc_diff_le)

lemma takeDispatchTask_None:
  "takeDispatchTask c ts = None \<longleftrightarrow>
   MT_dispatchIncoming c \<notin> set ts \<and> MT_throttledDispatch c \<notin> set ts"
  by (induction ts) auto

lemma dispatchBatch_quiet:
  assumes "returns_quietly E c" and "list_all (plain_message E) (m_incomingMessages (conn w c))"
    and "m_throttlingLevel (conn w c) \<noteq> None" and "live c w"
  shows "\<exists>w' m. dispatchBatch E n c k w = Some w' \<and>
    m_incomingMessages (conn w' c) = drop m (m_incomingMessages (conn w c)) \<and> live c w'"
  using assms(2-)
proof (induction k arbitrary: w)
  case 0
  then show ?case by (intro exI [of _ w] exI [of _ 0]) simp
next
  case (Suc k)
  show ?case
  proof (cases "m_incomingMessages (conn w c)")
    case Nil
    then show ?thesis using Suc.prems by (intro exI [of _ w] exI [of _ 0]) simp
  next
    case (Cons d ds)
    let ?w1 = "upd c (\<lambda>cn. cn\<lparr>m_incomingMessages := ds\<rparr>) w"
    have "live c ?w1"
      using Suc.prems Cons by (auto simp: live_def scheduled_def world_simps split: option.splits)
    moreover obtain w2 where w2: "conn_dispatchMessage E n c d ?w1 = Some w2" "same_queue c ?w1 w2"
      using dispatch_quiet [OF assms(1), of d n ?w1] Suc.prems Cons by auto
    ultimately have "live c w2" using live_same_queue by blast
    moreover have q: "m_incomingMessages (conn w2 c) = ds" "m_throttlingLevel (conn w2 c) \<noteq> None"
      using w2(2) Suc.prems by (auto simp: same_queue_def world_simps)
    ultimately obtain w' m where "dispatchBatch E n c k w2 = Some w'"
      "m_incomingMessages (conn w' c) = drop m ds" "live c w'"
      using Suc.IH [of w2] Suc.prems Cons by auto
    then show ?thesis
      using Cons w2(1) by (intro exI [of _ w'] exI [of _ "Suc m"]) simp
  qed
qed

text \<open>
  A dispatch with a throttler, started when the scheduled task is already gone: it returns, the
  queue gets shorter and what is left is scheduled again.
\<close>

lemma dispatchIncoming_quiet:
  assumes "returns_quietly E c" and "list_all (plain_message E) (m_incomingMessages (conn w c))"
    and "m_throttlingLevel (conn w c) = Some l" and "l \<le> maxThrottlingLevel"
    and "m_incomingMessages (conn w c) = d # ds"
  shows "\<exists>w' m. dispatchIncomingMessages E n c w = Some w' \<and>
    m_incomingMessages (conn w' c) = drop m ds \<and> live c w'"
proof -
  obtain k l' where k: "numberOfMessagesToProcess l (length ds) = (k, l')" by fastforce
  let ?w1 = "upd c (\<lambda>cn. cn\<lparr>m_incomingMessages := ds, m_throttlingLevel := Some l'\<rparr>) w"
  let ?w2 = "if ds \<noteq> [] then scheduleMessagesDispatch c ?w1 else ?w1"
  have l': "l' \<le> maxThrottlingLevel"
    using numberOfMessagesToProcess_level [OF assms(4), of "length ds"] k by simp
  then have "live c ?w2"
    by (auto simp: live_def scheduled_def world_simps scheduleMessagesDispatch_def)
  moreover obtain w3 where w3: "conn_dispatchMessage E n c d ?w2 = Some w3" "same_queue c ?w2 w3"
    using dispatch_quiet [OF assms(1), of d n ?w2] assms(2,5) by auto
  ultimately have "live c w3" using live_same_queue by blast
  moreover have "m_incomingMessages (conn w3 c) = ds" "m_throttlingLevel (conn w3 c) \<noteq> None"
    using w3(2) by (auto simp: same_queue_def world_simps scheduleMessagesDispatch_def split: if_splits)
  ultimately obtain w' m where "dispatchBatch E n c (k - 1) w3 = Some w'"
    "m_incomingMessages (conn w' c) = drop m ds" "live c w'"
    using dispatchBatch_quiet [OF assms(1), of w3 n "k - 1"] assms(2,5) by auto
  moreover have "dispatchIncomingMessages E n c w = dispatchBatch E n c (k - 1) w3"
    using assms(3,5) k w3(1) by (simp add: dispatchIncomingMessages_def del: if_split split del: if_split)
  ultimately show ?thesis by auto
qed

lemma dispatchOne_quiet:
  assumes "returns_quietly E c" and "list_all (plain_message E) (m_incomingMessages (conn w c))"
    and "m_incomingMessages (conn w c) = d # ds"
  shows "\<exists>w'. dispatchOneIncomingMessage E n c w = Some w' \<and>
    same_queue c (upd c (\<lambda>cn. cn\<lparr>m_incomingMessages := ds\<rparr>) w) w'"
  using dispatch_quiet [OF assms(1), of d n] assms(2,3) by (simp add: dispatchOneIncomingMessage_def)

lemma runScheduled_step:
  assumes "returns_quietly E c" and "list_all (plain_message E) (m_incomingMessages (conn w c))"
    and "live c w" and "m_incomingMessages (conn w c) = d # ds"
  shows "\<exists>w' m. (if m_dispatchMessagesTimer (conn w c) then fireDispatchMessagesTimer E n c w
      else case takeDispatchTask c (w_mainRunLoop w) of None \<Rightarrow> None
        | Some (t, ts) \<Rightarrow> runMainTask E n t (w\<lparr>w_mainRunLoop := ts\<rparr>)) = Some w' \<and>
    m_incomingMessages (conn w' c) = drop m ds \<and> live c w'"
proof (cases "m_throttlingLevel (conn w c)")
  case None
  then have timer: "\<not> m_dispatchMessagesTimer (conn w c)"
    and count: "Suc (length ds) \<le> count_list (w_mainRunLoop w) (MT_dispatchIncoming c)"
    and no_throttled: "MT_throttledDispatch c \<notin> set (w_mainRunLoop w)"
    using assms(3,4) by (auto simp: live_def)
  have "MT_dispatchIncoming c \<in> set (w_mainRunLoop w)"
    using count count_notin [of "MT_dispatchIncoming c" "w_mainRunLoop w"] by fastforce
  then obtain t ts where task: "takeDispatchTask c (w_mainRunLoop w) = Some (t, ts)"
    using takeDispatchTask_None [of c "w_mainRunLoop w"] by (cases "takeDispatchTask c (w_mainRunLoop w)") auto
  note facts = takeDispatchTask_Some [OF task]
  have t: "t = MT_dispatchIncoming c" using facts no_throttled by auto
  obtain w' where w': "dispatchOneIncomingMessage E n c (w\<lparr>w_mainRunLoop := ts\<rparr>) = Some w'"
    "same_queue c (upd c (\<lambda>cn. cn\<lparr>m_incomingMessages := ds\<rparr>) (w\<lparr>w_mainRunLoop := ts\<rparr>)) w'"
    using dispatchOne_quiet [OF assms(1), of "w\<lparr>w_mainRunLoop := ts\<rparr>" d ds n] assms(2,4)
    by (auto simp: world_simps)
  have "live c w'"
    using w'(2) None timer count no_throttled facts t
    by (auto simp: live_def same_queue_def world_simps)
  then show ?thesis
    using w' timer task t None
    by (intro exI [of _ w'] exI [of _ 0]) (simp add: runMainTask_def same_queue_def world_simps)
next
  case (Some l)
  then have l: "l \<le> maxThrottlingLevel" and sched: "scheduled c w"
    using assms(3,4) by (auto simp: live_def)
  have dispatch: "\<exists>w' m. dispatchIncomingMessages E n c w1 = Some w' \<and>
      m_incomingMessages (conn w' c) = drop m ds \<and> live c w'"
    if "m_incomingMessages (conn w1 c) = d # ds" "m_throttlingLevel (conn w1 c) = Some l" for w1
    using dispatchIncoming_quiet [OF assms(1) _ that(2) l that(1)] assms(2,4) that(1) by simp
  show ?thesis
  proof (cases "m_dispatchMessagesTimer (conn w c)")
    case True
    then show ?thesis
      using dispatch [of "upd c (\<lambda>cn. cn\<lparr>m_dispatchMessagesTimer := False\<rparr>) w"] Some assms(4)
      by (simp add: fireDispatchMessagesTimer_def world_simps)
  next
    case False
    then obtain t ts where task: "takeDispatchTask c (w_mainRunLoop w) = Some (t, ts)"
      using takeDispatchTask_None [of c "w_mainRunLoop w"] sched
      by (cases "takeDispatchTask c (w_mainRunLoop w)") (auto simp: scheduled_def)
    have "runMainTask E n t (w\<lparr>w_mainRunLoop := ts\<rparr>)
        = dispatchIncomingMessages E n c (w\<lparr>w_mainRunLoop := ts\<rparr>)"
      using takeDispatchTask_Some [OF task] Some by (auto simp: runMainTask_def world_simps)
    then show ?thesis
      using dispatch [of "w\<lparr>w_mainRunLoop := ts\<rparr>"] False task Some assms(4) by (simp add: world_simps)
  qed
qed



subsection \<open>Waiting\<close>

text \<open>
  A relation of \<open>dispatch_contract\<close> that what the other threads do keeps as well holds across
  the two waiting loops.
\<close>

locale wait_contract = dispatch_contract +
  assumes R_semaphore: "R w (w\<lparr>w_waitForSyncReplySemaphore := b\<rparr>)"
    and R_waiting: "R w (upd c (\<lambda>cn. cn\<lparr>m_waitingForMessage := x\<rparr>) w)"
    and R_queue: "runConnectionQueue E w = Some w' \<Longrightarrow> R w w'"
    and R_taken: "m_pendingSyncReplies (conn w c) \<noteq> [] \<Longrightarrow>
      R w (upd c (\<lambda>cn. cn\<lparr>m_pendingSyncReplies := butlast (m_pendingSyncReplies (conn w c)) @
        [(last (m_pendingSyncReplies (conn w c)))\<lparr>psr_replyDecoder := None\<rparr>]\<rparr>) w)"
begin

lemma actions_contract: "runThreadActions E as w = Some w' \<Longrightarrow> R w w'"
proof (induction as arbitrary: w)
  case (Cons a as)
  then obtain w1 where "(case a of TA_receive c message \<Rightarrow> Some (processIncomingMessage E c message w)
      | TA_runConnectionQueue \<Rightarrow> runConnectionQueue E w) = Some w1" "runThreadActions E as w1 = Some w'"
    by (auto split: Option.bind_splits)
  then show ?case
    using R_trans [OF R_receive Cons.IH] R_trans [OF R_queue Cons.IH] by (cases a) auto
qed (use R_refl in auto)

lemma sync_wait_contract: "sync_wait E timeout wakes w = Some (b, wakes', w') \<Longrightarrow> R w w'"
proof (induction wakes arbitrary: w)
  case (Cons wake wakes)
  obtain as late where wake: "wake = (as, late)" by fastforce
  obtain w1 where w1: "runThreadActions E as w = Some w1"
    using Cons.prems wake by (auto split: Option.bind_splits)
  have "R w w1" by (rule actions_contract [OF w1])
  moreover have "R w1 w'"
    using Cons wake w1 R_semaphore R_refl by (auto split: if_splits)
  ultimately show ?case by (rule R_trans)
qed simp

lemma waitForSyncReply_contract:
  assumes "waitForSyncReply_loop E n c timeout wakes w = Some (r, wakes', w')"
  shows "R w w' \<and> (\<forall>d. r = Some d \<longrightarrow> (\<exists>w1. R w w1 \<and> m_pendingSyncReplies (conn w1 c) \<noteq> [] \<and>
    psr_replyDecoder (last (m_pendingSyncReplies (conn w1 c))) = Some d))"
  using assms
proof (induction "length wakes" arbitrary: wakes w rule: less_induct)
  case less
  note loop = less.prems [unfolded waitForSyncReply_loop.simps [of E n c timeout wakes w]]
  obtain w1 where w1: "sync_dispatchMessages E n w = Some w1" using loop by (auto split: option.splits)
  note R1 = sync_dispatchMessages_contract [OF w1]
  let ?top = "last (m_pendingSyncReplies (conn w1 c))"
  have nonempty: "m_pendingSyncReplies (conn w1 c) \<noteq> []"
    using loop w1 by (auto simp: Let_def split: if_splits)
  show ?case
  proof (cases "psr_didReceiveReply ?top \<or> \<not> m_shouldWaitForSyncReplies (conn w1 c)")
    case True
    then show ?thesis
      using loop w1 nonempty R1 R_trans [OF R1 R_taken [OF nonempty]] by (auto simp: Let_def)
  next
    case waiting: False
    show ?thesis
    proof (cases "m_isValid (conn w1 c)")
      case False
      then show ?thesis using loop w1 nonempty waiting R1 by (auto simp: Let_def)
    next
      case True
      then obtain b wakes2 w2 where w2: "sync_wait E timeout wakes w1 = Some (b, wakes2, w2)"
        using loop w1 nonempty waiting by (auto simp: Let_def split: option.splits)
      have R2: "R w w2" by (rule R_trans [OF R1 sync_wait_contract [OF w2]])
      show ?thesis
      proof (cases b)
        case False
        then show ?thesis using loop w1 nonempty waiting True w2 R2 by (auto simp: Let_def)
      next
        case again: True
        then have "waitForSyncReply_loop E n c timeout wakes2 w2 = Some (r, wakes', w')"
          using loop w1 nonempty waiting True w2 by (simp add: Let_def)
        from less.hyps [OF sync_wait_shorter [OF w2] this] show ?thesis
          using R_trans [OF R2] by blast
      qed
    qed
  qed
qed

lemma waitForMessage_contract:
  "waitForMessage_loop E n c timeout wakes w = Some (r, wakes', w') \<Longrightarrow> R w w'"
proof (induction wakes arbitrary: w)
  case Nil
  obtain w1 where w1: "sync_dispatchMessages E n w = Some w1"
    using Nil by (subst (asm) waitForMessage_loop.simps) (auto split: Option.bind_splits)
  show ?case
    using Nil w1 R_trans [OF sync_dispatchMessages_contract [OF w1] R_waiting]
    by (subst (asm) waitForMessage_loop.simps) (auto split: Option.bind_splits option.splits)
next
  case (Cons wake wakes)
  obtain as late where wake: "wake = (as, late)" by fastforce
  obtain w1 where w1: "sync_dispatchMessages E n w = Some w1"
    using Cons.prems by (subst (asm) waitForMessage_loop.simps) (auto split: Option.bind_splits)
  note R1 = sync_dispatchMessages_contract [OF w1]
  obtain ws where ws: "m_waitingForMessage (conn w1 c) = Some ws"
    using Cons.prems w1 by (subst (asm) waitForMessage_loop.simps) (auto split: Option.bind_splits)
  show ?case
  proof (cases "ws_decoder ws")
    case (Some d)
    then show ?thesis
      using Cons.prems w1 ws R_trans [OF R1 R_waiting]
      by (subst (asm) waitForMessage_loop.simps) auto
  next
    case None
    obtain w2 where w2: "runThreadActions E as w1 = Some w2"
      using Cons.prems w1 ws None wake
      by (subst (asm) waitForMessage_loop.simps) (auto split: Option.bind_splits)
    have R2: "R w w2" by (rule R_trans [OF R1 actions_contract [OF w2]])
    show ?thesis
      using Cons.prems w1 ws None wake w2 R_trans [OF R2 R_waiting] R_trans [OF R2 Cons.IH]
      by (subst (asm) waitForMessage_loop.simps) (auto split: Option.bind_splits if_splits)
  qed
qed

end

subsection \<open>The steps of a process\<close>

text \<open>
  One step of one thread: the connection's thread receives a message or runs a task of its queue,
  the main thread runs a task or the throttler's timer, a receiver's thread runs its task, or a
  client calls an operation of the connection.
\<close>

inductive conn_step :: "environment \<Rightarrow> nat \<Rightarrow> world \<Rightarrow> world \<Rightarrow> bool" for E n where
  receive: "conn_step E n w (processIncomingMessage E c d w)"
| main: "runMainRunLoop E n w = Some w' \<Longrightarrow> conn_step E n w w'"
| timer: "m_dispatchMessagesTimer (conn w c) \<Longrightarrow> fireDispatchMessagesTimer E n c w = Some w' \<Longrightarrow>
    conn_step E n w w'"
| queue: "runConnectionQueue E w = Some w' \<Longrightarrow> conn_step E n w w'"
| receiver: "w_receiverTasks w = ts1 @ t # ts2 \<Longrightarrow>
    runReceiverTask E t (w\<lparr>w_receiverTasks := ts1 @ ts2\<rparr>) = Some w' \<Longrightarrow> conn_step E n w w'"
| send: "conn_step E n w (snd (sendMessage_post c e opts w))"
| send_sync: "sendSyncMessage E n c i e timeout sopts wakes w = Some (r, wakes', w') \<Longrightarrow>
    conn_step E n w w'"
| wait: "waitForMessage E n c name dest timeout wopts wakes w = Some (a, wakes', w') \<Longrightarrow>
    conn_step E n w w'"
| throttle: "conn_step E n w (enableIncomingMessagesThrottling c w)"
| invalidate: "conn_step E n w (conn_invalidate c w)"
| post_close: "conn_step E n w (postConnectionDidCloseOnConnectionWorkQueue c w)"
| add_queue: "conn_step E n w (addWorkQueueMessageReceiver c name1 q r1 dest w)"
| remove_queue: "conn_step E n w (removeWorkQueueMessageReceiver c name1 dest w)"
| add_thread: "conn_step E n w (addThreadMessageReceiver c name1 r1 dest w)"
| remove_thread: "conn_step E n w (removeThreadMessageReceiver c name1 dest w)"
| install: "conn_step E n w (snd (installIncomingSyncMessageCallback c cb w))"
| uninstall: "conn_step E n w (uninstallIncomingSyncMessageCallback c i w)"
| unbounded_enter: "conn_step E n w (UnboundedSynchronousIPCScope_enter w)"
| unbounded_leave: "conn_step E n w (UnboundedSynchronousIPCScope_leave w)"
| add_handler: "conn_step E n w (addAsyncReplyHandler c i h w)"

lemma stays_live_upd:
  assumes "m_incomingMessages (f (conn w c)) = m_incomingMessages (conn w c)"
    and "m_throttlingLevel (f (conn w c)) = m_throttlingLevel (conn w c)"
    and "m_dispatchMessagesTimer (f (conn w c)) = m_dispatchMessagesTimer (conn w c)"
  shows "stays_live w (upd c f w)"
  by (rule stays_live_same) (simp_all add: world_simps assms)

lemma connectionDidClose_cases:
  assumes "connectionDidClose E c w = Some w'"
  obtains w2 where "w2 = stopWaiting c (platformInvalidate c w) \<or>
      env_didCloseOnConnectionWorkQueue E c (stopWaiting c (platformInvalidate c w)) = Some w2"
    "w' = dispatch_main (MT_didClose c) w2"
proof -
  define w1 where "w1 = stopWaiting c (platformInvalidate c w)"
  obtain w2 where "(if m_didCloseOnConnectionWorkQueueCallback (conn w1 c)
      then env_didCloseOnConnectionWorkQueue E c w1 else Some w1) = Some w2"
    "w' = dispatch_main (MT_didClose c) w2"
    using assms unfolding connectionDidClose_def Let_def w1_def [symmetric]
    by (auto simp del: if_split split: Option.bind_splits)
  then show ?thesis using that unfolding w1_def by (auto split: if_splits)
qed

lemma stays_live_queue:
  assumes "client_respects E stays_live" and "runConnectionQueue E w = Some w'"
  shows "stays_live w w'"
proof (cases "w_connectionQueue w")
  case Nil
  then show ?thesis using assms(2) by (simp add: runConnectionQueue_def stays_live_refl)
next
  case (Cons t ts)
  let ?w = "w\<lparr>w_connectionQueue := ts\<rparr>"
  have run: "runQueueTask E t ?w = Some w'" using assms(2) Cons by (simp add: runConnectionQueue_def)
  have "stays_live ?w w'"
  proof (cases t)
    case (QT_sendOutgoingMessages c)
    then show ?thesis
      using run by (auto simp: runQueueTask_def sendOutgoingMessages_def stays_live_refl
          intro!: stays_live_upd)
  next
    case (QT_platformInvalidate c)
    then show ?thesis
      using run by (auto simp: runQueueTask_def platformInvalidate_def intro!: stays_live_upd)
  next
    case (QT_connectionDidClose c)
    have R1: "stays_live ?w (stopWaiting c (platformInvalidate c ?w))"
      by (rule stays_live_same) (simp_all add: world_simps stopWaiting_def platformInvalidate_def Let_def)
    define w1 where "w1 = stopWaiting c (platformInvalidate c ?w)"
    have "connectionDidClose E c ?w = Some w'" using run QT_connectionDidClose by (simp add: runQueueTask_def)
    then obtain w2 where w2: "w2 = w1 \<or> env_didCloseOnConnectionWorkQueue E c w1 = Some w2"
      "w' = dispatch_main (MT_didClose c) w2"
      unfolding w1_def by (rule connectionDidClose_cases)
    have R2: "stays_live w1 w2"
      using w2(1) client_respectsD(7) [OF assms(1), of c w1 w2] stays_live_refl by auto
    have "stays_live w2 w'" unfolding w2(2) by (rule stays_live_main) simp
    then show ?thesis using R1 [folded w1_def] R2 stays_live_trans by blast
  qed
  moreover have "stays_live w ?w" by (rule stays_live_same) (simp_all add: world_simps)
  ultimately show ?thesis using stays_live_trans by blast
qed

lemma stays_live_wait_contract:
  assumes "client_respects E stays_live"
  shows "wait_contract E stays_live"
proof (intro wait_contract.intro wait_contract_axioms.intro stays_live_contract assms)
  show "stays_live w w'" if "runConnectionQueue E w = Some w'" for w w'
    by (rule stays_live_queue [OF assms that])
qed (rule stays_live_same; simp add: world_simps)+

lemma stays_live_pop:
  assumes "m_incomingMessages (conn w c) = d # ds" and "m_throttlingLevel (conn w c) \<noteq> None"
  shows "stays_live w (upd c (\<lambda>cn. cn\<lparr>m_incomingMessages := ds\<rparr>) w)"
  using assms by (auto simp: stays_live_def live_def scheduled_def world_simps split: option.splits)

lemma stays_live_batch:
  assumes "client_respects E stays_live"
  shows "m_throttlingLevel (conn w c) \<noteq> None \<Longrightarrow> dispatchBatch E n c k w = Some w' \<Longrightarrow> stays_live w w'"
proof (induction k arbitrary: w)
  case 0
  then show ?case by (simp add: stays_live_refl)
next
  case (Suc k)
  show ?case
  proof (cases "m_incomingMessages (conn w c)")
    case Nil
    then show ?thesis using Suc.prems by (simp add: stays_live_refl)
  next
    case (Cons d ds)
    let ?w1 = "upd c (\<lambda>cn. cn\<lparr>m_incomingMessages := ds\<rparr>) w"
    obtain w2 where w2: "conn_dispatchMessage E n c d ?w1 = Some w2" "dispatchBatch E n c k w2 = Some w'"
      using Suc.prems Cons by (auto split: Option.bind_splits)
    have "stays_live w w2"
      using stays_live_trans [OF stays_live_pop [OF Cons Suc.prems(1)]]
        dispatch_contract.conn_dispatchMessage_contract [OF stays_live_contract [OF assms] w2(1)] by blast
    moreover from this have "stays_live w2 w'"
      using Suc.IH [OF _ w2(2)] Suc.prems(1) by (auto simp: stays_live_def)
    ultimately show ?thesis by (rule stays_live_trans)
  qed
qed

text \<open>A throttled dispatch leaves its own queue scheduled whatever was scheduled before.\<close>

lemma live_dispatchIncoming:
  assumes "client_respects E stays_live" and "dispatchIncomingMessages E n c w = Some w'"
    and "x \<noteq> c \<Longrightarrow> live x w"
    and "x = c \<Longrightarrow> \<exists>l \<le> maxThrottlingLevel. m_throttlingLevel (conn w c) = Some l"
  shows "live x w'"
proof (cases "m_incomingMessages (conn w c)")
  case Nil
  then show ?thesis
    using assms by (cases "x = c") (auto simp: dispatchIncomingMessages_def live_def)
next
  case (Cons d ds)
  obtain l where l: "m_throttlingLevel (conn w c) = Some l"
    using assms(2) Cons by (auto simp: dispatchIncomingMessages_def split: option.splits)
  obtain k l' where k: "numberOfMessagesToProcess l (length ds) = (k, l')" by fastforce
  let ?w1 = "upd c (\<lambda>cn. cn\<lparr>m_incomingMessages := ds, m_throttlingLevel := Some l'\<rparr>) w"
  define w2 where "w2 = (if ds \<noteq> [] then scheduleMessagesDispatch c ?w1 else ?w1)"
  obtain w3 where w3: "conn_dispatchMessage E n c d w2 = Some w3" "dispatchBatch E n c (k - 1) w3 = Some w'"
    using assms(2) Cons l k unfolding dispatchIncomingMessages_def w2_def
    by (auto simp: Let_def split: Option.bind_splits)
  have "live x w2"
  proof (cases "x = c")
    case True
    have "l' \<le> maxThrottlingLevel"
      using numberOfMessagesToProcess_level [of l "length ds"] assms(4) [OF True] l k by auto
    then show ?thesis
      using True by (auto simp: w2_def live_def scheduled_def world_simps scheduleMessagesDispatch_def)
  next
    case False
    then show ?thesis
      using assms(3) by (auto simp: w2_def live_def scheduled_def world_simps scheduleMessagesDispatch_def
          split: option.splits)
  qed
  moreover have R: "stays_live w2 w3"
    by (rule dispatch_contract.conn_dispatchMessage_contract [OF stays_live_contract [OF assms(1)] w3(1)])
  moreover have "stays_live w3 w'"
  proof (rule stays_live_batch [OF assms(1) _ w3(2)])
    have "m_throttlingLevel (conn w2 c) \<noteq> None"
      by (auto simp: w2_def world_simps scheduleMessagesDispatch_def)
    then show "m_throttlingLevel (conn w3 c) \<noteq> None" using R by (simp add: stays_live_def)
  qed
  ultimately show ?thesis by (simp add: stays_live_def)
qed

lemma live_other_task:
  assumes "w_mainRunLoop w = t # ts" and "live x w"
    and "t \<noteq> MT_dispatchIncoming x" and "t \<noteq> MT_throttledDispatch x"
  shows "live x (w\<lparr>w_mainRunLoop := ts\<rparr>)"
  using assms by (auto simp: live_def scheduled_def world_simps split: option.splits)

lemma live_main:
  assumes "client_respects E stays_live" and "runMainRunLoop E n w = Some w'" and "live x w"
  shows "live x w'"
proof (cases "w_mainRunLoop w")
  case Nil
  then show ?thesis using assms by (simp add: runMainRunLoop_def)
next
  case (Cons t ts)
  let ?w = "w\<lparr>w_mainRunLoop := ts\<rparr>"
  note contract = stays_live_contract [OF assms(1)]
  have run: "runMainTask E n t ?w = Some w'" using assms(2) Cons by (simp add: runMainRunLoop_def)
  note other = live_other_task [OF Cons assms(3)]
  have throttled: "live x w'" if "dispatchIncomingMessages E n c ?w = Some w'"
    "x \<noteq> c \<Longrightarrow> live x ?w" "m_throttlingLevel (conn w c) \<noteq> None \<or> x \<noteq> c" for c
    by (rule live_dispatchIncoming [OF assms(1) that(1,2)])
       (use that(3) assms(3) in \<open>auto simp: live_def world_simps\<close>)
  show ?thesis
  proof (cases t)
    case (MT_dispatchIncoming c)
    show ?thesis
    proof (cases "m_throttlingLevel (conn w c)")
      case Some
      then show ?thesis
        using throttled [of c] run MT_dispatchIncoming other by (auto simp: runMainTask_def world_simps)
    next
      case None
      then have one: "dispatchOneIncomingMessage E n c ?w = Some w'"
        using run MT_dispatchIncoming by (simp add: runMainTask_def world_simps)
      show ?thesis
      proof (cases "m_incomingMessages (conn w c)")
        case Nil
        then have "w' = ?w" using one by (simp add: dispatchOneIncomingMessage_def world_simps)
        then show ?thesis
          using other Nil None MT_dispatchIncoming assms(3) Cons
          by (cases "x = c") (auto simp: live_def world_simps)
      next
        case queue: (Cons d ds)
        let ?w1 = "upd c (\<lambda>cn. cn\<lparr>m_incomingMessages := ds\<rparr>) ?w"
        have "conn_dispatchMessage E n c d ?w1 = Some w'"
          using one queue by (simp add: dispatchOneIncomingMessage_def world_simps)
        then have "stays_live ?w1 w'" by (rule dispatch_contract.conn_dispatchMessage_contract [OF contract])
        moreover have "live x ?w1"
        proof (cases "x = c")
          case True
          then show ?thesis
            using assms(3) None Cons MT_dispatchIncoming queue by (auto simp: live_def world_simps)
        next
          case False
          then show ?thesis
            using other MT_dispatchIncoming
            by (auto simp: live_def scheduled_def world_simps split: option.splits)
        qed
        ultimately show ?thesis by (simp add: stays_live_def)
      qed
    qed
  next
    case (MT_throttledDispatch c)
    have "m_throttlingLevel (conn w c) \<noteq> None \<or> x \<noteq> c"
      using assms(3) Cons MT_throttledDispatch by (auto simp: live_def split: option.splits)
    then show ?thesis
      using throttled [of c] run MT_throttledDispatch other by (auto simp: runMainTask_def)
  next
    case (MT_dispatchSyncMessages c)
    then show ?thesis
      using dispatch_contract.reset_contract [OF contract, of n c ?w w'] run other
      by (auto simp: runMainTask_def stays_live_def)
  next
    case (MT_invalidMessage c m)
    then show ?thesis
      using client_respectsD(5) [OF assms(1), of c m ?w w'] run other
      by (auto simp: runMainTask_def dispatchDidReceiveInvalidMessage_def stays_live_def split: if_splits)
  next
    case (MT_didClose c)
    have "stays_live ?w w'"
    proof (cases "m_isValid (conn ?w c)")
      case True
      let ?w1 = "upd c (\<lambda>cn. cn\<lparr>m_isValid := False\<rparr>) ?w"
      obtain w2 where w2: "env_didClose E c ?w1 = Some w2" "clearAsyncReplyHandlers E c w2 = Some w'"
        using run MT_didClose True
        by (auto simp: runMainTask_def didCloseOnMainRunLoop_def Let_def split: Option.bind_splits)
      have "stays_live ?w ?w1" by (rule stays_live_upd) simp_all
      moreover have "stays_live ?w1 w2" by (rule client_respectsD(6) [OF assms(1) w2(1)])
      moreover have "stays_live w2 w'" by (rule dispatch_contract.clear_contract [OF contract w2(2)])
      ultimately show ?thesis using stays_live_trans by blast
    qed (use run MT_didClose in \<open>simp add: runMainTask_def didCloseOnMainRunLoop_def stays_live_refl\<close>)
    then show ?thesis using other MT_didClose by (simp add: stays_live_def)
  qed
qed

lemma takeIncomingMessage_Some:
  "takeIncomingMessage name dest ds = Some (d, rest) \<Longrightarrow>
   length ds = Suc (length rest) \<and> dec_messageName d = name \<and> dec_destinationID d = dest"
  by (induction ds arbitrary: d rest) (auto split: if_splits)

lemma waitForMessage_cases:
  assumes "waitForMessage E n c name dest timeout wopts wakes w = Some (a, wakes', w')"
  obtains (same) "w' = w" "a = None"
  | (queued) d rest where "takeIncomingMessage name dest (m_incomingMessages (conn w c)) = Some (d, rest)"
    "w' = upd c (\<lambda>cn. cn\<lparr>m_incomingMessages := rest\<rparr>) w" "a = Some d"
  | (loop) x t where "waitForMessage_loop E n c t wakes
      (upd c (\<lambda>cn. cn\<lparr>m_waitingForMessage := Some x\<rparr>) w) = Some (a, wakes', w')"
proof (cases "m_waitingForMessage (conn w c) \<noteq> None \<or> \<not> m_shouldWaitForMessages (conn w c)")
  case True
  then show ?thesis using assms same by (auto simp: waitForMessage_def Let_def split: if_splits)
next
  case False
  show ?thesis
  proof (cases "takeIncomingMessage name dest (m_incomingMessages (conn w c))")
    case (Some p)
    then show ?thesis
      using assms False queued [of "fst p" "snd p"] by (cases p) (simp add: waitForMessage_def Let_def)
  next
    case None
    note wait = assms [unfolded waitForMessage_def Let_def None option.case]
    show ?thesis
    proof (cases "list_ex (dec_isSyncMessage E) (m_incomingMessages (conn w c)) \<and>
        InterruptWaitingIfSyncMessageArrives \<in> wopts")
      case True
      then have "w' = w \<and> a = None" using wait False by (auto split: if_splits)
      then show ?thesis using same by blast
    next
      case no_interrupt: False
      then show ?thesis using wait False by (simp split: if_splits) (rule loop)
    qed
  qed
qed

lemma live_wait:
  assumes "client_respects E stays_live"
    and "waitForMessage E n c name dest timeout wopts wakes w = Some (a, wakes', w')"
  shows "stays_live w w'"
  using assms(2)
proof (cases rule: waitForMessage_cases)
  case (queued d rest)
  then have "length (m_incomingMessages (conn w c)) = Suc (length rest)"
    using takeIncomingMessage_Some by blast
  then show ?thesis
    unfolding queued(2)
    by (auto simp: stays_live_def live_def scheduled_def world_simps split: option.splits)
next
  case (loop x t)
  have "stays_live w (upd c (\<lambda>cn. cn\<lparr>m_waitingForMessage := Some x\<rparr>) w)"
    by (rule stays_live_upd) simp_all
  then show ?thesis
    using wait_contract.waitForMessage_contract [OF stays_live_wait_contract [OF assms(1)] loop]
      stays_live_trans by blast
qed (simp add: stays_live_refl)

lemma stays_live_post: "stays_live w (snd (sendMessage_post c e opts w))"
  by (rule stays_live_same) (auto simp: sendMessage_post_def Let_def world_simps)

text \<open>The world in which \<^verbatim>\<open>sendSyncMessage\<close> starts to wait, and the one it leaves.\<close>

definition pushSyncReply :: "connection_id \<Rightarrow> u64 \<Rightarrow> world \<Rightarrow> world" where
  "pushSyncReply c i = upd c (\<lambda>cn. cn\<lparr>m_pendingSyncReplies := m_pendingSyncReplies cn @
     [\<lparr>psr_syncRequestID = i, psr_replyDecoder = None, psr_didReceiveReply = False\<rparr>],
     m_inSendSyncCount := m_inSendSyncCount cn + 1\<rparr>)"

definition popSyncReply :: "connection_id \<Rightarrow> world \<Rightarrow> world" where
  "popSyncReply c = upd c (\<lambda>cn. cn\<lparr>m_inSendSyncCount := m_inSendSyncCount cn - 1,
     m_pendingSyncReplies := butlast (m_pendingSyncReplies cn)\<rparr>)"

lemma sendSyncMessage_cases:
  assumes "sendSyncMessage E n c i e timeout sopts wakes w = Some (r, wakes', w')"
  obtains (refused) "w' = w" "\<not> (\<exists>d. r = SR_reply d)"
  | (sent) e' opts t reply w1 where
    "waitForSyncReply_loop E n c t wakes (snd (sendMessage_post c e' opts (pushSyncReply c i w)))
      = Some (reply, wakes', w1)"
    "w' = popSyncReply c w1"
    "r = (case reply of None \<Rightarrow> didFailToSendSyncMessage c w' | Some d \<Rightarrow> SR_reply d)"
proof (cases "m_isValid (conn w c) \<and> m_shouldWaitForSyncReplies (conn w c)")
  case False
  then show ?thesis
    using assms refused by (auto simp: sendSyncMessage_def didFailToSendSyncMessage_def split: if_splits)
next
  case True
  obtain e' opts t where body: "sendSyncMessage E n c i e timeout sopts wakes w = do {
      (reply, wakes, w) \<leftarrow> waitForSyncReply_loop E n c t wakes
        (snd (sendMessage_post c e' opts (pushSyncReply c i w)));
      let w = popSyncReply c w;
      Some (case reply of None \<Rightarrow> didFailToSendSyncMessage c w | Some d \<Rightarrow> SR_reply d, wakes, w) }"
    using True
    unfolding sendSyncMessage_def waitForSyncReply_def pushSyncReply_def popSyncReply_def Let_def
    by simp
  obtain reply w1 where "waitForSyncReply_loop E n c t wakes
      (snd (sendMessage_post c e' opts (pushSyncReply c i w))) = Some (reply, wakes', w1)"
    "w' = popSyncReply c w1"
    "r = (case reply of None \<Rightarrow> didFailToSendSyncMessage c w' | Some d \<Rightarrow> SR_reply d)"
    using assms unfolding body by (auto simp: Let_def split: Option.bind_splits)
  then show ?thesis by (rule sent)
qed

lemma live_send_sync:
  assumes "client_respects E stays_live"
    and "sendSyncMessage E n c i e timeout sopts wakes w = Some (r, wakes', w')"
  shows "stays_live w w'"
  using assms(2)
proof (cases rule: sendSyncMessage_cases)
  case refused
  then show ?thesis by (simp add: stays_live_refl)
next
  case (sent e' opts t reply w1)
  have "stays_live w (pushSyncReply c i w)"
    unfolding pushSyncReply_def by (rule stays_live_upd) simp_all
  moreover have "stays_live (pushSyncReply c i w) (snd (sendMessage_post c e' opts (pushSyncReply c i w)))"
    by (rule stays_live_post)
  moreover have "stays_live (snd (sendMessage_post c e' opts (pushSyncReply c i w))) w1"
    using wait_contract.waitForSyncReply_contract [OF stays_live_wait_contract [OF assms(1)] sent(1)] by blast
  moreover have "stays_live w1 w'"
    unfolding sent(2) popSyncReply_def by (rule stays_live_upd) simp_all
  ultimately show ?thesis using stays_live_trans by blast
qed

lemma live_step:
  assumes "client_respects E stays_live" and "conn_step E n w w'" and "live x w"
  shows "live x w'"
  using assms(2)
proof cases
  case (main)
  then show ?thesis using live_main [OF assms(1) _ assms(3)] by blast
next
  case (timer c)
  let ?w = "upd c (\<lambda>cn. cn\<lparr>m_dispatchMessagesTimer := False\<rparr>) w"
  show ?thesis
  proof (rule live_dispatchIncoming [OF assms(1), of n c ?w])
    show "dispatchIncomingMessages E n c ?w = Some w'" using timer by (simp add: fireDispatchMessagesTimer_def)
    show "live x ?w" if "x \<noteq> c"
      using that assms(3) by (auto simp: live_def scheduled_def world_simps split: option.splits)
    show "\<exists>l\<le>maxThrottlingLevel. m_throttlingLevel (conn ?w c) = Some l" if "x = c"
      using that assms(3) timer by (auto simp: live_def world_simps split: option.splits)
  qed
next
  case (receiver ts1 t ts2)
  have "stays_live w (w\<lparr>w_receiverTasks := ts1 @ ts2\<rparr>)" by (rule stays_live_same) (simp_all add: world_simps)
  then show ?thesis
    using dispatch_contract.receiverTask_contract [OF stays_live_contract [OF assms(1)] receiver(2)] assms(3)
    by (simp add: stays_live_def)
next
  case (throttle c)
  then show ?thesis
  proof (cases "m_throttlingLevel (conn w c)")
    case None
    have "scheduled c w" if "live c w" "m_incomingMessages (conn w c) \<noteq> []"
      using that None count_notin [of "MT_dispatchIncoming c" "w_mainRunLoop w"]
      by (fastforce simp: live_def scheduled_def)
    then show ?thesis
      using throttle None assms(3)
      by (auto simp: enableIncomingMessagesThrottling_def live_def scheduled_def world_simps split: option.splits)
  qed (use throttle assms(3) in \<open>simp add: enableIncomingMessagesThrottling_def\<close>)
next
  case (queue)
  then show ?thesis using stays_live_queue [OF assms(1)] assms(3) by (simp add: stays_live_def)
next
  case send_sync
  then show ?thesis using live_send_sync [OF assms(1)] assms(3) by (auto simp: stays_live_def)
next
  case wait
  then show ?thesis using live_wait [OF assms(1)] assms(3) by (auto simp: stays_live_def)
next
  case receive
  then show ?thesis using stays_live_receive assms(3) by (simp add: stays_live_def)
next
  case send
  then show ?thesis using stays_live_post assms(3) by (simp add: stays_live_def)
qed (use assms(3) in \<open>auto simp: live_def scheduled_def world_simps conn_invalidate_def conn_def
    postConnectionDidCloseOnConnectionWorkQueue_def addWorkQueueMessageReceiver_def
    removeWorkQueueMessageReceiver_def addThreadMessageReceiver_def removeThreadMessageReceiver_def
    installIncomingSyncMessageCallback_def uninstallIncomingSyncMessageCallback_def Let_def
    UnboundedSynchronousIPCScope_enter_def UnboundedSynchronousIPCScope_leave_def
    addAsyncReplyHandler_def upd_def dispatch_queue_def split: option.splits\<close>)

text \<open>
  Claim C2. In every state the process can reach, by any interleaving of the threads' steps and of
  the client's calls, a connection with queued messages has a dispatch scheduled on the main run
  loop or by the throttler's timer; without a throttler there is a task for each queued message, and
  the throttling level is at most 9.
\<close>

theorem queued_messages_scheduled:
  assumes "client_respects E stays_live" and "(conn_step E n)\<^sup>*\<^sup>* initial_world w"
  shows "live c w \<and> (m_incomingMessages (conn w c) \<noteq> [] \<longrightarrow> scheduled c w)"
proof -
  have "live c w"
    using assms(2)
  proof induction
    case base
    then show ?case by (simp add: live_def initial_world_def conn_def Connection_new_def)
  next
    case (step w1 w2)
    then show ?case using live_step [OF assms(1)] by blast
  qed
  moreover have "scheduled c w" if "live c w" "m_incomingMessages (conn w c) \<noteq> []"
    using that count_notin [of "MT_dispatchIncoming c" "w_mainRunLoop w"]
    by (fastforce simp: live_def scheduled_def split: option.splits)
  ultimately show ?thesis by blast
qed

theorem queued_messages_scheduled_witness:
  "scheduled 0 (processIncomingMessage idle_environment 0 (example_message 0 5 3) initial_world)"
proof -
  let ?w = "processIncomingMessage idle_environment 0 (example_message 0 5 3) initial_world"
  have "client_respects idle_environment stays_live" by (rule idle_respects) (rule stays_live_refl)
  moreover have "(conn_step idle_environment 1)\<^sup>*\<^sup>* initial_world ?w"
    by (rule r_into_rtranclp) (rule receive)
  moreover have "m_incomingMessages (conn ?w 0) \<noteq> []"
    by (simp add: processIncomingMessage_def dispatchMessageToWorkQueueReceiver_def
        dispatchMessageToThreadReceiver_def workQueueMessageReceiver_def threadMessageReceiver_def
        processIncomingMessage_locked_def processIncomingMessage_fallback_def
        dispatchIncomingSyncMessageCallbacks_def dec_isSyncMessage_def sync_processIncomingMessage_def
        dec_shouldDispatchMessageWhenWaitingForSyncReply_def flags_contains_def
        DispatchMessageWhenWaitingForSyncReply_def DispatchMessageWhenWaitingForUnboundedSyncReply_def
        enqueueIncomingMessage_def initial_world_def Connection_new_def conn_def upd_def dispatch_main_def)
  ultimately show ?thesis
    using queued_messages_scheduled [of idle_environment 1 ?w 0] by blast
qed

subsection \<open>Synchronous replies\<close>

definition syncStack :: "world \<Rightarrow> connection_id \<Rightarrow> u64 list" where
  "syncStack w c = map psr_syncRequestID (m_pendingSyncReplies (conn w c))"

text \<open>Every reply on the stacks is a reply to the request of its entry.\<close>

definition replies_match :: "environment \<Rightarrow> world \<Rightarrow> bool" where
  "replies_match E w \<longleftrightarrow> (\<forall>c. \<forall>p \<in> set (m_pendingSyncReplies (conn w c)). \<forall>d.
     psr_replyDecoder p = Some d \<longrightarrow>
     dec_destinationID d = psr_syncRequestID p \<and> dec_messageName d = env_SyncMessageReply E)"

definition keeps_stack :: "environment \<Rightarrow> world \<Rightarrow> world \<Rightarrow> bool" where
  "keeps_stack E w w' \<longleftrightarrow> (\<forall>c. syncStack w' c = syncStack w c) \<and> (replies_match E w \<longrightarrow> replies_match E w')"

lemma findPendingSyncReply_Some:
  "findPendingSyncReply ps q n = Some i \<Longrightarrow>
   i < n \<and> psr_syncRequestID (ps ! i) = q \<and> (\<forall>j. i < j \<and> j < n \<longrightarrow> psr_syncRequestID (ps ! j) \<noteq> q)"
proof (induction n)
  case (Suc n)
  show ?case
  proof (cases "psr_syncRequestID (ps ! n) = q")
    case True
    then show ?thesis using Suc.prems by auto
  next
    case False
    then have "findPendingSyncReply ps q n = Some i" using Suc.prems by simp
    from Suc.IH [OF this] show ?thesis using False by (auto simp: less_Suc_eq)
  qed
qed simp

lemma findPendingSyncReply_None:
  "findPendingSyncReply ps q n = None \<longleftrightarrow> (\<forall>j < n. psr_syncRequestID (ps ! j) \<noteq> q)"
  by (induction n) (auto simp: less_Suc_eq)

lemma keeps_stack_same:
  "(\<And>c. m_pendingSyncReplies (conn w' c) = m_pendingSyncReplies (conn w c)) \<Longrightarrow> keeps_stack E w w'"
  by (simp add: keeps_stack_def syncStack_def replies_match_def)

lemma keeps_stack_refl: "keeps_stack E w w"
  by (simp add: keeps_stack_def)

lemma keeps_stack_trans: "keeps_stack E w1 w2 \<Longrightarrow> keeps_stack E w2 w3 \<Longrightarrow> keeps_stack E w1 w3"
  by (simp add: keeps_stack_def)

lemma keeps_stack_reply:
  assumes "dec_messageName d = env_SyncMessageReply E"
  shows "keeps_stack E w (processIncomingSyncReply c d w)"
proof (cases "findPendingSyncReply (m_pendingSyncReplies (conn w c)) (dec_destinationID d)
    (length (m_pendingSyncReplies (conn w c)))")
  case None
  then show ?thesis by (simp add: processIncomingSyncReply_def Let_def keeps_stack_refl)
next
  case (Some i)
  let ?ps = "m_pendingSyncReplies (conn w c)"
  let ?p = "(?ps ! i)\<lparr>psr_replyDecoder := Some d, psr_didReceiveReply := True\<rparr>"
  note i = findPendingSyncReply_Some [OF Some]
  have pending: "m_pendingSyncReplies (conn (processIncomingSyncReply c d w) x)
      = (if x = c then ?ps[i := ?p] else m_pendingSyncReplies (conn w x))" for x
    using Some by (simp add: processIncomingSyncReply_def Let_def world_simps)
  have "map psr_syncRequestID (?ps[i := ?p]) = map psr_syncRequestID ?ps"
    using i by (simp add: map_update list_update_id [of "map psr_syncRequestID ?ps" i, simplified nth_map])
      (metis list_update_id nth_map)
  moreover have "replies_match E w \<Longrightarrow> replies_match E (processIncomingSyncReply c d w)"
    using i assms unfolding replies_match_def pending
    by (auto dest!: set_update_subset_insert [THEN subsetD])
  ultimately show ?thesis by (simp add: keeps_stack_def syncStack_def pending)
qed

lemma keeps_stack_receive: "keeps_stack E w (processIncomingMessage E c d w)"
proof (rule processIncomingMessage_cases
    [where Q = "\<lambda>w1. \<forall>x. m_pendingSyncReplies (conn w1 x) = m_pendingSyncReplies (conn w x)"])
  show "dec_messageName d = env_SyncMessageReply E \<Longrightarrow> keeps_stack E w (processIncomingSyncReply c d w)"
    by (rule keeps_stack_reply)
qed (auto simp: world_simps intro!: keeps_stack_same)

lemma keeps_stack_contract:
  assumes "client_respects E (keeps_stack E)"
  shows "dispatch_contract E (keeps_stack E)"
proof
  show "keeps_stack E w (upd c (endDispatch f m d) w1)" if "keeps_stack E (upd c (beginDispatch f m) w) w1"
    for c f m w w1 d
  proof -
    have "keeps_stack E w (upd c (beginDispatch f m) w)"
      by (rule keeps_stack_same) (simp add: world_simps beginDispatch_def)
    moreover have "keeps_stack E w1 (upd c (endDispatch f m d) w1)"
      by (rule keeps_stack_same) (simp add: world_simps endDispatch_def)
    ultimately show ?thesis using that keeps_stack_trans by blast
  qed
  show "keeps_stack E w w" for w by (rule keeps_stack_refl)
  show "keeps_stack E w1 w2 \<Longrightarrow> keeps_stack E w2 w3 \<Longrightarrow> keeps_stack E w1 w3" for w1 w2 w3
    by (rule keeps_stack_trans)
  show "keeps_stack E w (processIncomingMessage E c d w)" for w c d by (rule keeps_stack_receive)
  show "client_respects E (keeps_stack E)" by (rule assms)
qed (rule keeps_stack_same; simp add: world_simps)+

lemma keeps_stack_queue:
  assumes "client_respects E (keeps_stack E)" and "runConnectionQueue E w = Some w'"
  shows "keeps_stack E w w'"
proof -
  have close: "keeps_stack E w1 w2" if closing: "connectionDidClose E c w1 = Some w2" for c w1 w2
  proof -
    define w3 where "w3 = stopWaiting c (platformInvalidate c w1)"
    have "keeps_stack E w1 w3"
      by (rule keeps_stack_same) (simp add: w3_def world_simps stopWaiting_def platformInvalidate_def Let_def)
    moreover obtain w4 where "w4 = w3 \<or> env_didCloseOnConnectionWorkQueue E c w3 = Some w4"
      "w2 = dispatch_main (MT_didClose c) w4"
      using closing unfolding w3_def by (rule connectionDidClose_cases)
    moreover have "keeps_stack E w4 (dispatch_main (MT_didClose c) w4)"
      by (rule keeps_stack_same) (simp add: world_simps)
    ultimately show ?thesis
      using client_respectsD(7) [OF assms(1), of c w3 w4] keeps_stack_trans keeps_stack_refl by metis
  qed
  have same: "keeps_stack E w1 (sendOutgoingMessages E c w1)" "keeps_stack E w1 (platformInvalidate c w1)"
    "keeps_stack E w1 (w1\<lparr>w_connectionQueue := ts\<rparr>)" for c w1 ts
    by (rule keeps_stack_same; simp add: sendOutgoingMessages_def platformInvalidate_def world_simps)+
  show ?thesis
  proof (cases "w_connectionQueue w")
    case Nil
    then show ?thesis using assms(2) by (simp add: runConnectionQueue_def keeps_stack_refl)
  next
    case (Cons t ts)
    let ?w = "w\<lparr>w_connectionQueue := ts\<rparr>"
    have "runQueueTask E t ?w = Some w'" using assms(2) Cons by (simp add: runConnectionQueue_def)
    then have "keeps_stack E ?w w'"
      using same(1,2) close by (cases t) (auto simp: runQueueTask_def)
    then show ?thesis by (rule keeps_stack_trans [OF same(3)])
  qed
qed

lemma keeps_stack_wait_contract:
  assumes "client_respects E (keeps_stack E)"
  shows "wait_contract E (keeps_stack E)"
proof (intro wait_contract.intro wait_contract_axioms.intro keeps_stack_contract assms)
  show "keeps_stack E w w'" if "runConnectionQueue E w = Some w'" for w w'
    by (rule keeps_stack_queue [OF assms that])
  show "keeps_stack E w (upd c (\<lambda>cn. cn\<lparr>m_pendingSyncReplies := butlast (m_pendingSyncReplies (conn w c)) @
      [(last (m_pendingSyncReplies (conn w c)))\<lparr>psr_replyDecoder := None\<rparr>]\<rparr>) w)"
    (is "keeps_stack E w ?w") if "m_pendingSyncReplies (conn w c) \<noteq> []" for w c
  proof -
    let ?ps = "m_pendingSyncReplies (conn w c)"
    have "map psr_syncRequestID (butlast ?ps @ [(last ?ps)\<lparr>psr_replyDecoder := None\<rparr>]) =
        map psr_syncRequestID (butlast ?ps @ [last ?ps])" by simp
    then have "map psr_syncRequestID (butlast ?ps @ [(last ?ps)\<lparr>psr_replyDecoder := None\<rparr>]) =
        map psr_syncRequestID ?ps" unfolding append_butlast_last_id [OF that] .
    then have "syncStack ?w x = syncStack w x" for x
      by (simp add: syncStack_def world_simps)
    moreover have "replies_match E w \<Longrightarrow> replies_match E ?w"
      using that by (auto simp: replies_match_def world_simps dest: in_set_butlastD)
    ultimately show ?thesis by (simp add: keeps_stack_def)
  qed
qed (rule keeps_stack_same; simp add: world_simps)+

text \<open>
  Claim C4. A synchronous sender only ever gets its own reply: whatever messages arrive and are
  dispatched while it waits, and however many synchronous messages are sent inside one another, a
  reply that sendSyncMessage returns is a SyncMessageReply whose destination is the request ID it
  was called with, and the stack of pending requests of every connection is back as it was.
\<close>

theorem sendSyncMessage_own_reply:
  assumes "client_respects E (keeps_stack E)" and "replies_match E w"
    and "sendSyncMessage E n c i e timeout sopts wakes w = Some (r, wakes', w')"
  shows "(\<forall>d. r = SR_reply d \<longrightarrow> dec_destinationID d = i \<and> dec_messageName d = env_SyncMessageReply E) \<and>
    (\<forall>x. syncStack w' x = syncStack w x)"
  using assms(3)
proof (cases rule: sendSyncMessage_cases)
  case refused
  then show ?thesis by auto
next
  case (sent e' opts t reply w1)
  let ?w0 = "snd (sendMessage_post c e' opts (pushSyncReply c i w))"
  have stack0: "syncStack ?w0 x = (if x = c then syncStack w c @ [i] else syncStack w x)" for x
    by (auto simp: syncStack_def sendMessage_post_def pushSyncReply_def Let_def world_simps)
  have match0: "replies_match E ?w0"
    using assms(2)
    by (auto simp: replies_match_def sendMessage_post_def pushSyncReply_def Let_def world_simps split: if_splits)
  note contract = wait_contract.waitForSyncReply_contract [OF keeps_stack_wait_contract [OF assms(1)] sent(1)]
  have own: "dec_destinationID d = i \<and> dec_messageName d = env_SyncMessageReply E" if reply: "reply = Some d" for d
  proof -
    obtain w2 where w2: "keeps_stack E ?w0 w2" "m_pendingSyncReplies (conn w2 c) \<noteq> []"
      "psr_replyDecoder (last (m_pendingSyncReplies (conn w2 c))) = Some d"
      using contract reply by blast
    let ?top = "last (m_pendingSyncReplies (conn w2 c))"
    have "psr_syncRequestID ?top = last (syncStack w2 c)"
      using w2(2) by (simp add: syncStack_def last_map)
    also have "\<dots> = i" using w2(1) stack0 [of c] by (simp add: keeps_stack_def)
    finally have top: "psr_syncRequestID ?top = i" .
    have match: "replies_match E w2" using w2(1) match0 unfolding keeps_stack_def by blast
    have "?top \<in> set (m_pendingSyncReplies (conn w2 c))" using w2(2) by (rule last_in_set)
    from match [unfolded replies_match_def, rule_format, OF this w2(3)] top show ?thesis by simp
  qed
  have "keeps_stack E ?w0 w1" by (rule contract [THEN conjunct1])
  then have stack1: "syncStack w1 x = syncStack ?w0 x" for x unfolding keeps_stack_def by blast
  have "syncStack w' x = (if x = c then butlast (syncStack w1 c) else syncStack w1 x)" for x
    unfolding sent(2) by (simp add: popSyncReply_def syncStack_def world_simps map_butlast)
  then have "syncStack w' x = syncStack w x" for x
    unfolding stack1 stack0 by simp
  moreover have "dec_destinationID d = i \<and> dec_messageName d = env_SyncMessageReply E" if "r = SR_reply d" for d
    using own [of d] that sent(3)
    by (cases reply) (simp_all add: didFailToSendSyncMessage_def split: if_splits)
  ultimately show ?thesis by blast
qed

lemma sync_dispatch_nil:
  "w_messagesToDispatchWhileWaitingForSyncReply w = [] \<Longrightarrow> sync_dispatchMessages E n w = Some w"
  by (cases w) (simp add: sync_dispatchMessages_def dispatchMessages_with_def)

lemma wait_loop_done:
  assumes "w_messagesToDispatchWhileWaitingForSyncReply w = []" and "m_pendingSyncReplies (conn w c) \<noteq> []"
    and "psr_didReceiveReply (last (m_pendingSyncReplies (conn w c))) \<or> \<not> m_shouldWaitForSyncReplies (conn w c)"
  shows "\<exists>w'. waitForSyncReply_loop E n c t wakes w =
      Some (psr_replyDecoder (last (m_pendingSyncReplies (conn w c))), wakes, w') \<and>
    m_shouldExitOnSyncMessageSendFailure (conn w' c) = m_shouldExitOnSyncMessageSendFailure (conn w c)"
  using assms by (subst waitForSyncReply_loop.simps) (simp add: sync_dispatch_nil Let_def world_simps)

lemma wait_loop_signalled:
  assumes "w_messagesToDispatchWhileWaitingForSyncReply w = []" and "m_pendingSyncReplies (conn w c) \<noteq> []"
    and "\<not> psr_didReceiveReply (last (m_pendingSyncReplies (conn w c)))"
    and "m_shouldWaitForSyncReplies (conn w c)" and "m_isValid (conn w c)"
    and "runThreadActions E as w = Some w1" and "w_waitForSyncReplySemaphore w1"
  shows "waitForSyncReply_loop E n c t ((as, late) # wakes) w =
    waitForSyncReply_loop E n c t wakes (w1\<lparr>w_waitForSyncReplySemaphore := False\<rparr>)"
  using assms by (subst waitForSyncReply_loop.simps) (simp add: sync_dispatch_nil Let_def)

lemma find_top:
  "ps \<noteq> [] \<Longrightarrow> psr_syncRequestID (last ps) = q \<Longrightarrow>
   findPendingSyncReply ps q (length ps) = Some (length ps - 1)"
  by (cases "length ps") (auto simp: last_conv_nth)

lemma reply_top:
  assumes "m_pendingSyncReplies (conn w c) = ps @ [p]" and "psr_syncRequestID p = dec_destinationID d"
  shows "processIncomingSyncReply c d w = wakeUpClientRunLoop (upd c (\<lambda>cn. cn\<lparr>m_pendingSyncReplies :=
      ps @ [p\<lparr>psr_replyDecoder := Some d, psr_didReceiveReply := True\<rparr>]\<rparr>) w)"
  using find_top [of "ps @ [p]" "dec_destinationID d"] assms
  by (simp add: processIncomingSyncReply_def Let_def)

lemma sendSyncMessage_waits:
  assumes "m_isValid (conn w c)" and "m_shouldWaitForSyncReplies (conn w c)"
    and "\<And>t w0. w_messagesToDispatchWhileWaitingForSyncReply w0 = w_messagesToDispatchWhileWaitingForSyncReply w \<Longrightarrow>
      m_pendingSyncReplies (conn w0 c) = m_pendingSyncReplies (conn w c) @
        [\<lparr>psr_syncRequestID = i, psr_replyDecoder = None, psr_didReceiveReply = False\<rparr>] \<Longrightarrow>
      m_isValid (conn w0 c) \<Longrightarrow> m_shouldWaitForSyncReplies (conn w0 c) \<Longrightarrow>
      m_didCloseOnConnectionWorkQueueCallback (conn w0 c) = m_didCloseOnConnectionWorkQueueCallback (conn w c) \<Longrightarrow>
      m_shouldExitOnSyncMessageSendFailure (conn w0 c) = m_shouldExitOnSyncMessageSendFailure (conn w c) \<Longrightarrow>
      w_connectionQueue w0 = w_connectionQueue w @ [QT_sendOutgoingMessages c] \<Longrightarrow>
      \<exists>w1. waitForSyncReply_loop E n c t wakes w0 = Some (reply, wakes', w1) \<and>
        m_shouldExitOnSyncMessageSendFailure (conn w1 c) = m_shouldExitOnSyncMessageSendFailure (conn w c)"
  shows "\<exists>w'. sendSyncMessage E n c i e timeout sopts wakes w =
    Some (case reply of None \<Rightarrow> didFailToSendSyncMessage c w | Some d \<Rightarrow> SR_reply d, wakes', w')"
proof -
  obtain e' opts t where body: "sendSyncMessage E n c i e timeout sopts wakes w = do {
      (reply, wakes, w) \<leftarrow> waitForSyncReply_loop E n c t wakes
        (snd (sendMessage_post c e' opts (pushSyncReply c i w)));
      let w = popSyncReply c w;
      Some (case reply of None \<Rightarrow> didFailToSendSyncMessage c w | Some d \<Rightarrow> SR_reply d, wakes, w) }"
    using assms(1,2)
    unfolding sendSyncMessage_def waitForSyncReply_def pushSyncReply_def popSyncReply_def Let_def
    by simp
  let ?w0 = "snd (sendMessage_post c e' opts (pushSyncReply c i w))"
  obtain w1 where "waitForSyncReply_loop E n c t wakes ?w0 = Some (reply, wakes', w1)"
    "m_shouldExitOnSyncMessageSendFailure (conn w1 c) = m_shouldExitOnSyncMessageSendFailure (conn w c)"
    using assms(3) [of ?w0 t] assms(1,2)
    by (auto simp: sendMessage_post_def pushSyncReply_def Let_def world_simps)
  then show ?thesis
    unfolding body
    by (cases reply) (auto simp: didFailToSendSyncMessage_def popSyncReply_def world_simps)
qed

lemma sender_gets_reply:
  assumes "w_messagesToDispatchWhileWaitingForSyncReply w = []"
    and "m_isValid (conn w c)" and "m_shouldWaitForSyncReplies (conn w c)"
    and d: "dec_messageName d = env_SyncMessageReply E \<and> dec_destinationID d = i"
  shows "\<exists>w'. sendSyncMessage E n c i e timeout sopts (([TA_receive c d], late) # wakes) w
    = Some (SR_reply d, wakes, w')"
proof -
  let ?p = "\<lparr>psr_syncRequestID = i, psr_replyDecoder = None, psr_didReceiveReply = False\<rparr>"
  have "\<exists>w'. sendSyncMessage E n c i e timeout sopts (([TA_receive c d], late) # wakes) w =
      Some (case Some d of None \<Rightarrow> didFailToSendSyncMessage c w | Some d \<Rightarrow> SR_reply d, wakes, w')"
  proof (rule sendSyncMessage_waits [OF assms(2,3)], goal_cases)
    case (1 t w0)
    let ?w1 = "processIncomingSyncReply c d w0"
    have w1: "?w1 = wakeUpClientRunLoop (upd c (\<lambda>cn. cn\<lparr>m_pendingSyncReplies :=
        m_pendingSyncReplies (conn w c) @ [?p\<lparr>psr_replyDecoder := Some d, psr_didReceiveReply := True\<rparr>]\<rparr>) w0)"
      by (rule reply_top) (use 1 d in auto)
    have "waitForSyncReply_loop E n c t (([TA_receive c d], late) # wakes) w0 =
        waitForSyncReply_loop E n c t wakes (?w1\<lparr>w_waitForSyncReplySemaphore := False\<rparr>)"
      by (rule wait_loop_signalled)
         (use 1 d assms(1) w1 in \<open>auto simp: world_simps processIncomingMessage_def\<close>)
    then show ?case
      using wait_loop_done [of "?w1\<lparr>w_waitForSyncReplySemaphore := False\<rparr>" c E n t wakes] 1 assms(1) w1
      by (simp add: world_simps)
  qed
  then show ?thesis by simp
qed

lemma sender_sees_close:
  assumes "w_messagesToDispatchWhileWaitingForSyncReply w = []"
    and "m_isValid (conn w c)" and "m_shouldWaitForSyncReplies (conn w c)"
    and q: "w_connectionQueue w = QT_connectionDidClose c # q \<and>
      \<not> m_didCloseOnConnectionWorkQueueCallback (conn w c)"
  shows "\<exists>w'. sendSyncMessage E n c i e timeout sopts (([TA_runConnectionQueue], late) # wakes) w
    = Some (didFailToSendSyncMessage c w, wakes, w')"
proof -
  have "\<exists>w'. sendSyncMessage E n c i e timeout sopts (([TA_runConnectionQueue], late) # wakes) w =
      Some (case None of None \<Rightarrow> didFailToSendSyncMessage c w | Some d \<Rightarrow> SR_reply d, wakes, w')"
  proof (rule sendSyncMessage_waits [OF assms(2,3)], goal_cases)
    case (1 t w0)
    let ?w1 = "dispatch_main (MT_didClose c) (stopWaiting c (platformInvalidate c
      (w0\<lparr>w_connectionQueue := q @ [QT_sendOutgoingMessages c]\<rparr>)))"
    have run: "runThreadActions E [TA_runConnectionQueue] w0 = Some ?w1"
      using 1 q by (simp add: runConnectionQueue_def runQueueTask_def connectionDidClose_def Let_def
          stopWaiting_def platformInvalidate_def world_simps)
    have "waitForSyncReply_loop E n c t (([TA_runConnectionQueue], late) # wakes) w0 =
        waitForSyncReply_loop E n c t wakes (?w1\<lparr>w_waitForSyncReplySemaphore := False\<rparr>)"
      by (rule wait_loop_signalled [OF _ _ _ _ _ run])
         (use 1 assms(1) in \<open>auto simp: world_simps stopWaiting_def platformInvalidate_def Let_def\<close>)
    then show ?case
      using wait_loop_done [of "?w1\<lparr>w_waitForSyncReplySemaphore := False\<rparr>" c E n t wakes] 1 assms(1)
      by (simp add: world_simps stopWaiting_def platformInvalidate_def Let_def)
  qed
  then show ?thesis by simp
qed


definition example_encoder :: encoder where
  "example_encoder = \<lparr>enc_messageName = 7, enc_destinationID = 0, enc_buffer = replicate 24 0,
     enc_bufferSize = 24, enc_bufferCapacity = 512, enc_attachments = [], enc_alloc = (\<lambda>n. True)\<rparr>"

lemma initial_simps:
  "w_messagesToDispatchWhileWaitingForSyncReply initial_world = []" "m_isValid (conn initial_world c)"
  "m_shouldWaitForSyncReplies (conn initial_world c)" "m_pendingSyncReplies (conn initial_world c) = []"
  by (simp_all add: initial_world_def conn_def Connection_new_def)


theorem sendSyncMessage_own_reply_witness:
  "\<exists>d w'. sendSyncMessage idle_environment 1 0 4 example_encoder None {}
     [([TA_receive 0 (example_message 0 1 4)], False)] initial_world = Some (SR_reply d, [], w') \<and>
     dec_destinationID d = 4 \<and> syncStack w' 0 = []"
proof -
  have respects: "client_respects idle_environment (keeps_stack idle_environment)"
    by (rule idle_respects) (rule keeps_stack_refl)
  have match: "replies_match idle_environment initial_world"
    by (simp add: replies_match_def initial_simps)
  have "\<exists>w'. sendSyncMessage idle_environment 1 0 4 example_encoder None {}
      [([TA_receive 0 (example_message 0 1 4)], False)] initial_world
      = Some (SR_reply (example_message 0 1 4), [], w')"
    by (rule sender_gets_reply) (simp_all add: initial_simps)
  then show ?thesis
    using sendSyncMessage_own_reply [OF respects match] by (fastforce simp: syncStack_def initial_simps)
qed

subsection \<open>Order\<close>

lemma dispatchMessagesOf_kept:
  "dispatchMessagesOf E n c ms acc w = Some (kept, w') \<Longrightarrow> kept = acc @ filter (\<lambda>m. fst m \<noteq> c) ms"
proof (induction ms arbitrary: acc w)
  case (Cons m ms)
  then show ?case
    using Cons.IH [of "acc @ [m]" w] by (cases "fst m = c") (auto split: Option.bind_splits)
qed simp

text \<open>
  The list of messages dispatched while waiting keeps the order of arrival. A message that
  asks to keep its place among the asynchronous messages goes behind all of those that were queued,
  in their order, and empties the queue. Dispatching the messages of one connection leaves those of
  the others at the front in their order, before whatever arrived meanwhile.
\<close>

theorem sync_messages_ordered:
  assumes "sync_processIncomingMessage c d w = (True, w1)"
    and "dispatchMessagesAndResetDidScheduleDispatchMessagesForConnection E n c' w1 = Some w2"
  shows "w_messagesToDispatchWhileWaitingForSyncReply w1 =
      w_messagesToDispatchWhileWaitingForSyncReply w @
      (if shouldMaintainOrderingWithAsyncMessages d then map (Pair c) (m_incomingMessages (conn w c)) else [])
      @ [(c, d)] \<and>
    m_incomingMessages (conn w1 c) =
      (if shouldMaintainOrderingWithAsyncMessages d then [] else m_incomingMessages (conn w c)) \<and>
    prefix (filter (\<lambda>m. fst m \<noteq> c') (w_messagesToDispatchWhileWaitingForSyncReply w1))
      (w_messagesToDispatchWhileWaitingForSyncReply w2)"
proof -
  have "prefix (filter (\<lambda>m. fst m \<noteq> c') (w_messagesToDispatchWhileWaitingForSyncReply w1))
      (w_messagesToDispatchWhileWaitingForSyncReply w2)"
    using assms(2) dispatchMessagesOf_kept [of E n c' _ "[]"]
    unfolding dispatchMessagesAndResetDidScheduleDispatchMessagesForConnection_def Let_def
    by (force split: Option.bind_splits if_splits)
  moreover have "w_messagesToDispatchWhileWaitingForSyncReply w1 =
      w_messagesToDispatchWhileWaitingForSyncReply w @
      (if shouldMaintainOrderingWithAsyncMessages d then map (Pair c) (m_incomingMessages (conn w c)) else [])
      @ [(c, d)] \<and>
    m_incomingMessages (conn w1 c) =
      (if shouldMaintainOrderingWithAsyncMessages d then [] else m_incomingMessages (conn w c))"
    using assms(1)
    by (auto simp: sync_processIncomingMessage_def moveIncomingMessages_def Let_def world_simps split: if_splits)
  ultimately show ?thesis by blast
qed

theorem sync_messages_ordered_witness:
  "\<exists>w1 w2. sync_processIncomingMessage 0 (example_message 9 5 3) (upd 0 (\<lambda>cn. cn\<lparr>m_incomingMessages :=
       [example_message 0 6 3]\<rparr>) initial_world) = (True, w1) \<and>
     dispatchMessagesAndResetDidScheduleDispatchMessagesForConnection idle_environment 1 8 w1 = Some w2 \<and>
     prefix [(0, example_message 0 6 3), (0, example_message 9 5 3)]
       (w_messagesToDispatchWhileWaitingForSyncReply w2)"
proof -
  let ?w = "upd 0 (\<lambda>cn. cn\<lparr>m_incomingMessages := [example_message 0 6 3]\<rparr>) initial_world"
  have flags: "dec_shouldDispatchMessageWhenWaitingForSyncReply (example_message 9 5 3) = SD_Yes"
    "shouldMaintainOrderingWithAsyncMessages (example_message 9 5 3)"
    by (simp_all add: dec_shouldDispatchMessageWhenWaitingForSyncReply_def flags_contains_def
        DispatchMessageWhenWaitingForSyncReply_def shouldMaintainOrderingWithAsyncMessages_def
        MaintainOrderingWithAsyncMessages_def)
  obtain w1 where w1: "sync_processIncomingMessage 0 (example_message 9 5 3) ?w = (True, w1)"
    using flags by (simp add: sync_processIncomingMessage_def Let_def)
  have messages: "w_messagesToDispatchWhileWaitingForSyncReply w1 =
      [(0, example_message 0 6 3), (0, example_message 9 5 3)]"
    using w1 flags by (auto simp: sync_processIncomingMessage_def moveIncomingMessages_def Let_def
        world_simps initial_simps)
  obtain w2 where w2: "dispatchMessagesAndResetDidScheduleDispatchMessagesForConnection idle_environment 1 8 w1
      = Some w2"
    using messages by (simp add: dispatchMessagesAndResetDidScheduleDispatchMessagesForConnection_def)
  from sync_messages_ordered [OF w1 w2] messages w1 w2 show ?thesis by auto
qed

subsection \<open>Interpretations\<close>

text \<open>The contracts hold of the relations above with the client that returns at once.\<close>

interpretation idle_counters: dispatch_contract idle_environment same_counters
  by (rule same_counters_contract, rule idle_respects) (simp add: same_counters_def)

interpretation idle_live: wait_contract idle_environment stays_live
  by (rule stays_live_wait_contract, rule idle_respects, rule stays_live_refl)

interpretation idle_stack: wait_contract idle_environment "keeps_stack idle_environment"
  by (rule keeps_stack_wait_contract, rule idle_respects, rule keeps_stack_refl)

end
