(* ===== verification/Back_Forward.thy ===== *)
theory Back_Forward
  imports WK_Prelude "HOL-Library.Multiset"
begin

text \<open>
  \<^verbatim>\<open>WebBackForwardList\<close> (src/UIProcess/WebBackForwardList.cpp). An item is a number, the identity of
  the object; the list of entries and the current index are the fields of the class, and
  \<open>bf_page\<close> tells whether the page is still there. What the list reports to its page is recorded:
  \<open>bf_removed\<close> has the items handed to \<^verbatim>\<open>didRemoveItem\<close> and \<open>bf_changes\<close> the arguments of
  \<^verbatim>\<open>didChangeBackForwardList\<close>. The client's answer to
  \<^verbatim>\<open>shouldKeepCurrentBackForwardListItemInList\<close> is an argument. An access outside the entries or
  to a page that is gone ends the process: \<^term>\<open>None\<close>.
\<close>

type_synonym bf_item = nat

record bflist =
  bf_page :: bool
  bf_entries :: "bf_item list"
  bf_currentIndex :: "nat option"
  bf_removed :: "bf_item list"
  bf_changes :: "(bf_item option \<times> bf_item list) list"

definition DefaultCapacity :: nat where
  "DefaultCapacity = 100"

definition WebBackForwardList_new :: bflist where
  "WebBackForwardList_new =
     \<lparr>bf_page = True, bf_entries = [], bf_currentIndex = None, bf_removed = [], bf_changes = []\<rparr>"

definition didRemoveItem :: "bf_item \<Rightarrow> bflist \<Rightarrow> bflist" where
  "didRemoveItem item bf = bf\<lparr>bf_removed := bf_removed bf @ [item]\<rparr>"

definition didChangeBackForwardList :: "bf_item option \<Rightarrow> bf_item list \<Rightarrow> bflist \<Rightarrow> bflist" where
  "didChangeBackForwardList added removed bf = bf\<lparr>bf_changes := bf_changes bf @ [(added, removed)]\<rparr>"

definition pageClosed :: "bflist \<Rightarrow> bflist" where
  "pageClosed bf =
     (let bf = (if bf_page bf then fold didRemoveItem (bf_entries bf) bf else bf) in
      bf\<lparr>bf_page := False, bf_entries := [], bf_currentIndex := None\<rparr>)"

subsection \<open>Adding an item\<close>

text \<open>The loop that tosses the forward list, last item first.\<close>

function tossForward :: "nat \<Rightarrow> bflist \<Rightarrow> bf_item list \<Rightarrow> bflist \<times> bf_item list" where
  "tossForward targetSize bf removedItems =
     (if length (bf_entries bf) > targetSize
      then (let item = last (bf_entries bf); bf = didRemoveItem item bf in
        tossForward targetSize (bf\<lparr>bf_entries := butlast (bf_entries bf)\<rparr>) (removedItems @ [item]))
      else (bf, removedItems))"
  by pat_completeness auto
termination
  by (relation "measure (\<lambda>(n, bf, r). length (bf_entries bf))") (auto simp: didRemoveItem_def Let_def)

declare tossForward.simps [simp del]

definition tossFirst :: "nat \<Rightarrow> bflist \<times> bf_item list \<Rightarrow> bflist \<times> bf_item list" where
  "tossFirst currentIndex = (\<lambda>(bf, removedItems).
     if length (bf_entries bf) \<ge> DefaultCapacity \<and> currentIndex \<noteq> 0
     then (let item = hd (bf_entries bf); bf = didRemoveItem item bf;
               bf = bf\<lparr>bf_entries := tl (bf_entries bf)\<rparr> in
           (if bf_entries bf = [] then bf\<lparr>bf_currentIndex := None\<rparr>
            else bf\<lparr>bf_currentIndex := Some (currentIndex - 1)\<rparr>, removedItems @ [item]))
     else (bf, removedItems))"

definition insertItem :: "(bf_item \<Rightarrow> bool) \<Rightarrow> bf_item \<Rightarrow> bflist \<times> bf_item list \<Rightarrow> bflist option" where
  "insertItem shouldKeep newItem = (\<lambda>(bf, removedItems).
     case bf_currentIndex bf of
       None \<Rightarrow>
         (let bf = bf\<lparr>bf_currentIndex := Some 0, bf_entries := newItem # bf_entries bf\<rparr> in
          Some (didChangeBackForwardList (Some newItem) removedItems bf))
     | Some i \<Rightarrow>
         if i \<ge> length (bf_entries bf) then None
         else if shouldKeep (bf_entries bf ! i)
         then (let bf = bf\<lparr>bf_currentIndex := Some (i + 1),
                 bf_entries := take (i + 1) (bf_entries bf) @ newItem # drop (i + 1) (bf_entries bf)\<rparr> in
               Some (didChangeBackForwardList (Some newItem) removedItems bf))
         else (let removedItems = removedItems @ [bf_entries bf ! i];
                   bf = bf\<lparr>bf_entries := (bf_entries bf)[i := newItem]\<rparr> in
               Some (didChangeBackForwardList (Some newItem) removedItems bf)))"

definition addItem :: "(bf_item \<Rightarrow> bool) \<Rightarrow> bf_item \<Rightarrow> bflist \<Rightarrow> bflist option" where
  "addItem shouldKeep newItem bf =
     (if \<not> bf_page bf then Some bf
      else insertItem shouldKeep newItem
        (case bf_currentIndex bf of
           Some i \<Rightarrow> tossFirst i (tossForward (i + 1) bf [])
         | None \<Rightarrow>
             (let items = bf_entries bf; bf = fold didRemoveItem items bf in
              (bf\<lparr>bf_entries := []\<rparr>, items))))"

subsection \<open>Navigating\<close>

text \<open>The index of the first entry that is the item, \<^term>\<open>None\<close> for \<^verbatim>\<open>notFound\<close>.\<close>

fun findEntry :: "bf_item \<Rightarrow> bf_item list \<Rightarrow> nat option" where
  "findEntry item [] = None"
| "findEntry item (x # xs) = (if x = item then Some 0 else map_option Suc (findEntry item xs))"

definition goToItem :: "(bf_item \<Rightarrow> bool) \<Rightarrow> bf_item \<Rightarrow> bflist \<Rightarrow> bflist option" where
  "goToItem shouldKeep item bf =
     (case bf_currentIndex bf of
        None \<Rightarrow> Some bf
      | Some i \<Rightarrow>
          if bf_entries bf = [] \<or> \<not> bf_page bf then Some bf
          else case findEntry item (bf_entries bf) of
            None \<Rightarrow> Some bf
          | Some targetIndex \<Rightarrow>
              if i \<ge> length (bf_entries bf) then None
              else if bf_entries bf ! i = item \<or> shouldKeep (bf_entries bf ! i)
              then Some (didChangeBackForwardList None [] (bf\<lparr>bf_currentIndex := Some targetIndex\<rparr>))
              else
                (let removed = bf_entries bf ! i;
                     bf = bf\<lparr>bf_entries := take i (bf_entries bf) @ drop (i + 1) (bf_entries bf)\<rparr> in
                 Some (didChangeBackForwardList None [removed]
                   (bf\<lparr>bf_currentIndex := findEntry item (bf_entries bf)\<rparr>))))"

subsection \<open>Queries\<close>

text \<open>The outer \<^typ>\<open>'a option\<close> is the access, the inner one the pointer returned.\<close>

definition entryAt :: "bflist \<Rightarrow> nat \<Rightarrow> bf_item option option" where
  "entryAt bf i = (if i < length (bf_entries bf) then Some (Some (bf_entries bf ! i)) else None)"

definition currentItem :: "bflist \<Rightarrow> bf_item option option" where
  "currentItem bf =
     (case bf_currentIndex bf of Some i \<Rightarrow> if bf_page bf then entryAt bf i else Some None
      | None \<Rightarrow> Some None)"

definition backItem :: "bflist \<Rightarrow> bf_item option option" where
  "backItem bf =
     (case bf_currentIndex bf of
        Some i \<Rightarrow> if bf_page bf \<and> i \<noteq> 0 then entryAt bf (i - 1) else Some None
      | None \<Rightarrow> Some None)"

definition forwardItem :: "bflist \<Rightarrow> bf_item option option" where
  "forwardItem bf =
     (case bf_currentIndex bf of
        Some i \<Rightarrow>
          if bf_page bf \<and> length (bf_entries bf) \<noteq> 0 \<and> i < length (bf_entries bf) - 1
          then entryAt bf (i + 1) else Some None
      | None \<Rightarrow> Some None)"

definition backListCount :: "bflist \<Rightarrow> nat" where
  "backListCount bf =
     (case bf_currentIndex bf of Some i \<Rightarrow> if bf_page bf then i else 0 | None \<Rightarrow> 0)"

definition forwardListCount :: "bflist \<Rightarrow> nat" where
  "forwardListCount bf =
     (case bf_currentIndex bf of
        Some i \<Rightarrow> if bf_page bf then length (bf_entries bf) - (i + 1) else 0
      | None \<Rightarrow> 0)"

definition bf_counts :: "bflist \<Rightarrow> nat \<times> nat" where
  "bf_counts bf = (backListCount bf, forwardListCount bf)"

definition itemAtIndex :: "int \<Rightarrow> bflist \<Rightarrow> bf_item option option" where
  "itemAtIndex index bf =
     (case bf_currentIndex bf of
        None \<Rightarrow> Some None
      | Some i \<Rightarrow>
          if \<not> bf_page bf then Some None
          else if index < 0 \<and> nat (- index) > backListCount bf then Some None
          else if index > 0 \<and> nat index > forwardListCount bf then Some None
          else entryAt bf (nat (index + int i)))"

definition backListAsAPIArrayWithLimit :: "nat \<Rightarrow> bflist \<Rightarrow> bf_item list" where
  "backListAsAPIArrayWithLimit limit bf =
     (if \<not> bf_page bf \<or> bf_currentIndex bf = None then []
      else
        (let backListSize = backListCount bf; sz = min backListSize limit in
         if sz = 0 then [] else map (\<lambda>i. bf_entries bf ! i) [backListSize - sz ..< backListSize]))"

definition forwardListAsAPIArrayWithLimit :: "nat \<Rightarrow> bflist \<Rightarrow> bf_item list" where
  "forwardListAsAPIArrayWithLimit limit bf =
     (case bf_currentIndex bf of
        None \<Rightarrow> []
      | Some i \<Rightarrow>
          if \<not> bf_page bf then []
          else
            (let sz = min (forwardListCount bf) limit in
             if sz = 0 then [] else map (\<lambda>i. bf_entries bf ! i) [i + 1 ..< i + sz + 1]))"

definition backList :: "bflist \<Rightarrow> bf_item list" where
  "backList bf = backListAsAPIArrayWithLimit (backListCount bf) bf"

definition forwardList :: "bflist \<Rightarrow> bf_item list" where
  "forwardList bf = forwardListAsAPIArrayWithLimit (forwardListCount bf) bf"

subsection \<open>Clearing\<close>

definition removeAllItems :: "bflist \<Rightarrow> bflist option" where
  "removeAllItems bf =
     (let removedItems = bf_entries bf in
      if \<not> bf_page bf then None
      else
        (let bf = fold didRemoveItem removedItems bf;
             bf = bf\<lparr>bf_entries := [], bf_currentIndex := None\<rparr> in
         Some (didChangeBackForwardList None removedItems bf)))"

definition bf_clear :: "bflist \<Rightarrow> bflist option" where
  "bf_clear bf =
     (if \<not> bf_page bf \<or> length (bf_entries bf) \<le> 1 then Some bf
      else case currentItem bf of
        None \<Rightarrow> None
      | Some None \<Rightarrow>
          (let items = bf_entries bf; bf = fold didRemoveItem items bf;
               bf = bf\<lparr>bf_entries := [], bf_currentIndex := None\<rparr> in
           Some (didChangeBackForwardList None items bf))
      | Some (Some item) \<Rightarrow>
          (let items = bf_entries bf;
               removedItems = map (\<lambda>i. items ! i)
                 (filter (\<lambda>i. bf_currentIndex bf \<noteq> None \<and> bf_currentIndex bf \<noteq> Some i) [0..<length items]);
               bf = fold didRemoveItem (filter (\<lambda>x. x \<noteq> item) items) bf;
               bf = bf\<lparr>bf_currentIndex := Some 0, bf_entries := [item]\<rparr> in
           Some (didChangeBackForwardList None removedItems bf)))"

subsection \<open>Session state\<close>

text \<open>The loop over the entries: the kept items and the current index of the state.\<close>

fun stateLoop :: "(bf_item \<Rightarrow> bool) option \<Rightarrow> nat \<Rightarrow> bf_item list \<Rightarrow> nat option \<Rightarrow> bf_item list \<times> nat option" where
  "stateLoop keep i [] currentIndex = ([], currentIndex)"
| "stateLoop keep i (entry # entries) currentIndex =
     (if keep \<noteq> None \<and> \<not> the keep entry
      then stateLoop keep (i + 1) entries
        (case currentIndex of
           None \<Rightarrow> None
         | Some c \<Rightarrow> if i \<le> c \<and> c \<noteq> 0 then Some (c - 1) else Some c)
      else (case stateLoop keep (i + 1) entries currentIndex of
        (items, currentIndex) \<Rightarrow> (entry # items, currentIndex)))"

definition backForwardListState ::
    "(bf_item \<Rightarrow> bool) option \<Rightarrow> bflist \<Rightarrow> (bf_item list \<times> nat option) option" where
  "backForwardListState keep bf =
     (case stateLoop keep 0 (bf_entries bf) (bf_currentIndex bf) of
        (items, currentIndex) \<Rightarrow>
          if items = [] then Some (items, None)
          else case currentIndex of
            None \<Rightarrow> None
          | Some c \<Rightarrow> Some (items, Some (if length items \<le> c then length items - 1 else c)))"

text \<open>
  Each state becomes a new item; \<open>create\<close> gives the item made for the state at a position.
\<close>

definition restoreFromState ::
    "(nat \<Rightarrow> bf_item \<Rightarrow> bf_item) \<Rightarrow> bf_item list \<times> nat option \<Rightarrow> bflist \<Rightarrow> bflist" where
  "restoreFromState create st bf =
     (if \<not> bf_page bf then bf
      else bf\<lparr>bf_currentIndex := snd st,
        bf_entries := map (\<lambda>(i, x). create i x) (enumerate 0 (fst st))\<rparr>)"

definition filteredItemStates :: "(bf_item \<Rightarrow> bool) \<Rightarrow> bflist \<Rightarrow> bf_item list" where
  "filteredItemStates functor bf = filter functor (bf_entries bf)"

definition itemStates :: "bflist \<Rightarrow> bf_item list" where
  "itemStates bf = filteredItemStates (\<lambda>item. True) bf"

subsection \<open>Specification\<close>

text \<open>
  A history is what is behind, the current page and what is ahead. The invariant of the class and
  the history a list stands for.
\<close>

datatype history = Empty | History "bf_item list" bf_item "bf_item list"

definition wf_bf :: "bflist \<Rightarrow> bool" where
  "wf_bf bf \<longleftrightarrow> distinct (bf_entries bf) \<and> length (bf_entries bf) \<le> DefaultCapacity \<and>
     (case bf_currentIndex bf of None \<Rightarrow> bf_entries bf = []
      | Some i \<Rightarrow> i < length (bf_entries bf) \<and> bf_page bf)"

definition history_of :: "bflist \<Rightarrow> history" where
  "history_of bf = (case bf_currentIndex bf of None \<Rightarrow> Empty
    | Some i \<Rightarrow> History (take i (bf_entries bf)) (bf_entries bf ! i) (drop (i + 1) (bf_entries bf)))"

text \<open>Visiting a page: the forward list goes, and the oldest page when there are too many.\<close>

fun visit :: "(bf_item \<Rightarrow> bool) \<Rightarrow> bf_item \<Rightarrow> history \<Rightarrow> history" where
  "visit keep new Empty = History [] new []"
| "visit keep new (History behind cur ahead) =
     (let behind = (if length behind + 1 \<ge> DefaultCapacity then tl behind else behind) in
      History (if keep cur then behind @ [cur] else behind) new [])"

definition move :: "(bf_item \<Rightarrow> bool) \<Rightarrow> bf_item \<Rightarrow> history \<Rightarrow> history" where
  "move keep item h = (case h of Empty \<Rightarrow> Empty
    | History behind cur ahead \<Rightarrow>
        if item = cur then h
        else
          (let kept = (if keep cur then [cur] else []) in
           case dropWhile (\<lambda>x. x \<noteq> item) behind of
             x # rest \<Rightarrow> History (takeWhile (\<lambda>x. x \<noteq> item) behind) item (rest @ kept @ ahead)
           | [] \<Rightarrow>
               (case dropWhile (\<lambda>x. x \<noteq> item) ahead of
                  x # rest \<Rightarrow> History (behind @ kept @ takeWhile (\<lambda>x. x \<noteq> item) ahead) item rest
                | [] \<Rightarrow> h)))"

lemma fold_didRemoveItem:
  "fold didRemoveItem items bf = bf\<lparr>bf_removed := bf_removed bf @ items\<rparr>"
  by (induction items arbitrary: bf) (simp_all add: didRemoveItem_def)

lemma tossForward_result:
  "tossForward n bf r =
     (bf\<lparr>bf_entries := take n (bf_entries bf),
         bf_removed := bf_removed bf @ rev (drop n (bf_entries bf))\<rparr>,
      r @ rev (drop n (bf_entries bf)))"
proof (induction n bf r rule: tossForward.induct)
  case (1 n bf r)
  show ?case
  proof (cases "length (bf_entries bf) > n")
    case True
    let ?es = "bf_entries bf"
    have es: "?es = butlast ?es @ [last ?es]" using True by (metis append_butlast_last_id length_0_conv not_less0)
    have "drop n ?es = drop n (butlast ?es) @ [last ?es]"
      using True by (subst es) simp
    moreover have "take n (butlast ?es) = take n ?es"
      using True by (simp add: take_butlast)
    ultimately show ?thesis
      using 1 [OF True refl refl] True
      by (subst tossForward.simps) (simp add: didRemoveItem_def Let_def)
  qed (subst tossForward.simps, simp)
qed

text \<open>What an operation leaves of the list, as one fact per branch.\<close>

lemma addItem_result:
  assumes "wf_bf bf" and "bf_page bf"
  shows "addItem keep new bf = Some (case bf_currentIndex bf of
      None \<Rightarrow> bf\<lparr>bf_currentIndex := Some 0, bf_entries := [new], bf_changes := bf_changes bf @ [(Some new, [])]\<rparr>
    | Some i \<Rightarrow>
        (let es = bf_entries bf; full = Suc i \<ge> DefaultCapacity;
             kept = (if full then tl (take i es) else take i es);
             cur = es ! i;
             tossed = rev (drop (Suc i) es) @ (if full then [hd es] else []) in
         bf\<lparr>bf_currentIndex := Some (length kept + (if keep cur then 1 else 0)),
            bf_entries := kept @ (if keep cur then [cur, new] else [new]),
            bf_removed := bf_removed bf @ tossed,
            bf_changes := bf_changes bf @ [(Some new, tossed @ (if keep cur then [] else [cur]))]\<rparr>))"
proof (cases "bf_currentIndex bf")
  case None
  then show ?thesis
    using assms by (simp add: addItem_def wf_bf_def insertItem_def didChangeBackForwardList_def)
next
  case (Some i)
  let ?es = "bf_entries bf"
  have i: "i < length ?es" using assms Some by (simp add: wf_bf_def)
  then have take: "take (Suc i) ?es = take i ?es @ [?es ! i]" by (simp add: take_Suc_conv_app_nth)
  show ?thesis
  proof (cases "Suc i \<ge> DefaultCapacity")
    case True
    then have "i \<noteq> 0" by (simp add: DefaultCapacity_def)
    then obtain e es where es: "take i ?es = e # es" using i by (cases "take i ?es") auto
    then have len: "length es = i - 1" "hd ?es = e"
      using i by (metis Suc_eq_plus1 add_diff_cancel_right' length_Cons length_take less_imp_le min.absorb2)
        (metis es hd_take list.sel(1) neq0_conv \<open>i \<noteq> 0\<close>)
    show ?thesis
      using assms(2) Some True \<open>i \<noteq> 0\<close> i es len take
      by (auto simp: addItem_def insertItem_def tossFirst_def tossForward_result didRemoveItem_def Let_def
          didChangeBackForwardList_def nth_append list_update_append intro!: bflist.equality)
  next
    case False
    then show ?thesis
      using assms(2) Some i take
      by (auto simp: addItem_def insertItem_def tossFirst_def tossForward_result Let_def
          didChangeBackForwardList_def nth_append list_update_append intro!: bflist.equality)
  qed
qed

lemma findEntry_Some:
  "findEntry x xs = Some k \<Longrightarrow> k < length xs \<and> xs ! k = x \<and> takeWhile (\<lambda>y. y \<noteq> x) xs = take k xs \<and>
     dropWhile (\<lambda>y. y \<noteq> x) xs = drop k xs"
  by (induction xs arbitrary: k) (auto split: if_splits)

lemma findEntry_None: "findEntry x xs = None \<longleftrightarrow> x \<notin> set xs"
  by (induction xs) auto

lemma findEntry_append:
  "findEntry x (xs @ ys) = (case findEntry x xs of Some k \<Rightarrow> Some k
     | None \<Rightarrow> map_option (\<lambda>k. length xs + k) (findEntry x ys))"
  by (induction xs; cases "findEntry x ys") (auto split: option.splits)

lemma history_split:
  assumes "wf_bf bf" and "bf_currentIndex bf = Some i"
  obtains b c f where "bf_entries bf = b @ c # f" and "i = length b" and "history_of bf = History b c f"
proof
  have i: "i < length (bf_entries bf)" using assms by (simp add: wf_bf_def)
  show "bf_entries bf = take i (bf_entries bf) @ bf_entries bf ! i # drop (Suc i) (bf_entries bf)"
    using i by (rule id_take_nth_drop)
  show "i = length (take i (bf_entries bf))" using i by simp
  show "history_of bf = History (take i (bf_entries bf)) (bf_entries bf ! i) (drop (Suc i) (bf_entries bf))"
    using assms(2) by (simp add: history_of_def)
qed

lemma history_of_split:
  "bf_entries bf = b @ c # f \<Longrightarrow> bf_currentIndex bf = Some (length b) \<Longrightarrow> history_of bf = History b c f"
  by (simp add: history_of_def)

lemma wf_bf_changes [simp]: "wf_bf (bf\<lparr>bf_changes := x\<rparr>) = wf_bf bf"
  by (simp add: wf_bf_def split: option.split)

text \<open>Going to an item: the list around the item, and what is reported.\<close>

lemma goToItem_cases:
  assumes "wf_bf bf" and "bf_page bf" and "bf_entries bf = b @ c # f"
    and "bf_currentIndex bf = Some (length b)"
  shows "goToItem keep item bf = Some (
    if item = c then bf\<lparr>bf_changes := bf_changes bf @ [(None, [])]\<rparr>
    else if item \<notin> set b \<union> set f then bf
    else
      (let kept = (if keep c then [c] else []); es = b @ kept @ f in
       bf\<lparr>bf_entries := es, bf_currentIndex := findEntry item es,
          bf_changes := bf_changes bf @ [(None, if keep c then [] else [c])]\<rparr>))"
proof -
  have distinct: "distinct (b @ c # f)" using assms(1,3) by (simp add: wf_bf_def)
  have find: "findEntry item (b @ c # f) = (if item = c then Some (length b)
      else case findEntry item b of Some k \<Rightarrow> Some k
        | None \<Rightarrow> map_option (\<lambda>k. length b + Suc k) (findEntry item f))"
    using distinct findEntry_None [of c b]
    by (auto simp: findEntry_append option.map_comp o_def split: option.splits)
  show ?thesis
  proof (cases "item = c")
    case True
    then show ?thesis
      using assms find by (auto simp: goToItem_def didChangeBackForwardList_def intro!: bflist.equality)
  next
    case False
    then show ?thesis
      using assms find findEntry_None [of item b] findEntry_None [of item f]
      by (auto simp: goToItem_def didChangeBackForwardList_def Let_def findEntry_append nth_append
          option.map_comp o_def intro!: bflist.equality split: option.splits)
  qed
qed


definition example_list :: bflist where
  "example_list = \<lparr>bf_page = True, bf_entries = [10, 11, 12, 13, 14], bf_currentIndex = Some 3,
     bf_removed = [], bf_changes = []\<rparr>"

lemma wf_example_list: "wf_bf example_list"
  by (simp add: wf_bf_def example_list_def DefaultCapacity_def)


text \<open>
  Claim C9. The list of entries with its index implements a browsing history. Adding an item is
  visiting a page (the current page goes behind unless the client drops it, what was ahead is gone,
  the oldest page is dropped at 100), going to an item is moving to it with everything else in place
  (unless the client drops the page left), and an item that is not in the list changes nothing.
\<close>

theorem back_forward_refines_history:
  assumes "wf_bf bf" and "bf_page bf"
  shows "map_option history_of (addItem keep new bf) = Some (visit keep new (history_of bf)) \<and>
    map_option history_of (goToItem keep item bf) = Some (move keep item (history_of bf))"
proof (cases "bf_currentIndex bf")
  case None
  then show ?thesis
    using assms by (simp add: addItem_result goToItem_def history_of_def move_def)
next
  case (Some i)
  from history_split [OF assms(1) Some] obtain b c f where
    es: "bf_entries bf = b @ c # f" "i = length b" "history_of bf = History b c f" by metis
  have distinct: "c \<notin> set b" "c \<notin> set f" "set b \<inter> set f = {}" using assms(1) es by (auto simp: wf_bf_def)
  let ?b = "if Suc (length b) \<ge> DefaultCapacity then tl b else b"
  have "map_option history_of (addItem keep new bf) = Some (visit keep new (History b c f))"
    unfolding addItem_result [OF assms] Some es
    by (auto simp: history_of_def Let_def nth_append es(1))
  moreover have "map_option history_of (goToItem keep item bf) = Some (move keep item (History b c f))"
  proof -
    define kept where "kept = (if keep c then [c] else [])"
    have c: "item \<noteq> c \<Longrightarrow> item \<notin> set kept" by (simp add: kept_def)
    note result = goToItem_cases [OF assms es(1) Some [unfolded es(2)], of keep item,
        unfolded Let_def kept_def [symmetric]]
    consider "item = c" | "item \<noteq> c" "item \<notin> set b \<union> set f"
      | (behind) k where "item \<noteq> c" "findEntry item b = Some k"
      | (ahead) k where "item \<noteq> c" "findEntry item b = None" "findEntry item f = Some k"
      using findEntry_None [of item b] findEntry_None [of item f] by (cases "findEntry item b"; cases "findEntry item f") auto
    then show ?thesis
    proof cases
      case 1
      then show ?thesis unfolding result using es Some by (simp add: move_def history_of_def)
    next
      case 2
      then have none: "dropWhile (\<lambda>x. x \<noteq> item) b = []" "dropWhile (\<lambda>x. x \<noteq> item) f = []"
        by (auto simp: dropWhile_eq_Nil_conv)
      from 2 show ?thesis
        unfolding result using es(3) by (simp add: move_def Let_def none del: dropWhile_eq_Nil_conv)
    next
      case behind
      note k = findEntry_Some [OF behind(2)]
      have "item \<in> set b" using k by auto
      moreover have "drop k b = item # drop (Suc k) b" using k by (metis Cons_nth_drop_Suc)
      moreover have "findEntry item (b @ kept @ f) = Some k" using behind(2) by (simp add: findEntry_append)
      ultimately show ?thesis
        unfolding result using behind k
        by (simp add: move_def Let_def kept_def [symmetric] history_of_def nth_append)
    next
      case ahead
      note k = findEntry_Some [OF ahead(3)]
      have none: "dropWhile (\<lambda>x. x \<noteq> item) b = []"
        using ahead(2) findEntry_None [of item b] by (auto simp: dropWhile_eq_Nil_conv)
      have "item \<in> set f" using k by auto
      moreover have "drop k f = item # drop (Suc k) f" using k by (metis Cons_nth_drop_Suc)
      moreover have "findEntry item (b @ kept @ f) = Some (length b + (length kept + k))"
        using ahead c findEntry_None [of item kept] by (simp add: findEntry_append)
      ultimately show ?thesis
        unfolding result using ahead k
        by (simp add: move_def Let_def kept_def [symmetric] history_of_def nth_append none
            del: dropWhile_eq_Nil_conv)
    qed
  qed
  ultimately show ?thesis by (simp add: es(3))
qed

theorem back_forward_refines_history_witness:
  "history_of example_list = History [10, 11, 12] 13 [14] \<and>
   map_option history_of (goToItem (\<lambda>x. True) 11 example_list) = Some (History [10] 11 [12, 13, 14])"
proof -
  have "history_of example_list = History [10, 11, 12] 13 [14]"
    by (simp add: history_of_def example_list_def)
  moreover have "bf_page example_list" by (simp add: example_list_def)
  ultimately show ?thesis
    using back_forward_refines_history [OF wf_example_list, of "\<lambda>x. True" 20 11] by (simp add: move_def)
qed

subsection \<open>Queries\<close>

lemma map_nth_upt: "n \<le> length xs \<Longrightarrow> map (\<lambda>i. xs ! i) [m..<n] = drop m (take n xs)"
  by (rule nth_equalityI) auto

text \<open>
  The queries read the history and stay inside the entries: the current, back and forward
  items and the two lists and counts are those of the history, and itemAtIndex gives the item that
  many places behind or ahead, or none where there are not so many, for every index.
\<close>

theorem back_forward_queries:
  assumes "wf_bf bf" and "history_of bf = History b c f"
  shows "currentItem bf = Some (Some c) \<and>
    backItem bf = Some (if b = [] then None else Some (last b)) \<and>
    forwardItem bf = Some (if f = [] then None else Some (hd f)) \<and>
    bf_counts bf = (length b, length f) \<and> backList bf = b \<and> forwardList bf = f \<and>
    backListAsAPIArrayWithLimit n bf = drop (length b - n) b \<and>
    forwardListAsAPIArrayWithLimit n bf = take n f \<and>
    itemAtIndex k bf = Some (
      if k < 0 then (if nat (- k) \<le> length b then Some (b ! (length b - nat (- k))) else None)
      else if k = 0 then Some c
      else if nat k \<le> length f then Some (f ! (nat k - 1)) else None)"
proof -
  obtain i where i: "bf_currentIndex bf = Some i" using assms(2) by (cases "bf_currentIndex bf") (auto simp: history_of_def)
  from history_split [OF assms(1) i] have es: "bf_entries bf = b @ c # f" "i = length b"
    using assms(2) by (metis history.inject)+
  have page: "bf_page bf" using assms(1) i by (simp add: wf_bf_def)
  note simps = i es page entryAt_def
  have back_limit: "backListAsAPIArrayWithLimit n bf = drop (length b - n) b" for n
    by (simp add: backListAsAPIArrayWithLimit_def backListCount_def simps Let_def map_nth_upt min_def)
  have fwd_limit: "forwardListAsAPIArrayWithLimit n bf = take n f" for n
    by (auto simp: forwardListAsAPIArrayWithLimit_def forwardListCount_def simps Let_def map_nth_upt
        min_def simp del: upt_Suc)
  have "itemAtIndex k bf = Some (
      if k < 0 then (if nat (- k) \<le> length b then Some (b ! (length b - nat (- k))) else None)
      else if k = 0 then Some c
      else if nat k \<le> length f then Some (f ! (nat k - 1)) else None)"
  proof -
    consider (neg) "k < 0" | (zero) "k = 0" | (pos) "k > 0" by linarith
    then show ?thesis
    proof cases
      case neg
      then have "nat (k + int (length b)) = length b - nat (- k)" by linarith
      then show ?thesis
        using neg by (auto simp: itemAtIndex_def backListCount_def simps nth_append)
    next
      case pos
      then have "nat (k + int (length b)) = length b + nat k" by linarith
      then show ?thesis
        using pos by (auto simp: itemAtIndex_def forwardListCount_def simps nth_append nth_Cons')
    qed (simp add: itemAtIndex_def simps)
  qed
  moreover have "backItem bf = Some (if b = [] then None else Some (last b))"
    by (auto simp: backItem_def simps nth_append last_conv_nth)
  moreover have "forwardItem bf = Some (if f = [] then None else Some (hd f))"
    by (auto simp: forwardItem_def simps nth_append hd_conv_nth)
  ultimately show ?thesis
    using back_limit fwd_limit
    by (simp add: currentItem_def simps bf_counts_def backListCount_def forwardListCount_def
        backList_def forwardList_def)
qed

theorem back_forward_queries_witness:
  "wf_bf example_list \<and> itemAtIndex (- 2) example_list = Some (Some 11) \<and>
   itemAtIndex 2 example_list = Some None"
proof -
  have "history_of example_list = History [10, 11, 12] 13 [14]"
    by (simp add: history_of_def example_list_def)
  from back_forward_queries [OF wf_example_list this, of 0 "- 2"]
    back_forward_queries [OF wf_example_list this, of 0 2] wf_example_list
  show ?thesis by simp
qed

subsection \<open>Session state\<close>

lemma stateLoop_all: "keep = None \<or> (\<forall>x \<in> set es. the keep x) \<Longrightarrow> stateLoop keep i es cur = (es, cur)"
  by (induction keep i es cur rule: stateLoop.induct) auto

lemma stateLoop_after:
  "(\<And>c. cur = Some c \<Longrightarrow> c < i) \<Longrightarrow> stateLoop keep i es cur =
     (filter (\<lambda>x. keep = None \<or> the keep x) es, cur)"
  by (induction keep i es cur rule: stateLoop.induct) (auto split: option.split)

lemma stateLoop_before:
  assumes "keep = None \<or> (\<forall>x \<in> set b. the keep x)"
  shows "stateLoop keep i (b @ es) cur =
    (case stateLoop keep (i + length b) es cur of (items, cur) \<Rightarrow> (b @ items, cur))"
  using assms by (induction b arbitrary: i) (auto split: prod.split)

text \<open>
  Claim C33. Saving and restoring the session: the state of a well-formed list without a filter, or
  with one that drops only entries ahead of the current one, has the kept items in order with the
  same item current, and restoring a state puts its items, made anew, in the same places.
\<close>

theorem session_state_roundtrip:
  assumes "wf_bf bf" and "history_of bf = History b c f"
    and "keep = None \<or> (\<forall>x \<in> set (b @ [c]). the keep x)" and "bf_page bf'"
  shows "\<exists>st. backForwardListState keep bf = Some st \<and>
    history_of (restoreFromState (\<lambda>i x. x) st bf')
      = History b c (filter (\<lambda>x. keep = None \<or> the keep x) f)"
proof -
  obtain i where i: "bf_currentIndex bf = Some i" using assms(2) by (cases "bf_currentIndex bf") (auto simp: history_of_def)
  from history_split [OF assms(1) i] have es: "bf_entries bf = b @ c # f" "i = length b"
    using assms(2) by (metis history.inject)+
  have "stateLoop keep 0 (b @ c # f) (Some (length b)) =
      (b @ c # filter (\<lambda>x. keep = None \<or> the keep x) f, Some (length b))"
    using assms(3) stateLoop_after [of "Some (length b)" "Suc (length b)" keep f]
    by (subst stateLoop_before) auto
  then have "backForwardListState keep bf =
      Some (b @ c # filter (\<lambda>x. keep = None \<or> the keep x) f, Some (length b))"
    by (simp add: backForwardListState_def es i)
  moreover have "map (\<lambda>(i, x). x) (enumerate 0 xs) = xs" for xs :: "bf_item list"
    by (simp add: map_snd_enumerate case_prod_unfold)
  ultimately show ?thesis
    using assms(4) by (simp add: restoreFromState_def history_of_def)
qed

theorem session_state_roundtrip_witness:
  "\<exists>st. backForwardListState (Some (\<lambda>x. x \<noteq> 14)) example_list = Some st \<and>
     history_of (restoreFromState (\<lambda>i x. x) st WebBackForwardList_new) = History [10, 11, 12] 13 []"
proof -
  have "history_of example_list = History [10, 11, 12] 13 [14]"
    by (simp add: history_of_def example_list_def)
  from session_state_roundtrip [OF wf_example_list this, of "Some (\<lambda>x. x \<noteq> 14)" WebBackForwardList_new]
  show ?thesis by (simp add: WebBackForwardList_new_def)
qed


subsection \<open>Reports to the page\<close>

text \<open>
  The page hears of every item that leaves the list: after adding an item, clearing the
  list or removing all items, the last report has exactly the items that were in the list before
  and are not there any more, once each, and the added item. Clearing keeps the current item alone.
\<close>

theorem back_forward_reports:
  assumes "wf_bf bf" and "bf_page bf"
  shows "(\<exists>bf' removed. addItem keep new bf = Some bf' \<and>
      bf_changes bf' = bf_changes bf @ [(Some new, removed)] \<and>
      mset (bf_entries bf') + mset removed = mset (bf_entries bf) + {#new#}) \<and>
    (\<exists>bf'. removeAllItems bf = Some bf' \<and> bf_entries bf' = [] \<and>
      bf_changes bf' = bf_changes bf @ [(None, bf_entries bf)] \<and>
      bf_removed bf' = bf_removed bf @ bf_entries bf) \<and>
    (\<forall>b c f. history_of bf = History b c f \<and> b @ f \<noteq> [] \<longrightarrow>
      (\<exists>bf'. bf_clear bf = Some bf' \<and> history_of bf' = History [] c [] \<and>
        bf_changes bf' = bf_changes bf @ [(None, b @ f)] \<and> bf_removed bf' = bf_removed bf @ b @ f))"
proof (intro conjI allI impI)
  show "\<exists>bf' removed. addItem keep new bf = Some bf' \<and>
      bf_changes bf' = bf_changes bf @ [(Some new, removed)] \<and>
      mset (bf_entries bf') + mset removed = mset (bf_entries bf) + {#new#}"
  proof (cases "bf_currentIndex bf")
    case None
    then show ?thesis using assms by (simp add: addItem_result wf_bf_def)
  next
    case (Some i)
    from history_split [OF assms(1) Some] obtain b c f where
      es: "bf_entries bf = b @ c # f" "i = length b" by metis
    have "Suc (length b) \<ge> DefaultCapacity \<Longrightarrow> b \<noteq> []" by (auto simp: DefaultCapacity_def)
    then show ?thesis
      unfolding addItem_result [OF assms] Some es by (cases b) (auto simp: Let_def es)
  qed
  show "\<exists>bf'. removeAllItems bf = Some bf' \<and> bf_entries bf' = [] \<and>
      bf_changes bf' = bf_changes bf @ [(None, bf_entries bf)] \<and>
      bf_removed bf' = bf_removed bf @ bf_entries bf"
    using assms(2) by (simp add: removeAllItems_def Let_def fold_didRemoveItem didChangeBackForwardList_def)
  fix b c f
  assume h: "history_of bf = History b c f \<and> b @ f \<noteq> []"
  obtain i where i: "bf_currentIndex bf = Some i" using h by (cases "bf_currentIndex bf") (auto simp: history_of_def)
  from history_split [OF assms(1) i] have es: "bf_entries bf = b @ c # f" "i = length b"
    using h by (metis history.inject)+
  have distinct: "c \<notin> set b" "c \<notin> set f" using assms(1) es by (auto simp: wf_bf_def)
  have others: "filter (\<lambda>x. x \<noteq> c) (b @ c # f) = b @ f"
    using distinct filter_id_conv [of "\<lambda>x. x \<noteq> c" b] filter_id_conv [of "\<lambda>x. x \<noteq> c" f] by auto
  have "filter (\<lambda>i. bf_currentIndex bf \<noteq> None \<and> bf_currentIndex bf \<noteq> Some i) [0..<length (b @ c # f)]
      = [0..<length b] @ [Suc (length b)..<Suc (length b) + length f]"
  proof -
    have "[0..<length (b @ c # f)] = [0..<length b] @ length b # [Suc (length b)..<Suc (length b) + length f]"
      by (metis (no_types) add_Suc_right add_Suc_shift length_Cons length_append less_add_Suc1
          upt_conv_Cons upt_add_eq_append zero_le)
    then show ?thesis by (simp add: i es(2))
  qed
  then have removed: "map (\<lambda>i. (b @ c # f) ! i)
      (filter (\<lambda>i. bf_currentIndex bf \<noteq> None \<and> bf_currentIndex bf \<noteq> Some i) [0..<length (b @ c # f)]) = b @ f"
    by (simp add: map_nth_upt del: upt_Suc)
  have "currentItem bf = Some (Some c)" using i es assms(2) by (simp add: currentItem_def entryAt_def)
  moreover have "length (b @ c # f) > 1" using h by (cases b) auto
  ultimately show "\<exists>bf'. bf_clear bf = Some bf' \<and> history_of bf' = History [] c [] \<and>
      bf_changes bf' = bf_changes bf @ [(None, b @ f)] \<and> bf_removed bf' = bf_removed bf @ b @ f"
    using assms(2) others removed
    by (simp add: bf_clear_def es(1) Let_def fold_didRemoveItem didChangeBackForwardList_def
        history_of_def del: filter.simps filter_append)
qed

theorem back_forward_reports_witness:
  "\<exists>bf'. bf_clear example_list = Some bf' \<and> history_of bf' = History [] 13 [] \<and>
     bf_changes bf' = [(None, [10, 11, 12, 14])]"
proof -
  have "history_of example_list = History [10, 11, 12] 13 [14]" and page: "bf_page example_list"
    by (simp_all add: history_of_def example_list_def)
  with back_forward_reports [OF wf_example_list page] show ?thesis
    by (fastforce simp: example_list_def)
qed

end
