(* ===== verification/String_Hash_Table.thy ===== *)
theory String_Hash_Table
  imports WK_Prelude
begin

text \<open>
  The table of visited links that the UI process shares with the web processes:
  \<^verbatim>\<open>SharedStringHashTableReadOnly\<close>, \<^verbatim>\<open>SharedStringHashTable\<close>, \<^verbatim>\<open>SharedStringHashStore\<close>
  (src/Shared) and \<^verbatim>\<open>VisitedLinkStore\<close> (src/UIProcess). A hash is a 32-bit word and 0 marks an
  empty slot. The table is its block of shared memory, a list of words, or \<^term>\<open>None\<close> without a
  block. A search that leaves the block or does not end is \<^term>\<open>None\<close>. The size of a page and the
  allocator of shared memory are arguments.
\<close>

unbundle bit_operations_syntax

subsection \<open>The open addressing table\<close>

type_synonym hash_table = "u32 list option"

definition doubleHash :: "u32 \<Rightarrow> u32" where
  "doubleHash key =
     (let key = NOT key + drop_bit 23 key;
          key = key XOR push_bit 12 key;
          key = key XOR drop_bit 7 key;
          key = key XOR push_bit 2 key in
      key XOR drop_bit 20 key)"

definition m_tableSize :: "hash_table \<Rightarrow> u32" where
  "m_tableSize t = (case t of None \<Rightarrow> 0 | Some slots \<Rightarrow> of_nat (length slots))"

definition m_tableSizeMask :: "hash_table \<Rightarrow> u32" where
  "m_tableSizeMask t = (case t of None \<Rightarrow> 0 | Some slots \<Rightarrow> of_nat (length slots) - 1)"

partial_function (option) findSlot_loop ::
    "u32 list \<Rightarrow> u32 \<Rightarrow> u32 \<Rightarrow> u32 \<Rightarrow> u32 \<Rightarrow> nat option" where
  "findSlot_loop slots sizeMask h k i =
     (if unat i \<ge> length slots then None
      else if slots ! unat i = 0 then Some (unat i)
      else if slots ! unat i = h then Some (unat i)
      else (let k = (if k = 0 then 1 OR doubleHash h else k) in
        findSlot_loop slots sizeMask h k ((i + k) AND sizeMask)))"

text \<open>The outer \<^typ>\<open>'a option\<close> is the search, the inner one the pointer it returns.\<close>

definition findSlot :: "hash_table \<Rightarrow> u32 \<Rightarrow> nat option option" where
  "findSlot t h =
     (case t of
        None \<Rightarrow> Some None
      | Some slots \<Rightarrow>
          map_option Some (findSlot_loop slots (m_tableSizeMask t) h 0 (h AND m_tableSizeMask t)))"

definition table_contains :: "hash_table \<Rightarrow> u32 \<Rightarrow> bool option" where
  "table_contains t h =
     (case findSlot t h of
        None \<Rightarrow> None
      | Some None \<Rightarrow> Some False
      | Some (Some i) \<Rightarrow> Some (the t ! i \<noteq> 0))"

text \<open>Adding without a block writes through a null pointer.\<close>

definition hash_add :: "hash_table \<Rightarrow> u32 \<Rightarrow> (bool \<times> hash_table) option" where
  "hash_add t h =
     (case findSlot t h of
        None \<Rightarrow> None
      | Some None \<Rightarrow> None
      | Some (Some i) \<Rightarrow>
          if the t ! i \<noteq> 0 then Some (False, t) else Some (True, Some ((the t)[i := h])))"

definition hash_remove :: "hash_table \<Rightarrow> u32 \<Rightarrow> (bool \<times> hash_table) option" where
  "hash_remove t h =
     (case findSlot t h of
        None \<Rightarrow> None
      | Some None \<Rightarrow> Some (False, t)
      | Some (Some i) \<Rightarrow>
          if the t ! i = 0 then Some (False, t) else Some (True, Some ((the t)[i := 0])))"

definition hash_clear :: "hash_table \<Rightarrow> hash_table" where
  "hash_clear t = None"

subsection \<open>The store\<close>

datatype operation = Op_Add u32 | Op_Remove u32

datatype store_event =
    didInvalidateSharedMemory
  | didUpdateSharedStringHashes "u32 list" "u32 list"

record hash_store =
  st_keyCount :: u32
  st_tableSize :: u32
  st_table :: hash_table
  st_pendingOperations :: "operation list"
  st_timerActive :: bool
  st_events :: "store_event list"

definition SharedStringHashStore_new :: hash_store where
  "SharedStringHashStore_new = \<lparr>st_keyCount = 0, st_tableSize = 0, st_table = None,
     st_pendingOperations = [], st_timerActive = False, st_events = []\<rparr>"

definition sharedStringHashTableMaxLoad :: u32 where
  "sharedStringHashTableMaxLoad = 2"

definition nextPowerOf2 :: "u32 \<Rightarrow> u32" where
  "nextPowerOf2 v =
     (let v = v - 1;
          v = v OR drop_bit 1 v;
          v = v OR drop_bit 2 v;
          v = v OR drop_bit 4 v;
          v = v OR drop_bit 8 v;
          v = v OR drop_bit 16 v in
      v + 1)"

definition tableSizeForKeyCount :: "u32 \<Rightarrow> u32 \<Rightarrow> u32" where
  "tableSizeForKeyCount systemPageSize keyCount =
     (let tableSize = nextPowerOf2 (keyCount * sharedStringHashTableMaxLoad);
          minimumTableSize = systemPageSize div 4 in
      if tableSize < minimumTableSize then minimumTableSize else tableSize)"

definition scheduleAddition :: "u32 \<Rightarrow> hash_store \<Rightarrow> hash_store" where
  "scheduleAddition h st =
     st\<lparr>st_pendingOperations := st_pendingOperations st @ [Op_Add h], st_timerActive := True\<rparr>"

definition scheduleRemoval :: "u32 \<Rightarrow> hash_store \<Rightarrow> hash_store" where
  "scheduleRemoval h st =
     st\<lparr>st_pendingOperations := st_pendingOperations st @ [Op_Remove h], st_timerActive := True\<rparr>"

text \<open>Re-adding the entries of the old block; the results are only asserted.\<close>

primrec rehash :: "u32 list \<Rightarrow> hash_table \<Rightarrow> hash_table option" where
  "rehash [] t = Some t"
| "rehash (h # hs) t =
     (if h = 0 then rehash hs t
      else (case hash_add t h of None \<Rightarrow> None | Some (didAdd, t) \<Rightarrow> rehash hs t))"

text \<open>The pending operations on the table: the hashes added and removed, in order.\<close>

primrec applyOperations ::
    "operation list \<Rightarrow> hash_table \<Rightarrow> u32 \<Rightarrow> u32 list \<Rightarrow> u32 list \<Rightarrow>
     (hash_table \<times> u32 \<times> u32 list \<times> u32 list) option" where
  "applyOperations [] t keyCount added removed = Some (t, keyCount, added, removed)"
| "applyOperations (operation # operations) t keyCount added removed =
     (case operation of
        Op_Add h \<Rightarrow> (case hash_add t h of
          None \<Rightarrow> None
        | Some (True, t) \<Rightarrow> applyOperations operations t (keyCount + 1) (added @ [h]) removed
        | Some (False, t) \<Rightarrow> applyOperations operations t keyCount added removed)
      | Op_Remove h \<Rightarrow> (case hash_remove t h of
          None \<Rightarrow> None
        | Some (True, t) \<Rightarrow> applyOperations operations t (keyCount - 1) added (removed @ [h])
        | Some (False, t) \<Rightarrow> applyOperations operations t keyCount added removed))"

definition resizeTable :: "(nat \<Rightarrow> bool) \<Rightarrow> u32 \<Rightarrow> hash_store \<Rightarrow> hash_store option" where
  "resizeTable allocate newTableSize st =
     (if \<not> allocate (unat newTableSize * 4) then Some st
      else
        (let currentTableMemory = st_table st;
             newTable = Some (replicate (unat newTableSize) 0) in
         case rehash (case currentTableMemory of None \<Rightarrow> [] | Some slots \<Rightarrow> slots) newTable of
           None \<Rightarrow> None
         | Some t \<Rightarrow> (case applyOperations (st_pendingOperations st) t (st_keyCount st) [] [] of
             None \<Rightarrow> None
           | Some (t, keyCount, added, removed) \<Rightarrow>
               Some (st\<lparr>st_table := t, st_tableSize := newTableSize, st_keyCount := keyCount,
                 st_pendingOperations := [], st_events := st_events st @ [didInvalidateSharedMemory]\<rparr>))))"

definition isAdd :: "operation \<Rightarrow> bool" where
  "isAdd operation = (case operation of Op_Add h \<Rightarrow> True | Op_Remove h \<Rightarrow> False)"

definition processPendingOperations :: "u32 \<Rightarrow> (nat \<Rightarrow> bool) \<Rightarrow> hash_store \<Rightarrow> hash_store option" where
  "processPendingOperations systemPageSize allocate st =
     (let currentTableSize = st_tableSize st;
          approximateNewHashCount = of_nat (length (filter isAdd (st_pendingOperations st)));
          newTableSize = tableSizeForKeyCount systemPageSize (st_keyCount st + approximateNewHashCount);
          newTableSize = max currentTableSize newTableSize in
      if currentTableSize \<noteq> newTableSize then resizeTable allocate newTableSize st
      else case applyOperations (st_pendingOperations st) (st_table st) (st_keyCount st) [] [] of
        None \<Rightarrow> None
      | Some (t, keyCount, added, removed) \<Rightarrow>
          (let st = st\<lparr>st_table := t, st_keyCount := keyCount, st_pendingOperations := []\<rparr> in
           Some (if added \<noteq> [] \<or> removed \<noteq> []
                 then st\<lparr>st_events := st_events st @ [didUpdateSharedStringHashes added removed]\<rparr>
                 else st)))"

text \<open>The timer fires.\<close>

definition fireStoreTimer :: "u32 \<Rightarrow> (nat \<Rightarrow> bool) \<Rightarrow> hash_store \<Rightarrow> hash_store option" where
  "fireStoreTimer systemPageSize allocate st =
     processPendingOperations systemPageSize allocate (st\<lparr>st_timerActive := False\<rparr>)"

definition flushPendingChanges :: "u32 \<Rightarrow> (nat \<Rightarrow> bool) \<Rightarrow> hash_store \<Rightarrow> hash_store option" where
  "flushPendingChanges systemPageSize allocate st =
     (if \<not> st_timerActive st then Some st
      else processPendingOperations systemPageSize allocate (st\<lparr>st_timerActive := False\<rparr>))"

definition store_contains ::
    "u32 \<Rightarrow> (nat \<Rightarrow> bool) \<Rightarrow> u32 \<Rightarrow> hash_store \<Rightarrow> (bool \<times> hash_store) option" where
  "store_contains systemPageSize allocate h st =
     (case flushPendingChanges systemPageSize allocate st of
        None \<Rightarrow> None
      | Some st \<Rightarrow> map_option (\<lambda>b. (b, st)) (table_contains (st_table st) h))"

definition store_clear :: "hash_store \<Rightarrow> hash_store" where
  "store_clear st = st\<lparr>st_timerActive := False, st_pendingOperations := [], st_keyCount := 0,
     st_tableSize := 0, st_table := hash_clear (st_table st)\<rparr>"

definition store_isEmpty :: "hash_store \<Rightarrow> bool" where
  "store_isEmpty st \<longleftrightarrow> st_keyCount st = 0"

subsection \<open>The visited link store\<close>

datatype link_message =
    SetVisitedLinkTable hash_table
  | VisitedLinkStateChanged "u32 list"
  | AllVisitedLinkStateChanged
  | RemoveAllVisitedLinks

text \<open>The processes, the hash store and the messages sent, each with the process it goes to.\<close>

record link_store =
  vl_processes :: "nat list"
  vl_linkHashStore :: hash_store
  vl_sent :: "(nat \<times> link_message) list"

definition VisitedLinkStore_new :: link_store where
  "VisitedLinkStore_new =
     \<lparr>vl_processes = [], vl_linkHashStore = SharedStringHashStore_new, vl_sent = []\<rparr>"

definition link_send :: "nat \<Rightarrow> link_message \<Rightarrow> link_store \<Rightarrow> link_store" where
  "link_send p m vl = vl\<lparr>vl_sent := vl_sent vl @ [(p, m)]\<rparr>"

text \<open>
  A handle of a store without a block is made through a null pointer; \<open>createHandle\<close> answers whether
  the system makes one for the process.
\<close>

definition sendStoreHandleToProcess :: "(nat \<Rightarrow> bool) \<Rightarrow> nat \<Rightarrow> link_store \<Rightarrow> link_store option" where
  "sendStoreHandleToProcess createHandle p vl =
     (if st_table (vl_linkHashStore vl) = None then None
      else if \<not> createHandle p then Some vl
      else Some (link_send p (SetVisitedLinkTable (st_table (vl_linkHashStore vl))) vl))"

definition addProcess :: "(nat \<Rightarrow> bool) \<Rightarrow> nat \<Rightarrow> link_store \<Rightarrow> link_store option" where
  "addProcess createHandle p vl =
     (if p \<in> set (vl_processes vl) then Some vl
      else
        (let vl = vl\<lparr>vl_processes := vl_processes vl @ [p]\<rparr> in
         if store_isEmpty (vl_linkHashStore vl) then Some vl else sendStoreHandleToProcess createHandle p vl))"

definition removeProcess :: "nat \<Rightarrow> link_store \<Rightarrow> link_store" where
  "removeProcess p vl = vl\<lparr>vl_processes := removeAll p (vl_processes vl)\<rparr>"

definition addVisitedLinkHash :: "u32 \<Rightarrow> link_store \<Rightarrow> link_store" where
  "addVisitedLinkHash h vl = vl\<lparr>vl_linkHashStore := scheduleAddition h (vl_linkHashStore vl)\<rparr>"

definition removeVisitedLinkHash :: "u32 \<Rightarrow> link_store \<Rightarrow> link_store" where
  "removeVisitedLinkHash h vl = vl\<lparr>vl_linkHashStore := scheduleRemoval h (vl_linkHashStore vl)\<rparr>"

text \<open>\<open>addsVisitedLinks\<close> is the answer of the page, \<^term>\<open>None\<close> if there is no such page.\<close>

definition addVisitedLinkHashFromPage :: "bool option \<Rightarrow> u32 \<Rightarrow> link_store \<Rightarrow> link_store" where
  "addVisitedLinkHashFromPage addsVisitedLinks h vl =
     (if addsVisitedLinks = Some False then vl else addVisitedLinkHash h vl)"

primrec sendHandles :: "(nat \<Rightarrow> bool) \<Rightarrow> nat list \<Rightarrow> link_store \<Rightarrow> link_store option" where
  "sendHandles createHandle [] vl = Some vl"
| "sendHandles createHandle (p # ps) vl =
     (case sendStoreHandleToProcess createHandle p vl of None \<Rightarrow> None | Some vl \<Rightarrow> sendHandles createHandle ps vl)"

definition vl_didInvalidateSharedMemory :: "(nat \<Rightarrow> bool) \<Rightarrow> link_store \<Rightarrow> link_store option" where
  "vl_didInvalidateSharedMemory createHandle vl = sendHandles createHandle (vl_processes vl) vl"

definition vl_didUpdateSharedStringHashes :: "u32 list \<Rightarrow> u32 list \<Rightarrow> link_store \<Rightarrow> link_store" where
  "vl_didUpdateSharedStringHashes addedHashes removedHashes vl =
     fold (\<lambda>p. link_send p
         (if length addedHashes > 20 \<or> removedHashes \<noteq> [] then AllVisitedLinkStateChanged
          else VisitedLinkStateChanged addedHashes)) (vl_processes vl) vl"

text \<open>The calls the hash store makes to its client while it processes the pending operations.\<close>

primrec deliverStoreEvents :: "(nat \<Rightarrow> bool) \<Rightarrow> store_event list \<Rightarrow> link_store \<Rightarrow> link_store option" where
  "deliverStoreEvents createHandle [] vl = Some vl"
| "deliverStoreEvents createHandle (event # events) vl =
     (case event of
        didInvalidateSharedMemory \<Rightarrow>
          (case vl_didInvalidateSharedMemory createHandle vl of None \<Rightarrow> None | Some vl \<Rightarrow> deliverStoreEvents createHandle events vl)
      | didUpdateSharedStringHashes added removed \<Rightarrow>
          deliverStoreEvents createHandle events (vl_didUpdateSharedStringHashes added removed vl))"

definition containsVisitedLinkHash ::
    "u32 \<Rightarrow> (nat \<Rightarrow> bool) \<Rightarrow> (nat \<Rightarrow> bool) \<Rightarrow> u32 \<Rightarrow> link_store \<Rightarrow> (bool \<times> link_store) option" where
  "containsVisitedLinkHash systemPageSize allocate createHandle h vl =
     (case store_contains systemPageSize allocate h ((vl_linkHashStore vl)\<lparr>st_events := []\<rparr>) of
        None \<Rightarrow> None
      | Some (b, st) \<Rightarrow>
          map_option (Pair b) (deliverStoreEvents createHandle (st_events st) (vl\<lparr>vl_linkHashStore := st\<rparr>)))"

definition removeAllVisitedLinks :: "link_store \<Rightarrow> link_store" where
  "removeAllVisitedLinks vl =
     (let vl = vl\<lparr>vl_linkHashStore := store_clear (vl_linkHashStore vl)\<rparr> in
      fold (\<lambda>p. link_send p RemoveAllVisitedLinks) (vl_processes vl) vl)"

subsection \<open>Probing\<close>

lemma odd_stride_inj:
  assumes "odd (k :: nat)"
  shows "inj_on (\<lambda>n. (a + n * k) mod 2 ^ m) {..<2 ^ m}"
proof (rule inj_onI)
  have less: "n = n'" if "(a + n * k) mod 2 ^ m = (a + n' * k) mod 2 ^ m" "n' \<le> n" "n < 2 ^ m" for n n'
  proof -
    have "2 ^ m dvd (a + n * k) - (a + n' * k)"
      using that by (simp add: mod_eq_dvd_iff_nat)
    then have "2 ^ m dvd (n - n') * k" by (simp add: diff_mult_distrib)
    moreover have "coprime (2 ^ m) k" using assms by simp
    ultimately have "2 ^ m dvd n - n'" using coprime_dvd_mult_left_iff by blast
    then have "n - n' = 0" using that by (meson dvd_imp_le less_imp_diff_less not_less neq0_conv)
    then show ?thesis using that by simp
  qed
  fix n n' assume "n \<in> {..<2 ^ m}" "n' \<in> {..<2 ^ m}" "(a + n * k) mod 2 ^ m = (a + n' * k) mod 2 ^ m"
  then show "n = n'" using less [of n n'] less [of n' n] by (cases "n' \<le> n") auto
qed

lemma odd_stride_covers:
  assumes "odd (k :: nat)" and "z < 2 ^ m"
  shows "\<exists>n. (a + n * k) mod 2 ^ m = z"
proof -
  let ?f = "\<lambda>n. (a + n * k) mod 2 ^ m"
  have "card (?f ` {..<2 ^ m}) = 2 ^ m" using card_image [OF odd_stride_inj [OF assms(1), of a m]] by (simp only: card_lessThan)
  moreover have "?f ` {..<2 ^ m} \<subseteq> {..<2 ^ m}" by auto
  ultimately have image: "?f ` {..<2 ^ m} = {..<2 ^ m}"
    by (intro card_subset_eq [OF finite_lessThan]) (simp_all only: card_lessThan)
  have "z \<in> ?f ` {..<2 ^ m}" unfolding image using assms(2) by (simp only: lessThan_iff)
  then obtain n where "z = ?f n" by (rule imageE)
  then show ?thesis by (intro exI [of _ n]) (rule sym)
qed

lemma odd_probe_step: "odd (unat (1 OR doubleHash h))"
proof -
  have "bit (1 OR doubleHash h) 0" by (simp add: bit_or_iff)
  then have "bit (unat (1 OR doubleHash h)) 0" unfolding bit_unsigned_iff by (intro conjI) simp_all
  then show ?thesis unfolding bit_0 .
qed

lemma probe_step_nonzero: "1 OR doubleHash h \<noteq> 0"
proof
  assume "1 OR doubleHash h = 0"
  then have "unat (1 OR doubleHash h) = 0" by (simp only: unat_eq_zero)
  with odd_probe_step [of h] show False by (simp only: even_zero simp_thms)
qed

lemma and_size_mask:
  assumes "m < 32"
  shows "unat (x AND (of_nat (2 ^ m) - 1) :: u32) = unat x mod 2 ^ m"
proof -
  have "(of_nat (2 ^ m) - 1 :: u32) = mask m" by (simp add: mask_eq_exp_minus_1)
  then have "x AND (of_nat (2 ^ m) - 1) = take_bit m x" by (simp add: take_bit_eq_mask)
  then show ?thesis by (simp add: unsigned_take_bit_eq take_bit_nat_def)
qed

lemma unat_add_mod_pow:
  assumes "m < 32"
  shows "unat (x + y :: u32) mod 2 ^ m = (unat x + unat y) mod 2 ^ m"
proof -
  have "(2 :: nat) ^ m dvd 2 ^ 32" using assms by (intro le_imp_power_dvd) simp
  then show ?thesis by (simp add: unat_word_ariths mod_mod_cancel)
qed

text \<open>
  The slot looked at after a number of steps. A table has a power of two of slots, so the steps
  visit all of them.
\<close>

definition probe :: "nat \<Rightarrow> u32 \<Rightarrow> nat \<Rightarrow> nat" where
  "probe m h n = (unat h + n * unat (1 OR doubleHash h)) mod 2 ^ m"

definition stops :: "u32 list \<Rightarrow> u32 \<Rightarrow> nat \<Rightarrow> bool" where
  "stops slots h i \<longleftrightarrow> slots ! i = 0 \<or> slots ! i = h"

lemma findSlot_loop_stop:
  "unat i < length slots \<Longrightarrow> stops slots h (unat i) \<Longrightarrow> findSlot_loop slots M h k i = Some (unat i)"
  by (subst findSlot_loop.simps) (auto simp: stops_def)

lemma findSlot_loop_step:
  assumes "unat i < length slots" and "\<not> stops slots h (unat i)"
    and "k' = (if k = 0 then 1 OR doubleHash h else k)"
  shows "findSlot_loop slots M h k i = findSlot_loop slots M h k' ((i + k') AND M)"
  using assms(1,2) unfolding assms(3)
  by (subst findSlot_loop.simps) (simp only: stops_def Let_def not_le [symmetric] de_Morgan_disj if_False simp_thms)

lemma probe_Suc: "(probe m h n + unat (1 OR doubleHash h)) mod 2 ^ m = probe m h (Suc n)"
  unfolding probe_def by (subst mod_add_left_eq) (simp only: mult_Suc add.commute add.left_commute)

lemma probe_less: "probe m h n < 2 ^ m"
  by (simp add: probe_def)

lemma findSlot_loop_finds:
  assumes "length slots = 2 ^ m" and "m < 32" and "k = 0 \<or> k = 1 OR doubleHash h"
    and "unat i = probe m h n0"
    and "\<And>j. n0 \<le> j \<Longrightarrow> j < n \<Longrightarrow> \<not> stops slots h (probe m h j)" and "n0 \<le> n"
    and "stops slots h (probe m h n)"
  shows "findSlot_loop slots (of_nat (2 ^ m) - 1) h k i = Some (probe m h n)"
  using assms(3-)
proof (induction "n - n0" arbitrary: n0 i k)
  case 0
  then have "n0 = n" by linarith
  then have i: "unat i = probe m h n" by (simp only: 0)
  show ?case
    using findSlot_loop_stop [of i slots h "of_nat (2 ^ m) - 1" k] 0(6) probe_less [of m h n]
    unfolding i assms(1) by blast
next
  case (Suc x)
  have "n0 < n" using Suc.hyps(2) by linarith
  then have no: "\<not> stops slots h (unat i)" unfolding Suc.prems(2) using Suc.prems(3) [of n0] by blast
  define k' where "k' = (if k = 0 then 1 OR doubleHash h else k)"
  have k': "k' = 1 OR doubleHash h" using Suc.prems(1) unfolding k'_def by (cases "k = 0") simp_all
  define i' where "i' = (i + k') AND (of_nat (2 ^ m) - 1)"
  have "unat i' = (unat i + unat k') mod 2 ^ m"
    unfolding i'_def and_size_mask [OF assms(2)] by (rule unat_add_mod_pow [OF assms(2)])
  then have i': "unat i' = probe m h (Suc n0)" unfolding Suc.prems(2) k' by (simp only: probe_Suc)
  have "findSlot_loop slots (of_nat (2 ^ m) - 1) h k' i' = Some (probe m h n)"
  proof (rule Suc.hyps(1))
    show "x = n - Suc n0" using Suc.hyps(2) by linarith
    show "k' = 0 \<or> k' = 1 OR doubleHash h" using k' by blast
    show "unat i' = probe m h (Suc n0)" by (rule i')
    show "\<not> stops slots h (probe m h j)" if "Suc n0 \<le> j" "j < n" for j
      using Suc.prems(3) [of j] that by linarith
    show "Suc n0 \<le> n" using \<open>n0 < n\<close> by linarith
    show "stops slots h (probe m h n)" by (rule Suc.prems(5))
  qed
  moreover have "unat i < length slots" unfolding Suc.prems(2) assms(1) by (rule probe_less)
  ultimately show ?case using findSlot_loop_step [OF _ no k'_def] unfolding i'_def by simp
qed

lemma findSlot_first:
  assumes "length slots = 2 ^ m" and "m < 32"
    and "\<And>j. j < n \<Longrightarrow> \<not> stops slots h (probe m h j)" and "stops slots h (probe m h n)"
  shows "findSlot (Some slots) h = Some (Some (probe m h n))"
proof -
  have start: "unat (h AND (of_nat (2 ^ m) - 1)) = probe m h 0"
    unfolding and_size_mask [OF assms(2)] probe_def by simp
  have "findSlot_loop slots (of_nat (2 ^ m) - 1) h 0 (h AND (of_nat (2 ^ m) - 1)) = Some (probe m h n)"
    by (rule findSlot_loop_finds [OF assms(1,2) _ start _ _ assms(4)]) (use assms(3) in auto)
  then show ?thesis by (simp add: findSlot_def m_tableSizeMask_def assms(1))
qed

lemma findSlot_exists:
  assumes "length slots = 2 ^ m" and "m < 32" and "stops slots h z" and "z < 2 ^ m"
  obtains n where "\<And>j. j < n \<Longrightarrow> \<not> stops slots h (probe m h j)" and "stops slots h (probe m h n)"
    and "findSlot (Some slots) h = Some (Some (probe m h n))"
proof -
  obtain n0 where "probe m h n0 = z"
    using odd_stride_covers [OF odd_probe_step assms(4), of "unat h" h] by (auto simp: probe_def)
  then have ex: "stops slots h (probe m h n0)" using assms(3) by simp
  define n where "n = (LEAST n. stops slots h (probe m h n))"
  have "stops slots h (probe m h n)" unfolding n_def using ex by (rule LeastI)
  moreover have "\<And>j. j < n \<Longrightarrow> \<not> stops slots h (probe m h j)" unfolding n_def by (rule not_less_Least)
  ultimately show ?thesis using that findSlot_first [OF assms(1,2)] by blast
qed

text \<open>
  Claim C27. The search for a slot ends: in a table whose size is a power of two and that has an
  empty slot, findSlot returns a slot of the table which is empty or holds the hash, whatever the
  hash, because the odd step of the probe visits every slot.
\<close>

theorem findSlot_returns:
  assumes "length slots = 2 ^ m" and "m < 32" and "0 \<in> set slots"
  shows "\<exists>i < length slots. findSlot (Some slots) h = Some (Some i) \<and> (slots ! i = 0 \<or> slots ! i = h)"
proof -
  obtain z where z: "z < length slots" "slots ! z = 0" using assms(3) by (auto simp: in_set_conv_nth)
  obtain n where "stops slots h (probe m h n)" "findSlot (Some slots) h = Some (Some (probe m h n))"
    using z assms by (auto simp: stops_def intro: findSlot_exists [OF assms(1,2), of h z])
  moreover have "probe m h n < length slots" by (simp add: probe_def assms(1))
  ultimately show ?thesis by (auto simp: stops_def)
qed

theorem findSlot_returns_witness:
  "\<exists>i < length [4, 7, 0, 8 :: u32]. findSlot (Some [4, 7, 0, 8]) 12 = Some (Some i) \<and> ([4, 7, 0, 8 :: u32] ! i = 0 \<or> [4, 7, 0, 8 :: u32] ! i = 12)"
  using findSlot_returns [of "[4, 7, 0, 8]" 2 12] by simp

subsection \<open>The table as a set\<close>

text \<open>Every stored hash is found where it is: no empty slot lies on the way to it.\<close>

definition reachable_keys :: "u32 list \<Rightarrow> bool" where
  "reachable_keys slots \<longleftrightarrow>
     (\<forall>j < length slots. slots ! j \<noteq> 0 \<longrightarrow> findSlot (Some slots) (slots ! j) = Some (Some j))"

definition keys :: "u32 list \<Rightarrow> u32 set" where
  "keys slots = set slots - {0}"

definition occupied :: "u32 list \<Rightarrow> nat" where
  "occupied slots = length (filter (\<lambda>h. h \<noteq> 0) slots)"

lemma occupied_update:
  "i < length slots \<Longrightarrow> occupied (slots[i := h]) + (if slots ! i \<noteq> 0 then 1 else 0) =
     occupied slots + (if h \<noteq> 0 then 1 else 0)"
  unfolding occupied_def by (subst (2) id_take_nth_drop [of i]) (auto simp: upd_conv_take_nth_drop)

lemma empty_slot: "occupied slots < length slots \<Longrightarrow> 0 \<in> set slots"
  unfolding occupied_def by (metis (mono_tags, lifting) filter_True less_irrefl)

lemma findSlot_path:
  assumes "length slots = 2 ^ m" and "m < 32" and "findSlot (Some slots) h = Some (Some i)"
    and "stops slots h z" and "z < 2 ^ m"
  obtains n where "i = probe m h n" and "\<And>j. j < n \<Longrightarrow> \<not> stops slots h (probe m h j)"
    and "stops slots h i"
  using findSlot_exists [OF assms(1,2,4,5)] assms(3) by (metis option.inject)

text \<open>Filling an empty slot where the search for its hash ended keeps every stored hash reachable.\<close>

lemma reachable_add:
  assumes "length slots = 2 ^ m" and "m < 32" and "reachable_keys slots"
    and "findSlot (Some slots) h = Some (Some i)" and "i < 2 ^ m" and "slots ! i = 0" and "h \<noteq> 0"
  shows "reachable_keys (slots[i := h])"
  unfolding reachable_keys_def
proof (intro allI impI)
  fix j assume j: "j < length (slots[i := h])" and nz: "slots[i := h] ! j \<noteq> 0"
  let ?s = "slots[i := h]"
  have len: "length ?s = 2 ^ m" using assms(1) by simp
  show "findSlot (Some ?s) (?s ! j) = Some (Some j)"
  proof (cases "j = i")
    case True
    then have key: "?s ! j = h" using j by simp
    obtain n where n: "i = probe m h n" "\<And>j. j < n \<Longrightarrow> \<not> stops slots h (probe m h j)"
      using findSlot_path [OF assms(1,2,4), of i] assms(5,6) by (auto simp: stops_def)
    have away: "probe m h j' \<noteq> i" if "j' < n" for j'
      using n(2) [OF that] assms(6) by (auto simp: stops_def)
    have "findSlot (Some ?s) h = Some (Some (probe m h n))"
    proof (rule findSlot_first [OF len assms(2)])
      show "\<not> stops ?s h (probe m h j')" if "j' < n" for j'
        using n(2) [OF that] away [OF that] by (simp add: stops_def)
      show "stops ?s h (probe m h n)" using n(1) assms(1,5) by (simp add: stops_def)
    qed
    then show ?thesis using key n(1) True by simp
  next
    case False
    define x where "x = slots ! j"
    have x: "?s ! j = x" "x \<noteq> 0" using False nz by (auto simp: x_def)
    have "findSlot (Some slots) x = Some (Some j)"
      using assms(3) j x(2) by (simp add: reachable_keys_def x_def)
    then obtain n where n: "j = probe m x n" "\<And>j'. j' < n \<Longrightarrow> \<not> stops slots x (probe m x j')"
      using findSlot_path [OF assms(1,2), of x j j] j assms(1) by (auto simp: stops_def x_def)
    have away: "probe m x j' \<noteq> i" if "j' < n" for j'
      using n(2) [OF that] assms(6) by (auto simp: stops_def)
    have "findSlot (Some ?s) x = Some (Some (probe m x n))"
    proof (rule findSlot_first [OF len assms(2)])
      show "\<not> stops ?s x (probe m x j')" if "j' < n" for j'
        using n(2) [OF that] away [OF that] by (simp add: stops_def)
      show "stops ?s x (probe m x n)" using n(1) x by (simp add: stops_def)
    qed
    then show ?thesis using x n(1) by simp
  qed
qed

lemma hash_add_result:
  assumes "length slots = 2 ^ m" and "m < 32" and "0 \<in> set slots"
  obtains i where "i < 2 ^ m" and "findSlot (Some slots) h = Some (Some i)" and "slots ! i = 0"
    and "hash_add (Some slots) h = Some (True, Some (slots[i := h]))"
  | i where "i < 2 ^ m" and "findSlot (Some slots) h = Some (Some i)" and "slots ! i = h" and "h \<noteq> 0"
    and "hash_add (Some slots) h = Some (False, Some slots)"
proof -
  obtain z where z: "z < 2 ^ m" "slots ! z = 0" using assms by (auto simp: in_set_conv_nth)
  obtain n where "stops slots h (probe m h n)" and f: "findSlot (Some slots) h = Some (Some (probe m h n))"
    using z by (auto simp: stops_def intro: findSlot_exists [OF assms(1,2), of h z])
  then show ?thesis
    using that [of "probe m h n"] probe_less [of m h n]
    by (cases "slots ! probe m h n = 0") (auto simp: hash_add_def stops_def)
qed

lemma table_contains_keys:
  assumes "length slots = 2 ^ m" and "m < 32" and "0 \<in> set slots" and "reachable_keys slots" and "h \<noteq> 0"
  shows "table_contains (Some slots) h = Some (h \<in> keys slots)"
proof (cases "h \<in> set slots")
  case True
  then obtain j where "j < length slots" "slots ! j = h" by (auto simp: in_set_conv_nth)
  then have "findSlot (Some slots) h = Some (Some j)"
    using assms(4,5) unfolding reachable_keys_def by blast
  then show ?thesis
    using assms(5) True \<open>slots ! j = h\<close> by (simp add: table_contains_def keys_def)
next
  case False
  from assms(1-3) show ?thesis
  proof (cases rule: hash_add_result [where h = h])
    case (1 i)
    then show ?thesis using False by (simp add: table_contains_def keys_def)
  next
    case (2 i)
    then show ?thesis using False assms(1) by (metis nth_mem)
  qed
qed

lemma hash_table_is_set':
  assumes "length slots = 2 ^ m" and "m < 32" and "0 \<in> set slots" and "reachable_keys slots" and "h \<noteq> 0"
  shows "\<exists>slots'. hash_add (Some slots) h = Some (h \<notin> keys slots, Some slots') \<and>
    length slots' = length slots \<and> keys slots' = insert h (keys slots) \<and> reachable_keys slots' \<and>
    table_contains (Some slots) x = Some (x \<in> keys slots)"
proof -
  have contains: "table_contains (Some slots) x = Some (x \<in> keys slots)"
  proof (cases "x = 0")
    case True
    obtain i where "findSlot (Some slots) 0 = Some (Some i)" "slots ! i = 0"
      using assms(1-3) by (cases rule: hash_add_result [where h = 0]) auto
    then show ?thesis using True by (simp add: table_contains_def keys_def)
  next
    case False
    then show ?thesis using table_contains_keys [OF assms(1-4)] by blast
  qed
  from assms(1-3) show ?thesis
  proof (cases rule: hash_add_result [where h = h])
    case (1 i)
    have "h \<notin> set slots"
      using table_contains_keys [OF assms] 1 assms(5) by (simp add: table_contains_def keys_def)
    moreover have "keys (slots[i := h]) = insert h (keys slots)"
    proof -
      have "set (slots[i := h]) \<subseteq> insert h (set slots)" by (rule set_update_subset_insert)
      moreover have "h \<in> set (slots[i := h])" using 1(1) assms(1) by (simp add: set_update_memI)
      moreover have "y \<in> set (slots[i := h])" if y: "y \<in> set slots" "y \<noteq> 0" for y
      proof -
        obtain j where "j < length slots" "slots ! j = y" using y(1) by (auto simp: in_set_conv_nth)
        then show ?thesis using y(2) 1(3) by (metis length_list_update nth_list_update_neq nth_mem)
      qed
      ultimately show ?thesis using assms(5) by (auto simp: keys_def)
    qed
    moreover have "reachable_keys (slots[i := h])"
      by (rule reachable_add [OF assms(1,2,4) 1(2,1,3) assms(5)])
    ultimately show ?thesis using 1(4) contains by (auto simp: keys_def)
  next
    case (2 i)
    then have "h \<in> keys slots" using assms(1) by (auto simp: keys_def)
    then show ?thesis using 2 assms(4) contains by auto
  qed
qed

text \<open>
  The table implements a set under additions: with every stored hash reachable and an
  empty slot, adding a hash returns whether it was new, the stored hashes are the old ones with it,
  all of them are reachable, and contains answers membership.
\<close>

theorem hash_table_is_set:
  assumes "length slots = 2 ^ m" and "m < 32" and "0 \<in> set slots" and "reachable_keys slots" and "h \<noteq> 0"
  shows "\<exists>slots'. hash_add (Some slots) h = Some (h \<notin> keys slots, Some slots') \<and>
    length slots' = length slots \<and> keys slots' = insert h (keys slots) \<and> reachable_keys slots' \<and>
    table_contains (Some slots) x = Some (x \<in> keys slots)"
  by (rule hash_table_is_set' [OF assms])

theorem hash_table_is_set_witness:
  "\<exists>slots'. hash_add (Some [0, 0, 0, 0]) 5 = Some (True, Some slots') \<and> keys slots' = {5}"
proof -
  have "reachable_keys [0, 0, 0, 0]" by (auto simp: reachable_keys_def less_Suc_eq)
  moreover have "keys [0, 0, 0, 0] = {}" by (simp add: keys_def)
  ultimately show ?thesis
    using hash_table_is_set [of "[0, 0, 0, 0]" 2 5 7] by auto
qed

lemma doubleHash_8: "1 OR doubleHash 8 = 177481"
  by (simp add: doubleHash_def)

text \<open>
  Claim C36. Removing a hash can lose others: in a table of four slots the hashes 4 and 8 both start
  at slot 0, so with both added 8 is in slot 1. Removing 4 empties slot 0, and the table answers that
  it does not contain 8, which is still stored, and accepts 8 a second time.
\<close>

theorem hash_remove_loses_others:
  "hash_add (Some [0, 0, 0, 0]) 4 = Some (True, Some [4, 0, 0, 0]) \<and>
   hash_add (Some [4, 0, 0, 0]) 8 = Some (True, Some [4, 8, 0, 0]) \<and>
   table_contains (Some [4, 8, 0, 0]) 8 = Some True \<and>
   hash_remove (Some [4, 8, 0, 0]) 4 = Some (True, Some [0, 8, 0, 0]) \<and>
   table_contains (Some [0, 8, 0, 0]) 8 = Some False \<and>
   hash_add (Some [0, 8, 0, 0]) 8 = Some (True, Some [8, 8, 0, 0])"
proof -
  have f1: "findSlot (Some [0, 0, 0, 0]) 4 = Some (Some 0)"
    and f3: "findSlot (Some [4, 8, 0, 0]) 4 = Some (Some 0)"
    and f4: "findSlot (Some [0, 8, 0, 0]) 8 = Some (Some 0)"
    by (simp_all add: findSlot_def m_tableSizeMask_def findSlot_loop.simps)
  have f2: "findSlot (Some [4, 0, 0, 0]) 8 = Some (Some 1)"
    and f5: "findSlot (Some [4, 8, 0, 0]) 8 = Some (Some 1)"
    by (simp_all add: findSlot_def m_tableSizeMask_def findSlot_loop.simps [of _ _ _ 0]
        findSlot_loop.simps [of _ _ _ 177481] doubleHash_8)
  show ?thesis
    by (simp add: hash_add_def hash_remove_def table_contains_def f1 f2 f3 f4 f5)
qed

subsection \<open>The size of the table\<close>

lemma smear_step:
  assumes "\<And>n. bit (a :: u32) n \<longleftrightarrow> (\<exists>j < k. bit w (n + j))"
  shows "bit (a OR drop_bit k a) n \<longleftrightarrow> (\<exists>j < k + k. bit (w :: u32) (n + j))"
proof
  assume "bit (a OR drop_bit k a) n"
  then have "bit a n \<or> bit a (k + n)" by (simp add: bit_or_iff bit_drop_bit_eq)
  then obtain j where "j < k" "bit w (n + j) \<or> bit w (k + n + j)" using assms by blast
  then show "\<exists>j < k + k. bit w (n + j)"
    by (elim disjE) (auto intro: exI [of _ j] exI [of _ "k + j"] simp: ac_simps)
next
  assume "\<exists>j < k + k. bit w (n + j)"
  then obtain j where j: "j < k + k" "bit w (n + j)" by blast
  have "bit a n \<or> bit a (k + n)"
  proof (cases "j < k")
    case True
    then show ?thesis using j assms by blast
  next
    case False
    then have "j - k < k" "bit w (k + n + (j - k))" using j by (auto simp: ac_simps)
    then show ?thesis using assms by blast
  qed
  then show "bit (a OR drop_bit k a) n" by (simp add: bit_or_iff bit_drop_bit_eq)
qed

definition smear :: "u32 \<Rightarrow> u32" where
  "smear v = (let v = v OR drop_bit 1 v; v = v OR drop_bit 2 v; v = v OR drop_bit 4 v;
     v = v OR drop_bit 8 v in v OR drop_bit 16 v)"

lemma bit_smear: "bit (smear w) n \<longleftrightarrow> (\<exists>j < 32. bit w (n + j))"
proof -
  define a where "a = w OR drop_bit 1 w"
  define b where "b = a OR drop_bit 2 a"
  define c where "c = b OR drop_bit 4 b"
  define d where "d = c OR drop_bit 8 c"
  have "bit a n \<longleftrightarrow> (\<exists>j < 1 + 1. bit w (n + j))" for n unfolding a_def by (rule smear_step) simp
  then have a: "bit a n \<longleftrightarrow> (\<exists>j < 2. bit w (n + j))" for n by (simp only: one_add_one)
  have "bit b n \<longleftrightarrow> (\<exists>j < 2 + 2. bit w (n + j))" for n unfolding b_def by (rule smear_step) (rule a)
  then have b: "bit b n \<longleftrightarrow> (\<exists>j < 4. bit w (n + j))" for n by simp
  have "bit c n \<longleftrightarrow> (\<exists>j < 4 + 4. bit w (n + j))" for n unfolding c_def by (rule smear_step) (rule b)
  then have c: "bit c n \<longleftrightarrow> (\<exists>j < 8. bit w (n + j))" for n by simp
  have "bit d n \<longleftrightarrow> (\<exists>j < 8 + 8. bit w (n + j))" for n unfolding d_def by (rule smear_step) (rule c)
  then have d: "bit d n \<longleftrightarrow> (\<exists>j < 16. bit w (n + j))" for n by simp
  have "bit (d OR drop_bit 16 d) n \<longleftrightarrow> (\<exists>j < 16 + 16. bit w (n + j))" by (rule smear_step) (rule d)
  moreover have "smear w = d OR drop_bit 16 d"
    unfolding smear_def a_def b_def c_def d_def Let_def ..
  ultimately show ?thesis by simp
qed

lemma smear_mask:
  assumes "w \<noteq> 0"
  obtains t where "t < 32" and "smear w = mask (Suc t)" and "2 ^ t \<le> unat w" and "unat w < 2 ^ Suc t"
proof -
  have "\<exists>n. bit w n"
  proof (rule ccontr)
    assume "\<not> (\<exists>n. bit w n)"
    then have "w = 0" by (intro bit_word_eqI) simp
    with assms show False by simp
  qed
  moreover have bound: "n < 32" if "bit w n" for n using bit_imp_le_length [OF that] by simp
  ultimately have fin: "finite {n. bit w n}" "{n. bit w n} \<noteq> {}"
    by (auto intro: finite_subset [of _ "{..<32}"])
  define t where "t = Max {n. bit w n}"
  have t: "bit w t" "\<And>n. bit w n \<Longrightarrow> n \<le> t"
    using Max_in [OF fin] Max_ge [OF fin(1)] by (auto simp: t_def)
  have t32: "t < 32" by (rule bound [OF t(1)])
  have "smear w = mask (Suc t)"
  proof (rule bit_word_eqI)
    fix n assume "n < LENGTH(32)"
    have "(\<exists>j < 32. bit w (n + j)) \<longleftrightarrow> n \<le> t"
    proof
      assume "n \<le> t"
      then show "\<exists>j < 32. bit w (n + j)" using t(1) t32 by (intro exI [of _ "t - n"]) auto
    qed (use t(2) in \<open>force\<close>)
    then show "bit (smear w) n = bit (mask (Suc t) :: u32) n"
      using t32 by (auto simp: bit_smear bit_mask_iff)
  qed
  moreover have "2 ^ t \<le> unat w"
  proof -
    have "bit (unat w) t" using t(1) unfolding bit_unsigned_iff by simp
    then have "odd (unat w div 2 ^ t)" unfolding bit_iff_odd .
    then have "unat w div 2 ^ t \<noteq> 0" by (rule contrapos_nn) (simp only: even_zero)
    then show ?thesis by (simp only: div_eq_0_iff not_less) simp
  qed
  moreover have "unat w < 2 ^ Suc t"
  proof -
    have "take_bit (Suc t) w = w"
      using t(2) by (intro bit_word_eqI) (auto simp: bit_take_bit_iff less_Suc_eq_le)
    then have "unat w = take_bit (Suc t) (unat w)" using unsigned_take_bit_eq [of "Suc t" w] by (simp only:)
    then show ?thesis using take_bit_nat_less_exp [of "Suc t" "unat w"] by (simp only:)
  qed
  ultimately show ?thesis using that t32 by blast
qed

lemma unat_pow2:
  assumes "p < 32" shows "unat (2 ^ p :: u32) = 2 ^ p"
proof -
  have "(2 :: nat) ^ p < 2 ^ 32" using assms by (intro power_strict_increasing) simp_all
  moreover have "(2 ^ p :: u32) = of_nat (2 ^ p)" by simp
  ultimately show ?thesis using unat_of_nat [of "2 ^ p", where ?'a = 32] by simp
qed

lemma nextPowerOf2_smear: "nextPowerOf2 v = smear (v - 1) + 1"
  by (simp add: nextPowerOf2_def smear_def Let_def)

lemma nextPowerOf2_result:
  assumes "0 < unat v" and "unat v \<le> 2 ^ 31"
  obtains m where "m < 32" and "unat (nextPowerOf2 v) = 2 ^ m" and "unat v \<le> 2 ^ m" and "2 ^ m < 2 * unat v"
proof (cases "v = 1")
  case True
  then show ?thesis using that [of 0] by (simp add: nextPowerOf2_smear smear_def)
next
  case False
  have "1 \<le> v" using assms(1) unfolding word_le_nat_alt by simp
  then have w: "unat (v - 1) = unat v - 1" using unat_sub [of 1 v] by simp
  have "unat v \<noteq> 1" using False unfolding word_unat_eq_iff by simp
  then have "unat (v - 1) \<noteq> 0" using w assms(1) by linarith
  then have "v - 1 \<noteq> 0" by (intro notI) (simp only: unat_0 simp_thms)
  then obtain t where t: "t < 32" "smear (v - 1) = mask (Suc t)" "2 ^ t \<le> unat (v - 1)" "unat (v - 1) < 2 ^ Suc t"
    by (rule smear_mask)
  have "(2 :: nat) ^ t < 2 ^ 31" using t(3) w assms by linarith
  then have t31: "t < 31" by (rule power_less_imp_less_exp [rotated]) simp
  have "nextPowerOf2 v = 2 ^ Suc t" using t(2) by (simp add: nextPowerOf2_smear mask_eq_exp_minus_1)
  then have "unat (nextPowerOf2 v) = 2 ^ Suc t" using t31 unat_pow2 [of "Suc t"] by (simp only:)
  moreover have "unat v \<le> 2 ^ Suc t" using t(4) w by linarith
  moreover have "2 ^ Suc t < 2 * unat v" using t(3) w assms(1) by simp
  ultimately show ?thesis using that [of "Suc t"] t31 by simp
qed

lemma tableSize_bounds':
  assumes "unat keyCount \<le> 2 ^ 30" and "systemPageSize = 2 ^ p" and "2 \<le> p" and "p < 32"
  shows "\<exists>m < 32. unat (tableSizeForKeyCount systemPageSize keyCount) = 2 ^ m \<and>
    2 * unat keyCount \<le> 2 ^ m \<and> 2 ^ (p - 2) \<le> (2 :: nat) ^ m \<and>
    2 ^ m \<le> max (2 ^ (p - 2)) (4 * unat keyCount)"
proof -
  have page: "unat (systemPageSize div 4) = 2 ^ (p - 2)"
  proof -
    have "unat (systemPageSize div 4) = 2 ^ p div 4" using assms(2,4) by (simp add: unat_div unat_pow2)
    also have "\<dots> = 2 ^ (p - 2)" using power_diff [of "2 :: nat" 2 p] assms(3) by simp
    finally show ?thesis .
  qed
  have double: "unat (keyCount * 2) = 2 * unat keyCount"
    using assms(1) by (simp add: unat_word_ariths)
  show ?thesis
  proof (cases "unat keyCount = 0")
    case True
    then have "keyCount = 0" by (simp add: unat_eq_0)
    then have zero: "nextPowerOf2 (keyCount * 2) = 0"
      by (simp add: nextPowerOf2_smear smear_def)
    have "tableSizeForKeyCount systemPageSize keyCount = systemPageSize div 4"
      using page unfolding tableSizeForKeyCount_def sharedStringHashTableMaxLoad_def zero
      by (simp add: word_less_nat_alt)
    then show ?thesis using page True assms(4) by (intro exI [of _ "p - 2"]) simp
  next
    case False
    then obtain m where m: "m < 32" "unat (nextPowerOf2 (keyCount * 2)) = 2 ^ m"
      "2 * unat keyCount \<le> 2 ^ m" "2 ^ m < 4 * unat keyCount"
      using nextPowerOf2_result [of "keyCount * 2"] double assms(1) by auto
    show ?thesis
    proof (cases "nextPowerOf2 (keyCount * 2) < systemPageSize div 4")
      case True
      then have "(2 :: nat) ^ m < 2 ^ (p - 2)" using m(2) page by (simp add: word_less_nat_alt)
      then have "2 * unat keyCount \<le> 2 ^ (p - 2)" using m(3) by linarith
      then show ?thesis
        using True page assms(4)
        by (intro exI [of _ "p - 2"]) (simp add: tableSizeForKeyCount_def sharedStringHashTableMaxLoad_def)
    next
      case False
      then have "(2 :: nat) ^ (p - 2) \<le> 2 ^ m" using m(2) page by (simp add: word_less_nat_alt)
      then show ?thesis
        using False m
        by (intro exI [of _ m]) (simp add: tableSizeForKeyCount_def sharedStringHashTableMaxLoad_def)
    qed
  qed
qed

text \<open>
  The table is at least half empty: for up to 2^30 keys and a page size that is a power of
  two, tableSizeForKeyCount is a power of two, at least twice the number of keys and at least a page,
  and no larger than a page or four times the number of keys.
\<close>

theorem tableSize_bounds:
  assumes "unat keyCount \<le> 2 ^ 30" and "systemPageSize = 2 ^ p" and "2 \<le> p" and "p < 32"
  shows "\<exists>m < 32. unat (tableSizeForKeyCount systemPageSize keyCount) = 2 ^ m \<and>
    2 * unat keyCount \<le> 2 ^ m \<and> 2 ^ (p - 2) \<le> (2 :: nat) ^ m \<and>
    2 ^ m \<le> max (2 ^ (p - 2)) (4 * unat keyCount)"
  by (rule tableSize_bounds' [OF assms])

theorem tableSize_bounds_witness:
  "\<exists>m < 32. unat (tableSizeForKeyCount 4096 3000) = 2 ^ m \<and> 6000 \<le> (2 :: nat) ^ m"
proof -
  have "(4096 :: u32) = 2 ^ 12" by simp
  from tableSize_bounds [of 3000, OF _ this] show ?thesis by auto
qed

subsection \<open>The store\<close>

definition table_wf :: "nat \<Rightarrow> u32 \<Rightarrow> u32 list \<Rightarrow> bool" where
  "table_wf m keyCount slots \<longleftrightarrow> m < 32 \<and> length slots = 2 ^ m \<and> occupied slots \<le> unat keyCount"

definition store_wf :: "hash_store \<Rightarrow> bool" where
  "store_wf st \<longleftrightarrow> (case st_table st of
      None \<Rightarrow> st_tableSize st = 0 \<and> st_keyCount st = 0
    | Some slots \<Rightarrow> \<exists>m. table_wf m (st_keyCount st) slots \<and> unat (st_tableSize st) = 2 ^ m \<and>
        2 * unat (st_keyCount st) \<le> 2 ^ m)"

definition additions :: "operation list \<Rightarrow> nat" where
  "additions ops = length (filter isAdd ops)"

lemma additions_simps [simp]:
  "additions [] = 0" "additions (Op_Add h # ops) = Suc (additions ops)"
  "additions (Op_Remove h # ops) = additions ops"
  by (simp_all add: additions_def isAdd_def)

lemma half_empty:
  assumes "table_wf m keyCount slots" and "2 * unat keyCount \<le> 2 ^ m"
  shows "0 \<in> set slots"
proof -
  have "(0 :: nat) < 2 ^ m" by simp
  then have "occupied slots < 2 ^ m" using assms unfolding table_wf_def by linarith
  then show ?thesis using assms(1) by (intro empty_slot) (simp add: table_wf_def)
qed

lemma unat_Suc_u32: "unat (k :: u32) < 2 ^ 31 \<Longrightarrow> unat (k + 1) = Suc (unat k)"
  by (simp add: unat_word_ariths)

lemma unat_pred_u32:
  assumes "0 < unat (k :: u32)" shows "unat (k - 1) = unat k - 1"
proof -
  have "1 \<le> k" using assms unfolding word_le_nat_alt by simp
  then show ?thesis using unat_sub [of 1 k] by simp
qed

lemma hash_add_wf:
  assumes "table_wf m k slots" and "2 * (unat k + 1) \<le> 2 ^ m"
  obtains (new) slots' where "hash_add (Some slots) h = Some (True, Some slots')" "table_wf m (k + 1) slots'"
    "unat (k + 1) = Suc (unat k)" "occupied slots' \<le> Suc (occupied slots)" "length slots' = length slots"
    "reachable_keys slots \<Longrightarrow> h \<noteq> 0 \<Longrightarrow> reachable_keys slots' \<and> keys slots' = insert h (keys slots)"
  | (old) "hash_add (Some slots) h = Some (False, Some slots)"
    "reachable_keys slots \<Longrightarrow> h \<noteq> 0 \<Longrightarrow> h \<in> keys slots"
proof -
  have m: "m < 32" "length slots = 2 ^ m" "occupied slots \<le> unat k" using assms(1) by (simp_all add: table_wf_def)
  have half: "2 * unat k + 2 \<le> 2 ^ m" using assms(2) by (simp only: distrib_left mult_1_right)
  then have zero: "0 \<in> set slots" by (intro half_empty [OF assms(1)]) simp
  have "(2 :: nat) ^ m \<le> 2 ^ 31" using m(1) by (intro power_increasing) simp_all
  then have "unat k < 2 ^ 31" using half by simp
  then have Suc: "unat (k + 1) = Suc (unat k)" by (rule unat_Suc_u32)
  from m(2,1) zero show ?thesis
  proof (cases rule: hash_add_result [where h = h])
    case (1 i)
    have occ: "occupied (slots[i := h]) \<le> Suc (occupied slots)"
      using occupied_update [of i slots h] 1(1) m(2) by (simp split: if_splits)
    have set: "reachable_keys (slots[i := h]) \<and> keys (slots[i := h]) = insert h (keys slots)"
      if "reachable_keys slots" "h \<noteq> 0"
      using hash_table_is_set' [OF m(2,1) zero that] 1(4) by auto
    show ?thesis
      by (rule new [OF 1(4)]) (use occ m Suc set in \<open>auto simp: table_wf_def\<close>)
  next
    case (2 i)
    have "h \<in> keys slots" using 2 m by (auto simp: keys_def)
    then show ?thesis using old [OF 2(5)] by blast
  qed
qed

lemma hash_remove_wf:
  assumes "table_wf m k slots" and "2 * unat k \<le> 2 ^ m"
  obtains (removed) slots' where "hash_remove (Some slots) h = Some (True, Some slots')"
    "table_wf m (k - 1) slots'" "unat (k - 1) < unat k"
  | (absent) "hash_remove (Some slots) h = Some (False, Some slots)"
proof -
  have m: "m < 32" "length slots = 2 ^ m" "occupied slots \<le> unat k" using assms(1) by (simp_all add: table_wf_def)
  have zero: "0 \<in> set slots" by (rule half_empty [OF assms])
  obtain i where i: "i < 2 ^ m" "findSlot (Some slots) h = Some (Some i)"
    using m(2,1) zero by (cases rule: hash_add_result [where h = h]) auto
  show ?thesis
  proof (cases "slots ! i = 0")
    case True
    then show ?thesis using absent i(2) by (simp add: hash_remove_def)
  next
    case False
    then have occ: "occupied (slots[i := 0]) + 1 = occupied slots"
      using occupied_update [of i slots 0] i(1) m(2) by simp
    then have pos: "0 < unat k" using m(3) by linarith
    note pred = unat_pred_u32 [OF pos]
    have "hash_remove (Some slots) h = Some (True, Some (slots[i := 0]))"
      using False i(2) by (simp add: hash_remove_def)
    then show ?thesis
    proof (rule removed)
      show "table_wf m (k - 1) (slots[i := 0])" unfolding table_wf_def pred using m occ by simp
      show "unat (k - 1) < unat k" unfolding pred using pos by simp
    qed
  qed
qed

lemma applyOperations_wf:
  assumes "table_wf m k slots" and "2 * (unat k + additions ops) \<le> 2 ^ m"
  shows "\<exists>slots' k' a r. applyOperations ops (Some slots) k added gone = Some (Some slots', k', a, r) \<and>
    table_wf m k' slots' \<and> 2 * unat k' \<le> 2 ^ m \<and>
    (reachable_keys slots \<and> list_all isAdd ops \<and> Op_Add 0 \<notin> set ops \<longrightarrow>
      reachable_keys slots' \<and> keys slots' = keys slots \<union> {h. Op_Add h \<in> set ops})"
  using assms
proof (induction ops arbitrary: slots k added gone)
  case Nil
  then show ?case by simp
next
  case (Cons op ops)
  show ?case
  proof (cases op)
    case (Op_Add h)
    have room: "2 * (unat k + 1) \<le> 2 ^ m" using Cons.prems(2) Op_Add by simp
    from Cons.prems(1) room show ?thesis
    proof (cases rule: hash_add_wf [where h = h])
      case (new slots')
      have "2 * (unat (k + 1) + additions ops) \<le> 2 ^ m" using Cons.prems(2) Op_Add new(3) by simp
      from Cons.IH [OF new(2) this, of "added @ [h]" gone] show ?thesis
        using new(1,6) Op_Add by (auto simp: isAdd_def)
    next
      case old
      have "2 * (unat k + additions ops) \<le> 2 ^ m" using Cons.prems(2) Op_Add by simp
      from Cons.IH [OF Cons.prems(1) this, of added gone] show ?thesis
        using old Op_Add by (auto simp: isAdd_def)
    qed
  next
    case (Op_Remove h)
    have "2 * unat k \<le> 2 ^ m" using Cons.prems(2) by simp
    from Cons.prems(1) this show ?thesis
    proof (cases rule: hash_remove_wf [where h = h])
      case (removed slots')
      have "2 * (unat (k - 1) + additions ops) \<le> 2 ^ m" using Cons.prems(2) Op_Remove removed(3) by simp
      from Cons.IH [OF removed(2) this, of added "gone @ [h]"] show ?thesis
        using removed(1) Op_Remove by (auto simp: isAdd_def)
    next
      case absent
      have "2 * (unat k + additions ops) \<le> 2 ^ m" using Cons.prems(2) Op_Remove by simp
      from Cons.IH [OF Cons.prems(1) this, of added gone] show ?thesis
        using absent Op_Remove by (auto simp: isAdd_def)
    qed
  qed
qed

lemma rehash_wf:
  assumes "m < 32" and "length slots = 2 ^ m" and "2 * (occupied slots + occupied hs) \<le> 2 ^ m"
  shows "\<exists>slots'. rehash hs (Some slots) = Some (Some slots') \<and> length slots' = 2 ^ m \<and>
    occupied slots' \<le> occupied slots + occupied hs \<and>
    (reachable_keys slots \<longrightarrow> reachable_keys slots' \<and> keys slots' = keys slots \<union> keys hs)"
  using assms(2,3)
proof (induction hs arbitrary: slots)
  case Nil
  then show ?case by (simp add: occupied_def keys_def)
next
  case (Cons h hs)
  show ?case
  proof (cases "h = 0")
    case True
    have "2 * (occupied slots + occupied hs) \<le> 2 ^ m" using Cons.prems(2) True by (simp add: occupied_def)
    from Cons.IH [OF Cons.prems(1) this] show ?thesis
      using True by (auto simp: occupied_def keys_def)
  next
    case False
    have Suc: "occupied (h # hs) = Suc (occupied hs)" using False by (simp add: occupied_def)
    have pow: "(2 :: nat) ^ m \<le> 2 ^ 31" using assms(1) by (intro power_increasing) simp_all
    define k where "k = (of_nat (occupied slots) :: u32)"
    have "occupied slots < 2 ^ 32" using Cons.prems(2) pow by simp
    then have k: "unat k = occupied slots" by (simp add: k_def unat_of_nat)
    have wf: "table_wf m k slots" using assms(1) Cons.prems(1) k by (simp add: table_wf_def)
    have room: "2 * (unat k + 1) \<le> 2 ^ m" using Cons.prems(2) k Suc by simp
    from wf room show ?thesis
    proof (cases rule: hash_add_wf [where h = h])
      case (new slots')
      have "2 * (occupied slots' + occupied hs) \<le> 2 ^ m" using Cons.prems(2) new(4) Suc by simp
      from Cons.IH [OF _ this] obtain s where s: "rehash hs (Some slots') = Some (Some s)"
        "length s = 2 ^ m" "occupied s \<le> occupied slots' + occupied hs"
        "reachable_keys slots' \<longrightarrow> reachable_keys s \<and> keys s = keys slots' \<union> keys hs"
        using new(5) Cons.prems(1) by auto
      have "keys (h # hs) = insert h (keys hs)" using False by (auto simp: keys_def)
      then show ?thesis
        using False new(1,4,6) s Suc by (intro exI [of _ s]) auto
    next
      case old
      have "2 * (occupied slots + occupied hs) \<le> 2 ^ m" using Cons.prems(2) Suc by simp
      from Cons.IH [OF Cons.prems(1) this] obtain s where s: "rehash hs (Some slots) = Some (Some s)"
        "length s = 2 ^ m" "occupied s \<le> occupied slots + occupied hs"
        "reachable_keys slots \<longrightarrow> reachable_keys s \<and> keys s = keys slots \<union> keys hs"
        by auto
      have "keys (h # hs) = insert h (keys hs)" using False by (auto simp: keys_def)
      then show ?thesis
        using False old s Suc by (intro exI [of _ s]) auto
    qed
  qed
qed

lemma pending_count:
  assumes "unat k + additions ops \<le> 2 ^ 30"
  shows "unat (k + of_nat (length (filter isAdd ops)) :: u32) = unat k + additions ops"
  using assms by (simp add: additions_def unat_word_ariths unat_of_nat)

lemma empty_table: "occupied (replicate n 0) = 0" "keys (replicate n 0) = {}" "reachable_keys (replicate n 0)"
  by (auto simp: occupied_def keys_def reachable_keys_def)

text \<open>What the store holds once the pending operations are done, when they are additions.\<close>

definition store_keys :: "hash_store \<Rightarrow> u32 set" where
  "store_keys st = (case st_table st of None \<Rightarrow> {} | Some slots \<Rightarrow> keys slots)"

definition store_reachable :: "hash_store \<Rightarrow> bool" where
  "store_reachable st = (case st_table st of None \<Rightarrow> True | Some slots \<Rightarrow> reachable_keys slots)"

definition only_additions :: "hash_store \<Rightarrow> bool" where
  "only_additions st \<longleftrightarrow> list_all isAdd (st_pendingOperations st) \<and> Op_Add 0 \<notin> set (st_pendingOperations st)"

lemma resizeTable_wf:
  assumes "store_wf st" and "m < 32" and "unat newSize = 2 ^ m"
    and "2 * (unat (st_keyCount st) + additions (st_pendingOperations st)) \<le> 2 ^ m"
    and "allocate (unat newSize * 4)"
  shows "\<exists>st'. resizeTable allocate newSize st = Some st' \<and> store_wf st' \<and>
    st_pendingOperations st' = [] \<and> st_timerActive st' = st_timerActive st \<and>
    (store_reachable st \<and> only_additions st \<longrightarrow> store_reachable st' \<and>
      store_keys st' = store_keys st \<union> {h. Op_Add h \<in> set (st_pendingOperations st)})"
proof -
  define old where "old = (case st_table st of None \<Rightarrow> [] | Some slots \<Rightarrow> slots)"
  have occ: "occupied old \<le> unat (st_keyCount st)"
    using assms(1) by (auto simp: store_wf_def table_wf_def old_def occupied_def split: option.splits)
  have old_keys: "keys old = store_keys st"
    by (simp add: old_def store_keys_def keys_def split: option.split)
  obtain slots where slots: "rehash old (Some (replicate (unat newSize) 0)) = Some (Some slots)"
    "length slots = 2 ^ m" "occupied slots \<le> occupied old" "reachable_keys slots" "keys slots = keys old"
    using rehash_wf [OF assms(2), of "replicate (unat newSize) 0" old] assms(3,4) occ empty_table
    by auto
  have wf: "table_wf m (st_keyCount st) slots" using assms(2) slots(2,3) occ by (simp add: table_wf_def)
  obtain slots' k' a r where ops: "applyOperations (st_pendingOperations st) (Some slots) (st_keyCount st) [] []
      = Some (Some slots', k', a, r)" "table_wf m k' slots'" "2 * unat k' \<le> 2 ^ m"
    "list_all isAdd (st_pendingOperations st) \<and> Op_Add 0 \<notin> set (st_pendingOperations st) \<longrightarrow>
      reachable_keys slots' \<and> keys slots' = keys slots \<union> {h. Op_Add h \<in> set (st_pendingOperations st)}"
    using applyOperations_wf [OF wf assms(4), of "[]" "[]"] slots(4) by auto
  have "resizeTable allocate newSize st = Some (st\<lparr>st_table := Some slots', st_tableSize := newSize,
      st_keyCount := k', st_pendingOperations := [], st_events := st_events st @ [didInvalidateSharedMemory]\<rparr>)"
    using assms(5) slots(1) ops(1) by (simp add: resizeTable_def Let_def old_def [symmetric])
  then show ?thesis
    using assms(3) ops(2-4) slots(5) old_keys
    by (auto simp: store_wf_def store_reachable_def store_keys_def only_additions_def)
qed

lemma processPending_wf:
  assumes "store_wf st" and "unat (st_keyCount st) + additions (st_pendingOperations st) \<le> 2 ^ 30"
    and "page = 2 ^ p" and "2 \<le> p" and "p < 32" and "\<And>n. allocate n"
  shows "\<exists>st'. processPendingOperations page allocate st = Some st' \<and> store_wf st' \<and>
    st_pendingOperations st' = [] \<and> st_timerActive st' = st_timerActive st \<and>
    (store_reachable st \<and> only_additions st \<longrightarrow> store_reachable st' \<and>
      store_keys st' = store_keys st \<union> {h. Op_Add h \<in> set (st_pendingOperations st)})"
proof -
  let ?n = "st_keyCount st + of_nat (length (filter isAdd (st_pendingOperations st)))"
  note n = pending_count [OF assms(2)]
  obtain m where m: "m < 32" "unat (tableSizeForKeyCount page ?n) = 2 ^ m" "2 * unat ?n \<le> 2 ^ m"
    using tableSize_bounds' [of ?n page p] assms(2-5) n by auto
  define newSize where "newSize = max (st_tableSize st) (tableSizeForKeyCount page ?n)"
  show ?thesis
  proof (cases "st_tableSize st = newSize")
    case False
    then have new: "newSize = tableSizeForKeyCount page ?n" by (simp add: newSize_def max_def split: if_splits)
    have "processPendingOperations page allocate st = resizeTable allocate newSize st"
      using False by (simp add: processPendingOperations_def Let_def newSize_def)
    moreover have "2 * (unat (st_keyCount st) + additions (st_pendingOperations st)) \<le> 2 ^ m"
      using m(3) unfolding n .
    ultimately show ?thesis
      using resizeTable_wf [OF assms(1) m(1) m(2) [folded new], of allocate] assms(6) by simp
  next
    case True
    have le: "2 ^ m \<le> unat (st_tableSize st)"
    proof -
      have "tableSizeForKeyCount page ?n \<le> st_tableSize st" using True by (simp add: newSize_def max_def split: if_splits)
      then show ?thesis unfolding word_le_nat_alt m(2) .
    qed
    then have "st_tableSize st \<noteq> 0" by (intro notI) simp
    then obtain slots m' where slots: "st_table st = Some slots" "table_wf m' (st_keyCount st) slots"
      "unat (st_tableSize st) = 2 ^ m'"
      using assms(1) by (auto simp: store_wf_def split: option.splits)
    have room: "2 * (unat (st_keyCount st) + additions (st_pendingOperations st)) \<le> 2 ^ m'"
      using m(3) le slots(3) unfolding n by linarith
    obtain slots' k' a r where ops: "applyOperations (st_pendingOperations st) (Some slots) (st_keyCount st) [] []
        = Some (Some slots', k', a, r)" "table_wf m' k' slots'" "2 * unat k' \<le> 2 ^ m'"
      "reachable_keys slots \<and> list_all isAdd (st_pendingOperations st) \<and> Op_Add 0 \<notin> set (st_pendingOperations st) \<longrightarrow>
        reachable_keys slots' \<and> keys slots' = keys slots \<union> {h. Op_Add h \<in> set (st_pendingOperations st)}"
      using applyOperations_wf [OF slots(2) room, of "[]" "[]"] by auto
    have "\<exists>ev. processPendingOperations page allocate st = Some (st\<lparr>st_table := Some slots', st_keyCount := k',
        st_pendingOperations := [], st_events := st_events st @ ev\<rparr>)"
    proof -
      have "processPendingOperations page allocate st = (let st = st\<lparr>st_table := Some slots', st_keyCount := k',
          st_pendingOperations := []\<rparr> in
        Some (if a \<noteq> [] \<or> r \<noteq> [] then st\<lparr>st_events := st_events st @ [didUpdateSharedStringHashes a r]\<rparr> else st))"
        using True ops(1) slots(1) by (simp add: processPendingOperations_def Let_def newSize_def)
      then show ?thesis
        by (cases "a \<noteq> [] \<or> r \<noteq> []")
           (auto simp: Let_def intro: exI [of _ "[didUpdateSharedStringHashes a r]"] exI [of _ "[]"])
    qed
    then show ?thesis
      using ops(2-4) slots
      by (auto simp: store_wf_def store_reachable_def store_keys_def only_additions_def)
  qed
qed

text \<open>
  Claim C26. The store processes its pending operations: from any state in which the table is at least
  half empty, for up to 2^30 keys, with any additions and removals pending and whether or not shared
  memory can be allocated, processPendingOperations returns and the table is at least half empty
  again, so that every search ends; with memory granted no operation is left pending.
\<close>

theorem store_processing_returns:
  assumes "store_wf st" and "unat (st_keyCount st) + additions (st_pendingOperations st) \<le> 2 ^ 30"
    and "page = 2 ^ p" and "2 \<le> p" and "p < 32"
  shows "\<exists>st'. processPendingOperations page allocate st = Some st' \<and> store_wf st' \<and>
    ((\<forall>n. allocate n) \<longrightarrow> st_pendingOperations st' = [])"
proof -
  obtain st1 where granted: "processPendingOperations page (\<lambda>n. True) st = Some st1" "store_wf st1"
    "st_pendingOperations st1 = []"
    using processPending_wf [OF assms, of "\<lambda>n. True"] by auto
  have "processPendingOperations page allocate st = processPendingOperations page (\<lambda>n. True) st \<or>
      processPendingOperations page allocate st = Some st \<and> \<not> (\<forall>n. allocate n)"
    by (auto simp: processPendingOperations_def resizeTable_def Let_def)
  then show ?thesis using granted assms(1) by auto
qed

lemma store_wf_new: "store_wf SharedStringHashStore_new"
  by (simp add: store_wf_def SharedStringHashStore_new_def)

theorem store_processing_returns_witness:
  "\<exists>st'. processPendingOperations 4096 (\<lambda>n. True) (scheduleRemoval 5 (scheduleAddition 5 SharedStringHashStore_new))
     = Some st' \<and> store_wf st' \<and> st_pendingOperations st' = []"
proof -
  let ?st = "scheduleRemoval 5 (scheduleAddition 5 SharedStringHashStore_new)"
  have "store_wf ?st" by (simp add: store_wf_def scheduleAddition_def scheduleRemoval_def SharedStringHashStore_new_def)
  moreover have "unat (st_keyCount ?st) + additions (st_pendingOperations ?st) \<le> 2 ^ 30"
    by (simp add: scheduleAddition_def scheduleRemoval_def SharedStringHashStore_new_def)
  moreover have "(4096 :: u32) = 2 ^ 12" by simp
  ultimately show ?thesis
    using store_processing_returns [of ?st 4096 12 "\<lambda>n. True"] by simp
qed

lemma store_contains_settled:
  assumes "store_wf st" and "store_reachable st"
  shows "table_contains (st_table st) x = Some (x \<in> store_keys st)"
proof (cases "st_table st")
  case None
  then show ?thesis by (simp add: table_contains_def findSlot_def store_keys_def)
next
  case (Some slots)
  then obtain m where m: "table_wf m (st_keyCount st) slots" "2 * unat (st_keyCount st) \<le> 2 ^ m"
    using assms(1) by (auto simp: store_wf_def)
  have "m < 32" "length slots = 2 ^ m" using m(1) by (simp_all add: table_wf_def)
  then show ?thesis
    using hash_table_is_set' [of slots m 1 x] half_empty [OF m] assms(2) Some
    by (auto simp: store_reachable_def store_keys_def)
qed

text \<open>
  Claim C10. The store implements a set of links that only grows: as long as only additions are
  pending, contains first performs them and then answers whether the hash was added, and the table
  then holds exactly the hashes added so far, all of them reachable.
\<close>

theorem store_contains_links:
  assumes "store_wf st" and "store_reachable st" and "only_additions st"
    and "st_timerActive st \<or> st_pendingOperations st = []"
    and "unat (st_keyCount st) + additions (st_pendingOperations st) \<le> 2 ^ 30"
    and "page = 2 ^ p" and "2 \<le> p" and "p < 32" and "\<forall>n. allocate n"
  shows "\<exists>st'. store_contains page allocate x st =
      Some (x \<in> store_keys st \<union> {h. Op_Add h \<in> set (st_pendingOperations st)}, st') \<and>
    store_wf st' \<and> store_reachable st' \<and> st_pendingOperations st' = [] \<and>
    store_keys st' = store_keys st \<union> {h. Op_Add h \<in> set (st_pendingOperations st)}"
proof -
  let ?st = "st\<lparr>st_timerActive := False\<rparr>"
  have st: "store_wf ?st" "store_reachable ?st" "only_additions ?st" "store_keys ?st = store_keys st"
    using assms(1-3)
    by (simp_all add: store_wf_def store_reachable_def only_additions_def store_keys_def split: option.splits)
  obtain st' where st': "flushPendingChanges page allocate st = Some st'" "store_wf st'" "store_reachable st'"
    "st_pendingOperations st' = []"
    "store_keys st' = store_keys st \<union> {h. Op_Add h \<in> set (st_pendingOperations st)}"
  proof (cases "st_timerActive st")
    case True
    obtain st' where "processPendingOperations page allocate ?st = Some st'" "store_wf st'" "store_reachable st'"
      "st_pendingOperations st' = []"
      "store_keys st' = store_keys ?st \<union> {h. Op_Add h \<in> set (st_pendingOperations ?st)}"
      using processPending_wf [OF st(1), of page p allocate] assms(5-9) st(2,3) by auto
    then show ?thesis using that [of st'] True st(4) by (simp add: flushPendingChanges_def)
  next
    case False
    then show ?thesis using that [of st] assms(1,2,4) by (simp add: flushPendingChanges_def)
  qed
  then show ?thesis
    using store_contains_settled [OF st'(2,3), of x] by (simp add: store_contains_def)
qed

theorem store_contains_links_witness:
  "\<exists>st'. store_contains 4096 (\<lambda>n. True) 9 (scheduleAddition 9 (scheduleAddition 5 SharedStringHashStore_new))
     = Some (True, st') \<and> store_keys st' = {5, 9}"
proof -
  let ?st = "scheduleAddition 9 (scheduleAddition 5 SharedStringHashStore_new)"
  have "store_wf ?st" "store_reachable ?st" "only_additions ?st" "st_timerActive ?st"
    and keys: "store_keys ?st = {}" "{h. Op_Add h \<in> set (st_pendingOperations ?st)} = {5, 9}"
    and "unat (st_keyCount ?st) + additions (st_pendingOperations ?st) \<le> 2 ^ 30"
    by (auto simp: store_wf_def store_reachable_def only_additions_def store_keys_def isAdd_def
        scheduleAddition_def SharedStringHashStore_new_def)
  moreover have "(4096 :: u32) = 2 ^ 12" by simp
  ultimately show ?thesis
    using store_contains_links [of ?st 4096 12 "\<lambda>n. True" 9] by auto
qed

end
