(* ===== verification/Page_Load_State.thy ===== *)
theory Page_Load_State
  imports Complex_Main WK_Prelude
begin

text \<open>
  The load state of a page in the UI process, \<^verbatim>\<open>PageLoadState\<close> (src/UIProcess/PageLoadState.cpp and
  .h). The state exists twice, committed and uncommitted: operations change the uncommitted one
  inside a transaction, the end of the outermost transaction commits, and committing tells the
  observers what changes before and after the change. An observer is a number and \<open>react\<close> is what
  the observers do when they are called, an arbitrary function on the state, so that they may start
  transactions of their own. The observers called and the calls to the page are logged. A
  \<^verbatim>\<open>String\<close> is \<^term>\<open>None\<close> when it is null. Progress is a real number; \<^verbatim>\<open>WTF::protocolIs\<close> is an
  argument. Assertions are not checked in a release build and are not part of the operations.
\<close>

subsection \<open>The state\<close>

type_synonym observer = nat

datatype load_state = Provisional | Committed | Finished

record PendingAPIRequest =
  req_navigationID :: u64
  req_url :: wtf_string

record load_data =
  d_state :: load_state
  d_hasInsecureContent :: bool
  d_negotiatedLegacyTLS :: bool
  d_pendingAPIRequest :: PendingAPIRequest
  d_provisionalURL :: wtf_string
  d_url :: wtf_string
  d_unreachableURL :: wtf_string
  d_title :: wtf_string
  d_titleFromSafeBrowsingWarning :: wtf_string
  d_resourceDirectoryURL :: wtf_string
  d_canGoBack :: bool
  d_canGoForward :: bool
  d_estimatedProgress :: real
  d_networkRequestsInProgress :: bool
  d_certificateInfo :: "nat option"

datatype page_property =
    CanGoBack
  | CanGoForward
  | Title
  | IsLoading
  | ActiveURL
  | HasOnlySecureContent
  | NegotiatedLegacyTLS
  | EstimatedProgress
  | NetworkRequestsInProgress
  | CertificateInfo

datatype observer_callback =
    willChange page_property
  | didChange page_property
  | willChangeWebProcessIsResponsive
  | didChangeWebProcessIsResponsive
  | observer_didSwapWebProcesses

datatype page_event =
    Called observer observer_callback
  | Page_isLoadingChanged

record page_load_state =
  m_observers :: "observer list"
  m_committedState :: load_data
  m_uncommittedState :: load_data
  m_lastUnreachableURL :: wtf_string
  m_mayHaveUncommittedChanges :: bool
  m_outstandingTransactionCount :: u32
  pl_events :: "page_event list"

type_synonym reaction = "observer \<Rightarrow> observer_callback \<Rightarrow> page_load_state \<Rightarrow> page_load_state"
type_synonym protocol_test = "wtf_string \<Rightarrow> string \<Rightarrow> bool"

definition PendingAPIRequest_empty :: PendingAPIRequest where
  "PendingAPIRequest_empty = \<lparr>req_navigationID = 0, req_url = None\<rparr>"

definition Data_new :: load_data where
  "Data_new = \<lparr>d_state = Finished, d_hasInsecureContent = False, d_negotiatedLegacyTLS = False,
     d_pendingAPIRequest = PendingAPIRequest_empty, d_provisionalURL = None, d_url = None,
     d_unreachableURL = None, d_title = None, d_titleFromSafeBrowsingWarning = None,
     d_resourceDirectoryURL = None, d_canGoBack = False, d_canGoForward = False,
     d_estimatedProgress = 0, d_networkRequestsInProgress = False, d_certificateInfo = None\<rparr>"

definition PageLoadState_new :: page_load_state where
  "PageLoadState_new = \<lparr>m_observers = [], m_committedState = Data_new, m_uncommittedState = Data_new,
     m_lastUnreachableURL = None, m_mayHaveUncommittedChanges = False,
     m_outstandingTransactionCount = 0, pl_events = []\<rparr>"

subsection \<open>Observers\<close>

definition addObserver :: "observer \<Rightarrow> page_load_state \<Rightarrow> page_load_state" where
  "addObserver ob st = st\<lparr>m_observers := m_observers st @ [ob]\<rparr>"

definition removeObserver :: "observer \<Rightarrow> page_load_state \<Rightarrow> page_load_state" where
  "removeObserver ob st = st\<lparr>m_observers := remove1 ob (m_observers st)\<rparr>"

definition callObserver :: "reaction \<Rightarrow> observer_callback \<Rightarrow> observer \<Rightarrow> page_load_state \<Rightarrow> page_load_state" where
  "callObserver react callback ob st =
     (if ob \<notin> set (m_observers st) then st
      else react ob callback (st\<lparr>pl_events := pl_events st @ [Called ob callback]\<rparr>))"

definition callObserverCallback :: "reaction \<Rightarrow> observer_callback \<Rightarrow> page_load_state \<Rightarrow> page_load_state" where
  "callObserverCallback react callback st = fold (callObserver react callback) (m_observers st) st"

subsection \<open>What the state shows\<close>

definition isLoading_data :: "load_data \<Rightarrow> bool" where
  "isLoading_data d =
     (if req_url (d_pendingAPIRequest d) \<noteq> None then True
      else case d_state d of Provisional \<Rightarrow> True | Committed \<Rightarrow> True | Finished \<Rightarrow> False)"

definition activeURL_data :: "load_data \<Rightarrow> wtf_string" where
  "activeURL_data d =
     (if req_url (d_pendingAPIRequest d) \<noteq> None then req_url (d_pendingAPIRequest d)
      else if \<not> wtf_isEmpty (d_unreachableURL d) then d_unreachableURL d
      else case d_state d of
        Provisional \<Rightarrow> d_provisionalURL d
      | Committed \<Rightarrow> d_url d
      | Finished \<Rightarrow> d_url d)"

definition hasOnlySecureContent_data :: "protocol_test \<Rightarrow> load_data \<Rightarrow> bool" where
  "hasOnlySecureContent_data protocolIs d =
     (if d_hasInsecureContent d then False
      else if d_state d = Provisional then protocolIs (d_provisionalURL d) ''https''
      else protocolIs (d_url d) ''https'')"

definition initialProgressValue :: real where
  "initialProgressValue = 1 / 10"

definition estimatedProgress_data :: "load_data \<Rightarrow> real" where
  "estimatedProgress_data d =
     (if req_url (d_pendingAPIRequest d) \<noteq> None then initialProgressValue else d_estimatedProgress d)"

definition isLoading :: "page_load_state \<Rightarrow> bool" where
  "isLoading st = isLoading_data (m_committedState st)"

definition isProvisional :: "page_load_state \<Rightarrow> bool" where
  "isProvisional st \<longleftrightarrow> d_state (m_committedState st) = Provisional"

definition isCommitted :: "page_load_state \<Rightarrow> bool" where
  "isCommitted st \<longleftrightarrow> d_state (m_committedState st) = Committed"

definition isFinished :: "page_load_state \<Rightarrow> bool" where
  "isFinished st \<longleftrightarrow> d_state (m_committedState st) = Finished"

definition hasUncommittedLoad :: "page_load_state \<Rightarrow> bool" where
  "hasUncommittedLoad st = isLoading_data (m_uncommittedState st)"

definition activeURL :: "page_load_state \<Rightarrow> wtf_string" where
  "activeURL st = activeURL_data (m_committedState st)"

definition hasOnlySecureContent :: "protocol_test \<Rightarrow> page_load_state \<Rightarrow> bool" where
  "hasOnlySecureContent protocolIs st = hasOnlySecureContent_data protocolIs (m_committedState st)"

definition hasNegotiatedLegacyTLS :: "page_load_state \<Rightarrow> bool" where
  "hasNegotiatedLegacyTLS st = d_negotiatedLegacyTLS (m_committedState st)"

definition estimatedProgress :: "page_load_state \<Rightarrow> real" where
  "estimatedProgress st = estimatedProgress_data (m_committedState st)"

definition networkRequestsInProgress :: "page_load_state \<Rightarrow> bool" where
  "networkRequestsInProgress st = d_networkRequestsInProgress (m_committedState st)"

definition certificateInfo :: "page_load_state \<Rightarrow> nat option" where
  "certificateInfo st = d_certificateInfo (m_committedState st)"

definition pendingAPIRequest :: "page_load_state \<Rightarrow> PendingAPIRequest" where
  "pendingAPIRequest st = d_pendingAPIRequest (m_committedState st)"

definition pendingAPIRequestURL :: "page_load_state \<Rightarrow> wtf_string" where
  "pendingAPIRequestURL st = req_url (d_pendingAPIRequest (m_committedState st))"

definition resourceDirectoryURL :: "page_load_state \<Rightarrow> wtf_string" where
  "resourceDirectoryURL st = d_resourceDirectoryURL (m_committedState st)"

definition page_title :: "page_load_state \<Rightarrow> wtf_string" where
  "page_title st =
     (if d_titleFromSafeBrowsingWarning (m_committedState st) \<noteq> None
      then d_titleFromSafeBrowsingWarning (m_committedState st)
      else d_title (m_committedState st))"

definition canGoBack :: "page_load_state \<Rightarrow> bool" where
  "canGoBack st = d_canGoBack (m_committedState st)"

definition canGoForward :: "page_load_state \<Rightarrow> bool" where
  "canGoForward st = d_canGoForward (m_committedState st)"

subsection \<open>Transactions\<close>

definition callObserverIf ::
    "reaction \<Rightarrow> bool \<Rightarrow> observer_callback \<Rightarrow> page_load_state \<Rightarrow> page_load_state" where
  "callObserverIf react changed callback st =
     (if changed then callObserverCallback react callback st else st)"

definition commitChanges :: "protocol_test \<Rightarrow> reaction \<Rightarrow> page_load_state \<Rightarrow> page_load_state" where
  "commitChanges protocolIs react st =
     (if \<not> m_mayHaveUncommittedChanges st then st
      else
       (let st = st\<lparr>m_mayHaveUncommittedChanges := False\<rparr>;
            old = m_committedState st;
            new = m_uncommittedState st;
            canGoBackChanged = (d_canGoBack old \<noteq> d_canGoBack new);
            canGoForwardChanged = (d_canGoForward old \<noteq> d_canGoForward new);
            titleChanged = (d_title old \<noteq> d_title new \<or>
              d_titleFromSafeBrowsingWarning old \<noteq> d_titleFromSafeBrowsingWarning new);
            isLoadingChanged = (isLoading_data old \<noteq> isLoading_data new);
            activeURLChanged = (activeURL_data old \<noteq> activeURL_data new);
            hasOnlySecureContentChanged =
              (hasOnlySecureContent_data protocolIs old \<noteq> hasOnlySecureContent_data protocolIs new);
            negotiatedLegacyTLSChanged = (d_negotiatedLegacyTLS old \<noteq> d_negotiatedLegacyTLS new);
            estimatedProgressChanged = (estimatedProgress_data old \<noteq> estimatedProgress_data new);
            networkRequestsInProgressChanged =
              (d_networkRequestsInProgress old \<noteq> d_networkRequestsInProgress new);
            certificateInfoChanged = (d_certificateInfo old \<noteq> d_certificateInfo new);
            st = callObserverIf react canGoBackChanged (willChange CanGoBack) st;
            st = callObserverIf react canGoForwardChanged (willChange CanGoForward) st;
            st = callObserverIf react titleChanged (willChange Title) st;
            st = callObserverIf react isLoadingChanged (willChange IsLoading) st;
            st = callObserverIf react activeURLChanged (willChange ActiveURL) st;
            st = callObserverIf react hasOnlySecureContentChanged (willChange HasOnlySecureContent) st;
            st = callObserverIf react negotiatedLegacyTLSChanged (willChange NegotiatedLegacyTLS) st;
            st = callObserverIf react estimatedProgressChanged (willChange EstimatedProgress) st;
            st = callObserverIf react networkRequestsInProgressChanged (willChange NetworkRequestsInProgress) st;
            st = callObserverIf react certificateInfoChanged (willChange CertificateInfo) st;
            st = st\<lparr>m_committedState := m_uncommittedState st,
                    pl_events := pl_events st @ [Page_isLoadingChanged]\<rparr>;
            st = callObserverIf react certificateInfoChanged (didChange CertificateInfo) st;
            st = callObserverIf react networkRequestsInProgressChanged (didChange NetworkRequestsInProgress) st;
            st = callObserverIf react estimatedProgressChanged (didChange EstimatedProgress) st;
            st = callObserverIf react hasOnlySecureContentChanged (didChange HasOnlySecureContent) st;
            st = callObserverIf react negotiatedLegacyTLSChanged (didChange NegotiatedLegacyTLS) st;
            st = callObserverIf react activeURLChanged (didChange ActiveURL) st;
            st = callObserverIf react isLoadingChanged (didChange IsLoading) st;
            st = callObserverIf react titleChanged (didChange Title) st;
            st = callObserverIf react canGoForwardChanged (didChange CanGoForward) st in
        callObserverIf react canGoBackChanged (didChange CanGoBack) st))"

definition beginTransaction :: "page_load_state \<Rightarrow> page_load_state" where
  "beginTransaction st = st\<lparr>m_outstandingTransactionCount := m_outstandingTransactionCount st + 1\<rparr>"

definition endTransaction :: "protocol_test \<Rightarrow> reaction \<Rightarrow> page_load_state \<Rightarrow> page_load_state" where
  "endTransaction protocolIs react st =
     (let st = st\<lparr>m_outstandingTransactionCount := m_outstandingTransactionCount st - 1\<rparr> in
      if m_outstandingTransactionCount st = 0 then commitChanges protocolIs react st else st)"

text \<open>Making a token of a transaction, as every operation below does for its argument.\<close>

definition make_token :: "page_load_state \<Rightarrow> page_load_state" where
  "make_token st = st\<lparr>m_mayHaveUncommittedChanges := True\<rparr>"

text \<open>
  A transaction object: constructed, moved from, destroyed. It is the flag whether it still points
  to the load state.
\<close>

definition Transaction_ctor :: "page_load_state \<Rightarrow> bool \<times> page_load_state" where
  "Transaction_ctor st = (True, beginTransaction st)"

definition Transaction_move :: "bool \<Rightarrow> bool \<times> bool" where
  "Transaction_move other = (other, False)"

definition Transaction_dtor :: "protocol_test \<Rightarrow> reaction \<Rightarrow> bool \<Rightarrow> page_load_state \<Rightarrow> page_load_state" where
  "Transaction_dtor protocolIs react t st = (if t then endTransaction protocolIs react st else st)"

subsection \<open>The operations of a load\<close>

definition upd_uncommitted :: "(load_data \<Rightarrow> load_data) \<Rightarrow> page_load_state \<Rightarrow> page_load_state" where
  "upd_uncommitted f st = st\<lparr>m_uncommittedState := f (m_uncommittedState st)\<rparr>"

definition pl_reset :: "page_load_state \<Rightarrow> page_load_state" where
  "pl_reset st =
     (upd_uncommitted (\<lambda>d. d\<lparr>d_state := Finished, d_hasInsecureContent := False,
        d_pendingAPIRequest := PendingAPIRequest_empty, d_provisionalURL := None, d_url := None,
        d_unreachableURL := None, d_title := None, d_titleFromSafeBrowsingWarning := None,
        d_estimatedProgress := 0, d_networkRequestsInProgress := False\<rparr>) st)
      \<lparr>m_lastUnreachableURL := None\<rparr>"

definition negotiatedLegacyTLS :: "page_load_state \<Rightarrow> page_load_state" where
  "negotiatedLegacyTLS = upd_uncommitted (\<lambda>d. d\<lparr>d_negotiatedLegacyTLS := True\<rparr>)"

definition setPendingAPIRequest :: "PendingAPIRequest \<Rightarrow> wtf_string \<Rightarrow> page_load_state \<Rightarrow> page_load_state" where
  "setPendingAPIRequest request directory =
     upd_uncommitted (\<lambda>d. d\<lparr>d_pendingAPIRequest := request, d_resourceDirectoryURL := directory\<rparr>)"

definition clearPendingAPIRequest :: "page_load_state \<Rightarrow> page_load_state" where
  "clearPendingAPIRequest = upd_uncommitted (\<lambda>d. d\<lparr>d_pendingAPIRequest := PendingAPIRequest_empty\<rparr>)"

definition didExplicitOpen :: "wtf_string \<Rightarrow> page_load_state \<Rightarrow> page_load_state" where
  "didExplicitOpen url = upd_uncommitted (\<lambda>d. d\<lparr>d_url := url, d_provisionalURL := None\<rparr>)"

definition setUnreachableURL :: "wtf_string \<Rightarrow> page_load_state \<Rightarrow> page_load_state" where
  "setUnreachableURL unreachableURL st =
     upd_uncommitted (\<lambda>d. d\<lparr>d_unreachableURL := unreachableURL\<rparr>)
       (st\<lparr>m_lastUnreachableURL := d_unreachableURL (m_uncommittedState st)\<rparr>)"

definition didStartProvisionalLoad :: "wtf_string \<Rightarrow> wtf_string \<Rightarrow> page_load_state \<Rightarrow> page_load_state" where
  "didStartProvisionalLoad url unreachableURL st =
     setUnreachableURL unreachableURL
       (upd_uncommitted (\<lambda>d. d\<lparr>d_state := Provisional, d_provisionalURL := url\<rparr>) st)"

definition didReceiveServerRedirectForProvisionalLoad :: "wtf_string \<Rightarrow> page_load_state \<Rightarrow> page_load_state" where
  "didReceiveServerRedirectForProvisionalLoad url = upd_uncommitted (\<lambda>d. d\<lparr>d_provisionalURL := url\<rparr>)"

definition didFailProvisionalLoad :: "page_load_state \<Rightarrow> page_load_state" where
  "didFailProvisionalLoad st =
     upd_uncommitted (\<lambda>d. d\<lparr>d_state := Finished, d_provisionalURL := None,
       d_unreachableURL := m_lastUnreachableURL st\<rparr>) st"

definition didCommitLoad :: "nat \<Rightarrow> bool \<Rightarrow> bool \<Rightarrow> page_load_state \<Rightarrow> page_load_state" where
  "didCommitLoad certificate hasInsecureContent usedLegacyTLS =
     upd_uncommitted (\<lambda>d. d\<lparr>d_state := Committed, d_hasInsecureContent := hasInsecureContent,
       d_certificateInfo := Some certificate, d_url := d_provisionalURL d, d_provisionalURL := None,
       d_negotiatedLegacyTLS := usedLegacyTLS, d_title := None,
       d_titleFromSafeBrowsingWarning := None\<rparr>)"

definition didFinishLoad :: "page_load_state \<Rightarrow> page_load_state" where
  "didFinishLoad = upd_uncommitted (\<lambda>d. d\<lparr>d_state := Finished\<rparr>)"

definition didFailLoad :: "page_load_state \<Rightarrow> page_load_state" where
  "didFailLoad = upd_uncommitted (\<lambda>d. d\<lparr>d_state := Finished\<rparr>)"

definition didSameDocumentNavigation :: "wtf_string \<Rightarrow> page_load_state \<Rightarrow> page_load_state" where
  "didSameDocumentNavigation url = upd_uncommitted (\<lambda>d. d\<lparr>d_url := url\<rparr>)"

definition didDisplayOrRunInsecureContent :: "page_load_state \<Rightarrow> page_load_state" where
  "didDisplayOrRunInsecureContent = upd_uncommitted (\<lambda>d. d\<lparr>d_hasInsecureContent := True\<rparr>)"

definition setTitle :: "wtf_string \<Rightarrow> page_load_state \<Rightarrow> page_load_state" where
  "setTitle t = upd_uncommitted (\<lambda>d. d\<lparr>d_title := t\<rparr>)"

definition setTitleFromSafeBrowsingWarning :: "wtf_string \<Rightarrow> page_load_state \<Rightarrow> page_load_state" where
  "setTitleFromSafeBrowsingWarning t = upd_uncommitted (\<lambda>d. d\<lparr>d_titleFromSafeBrowsingWarning := t\<rparr>)"

definition setCanGoBack :: "bool \<Rightarrow> page_load_state \<Rightarrow> page_load_state" where
  "setCanGoBack b = upd_uncommitted (\<lambda>d. d\<lparr>d_canGoBack := b\<rparr>)"

definition setCanGoForward :: "bool \<Rightarrow> page_load_state \<Rightarrow> page_load_state" where
  "setCanGoForward b = upd_uncommitted (\<lambda>d. d\<lparr>d_canGoForward := b\<rparr>)"

definition didStartProgress :: "page_load_state \<Rightarrow> page_load_state" where
  "didStartProgress = upd_uncommitted (\<lambda>d. d\<lparr>d_estimatedProgress := initialProgressValue\<rparr>)"

definition didChangeProgress :: "real \<Rightarrow> page_load_state \<Rightarrow> page_load_state" where
  "didChangeProgress v = upd_uncommitted (\<lambda>d. d\<lparr>d_estimatedProgress := v\<rparr>)"

definition didFinishProgress :: "page_load_state \<Rightarrow> page_load_state" where
  "didFinishProgress = upd_uncommitted (\<lambda>d. d\<lparr>d_estimatedProgress := 1\<rparr>)"

definition setNetworkRequestsInProgress :: "bool \<Rightarrow> page_load_state \<Rightarrow> page_load_state" where
  "setNetworkRequestsInProgress b = upd_uncommitted (\<lambda>d. d\<lparr>d_networkRequestsInProgress := b\<rparr>)"

definition didSwapWebProcesses :: "reaction \<Rightarrow> page_load_state \<Rightarrow> page_load_state" where
  "didSwapWebProcesses react = callObserverCallback react observer_didSwapWebProcesses"

definition willChangeProcessIsResponsive :: "reaction \<Rightarrow> page_load_state \<Rightarrow> page_load_state" where
  "willChangeProcessIsResponsive react = callObserverCallback react willChangeWebProcessIsResponsive"

definition didChangeProcessIsResponsive :: "reaction \<Rightarrow> page_load_state \<Rightarrow> page_load_state" where
  "didChangeProcessIsResponsive react = callObserverCallback react didChangeWebProcessIsResponsive"

text \<open>The operations that need a transaction, as data, each after its token is made.\<close>

datatype page_change =
    PC_reset
  | PC_negotiatedLegacyTLS
  | PC_setPendingAPIRequest PendingAPIRequest wtf_string
  | PC_clearPendingAPIRequest
  | PC_didExplicitOpen wtf_string
  | PC_didStartProvisionalLoad wtf_string wtf_string
  | PC_didReceiveServerRedirect wtf_string
  | PC_didFailProvisionalLoad
  | PC_didCommitLoad nat bool bool
  | PC_didFinishLoad
  | PC_didFailLoad
  | PC_didSameDocumentNavigation wtf_string
  | PC_didDisplayOrRunInsecureContent
  | PC_setUnreachableURL wtf_string
  | PC_setTitle wtf_string
  | PC_setTitleFromSafeBrowsingWarning wtf_string
  | PC_setCanGoBack bool
  | PC_setCanGoForward bool
  | PC_didStartProgress
  | PC_didChangeProgress real
  | PC_didFinishProgress
  | PC_setNetworkRequestsInProgress bool

primrec page_op :: "page_change \<Rightarrow> page_load_state \<Rightarrow> page_load_state" where
  "page_op PC_reset = pl_reset"
| "page_op PC_negotiatedLegacyTLS = negotiatedLegacyTLS"
| "page_op (PC_setPendingAPIRequest request directory) = setPendingAPIRequest request directory"
| "page_op PC_clearPendingAPIRequest = clearPendingAPIRequest"
| "page_op (PC_didExplicitOpen url) = didExplicitOpen url"
| "page_op (PC_didStartProvisionalLoad url unreachable) = didStartProvisionalLoad url unreachable"
| "page_op (PC_didReceiveServerRedirect url) = didReceiveServerRedirectForProvisionalLoad url"
| "page_op PC_didFailProvisionalLoad = didFailProvisionalLoad"
| "page_op (PC_didCommitLoad certificate insecure legacy) = didCommitLoad certificate insecure legacy"
| "page_op PC_didFinishLoad = didFinishLoad"
| "page_op PC_didFailLoad = didFailLoad"
| "page_op (PC_didSameDocumentNavigation url) = didSameDocumentNavigation url"
| "page_op PC_didDisplayOrRunInsecureContent = didDisplayOrRunInsecureContent"
| "page_op (PC_setUnreachableURL url) = setUnreachableURL url"
| "page_op (PC_setTitle t) = setTitle t"
| "page_op (PC_setTitleFromSafeBrowsingWarning t) = setTitleFromSafeBrowsingWarning t"
| "page_op (PC_setCanGoBack b) = setCanGoBack b"
| "page_op (PC_setCanGoForward b) = setCanGoForward b"
| "page_op PC_didStartProgress = didStartProgress"
| "page_op (PC_didChangeProgress v) = didChangeProgress v"
| "page_op PC_didFinishProgress = didFinishProgress"
| "page_op (PC_setNetworkRequestsInProgress b) = setNetworkRequestsInProgress b"

definition perform :: "page_change \<Rightarrow> page_load_state \<Rightarrow> page_load_state" where
  "perform change st = page_op change (make_token st)"

lemmas page_op_defs =
  pl_reset_def negotiatedLegacyTLS_def setPendingAPIRequest_def clearPendingAPIRequest_def
  didExplicitOpen_def setUnreachableURL_def didStartProvisionalLoad_def
  didReceiveServerRedirectForProvisionalLoad_def didFailProvisionalLoad_def didCommitLoad_def
  didFinishLoad_def didFailLoad_def didSameDocumentNavigation_def didDisplayOrRunInsecureContent_def
  setTitle_def setTitleFromSafeBrowsingWarning_def setCanGoBack_def setCanGoForward_def
  didStartProgress_def didChangeProgress_def didFinishProgress_def setNetworkRequestsInProgress_def
  upd_uncommitted_def make_token_def

subsection \<open>Committing settles the state\<close>

text \<open>
  Outside a transaction nothing is left to commit, and when nothing is left to commit both states are
  equal. While the observers are told of changes to come only the first part holds. Observers keep to
  the rules if what they do keeps both; whatever they do inside transactions of their own does.
\<close>

definition no_stray_changes :: "page_load_state \<Rightarrow> bool" where
  "no_stray_changes st \<longleftrightarrow> (m_outstandingTransactionCount st = 0 \<longrightarrow> \<not> m_mayHaveUncommittedChanges st)"

definition settled :: "page_load_state \<Rightarrow> bool" where
  "settled st \<longleftrightarrow> no_stray_changes st \<and>
     (\<not> m_mayHaveUncommittedChanges st \<longrightarrow> m_committedState st = m_uncommittedState st)"

definition observers_keep_rules :: "reaction \<Rightarrow> bool" where
  "observers_keep_rules react \<longleftrightarrow>
     (\<forall>ob callback st. (no_stray_changes st \<longrightarrow> no_stray_changes (react ob callback st)) \<and>
        (settled st \<longrightarrow> settled (react ob callback st)))"

lemma fold_invariant': "P s \<Longrightarrow> (\<And>x s. P s \<Longrightarrow> P (f x s)) \<Longrightarrow> P (fold f xs s)"
  by (induction xs arbitrary: s) auto

lemma callObserverIf_keeps:
  assumes "\<And>ob st. P st \<Longrightarrow> P (react ob callback st)" and "\<And>st es. P st \<Longrightarrow> P (st\<lparr>pl_events := es\<rparr>)"
    and "P st"
  shows "P (callObserverIf react b callback st)"
proof -
  have "P (callObserver react callback ob st)" if "P st" for ob st
    unfolding callObserver_def using that assms(1) [OF assms(2) [OF that]] by (simp split: if_split)
  then have "P (callObserverCallback react callback st)"
    unfolding callObserverCallback_def by (rule fold_invariant' [of P, OF assms(3)])
  then show ?thesis using assms(3) by (simp add: callObserverIf_def)
qed

lemma no_stray_changes_events [simp]: "no_stray_changes (st\<lparr>pl_events := es\<rparr>) = no_stray_changes st"
  by (simp add: no_stray_changes_def)

lemma settled_events [simp]: "settled (st\<lparr>pl_events := es\<rparr>) = settled st"
  by (simp add: settled_def no_stray_changes_def)

lemma callObserverIf_no_stray [wf_intros]:
  "observers_keep_rules react \<Longrightarrow> no_stray_changes st \<Longrightarrow> no_stray_changes (callObserverIf react b callback st)"
  by (rule callObserverIf_keeps) (auto simp: observers_keep_rules_def)

lemma callObserverIf_settled [wf_intros]:
  "observers_keep_rules react \<Longrightarrow> settled st \<Longrightarrow> settled (callObserverIf react b callback st)"
  by (rule callObserverIf_keeps) (auto simp: observers_keep_rules_def)

lemma settled_commit: "no_stray_changes st \<Longrightarrow>
    settled (st\<lparr>m_committedState := m_uncommittedState st, pl_events := es\<rparr>)"
  by (simp add: settled_def no_stray_changes_def)

lemma commitChanges_settled:
  assumes "observers_keep_rules react"
    and "\<not> m_mayHaveUncommittedChanges st \<Longrightarrow> m_committedState st = m_uncommittedState st"
  shows "settled (commitChanges protocolIs react st)"
proof (cases "m_mayHaveUncommittedChanges st")
  case True
  have "no_stray_changes (st\<lparr>m_mayHaveUncommittedChanges := False\<rparr>)"
    by (simp add: no_stray_changes_def)
  then show ?thesis
    using True unfolding commitChanges_def Let_def
    by (simp only: not_True_eq_False if_False)
      (intro callObserverIf_settled [OF assms(1)] settled_commit callObserverIf_no_stray [OF assms(1)])
next
  case False
  then show ?thesis using assms(2) by (simp add: commitChanges_def settled_def no_stray_changes_def)
qed

lemma page_op_flags [frame_simps]:
  "m_outstandingTransactionCount (page_op change st) = m_outstandingTransactionCount st"
  "m_mayHaveUncommittedChanges st \<Longrightarrow> m_mayHaveUncommittedChanges (page_op change st)"
  "m_committedState (page_op change st) = m_committedState st"
  "m_observers (page_op change st) = m_observers st"
  "pl_events (page_op change st) = pl_events st"
  by (cases change; simp add: page_op_defs)+

text \<open>What the page does: transactions, changes inside them, early commits and observers.\<close>

inductive page_step :: "protocol_test \<Rightarrow> reaction \<Rightarrow> page_load_state \<Rightarrow> page_load_state \<Rightarrow> bool"
  for protocolIs react where
  begin_transaction: "m_outstandingTransactionCount st \<noteq> - 1 \<Longrightarrow>
    page_step protocolIs react st (beginTransaction st)"
| change: "m_outstandingTransactionCount st \<noteq> 0 \<Longrightarrow> page_step protocolIs react st (perform change st)"
| end_transaction: "m_outstandingTransactionCount st \<noteq> 0 \<Longrightarrow>
    page_step protocolIs react st (endTransaction protocolIs react st)"
| commit_early: "page_step protocolIs react st (commitChanges protocolIs react st)"
| observe: "page_step protocolIs react st (addObserver ob st)"
| unobserve: "page_step protocolIs react st (removeObserver ob st)"
| swap: "page_step protocolIs react st (didSwapWebProcesses react st)"
| will_responsive: "page_step protocolIs react st (willChangeProcessIsResponsive react st)"
| did_responsive: "page_step protocolIs react st (didChangeProcessIsResponsive react st)"

lemma callObserverCallback_settled:
  "observers_keep_rules react \<Longrightarrow> settled st \<Longrightarrow> settled (callObserverCallback react callback st)"
  using callObserverIf_settled [of react st True callback] by (simp add: callObserverIf_def)

lemma add_one_eq_0: "(w :: u32) + 1 = 0 \<longleftrightarrow> w = - 1"
  by (simp add: eq_neg_iff_add_eq_0)

lemma page_step_settled:
  assumes "page_step protocolIs react st st'" and "observers_keep_rules react" and "settled st"
  shows "settled st'"
  using assms(1)
proof cases
  case begin_transaction
  then show ?thesis using assms(3)
    by (auto simp: beginTransaction_def settled_def no_stray_changes_def add_one_eq_0)
next
  case (change c)
  then show ?thesis
    by (simp add: perform_def settled_def no_stray_changes_def frame_simps make_token_def)
next
  case end_transaction
  let ?st = "st\<lparr>m_outstandingTransactionCount := m_outstandingTransactionCount st - 1\<rparr>"
  have commit: "settled (commitChanges protocolIs react ?st)"
    by (rule commitChanges_settled [OF assms(2)]) (use assms(3) in \<open>simp add: settled_def\<close>)
  show ?thesis
  proof (cases "m_outstandingTransactionCount ?st = 0")
    case True
    then show ?thesis using commit end_transaction by (simp add: endTransaction_def)
  next
    case False
    then show ?thesis using assms(3) end_transaction
      by (simp add: endTransaction_def settled_def no_stray_changes_def)
  qed
next
  case commit_early
  then show ?thesis using commitChanges_settled [OF assms(2)] assms(3) by (simp add: settled_def)
qed (use assms(2,3) in \<open>simp_all add: addObserver_def removeObserver_def settled_def no_stray_changes_def
      didSwapWebProcesses_def willChangeProcessIsResponsive_def didChangeProcessIsResponsive_def
      callObserverCallback_settled [unfolded settled_def no_stray_changes_def]\<close>)

lemma PageLoadState_new_settled: "settled PageLoadState_new"
  by (simp add: PageLoadState_new_def settled_def no_stray_changes_def)

lemma reachable_settled:
  assumes "observers_keep_rules react" and "(page_step protocolIs react)\<^sup>*\<^sup>* PageLoadState_new st"
  shows "settled st"
  using assms(2) by (induction rule: rtranclp_induct)
    (auto intro: PageLoadState_new_settled page_step_settled [OF _ assms(1)])

text \<open>Claim C17. Observers, and everyone else outside a transaction, see the load state settled: in
  every state the page can reach, with any transactions, changes, early commits and observers, and
  with observers that run transactions of their own when they are called, no change is left
  uncommitted once no transaction is outstanding.\<close>

theorem page_state_settled:
  assumes "observers_keep_rules react" and "(page_step protocolIs react)\<^sup>*\<^sup>* PageLoadState_new st"
    and "m_outstandingTransactionCount st = 0"
  shows "m_committedState st = m_uncommittedState st \<and> \<not> m_mayHaveUncommittedChanges st"
  using reachable_settled [OF assms(1,2)] assms(3) by (simp add: settled_def no_stray_changes_def)

text \<open>A whole transaction, and an observer that runs one when a load starts or ends.\<close>

definition transact :: "protocol_test \<Rightarrow> reaction \<Rightarrow> page_change \<Rightarrow> page_load_state \<Rightarrow> page_load_state" where
  "transact protocolIs react change st =
     endTransaction protocolIs react (perform change (beginTransaction st))"

definition watch :: reaction where
  "watch ob callback st = st"

definition retitle :: "protocol_test \<Rightarrow> reaction" where
  "retitle protocolIs ob callback st =
     (if callback = didChange IsLoading then transact protocolIs watch (PC_setTitle (Some ''Loading'')) st
      else st)"

lemma watch_keeps_rules: "observers_keep_rules watch"
  by (simp add: observers_keep_rules_def watch_def)

lemma transact_settled:
  assumes "observers_keep_rules react"
  shows "settled (transact protocolIs react change st)"
proof -
  let ?st = "perform change (beginTransaction st)"
  have flag: "m_mayHaveUncommittedChanges ?st"
    by (simp add: perform_def frame_simps make_token_def)
  show ?thesis
    using flag commitChanges_settled [OF assms, of "?st\<lparr>m_outstandingTransactionCount := m_outstandingTransactionCount ?st - 1\<rparr>"]
    by (auto simp: transact_def endTransaction_def Let_def settled_def no_stray_changes_def)
qed

lemma retitle_keeps_rules: "observers_keep_rules (retitle protocolIs)"
  using transact_settled [OF watch_keeps_rules]
  by (auto simp: observers_keep_rules_def retitle_def settled_def)

lemma transact_steps:
  assumes "m_outstandingTransactionCount st = 0"
  shows "(page_step protocolIs react)\<^sup>*\<^sup>* st (transact protocolIs react change st)"
proof -
  let ?b = "beginTransaction st"
  have count: "m_outstandingTransactionCount ?b = 1" "m_outstandingTransactionCount (perform change ?b) = 1"
    using assms by (simp_all add: beginTransaction_def perform_def frame_simps make_token_def)
  have "page_step protocolIs react st ?b" using assms by (auto intro: page_step.intros)
  moreover have "page_step protocolIs react ?b (perform change ?b)"
    using count by (auto intro: page_step.intros)
  moreover have "page_step protocolIs react (perform change ?b) (transact protocolIs react change st)"
    unfolding transact_def using count by (auto intro: page_step.intros)
  ultimately show ?thesis by (meson converse_rtranclp_into_rtranclp rtranclp.rtrancl_refl)
qed

abbreviation sample_request :: page_change where
  "sample_request \<equiv> PC_setPendingAPIRequest \<lparr>req_navigationID = 1, req_url = Some ''http://a''\<rparr> None"

lemma sample_retitle:
  "m_outstandingTransactionCount (transact (\<lambda>u p. False) (retitle (\<lambda>u p. False)) sample_request (addObserver 7 PageLoadState_new)) = 0"
  "d_title (m_uncommittedState (transact (\<lambda>u p. False) (retitle (\<lambda>u p. False)) sample_request (addObserver 7 PageLoadState_new))) = Some ''Loading''"
  by code_simp+

theorem page_state_settled_witness:
  "d_title (m_committedState (transact (\<lambda>u p. False) (retitle (\<lambda>u p. False)) sample_request
     (addObserver 7 PageLoadState_new))) = Some ''Loading''"
proof -
  have "(page_step (\<lambda>u p. False) (retitle (\<lambda>u p. False)))\<^sup>*\<^sup>* PageLoadState_new (addObserver 7 PageLoadState_new)"
    by (auto intro: page_step.intros)
  moreover have "m_outstandingTransactionCount (addObserver 7 PageLoadState_new) = 0"
    by (simp add: addObserver_def PageLoadState_new_def)
  ultimately show ?thesis
    using page_state_settled [OF retitle_keeps_rules rtranclp_trans [OF _ transact_steps] sample_retitle(1)]
      sample_retitle(2) by simp
qed

subsection \<open>What observers are told\<close>

text \<open>What each property of the page reads, through the getters.\<close>

datatype reading = R_bool bool | R_string wtf_string | R_real real | R_certificate "nat option"

primrec page_reading :: "protocol_test \<Rightarrow> page_load_state \<Rightarrow> page_property \<Rightarrow> reading" where
  "page_reading protocolIs st CanGoBack = R_bool (canGoBack st)"
| "page_reading protocolIs st CanGoForward = R_bool (canGoForward st)"
| "page_reading protocolIs st Title = R_string (page_title st)"
| "page_reading protocolIs st IsLoading = R_bool (isLoading st)"
| "page_reading protocolIs st ActiveURL = R_string (activeURL st)"
| "page_reading protocolIs st HasOnlySecureContent = R_bool (hasOnlySecureContent protocolIs st)"
| "page_reading protocolIs st NegotiatedLegacyTLS = R_bool (hasNegotiatedLegacyTLS st)"
| "page_reading protocolIs st EstimatedProgress = R_real (estimatedProgress st)"
| "page_reading protocolIs st NetworkRequestsInProgress = R_bool (networkRequestsInProgress st)"
| "page_reading protocolIs st CertificateInfo = R_certificate (certificateInfo st)"

lemma fold_watch:
  "set obs \<subseteq> set (m_observers st) \<Longrightarrow> fold (callObserver watch callback) obs st =
     st\<lparr>pl_events := pl_events st @ map (\<lambda>ob. Called ob callback) obs\<rparr>"
  by (induction obs arbitrary: st) (auto simp: callObserver_def watch_def)

definition calls :: "bool \<Rightarrow> observer_callback \<Rightarrow> observer list \<Rightarrow> page_event list" where
  "calls b callback obs = (if b then map (\<lambda>ob. Called ob callback) obs else [])"

lemma callObserverIf_watch: "callObserverIf watch b callback st =
    st\<lparr>pl_events := pl_events st @ calls b callback (m_observers st)\<rparr>"
  by (simp add: callObserverIf_def callObserverCallback_def fold_watch calls_def)

lemma count_calls [simp]:
  assumes "distinct obs" and "ob \<in> set obs"
  shows "count_list (calls b callback obs) (Called ob callback') = (if b \<and> callback = callback' then 1 else 0)"
proof -
  have "count_list (map (\<lambda>ob. Called ob callback) obs) (Called ob callback') =
      (if callback = callback' then count_list obs ob else 0)"
    by (induction obs) auto
  moreover have "count_list obs ob = 1" using assms by (induction obs) auto
  ultimately show ?thesis by (cases "callback = callback'") (simp_all add: calls_def)
qed


definition told :: "protocol_test \<Rightarrow> load_data \<Rightarrow> load_data \<Rightarrow> page_property \<Rightarrow> bool" where
  "told protocolIs old new p = (case p of
       CanGoBack \<Rightarrow> d_canGoBack old \<noteq> d_canGoBack new
     | CanGoForward \<Rightarrow> d_canGoForward old \<noteq> d_canGoForward new
     | Title \<Rightarrow> d_title old \<noteq> d_title new \<or>
         d_titleFromSafeBrowsingWarning old \<noteq> d_titleFromSafeBrowsingWarning new
     | IsLoading \<Rightarrow> isLoading_data old \<noteq> isLoading_data new
     | ActiveURL \<Rightarrow> activeURL_data old \<noteq> activeURL_data new
     | HasOnlySecureContent \<Rightarrow> hasOnlySecureContent_data protocolIs old \<noteq> hasOnlySecureContent_data protocolIs new
     | NegotiatedLegacyTLS \<Rightarrow> d_negotiatedLegacyTLS old \<noteq> d_negotiatedLegacyTLS new
     | EstimatedProgress \<Rightarrow> estimatedProgress_data old \<noteq> estimatedProgress_data new
     | NetworkRequestsInProgress \<Rightarrow> d_networkRequestsInProgress old \<noteq> d_networkRequestsInProgress new
     | CertificateInfo \<Rightarrow> d_certificateInfo old \<noteq> d_certificateInfo new)"

definition will_order :: "page_property list" where
  "will_order = [CanGoBack, CanGoForward, Title, IsLoading, ActiveURL, HasOnlySecureContent,
     NegotiatedLegacyTLS, EstimatedProgress, NetworkRequestsInProgress, CertificateInfo]"

definition did_order :: "page_property list" where
  "did_order = [CertificateInfo, NetworkRequestsInProgress, EstimatedProgress, HasOnlySecureContent,
     NegotiatedLegacyTLS, ActiveURL, IsLoading, Title, CanGoForward, CanGoBack]"

text \<open>Committing is three phases: announce, commit, report.\<close>

definition notify ::
    "reaction \<Rightarrow> (page_property \<Rightarrow> observer_callback) \<Rightarrow> (page_property \<Rightarrow> bool) \<Rightarrow> page_property list \<Rightarrow>
     page_load_state \<Rightarrow> page_load_state" where
  "notify react callback changed = fold (\<lambda>p. callObserverIf react (changed p) (callback p))"

lemma commitChanges_phases:
  assumes "m_mayHaveUncommittedChanges st"
  shows "commitChanges protocolIs react st =
    (let changed = told protocolIs (m_committedState st) (m_uncommittedState st);
         st = notify react willChange changed will_order (st\<lparr>m_mayHaveUncommittedChanges := False\<rparr>);
         st = st\<lparr>m_committedState := m_uncommittedState st, pl_events := pl_events st @ [Page_isLoadingChanged]\<rparr> in
     notify react didChange changed did_order st)"
  using assms by (simp add: commitChanges_def notify_def will_order_def did_order_def told_def Let_def)

definition announcements ::
    "(page_property \<Rightarrow> observer_callback) \<Rightarrow> (page_property \<Rightarrow> bool) \<Rightarrow> observer list \<Rightarrow> page_property list \<Rightarrow> page_event list" where
  "announcements callback changed obs ps = concat (map (\<lambda>p. calls (changed p) (callback p) obs) ps)"

lemma notify_watch: "notify watch callback changed ps st =
    st\<lparr>pl_events := pl_events st @ announcements callback changed (m_observers st) ps\<rparr>"
  unfolding notify_def by (induction ps arbitrary: st) (simp_all add: announcements_def callObserverIf_watch)

lemma commitChanges_watch:
  assumes "m_mayHaveUncommittedChanges st"
  shows "m_committedState (commitChanges protocolIs watch st) = m_uncommittedState st"
    and "pl_events (commitChanges protocolIs watch st) = pl_events st @
      announcements willChange (told protocolIs (m_committedState st) (m_uncommittedState st)) (m_observers st) will_order @
      [Page_isLoadingChanged] @
      announcements didChange (told protocolIs (m_committedState st) (m_uncommittedState st)) (m_observers st) did_order"
  by (simp_all add: commitChanges_phases [OF assms] notify_watch Let_def)

lemma count_announcements:
  assumes "distinct obs" and "ob \<in> set obs" and "\<And>p q. callback p = callback q \<Longrightarrow> p = q" and "distinct ps"
  shows "count_list (announcements callback changed obs ps) (Called ob (callback p)) = (if p \<in> set ps \<and> changed p then 1 else 0)"
  using assms(4) unfolding announcements_def
  by (induction ps) (auto simp: assms(1,2) dest: assms(3))

lemma count_announcements_other:
  assumes "distinct obs" and "ob \<in> set obs" and "\<And>p. callback p \<noteq> callback'"
  shows "count_list (announcements callback changed obs ps) (Called ob callback') = 0"
  unfolding announcements_def by (induction ps) (auto simp: assms)

lemma in_orders: "p \<in> set will_order" "p \<in> set did_order" "distinct will_order" "distinct did_order"
  by (cases p; simp add: will_order_def did_order_def)+

lemma reading_told:
  assumes "m_committedState st' = m_uncommittedState st"
  shows "page_reading protocolIs st p \<noteq> page_reading protocolIs st' p \<Longrightarrow>
      told protocolIs (m_committedState st) (m_uncommittedState st) p"
    and "told protocolIs (m_committedState st) (m_uncommittedState st) p \<Longrightarrow> p \<noteq> Title \<Longrightarrow>
      page_reading protocolIs st p \<noteq> page_reading protocolIs st' p"
  using assms by (cases p; simp add: told_def canGoBack_def canGoForward_def page_title_def isLoading_def
      activeURL_def hasOnlySecureContent_def hasNegotiatedLegacyTLS_def estimatedProgress_def
      networkRequestsInProgress_def certificateInfo_def split: if_splits)+




subsection \<open>The course of a load\<close>

text \<open>Observers that only watch may still come and go.\<close>

definition observers_only_watch :: "reaction \<Rightarrow> bool" where
  "observers_only_watch react \<longleftrightarrow>
     (\<forall>ob callback st. \<exists>obs es. react ob callback st = st\<lparr>m_observers := obs, pl_events := es\<rparr>)"

text \<open>A state at rest between transactions, with its data and the last unreachable URL.\<close>

definition at_rest :: "load_data \<Rightarrow> wtf_string \<Rightarrow> page_load_state \<Rightarrow> bool" where
  "at_rest d unreachable st \<longleftrightarrow> m_committedState st = d \<and> m_uncommittedState st = d \<and>
     m_lastUnreachableURL st = unreachable \<and> m_outstandingTransactionCount st = 0 \<and>
     \<not> m_mayHaveUncommittedChanges st"

definition load_part :: "page_load_state \<Rightarrow> load_data \<times> load_data \<times> wtf_string \<times> bool \<times> u32" where
  "load_part st = (m_committedState st, m_uncommittedState st, m_lastUnreachableURL st,
     m_mayHaveUncommittedChanges st, m_outstandingTransactionCount st)"

lemma callObserverIf_load_part:
  assumes "observers_only_watch react"
  shows "load_part (callObserverIf react b callback st) = load_part st"
proof -
  have react: "load_part (react ob callback st) = load_part st" for ob st
  proof -
    obtain obs es where "react ob callback st = st\<lparr>m_observers := obs, pl_events := es\<rparr>"
      using assms unfolding observers_only_watch_def by blast
    then show ?thesis by (simp add: load_part_def)
  qed
  have events: "load_part (st'\<lparr>pl_events := es\<rparr>) = load_part st'" for st' es
    by (simp add: load_part_def)
  show ?thesis
    by (rule callObserverIf_keeps [of "\<lambda>s. load_part s = load_part st"]) (simp_all only: react events)
qed

lemma notify_load_part:
  "observers_only_watch react \<Longrightarrow> load_part (notify react callback changed ps st) = load_part st"
  unfolding notify_def by (induction ps arbitrary: st) (simp_all add: callObserverIf_load_part)

lemma commitChanges_load_part:
  assumes "observers_only_watch react" and "m_mayHaveUncommittedChanges st"
  shows "load_part (commitChanges protocolIs react st) = (m_uncommittedState st, m_uncommittedState st,
    m_lastUnreachableURL st, False, m_outstandingTransactionCount st)"
proof -
  let ?changed = "told protocolIs (m_committedState st) (m_uncommittedState st)"
  define st1 where "st1 = notify react willChange ?changed will_order (st\<lparr>m_mayHaveUncommittedChanges := False\<rparr>)"
  have "load_part st1 = load_part (st\<lparr>m_mayHaveUncommittedChanges := False\<rparr>)"
    unfolding st1_def by (rule notify_load_part [OF assms(1)])
  then have "load_part (st1\<lparr>m_committedState := m_uncommittedState st1, pl_events := es\<rparr>) =
      (m_uncommittedState st, m_uncommittedState st, m_lastUnreachableURL st, False, m_outstandingTransactionCount st)" for es
    by (simp add: load_part_def)
  then show ?thesis
    by (simp add: commitChanges_phases [OF assms(2)] Let_def notify_load_part [OF assms(1)] flip: st1_def)
qed

lemma transact_at_rest:
  assumes "observers_only_watch react" and "at_rest d l st"
  shows "at_rest (m_uncommittedState (page_op change st)) (m_lastUnreachableURL (page_op change st))
    (transact protocolIs react change st)"
proof -
  let ?st = "perform change (beginTransaction st)"
  let ?fin = "?st\<lparr>m_outstandingTransactionCount := 0\<rparr>"
  have data: "m_uncommittedState ?st = m_uncommittedState (page_op change st)"
    "m_lastUnreachableURL ?st = m_lastUnreachableURL (page_op change st)"
    by (cases change; simp add: perform_def beginTransaction_def page_op_defs)+
  have flags: "m_mayHaveUncommittedChanges ?fin" "m_outstandingTransactionCount ?st = 1"
    using assms(2) by (simp_all add: at_rest_def perform_def beginTransaction_def make_token_def frame_simps)
  have "transact protocolIs react change st = commitChanges protocolIs react ?fin"
    using flags(2) by (simp add: transact_def endTransaction_def)
  then show ?thesis
    using commitChanges_load_part [OF assms(1) flags(1), of protocolIs] data by (simp add: at_rest_def load_part_def)
qed


text \<open>A provisional load of a URL with the redirects it meets, each in a transaction of its own.\<close>

definition provisional_load ::
    "protocol_test \<Rightarrow> reaction \<Rightarrow> wtf_string \<Rightarrow> wtf_string list \<Rightarrow> page_load_state \<Rightarrow> page_load_state" where
  "provisional_load protocolIs react url redirects st =
     fold (\<lambda>r. transact protocolIs react (PC_didReceiveServerRedirect r)) redirects
       (transact protocolIs react (PC_didStartProvisionalLoad url None) st)"

lemma redirects_at_rest:
  assumes "observers_only_watch react"
  shows "at_rest d l st \<Longrightarrow> at_rest (d\<lparr>d_provisionalURL := last (d_provisionalURL d # redirects)\<rparr>) l
    (fold (\<lambda>r. transact protocolIs react (PC_didReceiveServerRedirect r)) redirects st)"
proof (induction redirects arbitrary: d st)
  case Nil
  then show ?case by simp
next
  case (Cons r redirects)
  have "at_rest (d\<lparr>d_provisionalURL := r\<rparr>) l (transact protocolIs react (PC_didReceiveServerRedirect r) st)"
    using transact_at_rest [OF assms Cons.prems, of "PC_didReceiveServerRedirect r" protocolIs] Cons.prems
    by (simp add: at_rest_def page_op_defs)
  from Cons.IH [OF this] show ?case by simp
qed

lemma provisional_at_rest:
  assumes "observers_only_watch react" and "at_rest d l st"
  shows "at_rest (d\<lparr>d_state := Provisional, d_unreachableURL := None, d_provisionalURL := last (url # redirects)\<rparr>)
    (d_unreachableURL d) (provisional_load protocolIs react url redirects st)"
proof -
  have "at_rest (d\<lparr>d_state := Provisional, d_provisionalURL := url, d_unreachableURL := None\<rparr>) (d_unreachableURL d)
      (transact protocolIs react (PC_didStartProvisionalLoad url None) st)"
    using transact_at_rest [OF assms, of "PC_didStartProvisionalLoad url None" protocolIs] assms(2)
    by (simp add: at_rest_def page_op_defs)
  from redirects_at_rest [OF assms(1) this, of redirects protocolIs] show ?thesis
    by (simp add: provisional_load_def split del: if_split)
qed

text \<open>A load shows the URL it ends at: while it is provisional the page is loading and shows the
  last redirect; once committed it shows the same URL, without the title of the page before; once
  finished the page is no longer loading and still shows that URL. If it fails before it is committed
  the page shows again what it showed before, an unreachable URL included.\<close>

theorem load_lifecycle:
  assumes "observers_only_watch react" and "at_rest d l st" and "req_url (d_pendingAPIRequest d) = None"
    and "d_state d \<noteq> Provisional" and "p = provisional_load protocolIs react url redirects st"
    and "c = transact protocolIs react (PC_didCommitLoad certificate insecure legacyTLS) p"
    and "f = transact protocolIs react PC_didFinishLoad c"
    and "e = transact protocolIs react PC_didFailProvisionalLoad p"
  shows "isProvisional p \<and> isLoading p \<and> activeURL p = last (url # redirects) \<and>
      isCommitted c \<and> isLoading c \<and> activeURL c = last (url # redirects) \<and> page_title c = None \<and>
      certificateInfo c = Some certificate \<and> hasNegotiatedLegacyTLS c = legacyTLS \<and>
      isFinished f \<and> \<not> isLoading f \<and> activeURL f = last (url # redirects) \<and>
      isFinished e \<and> \<not> isLoading e \<and> activeURL e = activeURL st"
proof -
  define shown where "shown = last (url # redirects)"
  have p: "at_rest (d\<lparr>d_state := Provisional, d_unreachableURL := None, d_provisionalURL := shown\<rparr>) (d_unreachableURL d) p"
    unfolding assms(5) shown_def by (rule provisional_at_rest [OF assms(1,2)])
  have c: "at_rest (m_uncommittedState (page_op (PC_didCommitLoad certificate insecure legacyTLS) p))
      (m_lastUnreachableURL (page_op (PC_didCommitLoad certificate insecure legacyTLS) p)) c"
    unfolding assms(6) by (rule transact_at_rest [OF assms(1) p])
  have f: "at_rest (m_uncommittedState (page_op PC_didFinishLoad c)) (m_lastUnreachableURL (page_op PC_didFinishLoad c)) f"
    unfolding assms(7) by (rule transact_at_rest [OF assms(1) c])
  have e: "at_rest (m_uncommittedState (page_op PC_didFailProvisionalLoad p)) (m_lastUnreachableURL (page_op PC_didFailProvisionalLoad p)) e"
    unfolding assms(8) by (rule transact_at_rest [OF assms(1) p])
  note getters = isProvisional_def isCommitted_def isFinished_def isLoading_def isLoading_data_def activeURL_def
    activeURL_data_def page_title_def certificateInfo_def hasNegotiatedLegacyTLS_def wtf_isEmpty_def
  have "isProvisional p \<and> isLoading p \<and> activeURL p = shown"
    using p assms(3) by (simp add: at_rest_def getters)
  moreover have "isCommitted c \<and> isLoading c \<and> activeURL c = shown \<and> page_title c = None \<and>
      certificateInfo c = Some certificate \<and> hasNegotiatedLegacyTLS c = legacyTLS"
    using p c assms(3) by (simp add: at_rest_def getters page_op_defs)
  moreover have "isFinished f \<and> \<not> isLoading f \<and> activeURL f = shown"
    using p c f assms(3) by (simp add: at_rest_def getters page_op_defs)
  moreover have "isFinished e \<and> \<not> isLoading e \<and> activeURL e = activeURL st"
    using p e assms(2-4) by (cases "d_state d") (simp_all add: at_rest_def getters page_op_defs)
  ultimately show ?thesis unfolding shown_def by blast
qed

lemma watch_only_watches: "observers_only_watch watch"
  unfolding observers_only_watch_def watch_def by (metis page_load_state.surjective page_load_state.update_convs(1,7))

theorem load_lifecycle_witness:
  "activeURL (provisional_load (\<lambda>u p. False) watch (Some ''http://a'') [Some ''https://a'', Some ''https://b''] PageLoadState_new) = Some ''https://b''"
proof -
  have "at_rest Data_new None PageLoadState_new" by (simp add: at_rest_def PageLoadState_new_def)
  moreover have "req_url (d_pendingAPIRequest Data_new) = None" "d_state Data_new \<noteq> Provisional"
    by (simp_all add: Data_new_def PendingAPIRequest_empty_def)
  ultimately show ?thesis
    using load_lifecycle [OF watch_only_watches _ _ _ refl refl refl refl, of Data_new None PageLoadState_new
        "\<lambda>u p. False" "Some ''http://a''" "[Some ''https://a'', Some ''https://b'']"] by simp
qed

text \<open>The announcements and the reports of a commit do not nest: with the security of the content and
  the version of TLS both changing, an observer is told that they will change in one order and that they
  did in the same order, not in the reverse.\<close>

lemma notifications_do_not_nest:
  "pl_events (commitChanges (\<lambda>u p. u = Some ''https://a'') watch
     (perform PC_negotiatedLegacyTLS (perform (PC_didExplicitOpen (Some ''https://a'')) (addObserver 7 PageLoadState_new)))) =
   [Called 7 (willChange ActiveURL), Called 7 (willChange HasOnlySecureContent), Called 7 (willChange NegotiatedLegacyTLS),
    Page_isLoadingChanged,
    Called 7 (didChange HasOnlySecureContent), Called 7 (didChange NegotiatedLegacyTLS), Called 7 (didChange ActiveURL)]"
  by code_simp

end
