(* ===== verification/Storage_Database.thy ===== *)
theory Storage_Database
  imports WK_Prelude
begin

text \<open>
  The database behind local storage, \<^verbatim>\<open>LocalStorageDatabase\<close> (src/NetworkProcess/WebStorage). Changes
  are collected and written later, at most 100 at a time. SQLite is an argument: its operations on the
  file \<open>'d\<close> of the database, with the statements of the source as strings; \<open>sqlite_works\<close> is
  what they are documented to do. WebCore's \<^verbatim>\<open>StorageMap\<close> is an argument as well.
  The order in which a hash table is visited is the order of the association list.
\<close>

subsection \<open>What the database is built on\<close>

record 'd sqlite =
  fileExists :: "'d \<Rightarrow> bool"
  sqlite_open :: "'d \<Rightarrow> bool \<times> 'd"
  sqlite_close :: "'d \<Rightarrow> 'd"
  executeCommand :: "string \<Rightarrow> 'd \<Rightarrow> bool \<times> 'd"
  tableExists :: "string \<Rightarrow> 'd \<Rightarrow> bool"
  isColumnDeclaredAsBlob :: "string \<Rightarrow> nat \<Rightarrow> 'd \<Rightarrow> bool"
  transaction_begin :: "'d \<Rightarrow> 'd"
  transaction_commit :: "'d \<Rightarrow> 'd"
  transaction_rollback :: "'d \<Rightarrow> 'd"
  statement_prepare :: "string \<Rightarrow> 'd \<Rightarrow> bool"
  statement_step :: "string \<Rightarrow> wtf_string list \<Rightarrow> 'd \<Rightarrow> bool \<times> 'd"
  statement_rows :: "string \<Rightarrow> 'd \<Rightarrow> (wtf_string \<times> wtf_string) list \<times> bool"
  statement_count :: "string \<Rightarrow> 'd \<Rightarrow> nat option"
  deleteDatabaseFile :: "'d \<Rightarrow> 'd"

text \<open>
  \<^verbatim>\<open>StorageMap\<close>: \<open>setItem\<close> and \<open>removeItem\<close> return the map, the old value and, for \<open>setItem\<close>, whether the
  quota is exceeded. Its items are listed in the order a visit of the table meets them; a value may be null.
\<close>

type_synonym items = "(string \<times> wtf_string) list"

record 'm storage_map =
  StorageMap_create :: "u32 \<Rightarrow> 'm"
  sm_items :: "'m \<Rightarrow> items"
  sm_length :: "'m \<Rightarrow> nat"
  sm_key :: "'m \<Rightarrow> u32 \<Rightarrow> wtf_string"
  sm_setItem :: "'m \<Rightarrow> string \<Rightarrow> wtf_string \<Rightarrow> 'm \<times> wtf_string \<times> bool"
  sm_setItemIgnoringQuota :: "'m \<Rightarrow> string \<Rightarrow> wtf_string \<Rightarrow> 'm"
  sm_removeItem :: "'m \<Rightarrow> string \<Rightarrow> 'm \<times> wtf_string"
  sm_importItems :: "'m \<Rightarrow> items \<Rightarrow> 'm"

definition sm_table :: "('m, 'z) storage_map_scheme \<Rightarrow> 'm \<Rightarrow> (string \<rightharpoonup> wtf_string)" where
  "sm_table S m = map_of (sm_items S m)"

definition sm_getItem :: "('m, 'z) storage_map_scheme \<Rightarrow> 'm \<Rightarrow> string \<Rightarrow> wtf_string" where
  "sm_getItem S m k = (case sm_table S m k of None \<Rightarrow> None | Some v \<Rightarrow> v)"

definition sm_contains :: "('m, 'z) storage_map_scheme \<Rightarrow> 'm \<Rightarrow> string \<Rightarrow> bool" where
  "sm_contains S m k \<longleftrightarrow> sm_table S m k \<noteq> None"

subsection \<open>The database\<close>

datatype DatabaseOpeningStrategy = CreateIfNonExistent | SkipIfNonExistent

record local_db =
  db_databasePath :: wtf_string
  db_isOpen :: bool
  db_failedToOpenDatabase :: bool
  db_didImportItems :: bool
  db_isClosed :: bool
  db_didScheduleDatabaseUpdate :: bool
  db_shouldClearItems :: bool
  db_changedItems :: "(string \<times> wtf_string) list"
  db_suddenTerminationDisabled :: bool
  db_queuedUpdates :: nat

definition LocalStorageDatabase_new :: "wtf_string \<Rightarrow> local_db" where
  "LocalStorageDatabase_new path = \<lparr>db_databasePath = path, db_isOpen = False,
     db_failedToOpenDatabase = False, db_didImportItems = False, db_isClosed = False,
     db_didScheduleDatabaseUpdate = False, db_shouldClearItems = False, db_changedItems = [],
     db_suddenTerminationDisabled = False, db_queuedUpdates = 0\<rparr>"

definition maximumItemsToUpdate :: nat where
  "maximumItemsToUpdate = 100"

definition migrate_commands :: "string list" where
  "migrate_commands = [
     ''DROP TABLE IF EXISTS ItemTable2'',
     ''CREATE TABLE ItemTable2 (key TEXT UNIQUE ON CONFLICT REPLACE, value BLOB NOT NULL ON CONFLICT FAIL)'',
     ''INSERT INTO ItemTable2 SELECT * from ItemTable'',
     ''DROP TABLE ItemTable'',
     ''ALTER TABLE ItemTable2 RENAME TO ItemTable'']"

definition create_command :: string where
  "create_command = ''CREATE TABLE IF NOT EXISTS ItemTable (key TEXT UNIQUE ON CONFLICT REPLACE, value BLOB NOT NULL ON CONFLICT FAIL)''"

primrec execute_all :: "'d sqlite \<Rightarrow> string list \<Rightarrow> 'd \<Rightarrow> bool \<times> 'd" where
  "execute_all Q [] d = (True, d)"
| "execute_all Q (command # commands) d =
     (case executeCommand Q command d of
        (True, d) \<Rightarrow> execute_all Q commands d
      | (False, d) \<Rightarrow> (False, d))"

definition migrateItemTableIfNeeded :: "'d sqlite \<Rightarrow> 'd \<Rightarrow> bool \<times> 'd" where
  "migrateItemTableIfNeeded Q d =
     (if \<not> tableExists Q ''ItemTable'' d then (True, d)
      else if isColumnDeclaredAsBlob Q ''SELECT value FROM ItemTable LIMIT 1'' 0 d then (True, d)
      else
        (case execute_all Q migrate_commands (transaction_begin Q d) of
           (False, d) \<Rightarrow> (False, transaction_rollback Q d)
         | (True, d) \<Rightarrow> (True, transaction_commit Q d)))"

definition tryToOpenDatabase ::
    "'d sqlite \<Rightarrow> DatabaseOpeningStrategy \<Rightarrow> local_db \<times> 'd \<Rightarrow> bool \<times> local_db \<times> 'd" where
  "tryToOpenDatabase Q openingStrategy s =
     (let (db, d) = s in
      if \<not> fileExists Q d \<and> openingStrategy = SkipIfNonExistent then (True, db, d)
      else if wtf_isEmpty (db_databasePath db) then (False, db, d)
      else case sqlite_open Q d of
        (False, d) \<Rightarrow> (False, db, d)
      | (True, d) \<Rightarrow>
          (let db = db\<lparr>db_isOpen := True\<rparr>;
               (migrated, d) = migrateItemTableIfNeeded Q d;
               d = (if migrated then d else snd (executeCommand Q ''DROP TABLE ItemTable'' d));
               (created, d) = executeCommand Q create_command d in
           (created, db, d)))"

definition openDatabase :: "'d sqlite \<Rightarrow> DatabaseOpeningStrategy \<Rightarrow> local_db \<times> 'd \<Rightarrow> local_db \<times> 'd" where
  "openDatabase Q openingStrategy s =
     (case tryToOpenDatabase Q openingStrategy s of
        (False, db, d) \<Rightarrow> (db\<lparr>db_failedToOpenDatabase := True\<rparr>, d)
      | (True, db, d) \<Rightarrow> (db, d))"

definition addRow :: "wtf_string \<times> wtf_string \<Rightarrow> items \<Rightarrow> items" where
  "addRow row items =
     (case row of
        (Some key, Some value) \<Rightarrow> if map_of items key = None then items @ [(key, Some value)] else items
      | _ \<Rightarrow> items)"

definition importItems ::
    "'m storage_map \<Rightarrow> 'd sqlite \<Rightarrow> 'm \<Rightarrow> local_db \<times> 'd \<Rightarrow> 'm \<times> local_db \<times> 'd" where
  "importItems S Q storageMap s =
     (let (db, d) = s in
      if db_didImportItems db then (storageMap, db, d)
      else
        (let (db, d) = openDatabase Q SkipIfNonExistent (db\<lparr>db_didImportItems := True\<rparr>, d) in
         if \<not> db_isOpen db then (storageMap, db, d)
         else if \<not> statement_prepare Q ''SELECT key, value FROM ItemTable'' d then (storageMap, db, d)
         else
           (let (rows, done) = statement_rows Q ''SELECT key, value FROM ItemTable'' d in
            if \<not> done then (storageMap, db, d)
            else (sm_importItems S storageMap (fold addRow rows []), db, d))))"

definition scheduleDatabaseUpdate :: "local_db \<Rightarrow> local_db" where
  "scheduleDatabaseUpdate db =
     (if db_didScheduleDatabaseUpdate db then db
      else db\<lparr>db_suddenTerminationDisabled := True, db_didScheduleDatabaseUpdate := True,
              db_queuedUpdates := db_queuedUpdates db + 1\<rparr>)"

definition itemDidChange :: "string \<Rightarrow> wtf_string \<Rightarrow> local_db \<Rightarrow> local_db" where
  "itemDidChange key value db =
     scheduleDatabaseUpdate (db\<lparr>db_changedItems := AList.update key value (db_changedItems db)\<rparr>)"

definition db_setItem :: "string \<Rightarrow> wtf_string \<Rightarrow> local_db \<Rightarrow> local_db" where
  "db_setItem key value = itemDidChange key value"

definition db_removeItem :: "string \<Rightarrow> local_db \<Rightarrow> local_db" where
  "db_removeItem key = itemDidChange key None"

definition db_clear :: "local_db \<Rightarrow> local_db" where
  "db_clear db = scheduleDatabaseUpdate (db\<lparr>db_changedItems := [], db_shouldClearItems := True\<rparr>)"

definition clear_statement :: string where
  "clear_statement = ''DELETE FROM ItemTable''"

definition insert_statement :: string where
  "insert_statement = ''INSERT INTO ItemTable VALUES (?, ?)''"

definition delete_statement :: string where
  "delete_statement = ''DELETE FROM ItemTable WHERE key=?''"

primrec writeItems :: "'d sqlite \<Rightarrow> (string \<times> wtf_string) list \<Rightarrow> 'd \<Rightarrow> 'd" where
  "writeItems Q [] d = d"
| "writeItems Q (item # changedItems) d =
     (case (case snd item of
              None \<Rightarrow> statement_step Q delete_statement [Some (fst item)] d
            | Some value \<Rightarrow> statement_step Q insert_statement [Some (fst item), Some value] d) of
        (True, d) \<Rightarrow> writeItems Q changedItems d
      | (False, d) \<Rightarrow> d)"

definition clearItems :: "'d sqlite \<Rightarrow> local_db \<times> 'd \<Rightarrow> bool \<times> local_db \<times> 'd" where
  "clearItems Q s =
     (let (db, d) = s in
      if \<not> db_shouldClearItems db then (True, db, d)
      else
        (let db = db\<lparr>db_shouldClearItems := False\<rparr> in
         if \<not> statement_prepare Q clear_statement d then (False, db, d)
         else case statement_step Q clear_statement [] d of (result, d) \<Rightarrow> (result, db, d)))"

definition updateDatabaseWithChangedItems ::
    "'d sqlite \<Rightarrow> (string \<times> wtf_string) list \<Rightarrow> local_db \<times> 'd \<Rightarrow> local_db \<times> 'd" where
  "updateDatabaseWithChangedItems Q changedItems s =
     (let (db, d) = (if \<not> db_isOpen (fst s) then openDatabase Q CreateIfNonExistent s else s) in
      if \<not> db_isOpen db then (db, d)
      else case clearItems Q (db, d) of
        (False, db, d) \<Rightarrow> (db, d)
      | (True, db, d) \<Rightarrow>
          if \<not> statement_prepare Q insert_statement d then (db, d)
          else if \<not> statement_prepare Q delete_statement d then (db, d)
          else (db, transaction_commit Q (writeItems Q changedItems (transaction_begin Q d))))"

definition updateDatabase :: "'d sqlite \<Rightarrow> local_db \<times> 'd \<Rightarrow> local_db \<times> 'd" where
  "updateDatabase Q s =
     (let (db, d) = s in
      if db_isClosed db then (db, d)
      else
        (let db = db\<lparr>db_didScheduleDatabaseUpdate := False\<rparr> in
         if length (db_changedItems db) \<le> maximumItemsToUpdate
         then (let changedItems = db_changedItems db;
                   (db, d) = updateDatabaseWithChangedItems Q changedItems (db\<lparr>db_changedItems := []\<rparr>, d) in
               (db\<lparr>db_suddenTerminationDisabled := False\<rparr>, d))
         else (let changedItems = take maximumItemsToUpdate (db_changedItems db);
                   db = scheduleDatabaseUpdate
                     (db\<lparr>db_changedItems := drop maximumItemsToUpdate (db_changedItems db)\<rparr>) in
               updateDatabaseWithChangedItems Q changedItems (db, d))))"

text \<open>The work queue runs an update that was posted to it.\<close>

definition runQueuedUpdate :: "'d sqlite \<Rightarrow> local_db \<times> 'd \<Rightarrow> local_db \<times> 'd" where
  "runQueuedUpdate Q s =
     (let (db, d) = s in
      if db_queuedUpdates db = 0 then (db, d)
      else updateDatabase Q (db\<lparr>db_queuedUpdates := db_queuedUpdates db - 1\<rparr>, d))"

definition databaseIsEmpty :: "'d sqlite \<Rightarrow> local_db \<times> 'd \<Rightarrow> bool" where
  "databaseIsEmpty Q s =
     (let (db, d) = s in
      if \<not> db_isOpen db then False
      else if \<not> statement_prepare Q ''SELECT COUNT(*) FROM ItemTable'' d then False
      else case statement_count Q ''SELECT COUNT(*) FROM ItemTable'' d of None \<Rightarrow> False | Some n \<Rightarrow> n = 0)"

definition deleteDatabaseWithOrigin :: "'d sqlite \<Rightarrow> wtf_string \<Rightarrow> 'd \<Rightarrow> 'd" where
  "deleteDatabaseWithOrigin Q path d = (if \<not> wtf_isEmpty path then deleteDatabaseFile Q d else d)"

definition db_close :: "'d sqlite \<Rightarrow> local_db \<times> 'd \<Rightarrow> local_db \<times> 'd" where
  "db_close Q s =
     (let (db, d) = s in
      if db_isClosed db then (db, d)
      else
        (let db = db\<lparr>db_isClosed := True\<rparr>;
             (db, d) = (if db_didScheduleDatabaseUpdate db
               then (let (db, d) = updateDatabaseWithChangedItems Q (db_changedItems db) (db, d) in
                     (db\<lparr>db_changedItems := []\<rparr>, d))
               else (db, d));
             isEmpty = databaseIsEmpty Q (db, d);
             (db, d) = (if db_isOpen db then (db\<lparr>db_isOpen := False\<rparr>, sqlite_close Q d) else (db, d)) in
         (db, if isEmpty then deleteDatabaseWithOrigin Q (db_databasePath db) d else d)))"

subsection \<open>Writing behind\<close>

text \<open>What SQLite is documented to do, on the rows of the table of items.\<close>

definition sqlite_works :: "'d sqlite \<Rightarrow> ('d \<Rightarrow> (string \<rightharpoonup> string)) \<Rightarrow> bool" where
  "sqlite_works Q table \<longleftrightarrow> (\<forall>d.
     (\<not> fileExists Q d \<longrightarrow> table d = Map.empty) \<and>
     (\<exists>d'. sqlite_open Q d = (True, d') \<and> table d' = table d) \<and>
     table (sqlite_close Q d) = table d \<and>
     (tableExists Q ''ItemTable'' d \<longrightarrow> isColumnDeclaredAsBlob Q ''SELECT value FROM ItemTable LIMIT 1'' 0 d) \<and>
     (\<exists>d'. executeCommand Q create_command d = (True, d') \<and> table d' = table d) \<and>
     table (transaction_begin Q d) = table d \<and> table (transaction_commit Q d) = table d \<and>
     (\<forall>sql. statement_prepare Q sql d) \<and>
     (\<exists>d'. statement_step Q clear_statement [] d = (True, d') \<and> table d' = Map.empty) \<and>
     (\<forall>k v. \<exists>d'. statement_step Q insert_statement [Some k, Some v] d = (True, d') \<and> table d' = (table d)(k \<mapsto> v)) \<and>
     (\<forall>k. \<exists>d'. statement_step Q delete_statement [Some k] d = (True, d') \<and> table d' = (table d)(k := None)) \<and>
     (\<exists>rows. statement_rows Q ''SELECT key, value FROM ItemTable'' d = (rows, True) \<and>
        map_of (fold addRow rows []) = map_option Some \<circ> table d) \<and>
     (\<exists>n. statement_count Q ''SELECT COUNT(*) FROM ItemTable'' d = Some n \<and> (n = 0 \<longleftrightarrow> table d = Map.empty)) \<and>
     table (deleteDatabaseFile Q d) = Map.empty)"

lemma sqlite_worksD:
  assumes "sqlite_works Q table"
  shows "\<not> fileExists Q d \<Longrightarrow> table d = Map.empty"
    "\<exists>d'. sqlite_open Q d = (True, d') \<and> table d' = table d"
    "table (sqlite_close Q d) = table d"
    "tableExists Q ''ItemTable'' d \<Longrightarrow> isColumnDeclaredAsBlob Q ''SELECT value FROM ItemTable LIMIT 1'' 0 d"
    "\<exists>d'. executeCommand Q create_command d = (True, d') \<and> table d' = table d"
    "table (transaction_begin Q d) = table d" "table (transaction_commit Q d) = table d"
    "statement_prepare Q sql d"
    "\<exists>d'. statement_step Q clear_statement [] d = (True, d') \<and> table d' = Map.empty"
    "\<exists>d'. statement_step Q insert_statement [Some k, Some v] d = (True, d') \<and> table d' = (table d)(k \<mapsto> v)"
    "\<exists>d'. statement_step Q delete_statement [Some k] d = (True, d') \<and> table d' = (table d)(k := None)"
    "\<exists>rows. statement_rows Q ''SELECT key, value FROM ItemTable'' d = (rows, True) \<and>
        map_of (fold addRow rows []) = map_option Some \<circ> table d"
    "\<exists>n. statement_count Q ''SELECT COUNT(*) FROM ItemTable'' d = Some n \<and> (n = 0 \<longleftrightarrow> table d = Map.empty)"
    "table (deleteDatabaseFile Q d) = Map.empty"
  using assms unfolding sqlite_works_def by blast+

text \<open>Changes laid over the rows of a table; a null value removes the key.\<close>

definition overlay :: "(string \<times> wtf_string) list \<Rightarrow> (string \<rightharpoonup> string) \<Rightarrow> (string \<rightharpoonup> string)" where
  "overlay changes base k = (case map_of changes k of None \<Rightarrow> base k | Some v \<Rightarrow> v)"

lemma overlay_Nil [simp]: "overlay [] base = base"
  by (rule ext) (simp add: overlay_def)

lemma overlay_Cons: "k \<notin> fst ` set changes \<Longrightarrow> overlay ((k, v) # changes) base = overlay changes (base(k := v))"
proof (rule ext)
  fix x
  assume "k \<notin> fst ` set changes"
  then have "map_of changes k = None" by (simp add: map_of_eq_None_iff)
  then show "overlay ((k, v) # changes) base x = overlay changes (base(k := v)) x"
    by (simp add: overlay_def split: option.split)
qed

lemma overlay_append:
  "distinct (map fst (xs @ ys)) \<Longrightarrow> overlay (xs @ ys) base = overlay ys (overlay xs base)"
proof (induction xs arbitrary: base)
  case (Cons x xs)
  obtain a b where x: "x = (a, b)" by (cases x)
  have "a \<notin> fst ` set (xs @ ys)" using Cons.prems x by auto
  then have "overlay (x # xs @ ys) base = overlay (xs @ ys) (base(a := b))" unfolding x by (rule overlay_Cons)
  also have "\<dots> = overlay ys (overlay xs (base(a := b)))" using Cons by simp
  also have "overlay xs (base(a := b)) = overlay (x # xs) base"
    unfolding x by (rule overlay_Cons [symmetric]) (use Cons.prems x in auto)
  finally show ?case by simp
qed simp

lemma overlay_update: "overlay (AList.update k v changes) base = (overlay changes base)(k := v)"
  by (rule ext) (simp add: overlay_def update_conv')

definition db_view :: "('d \<Rightarrow> (string \<rightharpoonup> string)) \<Rightarrow> local_db \<times> 'd \<Rightarrow> (string \<rightharpoonup> string)" where
  "db_view table s =
     overlay (db_changedItems (fst s)) (if db_shouldClearItems (fst s) then Map.empty else table (snd s))"

text \<open>Unwritten changes have an update scheduled, and a scheduled update is on the queue.\<close>

definition open_db :: "local_db \<Rightarrow> bool" where
  "open_db db \<longleftrightarrow> \<not> wtf_isEmpty (db_databasePath db) \<and> \<not> db_isClosed db \<and>
     distinct (map fst (db_changedItems db)) \<and>
     (db_changedItems db \<noteq> [] \<or> db_shouldClearItems db \<longrightarrow> db_didScheduleDatabaseUpdate db)"

definition wf_db :: "local_db \<Rightarrow> bool" where
  "wf_db db \<longleftrightarrow> open_db db \<and> (db_didScheduleDatabaseUpdate db \<longrightarrow> db_queuedUpdates db > 0)"

lemma openDatabase_works:
  assumes "sqlite_works Q table" and "\<not> wtf_isEmpty (db_databasePath db)"
    and "strategy = CreateIfNonExistent \<or> fileExists Q d"
  shows "\<exists>d'. openDatabase Q strategy (db, d) = (db\<lparr>db_isOpen := True\<rparr>, d') \<and> table d' = table d"
proof -
  note works = sqlite_worksD [OF assms(1)]
  obtain d1 where d1: "sqlite_open Q d = (True, d1)" "table d1 = table d" using works(2) by blast
  obtain d2 where d2: "executeCommand Q create_command d1 = (True, d2)" "table d2 = table d1" using works(5) by blast
  have "migrateItemTableIfNeeded Q d1 = (True, d1)"
    using works(4) [of d1] by (simp add: migrateItemTableIfNeeded_def)
  then show ?thesis
    using assms(2,3) d1 d2 by (auto simp: openDatabase_def tryToOpenDatabase_def)
qed

lemma writeItems_table:
  assumes "sqlite_works Q table"
  shows "distinct (map fst items) \<Longrightarrow> table (writeItems Q items d) = overlay items (table d)"
proof (induction items arbitrary: d)
  case (Cons item items)
  obtain k v where item: "item = (k, v)" by (cases item)
  obtain d' where "(case v of None \<Rightarrow> statement_step Q delete_statement [Some k] d
      | Some value \<Rightarrow> statement_step Q insert_statement [Some k, Some value] d) = (True, d')"
    "table d' = (table d)(k := v)"
    using sqlite_worksD(10) [OF assms, of k _ d] sqlite_worksD(11) [OF assms, of k d] by (cases v) force+
  then show ?case using Cons item by (cases v) (simp_all add: overlay_Cons)
qed simp

lemma clearItems_works:
  assumes "sqlite_works Q table"
  shows "\<exists>d'. clearItems Q (db, d) = (True, db\<lparr>db_shouldClearItems := False\<rparr>, d') \<and>
    table d' = (if db_shouldClearItems db then Map.empty else table d)"
proof (cases "db_shouldClearItems db")
  case True
  obtain d' where "statement_step Q clear_statement [] d = (True, d')" "table d' = Map.empty"
    using sqlite_worksD(9) [OF assms] by blast
  then show ?thesis using True sqlite_worksD(8) [OF assms] by (simp add: clearItems_def)
next
  case False
  then have "db\<lparr>db_shouldClearItems := False\<rparr> = db" by simp
  then show ?thesis using False by (simp add: clearItems_def)
qed

lemma updateDatabaseWithChangedItems_works:
  assumes "sqlite_works Q table" and "\<not> wtf_isEmpty (db_databasePath db)" and "distinct (map fst items)"
  shows "\<exists>d'. updateDatabaseWithChangedItems Q items (db, d) =
      (db\<lparr>db_isOpen := True, db_shouldClearItems := False\<rparr>, d') \<and>
    table d' = overlay items (if db_shouldClearItems db then Map.empty else table d)"
proof -
  obtain d1 where d1: "(if \<not> db_isOpen db then openDatabase Q CreateIfNonExistent (db, d) else (db, d)) =
      (db\<lparr>db_isOpen := True\<rparr>, d1)" "table d1 = table d"
    using openDatabase_works [OF assms(1,2), of CreateIfNonExistent d] by (cases "db_isOpen db") auto
  obtain d2 where d2: "clearItems Q (db\<lparr>db_isOpen := True\<rparr>, d1) = (True, db\<lparr>db_isOpen := True, db_shouldClearItems := False\<rparr>, d2)"
    "table d2 = (if db_shouldClearItems db then Map.empty else table d1)"
    using clearItems_works [OF assms(1), of "db\<lparr>db_isOpen := True\<rparr>" d1] by auto
  have "table (transaction_commit Q (writeItems Q items (transaction_begin Q d2))) = overlay items (table d2)"
    using writeItems_table [OF assms(1,3)] sqlite_worksD(6,7) [OF assms(1)] by simp
  then show ?thesis
    using d1 d2 sqlite_worksD(8) [OF assms(1)]
    by (simp add: updateDatabaseWithChangedItems_def Let_def split del: if_split cong: if_cong)
qed


lemma scheduleDatabaseUpdate_fields [simp]:
  "db_changedItems (scheduleDatabaseUpdate db) = db_changedItems db"
  "db_shouldClearItems (scheduleDatabaseUpdate db) = db_shouldClearItems db"
  "db_databasePath (scheduleDatabaseUpdate db) = db_databasePath db"
  "db_isClosed (scheduleDatabaseUpdate db) = db_isClosed db"
  "db_didScheduleDatabaseUpdate (scheduleDatabaseUpdate db)"
  "db_didImportItems (scheduleDatabaseUpdate db) = db_didImportItems db"
  by (simp_all add: scheduleDatabaseUpdate_def)

lemma schedule_queued [simp]:
  "(db_didScheduleDatabaseUpdate db \<longrightarrow> db_queuedUpdates db > 0) \<Longrightarrow> db_queuedUpdates (scheduleDatabaseUpdate db) > 0"
  by (simp add: scheduleDatabaseUpdate_def)

lemma updateDatabase_works:
  assumes "sqlite_works Q table" and "open_db db"
  shows "wf_db (fst (updateDatabase Q (db, d))) \<and> \<not> db_shouldClearItems (fst (updateDatabase Q (db, d))) \<and> db_view table (updateDatabase Q (db, d)) = db_view table (db, d) \<and>
    length (db_changedItems (fst (updateDatabase Q (db, d)))) = length (db_changedItems db) - maximumItemsToUpdate"
proof (cases "length (db_changedItems db) \<le> maximumItemsToUpdate")
  case True
  have path: "\<not> wtf_isEmpty (db_databasePath db)" "distinct (map fst (db_changedItems db))" "\<not> db_isClosed db"
    using assms(2) by (auto simp: open_db_def)
  let ?db = "db\<lparr>db_didScheduleDatabaseUpdate := False, db_changedItems := []\<rparr>"
  obtain d' where "updateDatabaseWithChangedItems Q (db_changedItems db) (?db, d) =
      (?db\<lparr>db_isOpen := True, db_shouldClearItems := False\<rparr>, d')"
    "table d' = overlay (db_changedItems db) (if db_shouldClearItems db then Map.empty else table d)"
    using updateDatabaseWithChangedItems_works [OF assms(1), of ?db "db_changedItems db" d] path by auto
  then show ?thesis
    using True path by (simp add: updateDatabase_def wf_db_def open_db_def db_view_def)
next
  case False
  let ?n = maximumItemsToUpdate
  have path: "\<not> wtf_isEmpty (db_databasePath db)" "distinct (map fst (db_changedItems db))" "\<not> db_isClosed db"
    using assms(2) by (auto simp: open_db_def)
  let ?db = "scheduleDatabaseUpdate (db\<lparr>db_didScheduleDatabaseUpdate := False, db_changedItems := drop ?n (db_changedItems db)\<rparr>)"
  have parts: "distinct (map fst (take ?n (db_changedItems db)))" "distinct (map fst (drop ?n (db_changedItems db)))"
    using path(2) by (simp_all flip: take_map drop_map)
  obtain d' where d': "updateDatabaseWithChangedItems Q (take ?n (db_changedItems db)) (?db, d) =
      (?db\<lparr>db_isOpen := True, db_shouldClearItems := False\<rparr>, d')"
    "table d' = overlay (take ?n (db_changedItems db)) (if db_shouldClearItems db then Map.empty else table d)"
    using updateDatabaseWithChangedItems_works [OF assms(1), of ?db "take ?n (db_changedItems db)" d] path parts(1) by auto
  have "overlay (drop ?n (db_changedItems db)) (table d') =
      overlay (db_changedItems db) (if db_shouldClearItems db then Map.empty else table d)"
    unfolding d'(2) using overlay_append [of "take ?n (db_changedItems db)" "drop ?n (db_changedItems db)"] path(2) by simp
  then show ?thesis
    using False path parts(2) d'(1) by (simp add: updateDatabase_def wf_db_def open_db_def db_view_def Let_def)
qed

lemma db_close_works:
  assumes "sqlite_works Q table" and "open_db db"
  shows "table (snd (db_close Q (db, d))) = db_view table (db, d)"
proof -
  have path: "\<not> wtf_isEmpty (db_databasePath db)" "distinct (map fst (db_changedItems db))" "\<not> db_isClosed db"
    using assms(2) by (auto simp: open_db_def)
  obtain db1 d1 where s1: "(if db_didScheduleDatabaseUpdate db
      then (let (db, d) = updateDatabaseWithChangedItems Q (db_changedItems db) (db\<lparr>db_isClosed := True\<rparr>, d) in
            (db\<lparr>db_changedItems := []\<rparr>, d))
      else (db\<lparr>db_isClosed := True\<rparr>, d)) = (db1, d1)" "table d1 = db_view table (db, d)"
  proof (cases "db_didScheduleDatabaseUpdate db")
    case True
    then show ?thesis
      using updateDatabaseWithChangedItems_works [OF assms(1), of "db\<lparr>db_isClosed := True\<rparr>" "db_changedItems db" d] path that
      by (auto simp: db_view_def)
  next
    case False
    then show ?thesis using assms(2) that by (auto simp: open_db_def db_view_def)
  qed
  obtain n where n: "statement_count Q ''SELECT COUNT(*) FROM ItemTable'' d1 = Some n" "n = 0 \<longleftrightarrow> table d1 = Map.empty"
    using sqlite_worksD(13) [OF assms(1)] by blast
  have "table (sqlite_close Q d1) = table d1" "table (deleteDatabaseFile Q e) = Map.empty" "statement_prepare Q sql e" for e sql
    using sqlite_worksD(3,8,14) [OF assms(1)] by simp_all
  then show ?thesis
    using s1 n path(3) by (auto simp: db_close_def databaseIsEmpty_def deleteDatabaseWithOrigin_def Let_def)
qed

text \<open>Changes to the database and updates of it, in any order.\<close>

datatype db_op = DB_set string string | DB_remove string | DB_clear | DB_update | DB_queue

primrec db_step :: "'d sqlite \<Rightarrow> db_op \<Rightarrow> local_db \<times> 'd \<Rightarrow> local_db \<times> 'd" where
  "db_step Q (DB_set k v) s = (db_setItem k (Some v) (fst s), snd s)"
| "db_step Q (DB_remove k) s = (db_removeItem k (fst s), snd s)"
| "db_step Q DB_clear s = (db_clear (fst s), snd s)"
| "db_step Q DB_update s = updateDatabase Q s"
| "db_step Q DB_queue s = runQueuedUpdate Q s"

primrec map_step :: "db_op \<Rightarrow> (string \<rightharpoonup> string) \<Rightarrow> (string \<rightharpoonup> string)" where
  "map_step (DB_set k v) m = m(k \<mapsto> v)"
| "map_step (DB_remove k) m = m(k := None)"
| "map_step DB_clear m = Map.empty"
| "map_step DB_update m = m"
| "map_step DB_queue m = m"


lemma runQueuedUpdate_works:
  assumes "sqlite_works Q table" and "wf_db db"
  shows "wf_db (fst (runQueuedUpdate Q (db, d))) \<and> db_view table (runQueuedUpdate Q (db, d)) = db_view table (db, d) \<and>
    \<not> db_shouldClearItems (fst (runQueuedUpdate Q (db, d))) \<and>
    length (db_changedItems (fst (runQueuedUpdate Q (db, d)))) = length (db_changedItems db) - maximumItemsToUpdate"
proof (cases "db_queuedUpdates db = 0")
  case True
  then show ?thesis using assms(2) by (auto simp: runQueuedUpdate_def wf_db_def open_db_def)
next
  case False
  let ?db = "db\<lparr>db_queuedUpdates := db_queuedUpdates db - 1\<rparr>"
  have "open_db ?db" using assms(2) by (simp add: wf_db_def open_db_def)
  moreover have "db_view table (?db, d) = db_view table (db, d)" by (simp add: db_view_def cong: if_cong)
  ultimately show ?thesis
    using updateDatabase_works [OF assms(1), of ?db d] False by (simp add: runQueuedUpdate_def)
qed

lemma db_step_works:
  assumes "sqlite_works Q table" and "wf_db (fst s)"
  shows "wf_db (fst (db_step Q op s)) \<and> db_view table (db_step Q op s) = map_step op (db_view table s)"
proof (cases op)
  case DB_update
  then show ?thesis
    using updateDatabase_works [OF assms(1), of "fst s" "snd s"] assms(2) by (simp add: wf_db_def)
next
  case DB_queue
  then show ?thesis using runQueuedUpdate_works [OF assms(1), of "fst s" "snd s"] assms(2) by simp
qed (use assms(2) in \<open>auto simp: db_setItem_def db_removeItem_def itemDidChange_def db_clear_def wf_db_def open_db_def
    db_view_def overlay_update distinct_update\<close>)

lemma db_run_works:
  assumes "sqlite_works Q table" and "wf_db (fst s)"
  shows "wf_db (fst (fold (db_step Q) ops s)) \<and>
    db_view table (fold (db_step Q) ops s) = fold map_step ops (db_view table s)"
  using assms(2) by (induction ops arbitrary: s) (simp_all add: db_step_works [OF assms(1)])

lemma queue_drained:
  assumes "sqlite_works Q table"
  shows "wf_db (fst s) \<Longrightarrow> length (db_changedItems (fst s)) \<le> n * maximumItemsToUpdate \<Longrightarrow>
    db_changedItems (fst ((runQueuedUpdate Q ^^ Suc n) s)) = [] \<and>
    table (snd ((runQueuedUpdate Q ^^ Suc n) s)) = db_view table s"
proof (induction n arbitrary: s)
  case 0
  then show ?case
    using runQueuedUpdate_works [OF assms, of "fst s" "snd s"] by (auto simp: db_view_def)
next
  case (Suc n)
  let ?s = "runQueuedUpdate Q s"
  have "wf_db (fst ?s) \<and> db_view table ?s = db_view table s \<and> length (db_changedItems (fst ?s)) \<le> n * maximumItemsToUpdate"
    using runQueuedUpdate_works [OF assms, of "fst s" "snd s"] Suc.prems by auto
  with Suc.IH [of ?s] show ?case by (simp only: funpow_Suc_right o_apply)
qed


text \<open>SQLite on a list of rows, without failures.\<close>

definition list_sqlite :: "(string \<times> string) list option sqlite" where
  "list_sqlite = \<lparr>fileExists = (\<lambda>d. d \<noteq> None),
     sqlite_open = (\<lambda>d. (True, Some (case d of None \<Rightarrow> [] | Some rows \<Rightarrow> rows))),
     sqlite_close = id,
     executeCommand = (\<lambda>sql d. (True, d)),
     tableExists = (\<lambda>name d. d \<noteq> None),
     isColumnDeclaredAsBlob = (\<lambda>sql n d. True),
     transaction_begin = id, transaction_commit = id, transaction_rollback = id,
     statement_prepare = (\<lambda>sql d. True),
     statement_step = (\<lambda>sql args d. (True, Some (
        if sql = clear_statement then []
        else let rows = (case d of None \<Rightarrow> [] | Some rows \<Rightarrow> rows) in
          if sql = insert_statement then AList.update (the (args ! 0)) (the (args ! 1)) rows
          else AList.delete (the (args ! 0)) rows))),
     statement_rows = (\<lambda>sql d. (map (\<lambda>(k, v). (Some k, Some v)) (case d of None \<Rightarrow> [] | Some rows \<Rightarrow> rows), True)),
     statement_count = (\<lambda>sql d. Some (length (case d of None \<Rightarrow> [] | Some rows \<Rightarrow> rows))),
     deleteDatabaseFile = (\<lambda>d. None)\<rparr>"

definition list_table :: "(string \<times> string) list option \<Rightarrow> (string \<rightharpoonup> string)" where
  "list_table d = map_of (case d of None \<Rightarrow> [] | Some rows \<Rightarrow> rows)"

lemma fold_addRow:
  "map_of (fold addRow (map (\<lambda>(k, v). (Some k, Some v)) rows) m) =
     (\<lambda>k. if map_of m k \<noteq> None then map_of m k else map_option Some (map_of rows k))"
proof (induction rows arbitrary: m)
  case (Cons row rows)
  obtain a b where row: "row = (a, b)" by (cases row)
  have "fold addRow (map (\<lambda>(k, v). (Some k, Some v)) (row # rows)) m =
      fold addRow (map (\<lambda>(k, v). (Some k, Some v)) rows) (if map_of m a = None then m @ [(a, Some b)] else m)"
    by (simp add: row addRow_def [of "(Some a, Some b)" m])
  also have "map_of \<dots> = (\<lambda>k. if map_of m k \<noteq> None then map_of m k else map_option Some (map_of (row # rows) k))"
    unfolding Cons.IH by (auto simp: row fun_eq_iff map_add_def split: option.splits)
  finally show ?case .
qed (auto simp: fun_eq_iff)

lemma map_of_empty_iff: "(\<forall>k. map_of rows k = None) \<longleftrightarrow> rows = []"
proof (cases rows)
  case (Cons row rows')
  have "\<exists>k. map_of rows k \<noteq> None" unfolding Cons by (intro exI [of _ "fst row"]) simp
  then show ?thesis using Cons by simp
qed simp

lemma list_sqlite_works: "sqlite_works list_sqlite list_table"
proof -
  have "clear_statement \<noteq> insert_statement" "clear_statement \<noteq> delete_statement" "insert_statement \<noteq> delete_statement"
    by (simp_all add: clear_statement_def insert_statement_def delete_statement_def)
  then show ?thesis
    unfolding sqlite_works_def
    by (auto simp: list_sqlite_def list_table_def fold_addRow update_conv' delete_conv' fun_eq_iff map_of_empty_iff split: option.splits)
qed



text \<open>Synchronising with the file is not complete: an update writes at most 100 of the changed
  items, so that with more of them changed, some are not in the file when the update returns, and the
  update is scheduled again.\<close>

theorem update_leaves_items:
  assumes "sqlite_works Q table" and "wf_db db" and "updateDatabase Q (db, d) = (db', d')"
  shows "length (db_changedItems db') = length (db_changedItems db) - 100 \<and>
    (length (db_changedItems db) > 100 \<longrightarrow> db_didScheduleDatabaseUpdate db' \<and> db_queuedUpdates db' > 0)"
proof -
  have "wf_db db' \<and> length (db_changedItems db') = length (db_changedItems db) - 100"
    using updateDatabase_works [OF assms(1), of db d] assms(2,3) by (simp add: wf_db_def maximumItemsToUpdate_def)
  then show ?thesis by (auto simp: wf_db_def open_db_def)
qed

definition many_items :: "(string \<times> wtf_string) list" where
  "many_items = map (\<lambda>n. (replicate n CHR ''a'', Some ''v'')) [0..<101]"

definition many_db :: local_db where
  "many_db = (LocalStorageDatabase_new (Some ''/db''))\<lparr>db_changedItems := many_items,
     db_didScheduleDatabaseUpdate := True, db_queuedUpdates := 1\<rparr>"

theorem update_leaves_items_witness:
  "length (db_changedItems (fst (updateDatabase list_sqlite (many_db, None)))) = 1"
proof -
  have "inj_on (\<lambda>n. replicate n CHR ''a'') {0..<101}" by (auto simp: inj_on_def dest: replicate_eq_replicate [THEN iffD1])
  then have "distinct (map fst many_items)"
    by (simp add: many_items_def distinct_map comp_def)
  then have wf: "wf_db many_db"
    by (simp add: many_db_def wf_db_def open_db_def LocalStorageDatabase_new_def wtf_isEmpty_def)
  have len: "length (db_changedItems many_db) = 101" by (simp add: many_db_def many_items_def)
  show ?thesis
    using update_leaves_items [OF list_sqlite_works wf prod.collapse [symmetric], of None] len by simp
qed

end
