(* ===== verification/Storage_Area.thy ===== *)
theory Storage_Area
  imports Storage_Database
begin

text \<open>
  A storage area in the network process, \<^verbatim>\<open>StorageArea\<close> (src/NetworkProcess/WebStorage/StorageArea.cpp):
  the items of one origin in one namespace, the connections of the web processes that listen to changes,
  and, for local storage that is kept, the database behind it. Events for the listeners are posted to the
  main run loop, which sends them. An area works on itself, on the file of its database and on the
  posted events.
\<close>

text \<open>The identifiers of areas are drawn from a 64-bit counter, which is taken not to run over.\<close>

type_synonym connection_ref = u64
type_synonym area_ref = nat

datatype area_message =
    DispatchStorageEvent "u64 option" wtf_string wtf_string wtf_string wtf_string
  | ClearCache
  | DidSetItem u64 string bool
  | DidRemoveItem u64 string
  | DidClear u64

type_synonym post = "connection_ref \<times> area_ref \<times> area_message"

text \<open>The parameters: WebCore's map, SQLite and the paths of database files.\<close>

record ('m, 'd) storage_env =
  env_map :: "'m storage_map"
  env_sqlite :: "'d sqlite"
  env_databasePath :: "wtf_string \<Rightarrow> string \<Rightarrow> wtf_string"

text \<open>\<open>sa_tracker\<close> is the directory of the tracker of the namespace, if the area belongs to one that is kept.\<close>

record 'm storage_area =
  sa_tracker :: "wtf_string option"
  sa_database :: "local_db option"
  sa_didImportItemsFromDatabase :: bool
  sa_securityOrigin :: string
  sa_quotaInBytes :: u32
  sa_storageMap :: 'm
  sa_eventListeners :: "connection_ref list"
  sa_identifier :: area_ref

type_synonym ('m, 'd) area_state = "'m storage_area \<times> 'd \<times> post list"

definition StorageArea_new ::
    "('m, 'd) storage_env \<Rightarrow> wtf_string option \<Rightarrow> string \<Rightarrow> u32 \<Rightarrow> area_ref \<Rightarrow> 'm storage_area" where
  "StorageArea_new E tracker origin quota identifier =
     \<lparr>sa_tracker = tracker, sa_database = None, sa_didImportItemsFromDatabase = False,
      sa_securityOrigin = origin, sa_quotaInBytes = quota,
      sa_storageMap = StorageMap_create (env_map E) quota, sa_eventListeners = [],
      sa_identifier = identifier\<rparr>"

definition isEphemeral :: "'m storage_area \<Rightarrow> bool" where
  "isEphemeral a \<longleftrightarrow> sa_tracker a = None"

definition hasListener :: "connection_ref \<Rightarrow> 'm storage_area \<Rightarrow> bool" where
  "hasListener c a \<longleftrightarrow> c \<in> set (sa_eventListeners a)"

definition openDatabaseAndImportItemsIfNeeded ::
    "('m, 'd) storage_env \<Rightarrow> ('m, 'd) area_state \<Rightarrow> ('m, 'd) area_state" where
  "openDatabaseAndImportItemsIfNeeded E s =
     (let (a, d, posts) = s in
      case sa_tracker a of
        None \<Rightarrow> (a, d, posts)
      | Some directory \<Rightarrow>
          (let db = (case sa_database a of
                 None \<Rightarrow> LocalStorageDatabase_new (env_databasePath E directory (sa_securityOrigin a))
               | Some db \<Rightarrow> db) in
           if sa_didImportItemsFromDatabase a then (a\<lparr>sa_database := Some db\<rparr>, d, posts)
           else
             (let (m, db, d) = importItems (env_map E) (env_sqlite E) (sa_storageMap a) (db, d) in
              (a\<lparr>sa_database := Some db, sa_storageMap := m, sa_didImportItemsFromDatabase := True\<rparr>, d, posts))))"

definition area_syncToDatabase :: "('m, 'd) storage_env \<Rightarrow> ('m, 'd) area_state \<Rightarrow> ('m, 'd) area_state" where
  "area_syncToDatabase E s =
     (let (a, d, posts) = s in
      case sa_database a of
        None \<Rightarrow> (a, d, posts)
      | Some db \<Rightarrow> (case updateDatabase (env_sqlite E) (db, d) of
          (db, d) \<Rightarrow> (a\<lparr>sa_database := Some db\<rparr>, d, posts)))"

definition area_close :: "('m, 'd) storage_env \<Rightarrow> ('m, 'd) area_state \<Rightarrow> ('m, 'd) area_state" where
  "area_close E s =
     (let (a, d, posts) = s in
      case sa_database a of
        None \<Rightarrow> (a, d, posts)
      | Some db \<Rightarrow> (case db_close (env_sqlite E) (db, d) of
          (db, d) \<Rightarrow> (a\<lparr>sa_database := Some db\<rparr>, d, posts)))"

definition addListener ::
    "('m, 'd) storage_env \<Rightarrow> connection_ref \<Rightarrow> ('m, 'd) area_state \<Rightarrow> ('m, 'd) area_state" where
  "addListener E c s =
     (let (a, d, posts) =
        (if sa_eventListeners (fst s) = [] \<and> \<not> isEphemeral (fst s)
         then openDatabaseAndImportItemsIfNeeded E s else s) in
      (a\<lparr>sa_eventListeners := List.insert c (sa_eventListeners a)\<rparr>, d, posts))"

text \<open>The first component: the namespace removes the area, as its last listener is gone.\<close>

definition removeListener ::
    "('m, 'd) storage_env \<Rightarrow> connection_ref \<Rightarrow> ('m, 'd) area_state \<Rightarrow> bool \<times> ('m, 'd) area_state" where
  "removeListener E c s =
     (let (a, d, posts) = s;
          a = a\<lparr>sa_eventListeners := removeAll c (sa_eventListeners a)\<rparr> in
      if sa_eventListeners a \<noteq> [] then (False, a, d, posts)
      else if sa_tracker a = None then (False, a, d, posts)
      else (True, area_syncToDatabase E (a, d, posts)))"

definition area_clone :: "('m, 'd) storage_env \<Rightarrow> area_ref \<Rightarrow> 'm storage_area \<Rightarrow> 'm storage_area" where
  "area_clone E identifier a =
     (StorageArea_new E None (sa_securityOrigin a) (sa_quotaInBytes a) identifier)
      \<lparr>sa_storageMap := sa_storageMap a\<rparr>"

definition dispatchEvents ::
    "connection_ref \<Rightarrow> u64 \<Rightarrow> wtf_string \<Rightarrow> wtf_string \<Rightarrow> wtf_string \<Rightarrow> wtf_string \<Rightarrow>
     ('m, 'd) area_state \<Rightarrow> ('m, 'd) area_state" where
  "dispatchEvents source implID key oldValue newValue urlString s =
     (let (a, d, posts) = s in
      (a, d, posts @ map (\<lambda>c. (c, sa_identifier a,
         DispatchStorageEvent (if c = source then Some implID else None) key oldValue newValue urlString))
         (sa_eventListeners a)))"

definition area_database :: "(local_db \<Rightarrow> local_db) \<Rightarrow> ('m, 'd) area_state \<Rightarrow> ('m, 'd) area_state" where
  "area_database f s = (let (a, d, posts) = s in (a\<lparr>sa_database := map_option f (sa_database a)\<rparr>, d, posts))"

text \<open>The first component is \<^verbatim>\<open>quotaException\<close>.\<close>

definition area_setItem ::
    "('m, 'd) storage_env \<Rightarrow> connection_ref \<Rightarrow> u64 \<Rightarrow> string \<Rightarrow> string \<Rightarrow> wtf_string \<Rightarrow>
     ('m, 'd) area_state \<Rightarrow> bool \<times> ('m, 'd) area_state" where
  "area_setItem E source implID key value urlString s =
     (let (a, d, posts) = openDatabaseAndImportItemsIfNeeded E s;
          (m, oldValue, quotaException) = sm_setItem (env_map E) (sa_storageMap a) key (Some value);
          a = a\<lparr>sa_storageMap := m\<rparr> in
      if quotaException then (True, a, d, posts)
      else (False, dispatchEvents source implID (Some key) oldValue (Some value) urlString
             (area_database (db_setItem key (Some value)) (a, d, posts))))"

definition area_removeItem ::
    "('m, 'd) storage_env \<Rightarrow> connection_ref \<Rightarrow> u64 \<Rightarrow> string \<Rightarrow> wtf_string \<Rightarrow>
     ('m, 'd) area_state \<Rightarrow> ('m, 'd) area_state" where
  "area_removeItem E source implID key urlString s =
     (let (a, d, posts) = openDatabaseAndImportItemsIfNeeded E s;
          (m, oldValue) = sm_removeItem (env_map E) (sa_storageMap a) key;
          a = a\<lparr>sa_storageMap := m\<rparr> in
      if oldValue = None then (a, d, posts)
      else dispatchEvents source implID (Some key) oldValue None urlString
             (area_database (db_removeItem key) (a, d, posts)))"

definition area_clear ::
    "('m, 'd) storage_env \<Rightarrow> connection_ref \<Rightarrow> u64 \<Rightarrow> wtf_string \<Rightarrow>
     ('m, 'd) area_state \<Rightarrow> ('m, 'd) area_state" where
  "area_clear E source implID urlString s =
     (let (a, d, posts) = openDatabaseAndImportItemsIfNeeded E s in
      if sm_length (env_map E) (sa_storageMap a) = 0 then (a, d, posts)
      else
        (let a = a\<lparr>sa_storageMap := StorageMap_create (env_map E) (sa_quotaInBytes a)\<rparr> in
         dispatchEvents source implID None None None urlString (area_database db_clear (a, d, posts))))"

definition area_items :: "('m, 'd) storage_env \<Rightarrow> ('m, 'd) area_state \<Rightarrow> items \<times> ('m, 'd) area_state" where
  "area_items E s =
     (let (a, d, posts) = openDatabaseAndImportItemsIfNeeded E s in
      (sm_items (env_map E) (sa_storageMap a), a, d, posts))"

text \<open>\<^verbatim>\<open>StorageArea::clear()\<close>: the data of the origin is deleted.\<close>

definition area_reset :: "('m, 'd) storage_env \<Rightarrow> ('m, 'd) area_state \<Rightarrow> ('m, 'd) area_state" where
  "area_reset E s =
     (let (a, d, posts) = s;
          a = a\<lparr>sa_storageMap := StorageMap_create (env_map E) (sa_quotaInBytes a)\<rparr>;
          (a, d) = (case sa_database a of
             None \<Rightarrow> (a, d)
           | Some db \<Rightarrow> (a\<lparr>sa_database := None\<rparr>, snd (db_close (env_sqlite E) (db, d)))) in
      (a, d, posts @ map (\<lambda>c. (c, sa_identifier a, ClearCache)) (sa_eventListeners a)))"

text \<open>The destructor closes the database.\<close>

definition StorageArea_dtor :: "('m, 'd) storage_env \<Rightarrow> 'm storage_area \<Rightarrow> 'd \<Rightarrow> 'd" where
  "StorageArea_dtor E a d =
     (case sa_database a of None \<Rightarrow> d | Some db \<Rightarrow> snd (db_close (env_sqlite E) (db, d)))"

subsection \<open>What the map promises\<close>

text \<open>
  \<^verbatim>\<open>StorageMap\<close> is a table with a quota: an item that exceeds the quota is not set; otherwise the old
  value is reported, which is null for a missing key.
\<close>

definition map_works :: "'m storage_map \<Rightarrow> bool" where
  "map_works S \<longleftrightarrow>
     (\<forall>q. sm_table S (StorageMap_create S q) = Map.empty) \<and>
     (\<forall>m k v m' old. sm_setItem S m k v = (m', old, True) \<longrightarrow> sm_table S m' = sm_table S m) \<and>
     (\<forall>m k v m' old. sm_setItem S m k v = (m', old, False) \<longrightarrow>
        sm_table S m' = (sm_table S m)(k \<mapsto> v) \<and> old = sm_getItem S m k) \<and>
     (\<forall>m k v. sm_table S (sm_setItemIgnoringQuota S m k v) = (sm_table S m)(k \<mapsto> v)) \<and>
     (\<forall>m k m' old. sm_removeItem S m k = (m', old) \<longrightarrow>
        sm_table S m' = (sm_table S m)(k := None) \<and> old = sm_getItem S m k) \<and>
     (\<forall>q vs. sm_table S (sm_importItems S (StorageMap_create S q) vs) = map_of vs) \<and>
     (\<forall>m. sm_length S m = 0 \<longleftrightarrow> sm_table S m = Map.empty)"

lemma map_worksD:
  assumes "map_works S"
  shows "sm_table S (StorageMap_create S q) = Map.empty"
    "sm_setItem S m k v = (m', old, True) \<Longrightarrow> sm_table S m' = sm_table S m"
    "sm_setItem S m k v = (m', old, False) \<Longrightarrow> sm_table S m' = (sm_table S m)(k \<mapsto> v)"
    "sm_setItem S m k v = (m', old, False) \<Longrightarrow> old = sm_getItem S m k"
    "sm_table S (sm_setItemIgnoringQuota S m k v) = (sm_table S m)(k \<mapsto> v)"
    "sm_removeItem S m k = (m'', old') \<Longrightarrow> sm_table S m'' = (sm_table S m)(k := None)"
    "sm_removeItem S m k = (m'', old') \<Longrightarrow> old' = sm_getItem S m k"
    "sm_table S (sm_importItems S (StorageMap_create S q) vs) = map_of vs"
    "sm_length S m = 0 \<longleftrightarrow> sm_table S m = Map.empty"
  using assms unfolding map_works_def by metis+

text \<open>A map on an association list, with a quota on the characters of keys and values.\<close>

type_synonym list_map = "u32 \<times> (string \<times> wtf_string) list"

definition list_map_size :: "(string \<times> wtf_string) list \<Rightarrow> nat" where
  "list_map_size xs = sum_list (map (\<lambda>(k, v). length k + (case v of None \<Rightarrow> 0 | Some cs \<Rightarrow> length cs)) xs)"

definition list_map_get :: "(string \<times> wtf_string) list \<Rightarrow> string \<Rightarrow> wtf_string" where
  "list_map_get xs k = (case map_of xs k of None \<Rightarrow> None | Some v \<Rightarrow> v)"

definition list_storage_map :: "list_map storage_map" where
  "list_storage_map = \<lparr>StorageMap_create = (\<lambda>q. (q, [])),
     sm_items = snd,
     sm_length = (\<lambda>m. length (snd m)),
     sm_key = (\<lambda>m i. if unat i < length (snd m) then Some (fst (snd m ! unat i)) else None),
     sm_setItem = (\<lambda>m k v. let xs = AList.update k v (snd m) in
       if list_map_size xs > unat (fst m) then (m, list_map_get (snd m) k, True)
       else ((fst m, xs), list_map_get (snd m) k, False)),
     sm_setItemIgnoringQuota = (\<lambda>m k v. (fst m, AList.update k v (snd m))),
     sm_removeItem = (\<lambda>m k. ((fst m, AList.delete k (snd m)), list_map_get (snd m) k)),
     sm_importItems = (\<lambda>m vs. (fst m, vs @ snd m))\<rparr>"


lemma list_map_works: "map_works list_storage_map"
  unfolding map_works_def
  by (auto simp: list_storage_map_def sm_table_def sm_getItem_def list_map_get_def update_conv' delete_conv' Let_def
      map_of_empty_iff fun_eq_iff split: if_splits option.splits)

subsection \<open>Kept areas\<close>

text \<open>
  An area that is kept is either untouched, with its items still in the file, or it has its database
  and the file with the changes not yet written is what the area shows.
\<close>

definition area_shows :: "('m, 'd) storage_env \<Rightarrow> 'm storage_area \<Rightarrow> (string \<rightharpoonup> string)" where
  "area_shows E a = sm_getItem (env_map E) (sa_storageMap a)"

definition no_null_items :: "('m, 'd) storage_env \<Rightarrow> 'm storage_area \<Rightarrow> bool" where
  "no_null_items E a \<longleftrightarrow> (\<forall>k. sm_table (env_map E) (sa_storageMap a) k \<noteq> Some None)"

definition loaded :: "('m, 'd) storage_env \<Rightarrow> ('d \<Rightarrow> (string \<rightharpoonup> string)) \<Rightarrow> ('m, 'd) area_state \<Rightarrow> bool" where
  "loaded E table s \<longleftrightarrow> (case s of (a, d, posts) \<Rightarrow>
     sa_tracker a \<noteq> None \<and> sa_didImportItemsFromDatabase a \<and> no_null_items E a \<and>
     (\<exists>db. sa_database a = Some db \<and> wf_db db \<and> db_view table (db, d) = area_shows E a))"

definition unloaded :: "('m, 'd) storage_env \<Rightarrow> ('m, 'd) area_state \<Rightarrow> bool" where
  "unloaded E s \<longleftrightarrow> (case s of (a, d, posts) \<Rightarrow>
     (\<exists>directory. sa_tracker a = Some directory \<and> \<not> wtf_isEmpty (env_databasePath E directory (sa_securityOrigin a))) \<and>
     \<not> sa_didImportItemsFromDatabase a \<and> sa_database a = None \<and>
     sa_storageMap a = StorageMap_create (env_map E) (sa_quotaInBytes a))"

lemma shows_table: "no_null_items E a \<Longrightarrow> sm_table (env_map E) (sa_storageMap a) = map_option Some \<circ> area_shows E a"
proof (rule ext)
  fix k
  assume "no_null_items E a"
  then have "sm_table (env_map E) (sa_storageMap a) k \<noteq> Some None" by (simp add: no_null_items_def)
  then show "sm_table (env_map E) (sa_storageMap a) k = (map_option Some \<circ> area_shows E a) k"
    by (cases "sm_table (env_map E) (sa_storageMap a) k") (auto simp: area_shows_def sm_getItem_def)
qed

lemma shows_of_table: "sm_table (env_map E) (sa_storageMap a) = map_option Some \<circ> t \<Longrightarrow> area_shows E a = t \<and> no_null_items E a"
  by (auto simp: fun_eq_iff no_null_items_def area_shows_def sm_getItem_def split: option.split)

lemma importItems_works:
  assumes "map_works S" and "sqlite_works Q table" and "\<not> wtf_isEmpty path"
  shows "\<exists>m db d'. importItems S Q (StorageMap_create S q) (LocalStorageDatabase_new path, d) = (m, db, d') \<and>
    sm_table S m = map_option Some \<circ> table d \<and> wf_db db \<and> db_view table (db, d') = table d"
proof (cases "fileExists Q d")
  case False
  then show ?thesis
    using sqlite_worksD(1) [OF assms(2)] map_worksD(1) [OF assms(1)] assms(3)
    by (auto simp: importItems_def openDatabase_def tryToOpenDatabase_def LocalStorageDatabase_new_def
        wf_db_def open_db_def db_view_def)
next
  case True
  let ?db = "(LocalStorageDatabase_new path)\<lparr>db_didImportItems := True\<rparr>"
  obtain d' where d': "openDatabase Q SkipIfNonExistent (?db, d) = (?db\<lparr>db_isOpen := True\<rparr>, d')" "table d' = table d"
    using openDatabase_works [OF assms(2), of ?db SkipIfNonExistent d] True assms(3) by (auto simp: LocalStorageDatabase_new_def)
  obtain rows where "statement_rows Q ''SELECT key, value FROM ItemTable'' d' = (rows, True)"
    "map_of (fold addRow rows []) = map_option Some \<circ> table d'"
    using sqlite_worksD(12) [OF assms(2)] by blast
  then show ?thesis
    using d' assms(3) sqlite_worksD(8) [OF assms(2)] map_worksD(8) [OF assms(1)]
    by (auto simp: importItems_def LocalStorageDatabase_new_def wf_db_def open_db_def db_view_def)
qed

lemma open_unloaded:
  assumes "map_works (env_map E)" and "sqlite_works (env_sqlite E) table" and "unloaded E (a, d, posts)"
  shows "loaded E table (openDatabaseAndImportItemsIfNeeded E (a, d, posts)) \<and>
    area_shows E (fst (openDatabaseAndImportItemsIfNeeded E (a, d, posts))) = table d"
proof -
  obtain directory where dir: "sa_tracker a = Some directory" "\<not> wtf_isEmpty (env_databasePath E directory (sa_securityOrigin a))"
    using assms(3) by (auto simp: unloaded_def)
  obtain m db d' where import: "importItems (env_map E) (env_sqlite E) (StorageMap_create (env_map E) (sa_quotaInBytes a))
      (LocalStorageDatabase_new (env_databasePath E directory (sa_securityOrigin a)), d) = (m, db, d')"
    "sm_table (env_map E) m = map_option Some \<circ> table d" "wf_db db" "db_view table (db, d') = table d"
    using importItems_works [OF assms(1,2) dir(2), of "sa_quotaInBytes a" d] by blast
  then show ?thesis
    using assms(3) dir(1) shows_of_table [of E "a\<lparr>sa_database := Some db, sa_storageMap := m, sa_didImportItemsFromDatabase := True\<rparr>" "table d"]
    by (simp add: openDatabaseAndImportItemsIfNeeded_def unloaded_def loaded_def)
qed

lemma open_loaded:
  assumes "loaded E table s"
  shows "openDatabaseAndImportItemsIfNeeded E s = s"
proof -
  obtain a d posts where s: "s = (a, d, posts)" by (cases s)
  obtain db directory where "sa_database a = Some db" "sa_tracker a = Some directory" "sa_didImportItemsFromDatabase a"
    using assms s by (auto simp: loaded_def)
  moreover from this have "a\<lparr>sa_database := Some db\<rparr> = a" by simp
  ultimately show ?thesis using s by (simp add: openDatabaseAndImportItemsIfNeeded_def)
qed


datatype area_op =
    AO_set connection_ref u64 string string wtf_string
  | AO_remove connection_ref u64 string wtf_string
  | AO_clear connection_ref u64 wtf_string
  | AO_items
  | AO_listen connection_ref
  | AO_sync

primrec area_step :: "('m, 'd) storage_env \<Rightarrow> area_op \<Rightarrow> ('m, 'd) area_state \<Rightarrow> ('m, 'd) area_state" where
  "area_step E (AO_set c i k v url) s = snd (area_setItem E c i k v url s)"
| "area_step E (AO_remove c i k url) s = area_removeItem E c i k url s"
| "area_step E (AO_clear c i url) s = area_clear E c i url s"
| "area_step E AO_items s = snd (area_items E s)"
| "area_step E (AO_listen c) s = addListener E c s"
| "area_step E AO_sync s = area_syncToDatabase E s"

text \<open>Kept and in one of the two states.\<close>

definition kept :: "('m, 'd) storage_env \<Rightarrow> ('d \<Rightarrow> (string \<rightharpoonup> string)) \<Rightarrow> ('m, 'd) area_state \<Rightarrow> bool" where
  "kept E table s \<longleftrightarrow> loaded E table s \<or> unloaded E s"

lemma kept_opened:
  assumes "map_works (env_map E)" and "sqlite_works (env_sqlite E) table" and "kept E table s"
  shows "loaded E table (openDatabaseAndImportItemsIfNeeded E s)"
proof (cases "loaded E table s")
  case True
  then show ?thesis by (simp add: open_loaded [OF True])
next
  case False
  then show ?thesis using assms(3) open_unloaded [OF assms(1,2)] by (cases s) (simp add: kept_def)
qed

lemma db_change_view:
  assumes "wf_db db"
  shows "wf_db (db_setItem k v db)" "db_view table (db_setItem k v db, d) = (db_view table (db, d))(k := v)"
    "wf_db (db_removeItem k db)" "db_view table (db_removeItem k db, d) = (db_view table (db, d))(k := None)"
    "wf_db (db_clear db)" "db_view table (db_clear db, d) = Map.empty"
  using assms by (simp_all add: db_setItem_def db_removeItem_def itemDidChange_def db_clear_def wf_db_def open_db_def
      db_view_def overlay_update distinct_update)

lemma loaded_change:
  assumes "loaded E table (a, d, posts)" and "\<And>db. wf_db db \<Longrightarrow> wf_db (f db)"
    and "\<And>db. wf_db db \<Longrightarrow> db_view table (f db, d) = g (db_view table (db, d))"
    and "sm_table (env_map E) m = map_option Some \<circ> g (area_shows E a)"
  shows "loaded E table (a\<lparr>sa_storageMap := m, sa_database := map_option f (sa_database a)\<rparr>, d, posts')"
proof -
  obtain db where db: "sa_database a = Some db" "wf_db db" "db_view table (db, d) = area_shows E a"
    using assms(1) by (auto simp: loaded_def)
  let ?a = "a\<lparr>sa_storageMap := m, sa_database := map_option f (sa_database a)\<rparr>"
  have "area_shows E ?a = g (area_shows E a) \<and> no_null_items E ?a"
    by (rule shows_of_table) (simp add: assms(4))
  then show ?thesis using assms db by (simp add: loaded_def)
qed

lemma loaded_map_only:
  assumes "loaded E table (a, d, posts)" and "sm_table (env_map E) m = sm_table (env_map E) (sa_storageMap a)"
  shows "loaded E table (a\<lparr>sa_storageMap := m\<rparr>, d, posts')"
  using assms by (simp add: loaded_def no_null_items_def area_shows_def sm_getItem_def [abs_def])

lemma loaded_posts: "loaded E table (a, d, posts) \<Longrightarrow> loaded E table (a, d, posts')"
  by (simp add: loaded_def)


lemma area_setItem_loaded:
  assumes "map_works (env_map E)" and "loaded E table s"
  shows "loaded E table (snd (area_setItem E c i k v url s)) \<and>
    area_shows E (fst (snd (area_setItem E c i k v url s))) =
      (if fst (area_setItem E c i k v url s) then area_shows E (fst s) else (area_shows E (fst s))(k \<mapsto> v))"
proof -
  obtain a d posts where s: "s = (a, d, posts)" by (cases s)
  have loaded: "loaded E table (a, d, posts)" using assms(2) s by simp
  obtain m old full where m: "sm_setItem (env_map E) (sa_storageMap a) k (Some v) = (m, old, full)" by (cases "sm_setItem (env_map E) (sa_storageMap a) k (Some v)")
  note set = area_setItem_def open_loaded [OF loaded] s m Let_def
  show ?thesis
  proof (cases full)
    case True
    then have table: "sm_table (env_map E) m = sm_table (env_map E) (sa_storageMap a)"
      using map_worksD(2) [OF assms(1), of "sa_storageMap a" k "Some v" m old] m by simp
    show ?thesis using True loaded_map_only [OF loaded table]
      by (simp add: set) (simp add: area_shows_def sm_getItem_def [abs_def] table)
  next
    case False
    have table: "sm_table (env_map E) m = map_option Some \<circ> (area_shows E a)(k \<mapsto> v)"
      using map_worksD(3) [OF assms(1), of "sa_storageMap a" k "Some v" m old] m False shows_table [of E a] loaded by (auto simp: loaded_def fun_eq_iff)
    have "loaded E table (a\<lparr>sa_storageMap := m, sa_database := map_option (db_setItem k (Some v)) (sa_database a)\<rparr>, d, posts')" for posts'
      by (rule loaded_change [OF loaded, where g = "\<lambda>t. t(k \<mapsto> v)"]) (simp_all add: db_change_view table)
    then show ?thesis
      using False shows_of_table [of E "a\<lparr>sa_storageMap := m, sa_database := map_option (db_setItem k (Some v)) (sa_database a)\<rparr>"] table
      by (simp add: set dispatchEvents_def area_database_def)
  qed
qed

lemma area_removeItem_loaded:
  assumes "map_works (env_map E)" and "loaded E table s"
  shows "loaded E table (area_removeItem E c i k url s) \<and>
    area_shows E (fst (area_removeItem E c i k url s)) = (area_shows E (fst s))(k := None)"
proof -
  obtain a d posts where s: "s = (a, d, posts)" by (cases s)
  have loaded: "loaded E table (a, d, posts)" using assms(2) s by simp
  obtain m old where m: "sm_removeItem (env_map E) (sa_storageMap a) k = (m, old)" by (cases "sm_removeItem (env_map E) (sa_storageMap a) k")
  have tables: "sm_table (env_map E) m = (sm_table (env_map E) (sa_storageMap a))(k := None)" "old = area_shows E a k"
    using map_worksD(6,7) [OF assms(1)] m by (auto simp: area_shows_def)
  have shown: "sm_table (env_map E) (sa_storageMap a) = map_option Some \<circ> area_shows E a"
    using shows_table [of E a] loaded by (simp add: loaded_def)
  note remove = area_removeItem_def open_loaded [OF loaded] s m Let_def
  show ?thesis
  proof (cases old)
    case None
    have same: "sm_table (env_map E) m = sm_table (env_map E) (sa_storageMap a)"
      using tables None unfolding shown by (auto simp: fun_eq_iff)
    show ?thesis using None loaded_map_only [OF loaded same] tables(2)
      by (simp add: remove) (auto simp: area_shows_def sm_getItem_def same fun_eq_iff)
  next
    case (Some v)
    have table: "sm_table (env_map E) m = map_option Some \<circ> (area_shows E a)(k := None)"
      unfolding tables(1) shown by auto
    have "loaded E table (a\<lparr>sa_storageMap := m, sa_database := map_option (db_removeItem k) (sa_database a)\<rparr>, d, posts')" for posts'
      by (rule loaded_change [OF loaded, where g = "\<lambda>t. t(k := None)"]) (simp_all add: db_change_view table)
    then show ?thesis
      using Some shows_of_table [of E "a\<lparr>sa_storageMap := m, sa_database := map_option (db_removeItem k) (sa_database a)\<rparr>"] table
      by (simp add: remove dispatchEvents_def area_database_def)
  qed
qed

lemma area_clear_loaded:
  assumes "map_works (env_map E)" and "loaded E table s"
  shows "loaded E table (area_clear E c i url s) \<and> area_shows E (fst (area_clear E c i url s)) = Map.empty"
proof -
  obtain a d posts where s: "s = (a, d, posts)" by (cases s)
  have loaded: "loaded E table (a, d, posts)" using assms(2) s by simp
  note clear = area_clear_def open_loaded [OF loaded] s Let_def
  show ?thesis
  proof (cases "sm_length (env_map E) (sa_storageMap a) = 0")
    case True
    then have "sm_table (env_map E) (sa_storageMap a) = Map.empty" using map_worksD(9) [OF assms(1)] by blast
    then show ?thesis using True loaded by (simp add: clear) (simp add: area_shows_def sm_getItem_def [abs_def])
  next
    case False
    let ?m = "StorageMap_create (env_map E) (sa_quotaInBytes a)"
    have table: "sm_table (env_map E) ?m = map_option Some \<circ> Map.empty"
      using map_worksD(1) [OF assms(1)] by auto
    have "loaded E table (a\<lparr>sa_storageMap := ?m, sa_database := map_option db_clear (sa_database a)\<rparr>, d, posts')" for posts'
      by (rule loaded_change [OF loaded, where g = "\<lambda>t. Map.empty"]) (simp_all add: db_change_view table)
    then show ?thesis
      using False shows_of_table [of E "a\<lparr>sa_storageMap := ?m, sa_database := map_option db_clear (sa_database a)\<rparr>" Map.empty] table
      by (simp add: clear dispatchEvents_def area_database_def)
  qed
qed

lemma open_again:
  assumes "map_works (env_map E)" and "sqlite_works (env_sqlite E) table" and "kept E table s"
  shows "openDatabaseAndImportItemsIfNeeded E (openDatabaseAndImportItemsIfNeeded E s) = openDatabaseAndImportItemsIfNeeded E s"
  by (rule open_loaded [OF kept_opened [OF assms]])

lemma area_ops_open:
  assumes "openDatabaseAndImportItemsIfNeeded E (openDatabaseAndImportItemsIfNeeded E s) = openDatabaseAndImportItemsIfNeeded E s"
  shows "area_setItem E c i k v url (openDatabaseAndImportItemsIfNeeded E s) = area_setItem E c i k v url s"
    "area_removeItem E c i k url (openDatabaseAndImportItemsIfNeeded E s) = area_removeItem E c i k url s"
    "area_clear E c i url (openDatabaseAndImportItemsIfNeeded E s) = area_clear E c i url s"
    "area_items E (openDatabaseAndImportItemsIfNeeded E s) = area_items E s"
  by (simp_all only: area_setItem_def area_removeItem_def area_clear_def area_items_def assms)

lemma area_sync_loaded:
  assumes "sqlite_works (env_sqlite E) table" and "loaded E table s"
  shows "loaded E table (area_syncToDatabase E s)"
proof -
  obtain a d posts where s: "s = (a, d, posts)" by (cases s)
  obtain db where db: "sa_database a = Some db" "wf_db db" "db_view table (db, d) = area_shows E a"
    using assms(2) s by (auto simp: loaded_def)
  obtain db' d' where "updateDatabase (env_sqlite E) (db, d) = (db', d')" "wf_db db'" "db_view table (db', d') = area_shows E a"
    using updateDatabase_works [OF assms(1), of db d] db(2,3) by (cases "updateDatabase (env_sqlite E) (db, d)") (simp add: wf_db_def)
  then show ?thesis
    using assms(2) s db(1) by (simp add: area_syncToDatabase_def loaded_def no_null_items_def area_shows_def)
qed

lemma loaded_listeners: "loaded E table (a, d, posts) \<Longrightarrow> loaded E table (a\<lparr>sa_eventListeners := ls\<rparr>, d, posts)"
  by (simp add: loaded_def no_null_items_def area_shows_def)

lemma unloaded_listeners: "unloaded E (a, d, posts) \<Longrightarrow> unloaded E (a\<lparr>sa_eventListeners := ls\<rparr>, d, posts)"
  by (simp add: unloaded_def)

lemma addListener_kept:
  assumes "map_works (env_map E)" and "sqlite_works (env_sqlite E) table" and "kept E table s"
  shows "kept E table (addListener E c s)"
proof -
  let ?s = "if sa_eventListeners (fst s) = [] \<and> \<not> isEphemeral (fst s) then openDatabaseAndImportItemsIfNeeded E s else s"
  have "kept E table ?s" using assms(3) kept_opened [OF assms] by (simp add: kept_def)
  then show ?thesis
    by (cases ?s) (auto simp: addListener_def Let_def kept_def intro: loaded_listeners unloaded_listeners)
qed

lemma area_step_kept:
  assumes "map_works (env_map E)" and "sqlite_works (env_sqlite E) table" and "kept E table s"
  shows "kept E table (area_step E op s)"
proof -
  note opened = kept_opened [OF assms]
  note ops = area_ops_open [OF open_again [OF assms]]
  show ?thesis
  proof (cases op)
    case (AO_set c i k v url)
    then show ?thesis using area_setItem_loaded [OF assms(1) opened] by (simp add: kept_def ops)
  next
    case (AO_remove c i k url)
    then show ?thesis using area_removeItem_loaded [OF assms(1) opened] by (simp add: kept_def ops)
  next
    case (AO_clear c i url)
    then show ?thesis using area_clear_loaded [OF assms(1) opened] by (simp add: kept_def ops)
  next
    case AO_items
    then show ?thesis using opened
      by (cases "openDatabaseAndImportItemsIfNeeded E s") (simp add: kept_def area_items_def)
  next
    case (AO_listen c)
    then show ?thesis using addListener_kept [OF assms] by simp
  next
    case AO_sync
    have "area_syncToDatabase E s = s" if "unloaded E s"
      using that by (cases s) (simp add: unloaded_def area_syncToDatabase_def)
    then show ?thesis using AO_sync area_sync_loaded [OF assms(2), of s] assms(3) by (auto simp: kept_def)
  qed
qed

lemma area_run_kept:
  assumes "map_works (env_map E)" and "sqlite_works (env_sqlite E) table"
  shows "kept E table s \<Longrightarrow> kept E table (fold (area_step E) ops s)"
  by (induction ops arbitrary: s) (simp_all add: area_step_kept [OF assms])

lemma dtor_kept:
  assumes "map_works (env_map E)" and "sqlite_works (env_sqlite E) table" and "kept E table (a, d, posts)"
  shows "table (StorageArea_dtor E a d) = area_shows E (fst (openDatabaseAndImportItemsIfNeeded E (a, d, posts)))"
proof (cases "loaded E table (a, d, posts)")
  case True
  then obtain db where "sa_database a = Some db" "wf_db db" "db_view table (db, d) = area_shows E a"
    by (auto simp: loaded_def)
  then show ?thesis
    using db_close_works [OF assms(2), of db d] by (simp add: open_loaded [OF True] StorageArea_dtor_def wf_db_def)
next
  case False
  then show ?thesis
    using assms(3) open_unloaded [OF assms(1,2)] by (simp add: kept_def StorageArea_dtor_def unloaded_def)
qed

lemma StorageArea_new_unloaded:
  "\<not> wtf_isEmpty (env_databasePath E directory origin) \<Longrightarrow> unloaded E (StorageArea_new E (Some directory) origin quota i, d, posts)"
  by (simp add: unloaded_def StorageArea_new_def)


definition list_env :: "(list_map, (string \<times> string) list option) storage_env" where
  "list_env = \<lparr>env_map = list_storage_map, env_sqlite = list_sqlite, env_databasePath = (\<lambda>directory origin. Some origin)\<rparr>"

abbreviation sample_ops :: "area_op list" where
  "sample_ops \<equiv> [AO_set 1 1 ''a'' ''x'' None, AO_set 1 1 ''b'' ''y'' None, AO_sync, AO_remove 1 1 ''a'' None]"



subsection \<open>Listeners\<close>

text \<open>The changes a listener is told of, in order: key and new value, where no key means everything.\<close>

primrec told_change :: "area_message \<Rightarrow> (wtf_string \<times> wtf_string) list" where
  "told_change (DispatchStorageEvent implID key oldValue newValue url) = [(key, newValue)]"
| "told_change ClearCache = []"
| "told_change (DidSetItem seed key full) = []"
| "told_change (DidRemoveItem seed key) = []"
| "told_change (DidClear seed) = []"

definition told_changes :: "connection_ref \<Rightarrow> post list \<Rightarrow> (wtf_string \<times> wtf_string) list" where
  "told_changes c posts = concat (map (\<lambda>(c', i, message). if c' = c then told_change message else []) posts)"

definition replay :: "wtf_string \<times> wtf_string \<Rightarrow> (string \<rightharpoonup> string) \<Rightarrow> (string \<rightharpoonup> string)" where
  "replay change t = (case fst change of None \<Rightarrow> Map.empty | Some k \<Rightarrow> t(k := snd change))"

lemma told_changes_append [simp]: "told_changes c (xs @ ys) = told_changes c xs @ told_changes c ys"
  by (simp add: told_changes_def)

lemma told_changes_simps [simp]:
  "told_changes c [] = []"
  "told_changes c ((c', i, message) # posts) = (if c' = c then told_change message else []) @ told_changes c posts"
  by (simp_all add: told_changes_def)

lemma told_changes_events:
  assumes "distinct ls"
  shows "told_changes c (map (\<lambda>l. (l, i, DispatchStorageEvent (f l) key old new url)) ls) =
    (if c \<in> set ls then [(key, new)] else [])"
  using assms by (induction ls) auto

text \<open>Nothing is left to import: the area is not kept or it is loaded.\<close>

definition opened :: "'m storage_area \<Rightarrow> bool" where
  "opened a \<longleftrightarrow> sa_tracker a = None \<or> sa_didImportItemsFromDatabase a \<and> sa_database a \<noteq> None"

lemma open_opened: "opened a \<Longrightarrow> openDatabaseAndImportItemsIfNeeded E (a, d, posts) = (a, d, posts)"
proof -
  assume "opened a"
  moreover have "a\<lparr>sa_database := Some db\<rparr> = a" if "sa_database a = Some db" for db
    using that by simp
  ultimately show ?thesis
    by (auto simp: opened_def openDatabaseAndImportItemsIfNeeded_def split: option.split)
qed

text \<open>What an operation does to an opened area with listeners \<open>ls\<close>: the change it makes, if any, is posted to all.\<close>

definition one_change :: "('m, 'd) storage_env \<Rightarrow> 'm storage_area \<Rightarrow> post list \<Rightarrow> ('m, 'd) area_state \<Rightarrow> bool" where
  "one_change E a posts s' \<longleftrightarrow> (case s' of (a', d', posts') \<Rightarrow>
     opened a' \<and> (\<exists>ls. set (sa_eventListeners a) \<subseteq> set ls \<and> (distinct (sa_eventListeners a) \<longrightarrow> distinct ls) \<and> sa_eventListeners a' = ls) \<and>
     (posts' = posts \<and> area_shows E a' = area_shows E a \<or>
      (\<exists>source i key old new url. posts' = posts @ map (\<lambda>c. (c, sa_identifier a,
           DispatchStorageEvent (if c = source then Some i else None) key old new url)) (sa_eventListeners a) \<and>
         area_shows E a' = replay (key, new) (area_shows E a))))"

lemma one_change_same:
  "opened a' \<Longrightarrow> sa_eventListeners a' = sa_eventListeners a \<Longrightarrow> area_shows E a' = area_shows E a \<Longrightarrow>
   one_change E a posts (a', d, posts)"
  by (auto simp: one_change_def)

lemma one_change_event:
  "opened a' \<Longrightarrow> sa_eventListeners a' = sa_eventListeners a \<Longrightarrow> sa_identifier a' = sa_identifier a \<Longrightarrow>
   area_shows E a' = replay (key, new) (area_shows E a) \<Longrightarrow>
   one_change E a posts (dispatchEvents source i key old new url (a', d, posts))"
  unfolding one_change_def dispatchEvents_def by simp blast

lemma shows_changed:
  "sm_table (env_map E) m = (sm_table (env_map E) (sa_storageMap a))(k \<mapsto> Some v) \<Longrightarrow>
     area_shows E (a\<lparr>sa_storageMap := m, sa_database := db\<rparr>) = replay (Some k, Some v) (area_shows E a)"
  "sm_table (env_map E) m = (sm_table (env_map E) (sa_storageMap a))(k := None) \<Longrightarrow>
     area_shows E (a\<lparr>sa_storageMap := m, sa_database := db\<rparr>) = replay (Some k, None) (area_shows E a)"
  "sm_table (env_map E) m = Map.empty \<Longrightarrow>
     area_shows E (a\<lparr>sa_storageMap := m, sa_database := db\<rparr>) = replay (None, None) (area_shows E a)"
  "sm_table (env_map E) m = sm_table (env_map E) (sa_storageMap a) \<Longrightarrow>
     area_shows E (a\<lparr>sa_storageMap := m\<rparr>) = area_shows E a"
  by (auto simp: area_shows_def sm_getItem_def replay_def fun_eq_iff)

lemma area_step_one_change:
  assumes "map_works (env_map E)" and "opened a"
  shows "one_change E a posts (area_step E op (a, d, posts))"
proof (cases op)
  case (AO_set c i k v url)
  obtain m old full where m: "sm_setItem (env_map E) (sa_storageMap a) k (Some v) = (m, old, full)"
    by (cases "sm_setItem (env_map E) (sa_storageMap a) k (Some v)")
  show ?thesis
  proof (cases full)
    case True
    then have "sm_table (env_map E) m = sm_table (env_map E) (sa_storageMap a)"
      using map_worksD(2) [OF assms(1), of "sa_storageMap a" k "Some v" m old] m by simp
    then show ?thesis using AO_set m True assms(2)
      by (simp add: area_setItem_def open_opened one_change_same shows_changed(4) opened_def)
  next
    case False
    then have "sm_table (env_map E) m = (sm_table (env_map E) (sa_storageMap a))(k \<mapsto> Some v)"
      using map_worksD(3) [OF assms(1), of "sa_storageMap a" k "Some v" m old] m by simp
    then show ?thesis using AO_set m False assms(2)
      by (simp add: area_setItem_def open_opened area_database_def one_change_event shows_changed(1) opened_def)
  qed
next
  case (AO_remove c i k url)
  obtain m old where m: "sm_removeItem (env_map E) (sa_storageMap a) k = (m, old)"
    by (cases "sm_removeItem (env_map E) (sa_storageMap a) k")
  have tables: "sm_table (env_map E) m = (sm_table (env_map E) (sa_storageMap a))(k := None)" "old = area_shows E a k"
    using map_worksD(6,7) [OF assms(1)] m by (auto simp: area_shows_def)
  show ?thesis
  proof (cases old)
    case None
    have "area_shows E (a\<lparr>sa_storageMap := m\<rparr>) = replay (Some k, None) (area_shows E a)"
      using shows_changed(2) [OF tables(1), of "sa_database a"] by simp
    also have "\<dots> = area_shows E a" using tables(2) None by (auto simp: replay_def)
    finally show ?thesis using AO_remove m None assms(2)
      by (simp add: area_removeItem_def open_opened one_change_same opened_def)
  next
    case (Some v)
    then show ?thesis using AO_remove m assms(2) shows_changed(2) [OF tables(1)]
      by (simp add: area_removeItem_def open_opened area_database_def one_change_event opened_def)
  qed
next
  case (AO_clear c i url)
  then show ?thesis
    using assms(2) shows_changed(3) [OF map_worksD(1) [OF assms(1)]]
    by (simp add: area_clear_def open_opened area_database_def one_change_event one_change_same opened_def)
next
  case AO_items
  then show ?thesis using assms(2) by (simp add: area_items_def open_opened one_change_same)
next
  case (AO_listen c)
  then show ?thesis using assms(2) by (auto simp: addListener_def open_opened one_change_def opened_def area_shows_def)
next
  case AO_sync
  then show ?thesis using assms(2)
    by (auto simp: area_syncToDatabase_def opened_def area_shows_def intro!: one_change_same split: option.split prod.split)
qed

text \<open>Claim C29. Listeners can follow an area: a listener that starts from what the area shows and applies the
  changes of the events posted to it, in order, ends at what the area shows, whatever is set, removed
  and cleared, by whatever connections, and whether or not the quota is exceeded.\<close>

theorem listeners_follow_area:
  assumes "map_works (env_map E)" and "opened a" and "distinct (sa_eventListeners a)" and "c \<in> set (sa_eventListeners a)"
    and "fold (area_step E) ops (a, d, posts) = (a', d', posts')"
  shows "\<exists>new. posts' = posts @ new \<and> fold replay (told_changes c new) (area_shows E a) = area_shows E a'"
  using assms(2-)
proof (induction ops arbitrary: a d posts)
  case (Cons op ops)
  obtain a1 d1 posts1 where step: "area_step E op (a, d, posts) = (a1, d1, posts1)" by (cases "area_step E op (a, d, posts)")
  have change: "one_change E a posts (a1, d1, posts1)"
    using area_step_one_change [OF assms(1) Cons.prems(1), of posts op d] step by simp
  obtain new1 where new1: "posts1 = posts @ new1" "fold replay (told_changes c new1) (area_shows E a) = area_shows E a1"
    using change told_changes_events [OF Cons.prems(2)] Cons.prems(3) by (auto simp: one_change_def)
  obtain new2 where "posts' = posts1 @ new2" "fold replay (told_changes c new2) (area_shows E a1) = area_shows E a'"
    using Cons.IH [of a1 d1 posts1] Cons.prems step change by (auto simp: one_change_def)
  then show ?case using new1 by (intro exI [of _ "new1 @ new2"]) simp
qed simp


abbreviation shared_area :: "list_map storage_area" where
  "shared_area \<equiv> (StorageArea_new list_env None ''https_a_0'' 1000 1)\<lparr>sa_eventListeners := [1, 2]\<rparr>"

theorem listeners_follow_area_witness:
  "\<exists>new. snd (snd (fold (area_step list_env) sample_ops (shared_area, None, []))) = new \<and>
     fold replay (told_changes 2 new) Map.empty ''b'' = Some ''y''"
proof -
  let ?run = "fold (area_step list_env) sample_ops (shared_area, None, [])"
  have "map_works (env_map list_env)" by (simp add: list_env_def list_map_works)
  moreover have "opened shared_area" "distinct (sa_eventListeners shared_area)" "2 \<in> set (sa_eventListeners shared_area)"
    by (simp_all add: opened_def StorageArea_new_def)
  moreover have "area_shows list_env shared_area = Map.empty"
    by (simp add: area_shows_def sm_getItem_def [abs_def] sm_table_def StorageArea_new_def list_env_def list_storage_map_def)
  moreover have "area_shows list_env (fst ?run) ''b'' = Some ''y''" by code_simp
  ultimately show ?thesis
    using listeners_follow_area [of list_env shared_area 2 sample_ops None "[]" "fst ?run" "fst (snd ?run)" "snd (snd ?run)"]
    by simp
qed

end
