(* ===== verification/Storage_Client.thy ===== *)
theory Storage_Client
  imports Storage_Area
begin

text \<open>
  Web storage in a web process, \<^verbatim>\<open>StorageAreaMap\<close> and \<^verbatim>\<open>StorageAreaImpl\<close> (src/WebProcess/WebStorage).
  A page reads and changes a copy of the items. A change is sent to the network process and counted as
  pending until it is acknowledged; changes of other processes arrive as events and are applied unless the
  page has changed the same key since. A seed tells acknowledgements of an earlier copy apart.
  The answers to synchronous requests are arguments of the operations that make them. Dispatching the
  events to the frames of a page is WebCore's and is left out.
\<close>

datatype StorageType = ST_Session | ST_Local | ST_TransientLocal

text \<open>The messages to the network process.\<close>

datatype manager_message =
    SetItem area_ref u64 u64 string string wtf_string
  | RemoveItem area_ref u64 u64 string wtf_string
  | Clear area_ref u64 u64 wtf_string
  | DisconnectFromStorageArea area_ref

record 'm area_map =
  am_map :: "'m option"
  am_mapID :: "area_ref option"
  am_pendingValueChanges :: "(string \<times> nat) list"
  am_currentSeed :: u64
  am_quotaInBytes :: u32
  am_type :: StorageType
  am_useCount :: u64
  am_hasPendingClear :: bool

text \<open>\<^verbatim>\<open>HashCountedSet\<close>.\<close>

definition counted_count :: "string \<Rightarrow> (string \<times> nat) list \<Rightarrow> nat" where
  "counted_count k xs = (case map_of xs k of None \<Rightarrow> 0 | Some n \<Rightarrow> n)"

definition counted_add :: "string \<Rightarrow> (string \<times> nat) list \<Rightarrow> (string \<times> nat) list" where
  "counted_add k xs = AList.update k (counted_count k xs + 1) xs"

definition counted_remove :: "string \<Rightarrow> (string \<times> nat) list \<Rightarrow> (string \<times> nat) list" where
  "counted_remove k xs =
     (if counted_count k xs \<le> 1 then AList.delete k xs else AList.update k (counted_count k xs - 1) xs)"

definition counted_contains :: "string \<Rightarrow> (string \<times> nat) list \<Rightarrow> bool" where
  "counted_contains k xs \<longleftrightarrow> map_of xs k \<noteq> None"

subsection \<open>The copy of the items\<close>

text \<open>\<open>connected\<close> is the answer to the request to connect, \<open>values\<close> that to the request for the values.\<close>

definition am_connect :: "area_ref option \<Rightarrow> 'm area_map \<Rightarrow> 'm area_map" where
  "am_connect connected am = (if am_mapID am \<noteq> None then am else am\<lparr>am_mapID := connected\<rparr>)"

definition StorageAreaMap_new :: "u32 \<Rightarrow> StorageType \<Rightarrow> area_ref option \<Rightarrow> 'm area_map" where
  "StorageAreaMap_new quota type connected =
     am_connect connected \<lparr>am_map = None, am_mapID = None, am_pendingValueChanges = [],
       am_currentSeed = 0, am_quotaInBytes = quota, am_type = type, am_useCount = 0,
       am_hasPendingClear = False\<rparr>"

definition resetValues :: "'m area_map \<Rightarrow> 'm area_map" where
  "resetValues am = am\<lparr>am_map := None, am_pendingValueChanges := [], am_hasPendingClear := False,
     am_currentSeed := am_currentSeed am + 1\<rparr>"

definition ensureMap :: "'m storage_map \<Rightarrow> area_ref option \<Rightarrow> items \<Rightarrow> 'm area_map \<Rightarrow> 'm \<times> 'm area_map" where
  "ensureMap S connected values am =
     (let am = am_connect connected am in
      case am_map am of
        Some m \<Rightarrow> (m, am)
      | None \<Rightarrow>
          (let m = StorageMap_create S (am_quotaInBytes am);
               m = (if am_mapID am \<noteq> None then sm_importItems S m values else m) in
           (m, am\<lparr>am_map := Some m\<rparr>)))"

definition am_length :: "'m storage_map \<Rightarrow> area_ref option \<Rightarrow> items \<Rightarrow> 'm area_map \<Rightarrow> nat \<times> 'm area_map" where
  "am_length S connected values am =
     (case ensureMap S connected values am of (m, am) \<Rightarrow> (sm_length S m, am))"

definition am_key :: "'m storage_map \<Rightarrow> area_ref option \<Rightarrow> items \<Rightarrow> u32 \<Rightarrow> 'm area_map \<Rightarrow> wtf_string \<times> 'm area_map" where
  "am_key S connected values index am =
     (case ensureMap S connected values am of (m, am) \<Rightarrow> (sm_key S m index, am))"

definition am_item :: "'m storage_map \<Rightarrow> area_ref option \<Rightarrow> items \<Rightarrow> string \<Rightarrow> 'm area_map \<Rightarrow> wtf_string \<times> 'm area_map" where
  "am_item S connected values key am =
     (case ensureMap S connected values am of (m, am) \<Rightarrow> (sm_getItem S m key, am))"

definition am_contains :: "'m storage_map \<Rightarrow> area_ref option \<Rightarrow> items \<Rightarrow> string \<Rightarrow> 'm area_map \<Rightarrow> bool \<times> 'm area_map" where
  "am_contains S connected values key am =
     (case ensureMap S connected values am of (m, am) \<Rightarrow> (sm_contains S m key, am))"

text \<open>The results: \<^verbatim>\<open>quotaException\<close>, the messages sent, the object. Without an identifier nothing is sent.\<close>

definition am_setItem ::
    "'m storage_map \<Rightarrow> area_ref option \<Rightarrow> items \<Rightarrow> u64 \<Rightarrow> string \<Rightarrow> string \<Rightarrow> wtf_string \<Rightarrow> 'm area_map \<Rightarrow>
     bool \<times> manager_message list \<times> 'm area_map" where
  "am_setItem S connected values sourceArea key value url am =
     (let (m, am) = ensureMap S connected values am;
          (m, oldValue, quotaException) = sm_setItem S m key (Some value);
          am = am\<lparr>am_map := Some m\<rparr> in
      if quotaException then (True, [], am)
      else if oldValue = Some value then (False, [], am)
      else
        (False,
         (case am_mapID am of
            Some mapID \<Rightarrow> [SetItem mapID sourceArea (am_currentSeed am) key value url]
          | None \<Rightarrow> []),
         am\<lparr>am_pendingValueChanges := counted_add key (am_pendingValueChanges am)\<rparr>))"

definition am_removeItem ::
    "'m storage_map \<Rightarrow> area_ref option \<Rightarrow> items \<Rightarrow> u64 \<Rightarrow> string \<Rightarrow> wtf_string \<Rightarrow> 'm area_map \<Rightarrow>
     manager_message list \<times> 'm area_map" where
  "am_removeItem S connected values sourceArea key url am =
     (let (m, am) = ensureMap S connected values am;
          (m, oldValue) = sm_removeItem S m key;
          am = am\<lparr>am_map := Some m\<rparr> in
      if oldValue = None then ([], am)
      else
        ((case am_mapID am of
            Some mapID \<Rightarrow> [RemoveItem mapID sourceArea (am_currentSeed am) key url]
          | None \<Rightarrow> []),
         am\<lparr>am_pendingValueChanges := counted_add key (am_pendingValueChanges am)\<rparr>))"

definition am_clear ::
    "'m storage_map \<Rightarrow> area_ref option \<Rightarrow> u64 \<Rightarrow> wtf_string \<Rightarrow> 'm area_map \<Rightarrow>
     manager_message list \<times> 'm area_map" where
  "am_clear S connected sourceArea url am =
     (let am = resetValues (am_connect connected am);
          am = am\<lparr>am_hasPendingClear := True, am_map := Some (StorageMap_create S (am_quotaInBytes am))\<rparr> in
      ((case am_mapID am of
          Some mapID \<Rightarrow> [Clear mapID sourceArea (am_currentSeed am) url]
        | None \<Rightarrow> []), am))"

definition am_disconnect :: "'m area_map \<Rightarrow> manager_message list \<times> 'm area_map" where
  "am_disconnect am =
     (case am_mapID am of
        None \<Rightarrow> ([], am)
      | Some mapID \<Rightarrow> ([DisconnectFromStorageArea mapID], (resetValues am)\<lparr>am_mapID := None\<rparr>))"

definition incrementUseCount :: "'m area_map \<Rightarrow> 'm area_map" where
  "incrementUseCount am = am\<lparr>am_useCount := am_useCount am + 1\<rparr>"

text \<open>The first component: the namespace destroys the object.\<close>

definition decrementUseCount :: "'m area_map \<Rightarrow> bool \<times> 'm area_map" where
  "decrementUseCount am =
     (let am = am\<lparr>am_useCount := am_useCount am - 1\<rparr> in (am_useCount am = 0, am))"

subsection \<open>Messages from the network process\<close>

definition didSetItem :: "u64 \<Rightarrow> string \<Rightarrow> bool \<Rightarrow> 'm area_map \<Rightarrow> 'm area_map" where
  "didSetItem mapSeed key quotaError am =
     (if am_currentSeed am \<noteq> mapSeed then am
      else if quotaError then resetValues am
      else am\<lparr>am_pendingValueChanges := counted_remove key (am_pendingValueChanges am)\<rparr>)"

definition client_didRemoveItem :: "u64 \<Rightarrow> string \<Rightarrow> 'm area_map \<Rightarrow> 'm area_map" where
  "client_didRemoveItem mapSeed key am =
     (if am_currentSeed am \<noteq> mapSeed then am
      else am\<lparr>am_pendingValueChanges := counted_remove key (am_pendingValueChanges am)\<rparr>)"

definition didClear :: "u64 \<Rightarrow> 'm area_map \<Rightarrow> 'm area_map" where
  "didClear mapSeed am =
     (if am_currentSeed am \<noteq> mapSeed then am else am\<lparr>am_hasPendingClear := False\<rparr>)"

definition shouldApplyChangeForKey :: "string \<Rightarrow> 'm area_map \<Rightarrow> bool" where
  "shouldApplyChangeForKey key am \<longleftrightarrow>
     am_map am \<noteq> None \<and> \<not> counted_contains key (am_pendingValueChanges am)"

text \<open>
  The pending changes that are kept when another process clears the area. The value written is
  that of the variable \<^verbatim>\<open>oldValue\<close>, which is null.
\<close>

primrec keepPending :: "'m storage_map \<Rightarrow> 'm \<Rightarrow> string list \<Rightarrow> 'm \<Rightarrow> 'm" where
  "keepPending S m [] newMap = newMap"
| "keepPending S m (key # keys) newMap =
     keepPending S m keys
       (if sm_getItem S m key = None then newMap else sm_setItemIgnoringQuota S newMap key None)"

text \<open>A null map is only followed if there are pending changes.\<close>

definition applyChange :: "'m storage_map \<Rightarrow> wtf_string \<Rightarrow> wtf_string \<Rightarrow> 'm area_map \<Rightarrow> 'm area_map option" where
  "applyChange S key newValue am =
     (if am_hasPendingClear am then Some am
      else case key of
        None \<Rightarrow>
          (let newMap = StorageMap_create S (am_quotaInBytes am);
               keys = map fst (am_pendingValueChanges am) in
           case am_map am of
             None \<Rightarrow> if keys = [] then Some (am\<lparr>am_map := Some newMap\<rparr>) else None
           | Some m \<Rightarrow> Some (am\<lparr>am_map := Some (keepPending S m keys newMap)\<rparr>))
      | Some key \<Rightarrow>
          if \<not> shouldApplyChangeForKey key am then Some am
          else case newValue of
            None \<Rightarrow> Some (am\<lparr>am_map := map_option (\<lambda>m. fst (sm_removeItem S m key)) (am_map am)\<rparr>)
          | Some value \<Rightarrow>
              Some (am\<lparr>am_map := map_option (\<lambda>m. sm_setItemIgnoringQuota S m key (Some value)) (am_map am)\<rparr>))"

definition dispatchStorageEvent ::
    "'m storage_map \<Rightarrow> u64 option \<Rightarrow> wtf_string \<Rightarrow> wtf_string \<Rightarrow> 'm area_map \<Rightarrow> 'm area_map option" where
  "dispatchStorageEvent S storageAreaImplID key newValue am =
     (if storageAreaImplID = None then applyChange S key newValue am else Some am)"

definition clearCache :: "'m area_map \<Rightarrow> 'm area_map" where
  "clearCache am = resetValues am"

primrec am_didReceiveMessage :: "'m storage_map \<Rightarrow> area_message \<Rightarrow> 'm area_map \<Rightarrow> 'm area_map option" where
  "am_didReceiveMessage S (DispatchStorageEvent implID key oldValue newValue url) am =
     dispatchStorageEvent S implID key newValue am"
| "am_didReceiveMessage S ClearCache am = Some (clearCache am)"
| "am_didReceiveMessage S (DidSetItem seed key quotaError) am = Some (didSetItem seed key quotaError am)"
| "am_didReceiveMessage S (DidRemoveItem seed key) am = Some (client_didRemoveItem seed key am)"
| "am_didReceiveMessage S (DidClear seed) am = Some (didClear seed am)"

end
