(* ===== verification/Storage_Sync.thy ===== *)
theory Storage_Sync
  imports Storage_Client
begin

text \<open>
  The web processes and the network process together, for one storage area: the handlers of
  \<^verbatim>\<open>StorageManagerSet\<close> for the messages of a \<^verbatim>\<open>StorageAreaMap\<close>, the connections as queues in both
  directions, and the main run loop of the network process with the events posted to it. An
  acknowledgement is sent where the message is handled, an event only when the main run loop comes to it.
\<close>

text \<open>The result: the state of the area and the messages sent back on the connection.\<close>

definition set_setItem ::
    "('m, 'd) storage_env \<Rightarrow> connection_ref \<Rightarrow> u64 \<Rightarrow> u64 \<Rightarrow> string \<Rightarrow> string \<Rightarrow> wtf_string \<Rightarrow>
     ('m, 'd) area_state \<Rightarrow> ('m, 'd) area_state \<times> area_message list" where
  "set_setItem E c implID seed key value url s =
     (case area_setItem E c implID key value url s of
        (quotaError, s) \<Rightarrow> (s, [DidSetItem seed key quotaError]))"

definition set_removeItem ::
    "('m, 'd) storage_env \<Rightarrow> connection_ref \<Rightarrow> u64 \<Rightarrow> u64 \<Rightarrow> string \<Rightarrow> wtf_string \<Rightarrow>
     ('m, 'd) area_state \<Rightarrow> ('m, 'd) area_state \<times> area_message list" where
  "set_removeItem E c implID seed key url s = (area_removeItem E c implID key url s, [DidRemoveItem seed key])"

definition set_clear ::
    "('m, 'd) storage_env \<Rightarrow> connection_ref \<Rightarrow> u64 \<Rightarrow> u64 \<Rightarrow> wtf_string \<Rightarrow>
     ('m, 'd) area_state \<Rightarrow> ('m, 'd) area_state \<times> area_message list" where
  "set_clear E c implID seed url s = (area_clear E c implID url s, [DidClear seed])"

primrec serve ::
    "('m, 'd) storage_env \<Rightarrow> connection_ref \<Rightarrow> manager_message \<Rightarrow> ('m, 'd) area_state \<Rightarrow>
     ('m, 'd) area_state \<times> area_message list" where
  "serve E c (SetItem mapID implID seed key value url) s = set_setItem E c implID seed key value url s"
| "serve E c (RemoveItem mapID implID seed key url) s = set_removeItem E c implID seed key url s"
| "serve E c (Clear mapID implID seed url) s = set_clear E c implID seed url s"
| "serve E c (DisconnectFromStorageArea mapID) s = (snd (removeListener E c s), [])"

record ('m, 'd) storage_net =
  net_area :: "'m storage_area"
  net_file :: 'd
  net_posts :: "post list"
  net_client :: "connection_ref \<Rightarrow> 'm area_map"
  net_up :: "connection_ref \<Rightarrow> manager_message list"
  net_down :: "connection_ref \<Rightarrow> area_message list"

text \<open>
  What can happen next: a web process loads its copy, with a synchronous request that is answered
  after everything it has sent before; a page changes items; the network process handles a message;
  its main run loop sends a posted event; a web process handles a message.
\<close>

datatype net_action =
    Load connection_ref
  | PageSet connection_ref u64 string string
  | PageRemove connection_ref u64 string
  | PageClear connection_ref u64
  | Serve connection_ref
  | RunPost
  | Receive connection_ref

definition net_loaded :: "('m, 'd) storage_net \<Rightarrow> connection_ref \<Rightarrow> bool" where
  "net_loaded net c \<longleftrightarrow> c \<in> set (sa_eventListeners (net_area net)) \<and> am_map (net_client net c) \<noteq> None"

definition net_send ::
    "connection_ref \<Rightarrow> manager_message list \<times> 'm area_map \<Rightarrow> ('m, 'd) storage_net \<Rightarrow> ('m, 'd) storage_net" where
  "net_send c r net = net\<lparr>net_client := (net_client net)(c := snd r), net_up := (net_up net)(c := net_up net c @ fst r)\<rparr>"

primrec net_do ::
    "('m, 'd) storage_env \<Rightarrow> net_action \<Rightarrow> ('m, 'd) storage_net \<Rightarrow> ('m, 'd) storage_net option" where
  "net_do E (Load c) net =
     (if c \<notin> set (sa_eventListeners (net_area net)) \<or> am_map (net_client net c) \<noteq> None \<or> net_up net c \<noteq> [] then None
      else (case area_items E (net_area net, net_file net, net_posts net) of
        (values, a, d, posts) \<Rightarrow> Some (net\<lparr>net_area := a, net_file := d, net_posts := posts, net_client :=
          (net_client net)(c := snd (ensureMap (env_map E) (Some (sa_identifier a)) values (net_client net c)))\<rparr>)))"
| "net_do E (PageSet c implID key value) net =
     (if \<not> net_loaded net c then None
      else Some (net_send c (snd (am_setItem (env_map E) None [] implID key value None (net_client net c))) net))"
| "net_do E (PageRemove c implID key) net =
     (if \<not> net_loaded net c then None
      else Some (net_send c (am_removeItem (env_map E) None [] implID key None (net_client net c)) net))"
| "net_do E (PageClear c implID) net =
     (if \<not> net_loaded net c then None
      else Some (net_send c (am_clear (env_map E) None implID None (net_client net c)) net))"
| "net_do E (Serve c) net =
     (case net_up net c of
        [] \<Rightarrow> None
      | message # up \<Rightarrow>
          (case serve E c message (net_area net, net_file net, net_posts net) of
             ((a, d, posts), replies) \<Rightarrow> Some (net\<lparr>net_area := a, net_file := d, net_posts := posts,
               net_up := (net_up net)(c := up), net_down := (net_down net)(c := net_down net c @ replies)\<rparr>)))"
| "net_do E RunPost net =
     (case net_posts net of
        [] \<Rightarrow> None
      | (c, mapID, message) # posts \<Rightarrow>
          Some (net\<lparr>net_posts := posts, net_down := (net_down net)(c := net_down net c @ [message])\<rparr>))"
| "net_do E (Receive c) net =
     (case net_down net c of
        [] \<Rightarrow> None
      | message # down \<Rightarrow>
          map_option (\<lambda>am. net\<lparr>net_client := (net_client net)(c := am), net_down := (net_down net)(c := down)\<rparr>)
            (am_didReceiveMessage (env_map E) message (net_client net c)))"

fun net_run :: "('m, 'd) storage_env \<Rightarrow> net_action list \<Rightarrow> ('m, 'd) storage_net \<Rightarrow> ('m, 'd) storage_net option" where
  "net_run E [] net = Some net"
| "net_run E (act # acts) net = (case net_do E act net of None \<Rightarrow> None | Some net \<Rightarrow> net_run E acts net)"

definition quiet :: "('m, 'd) storage_net \<Rightarrow> bool" where
  "quiet net \<longleftrightarrow> net_posts net = [] \<and>
     (\<forall>c \<in> set (sa_eventListeners (net_area net)). net_up net c = [] \<and> net_down net c = [])"

definition client_shows :: "('m, 'd) storage_env \<Rightarrow> 'm area_map \<Rightarrow> (string \<rightharpoonup> string) option" where
  "client_shows E am = map_option (sm_getItem (env_map E)) (am_map am)"

text \<open>An ephemeral area without items that some connections listen to, and their copies not yet loaded.\<close>

definition net_start :: "('m, 'd) storage_env \<Rightarrow> u32 \<Rightarrow> connection_ref list \<Rightarrow> 'd \<Rightarrow> ('m, 'd) storage_net" where
  "net_start E quota cs d =
     \<lparr>net_area = (StorageArea_new E None ''https_a_0'' quota 1)\<lparr>sa_eventListeners := cs\<rparr>, net_file = d, net_posts = [],
      net_client = (\<lambda>c. StorageAreaMap_new quota ST_Session (Some 1)), net_up = (\<lambda>c. []), net_down = (\<lambda>c. [])\<rparr>"

subsection \<open>When the copies fall apart\<close>

definition late_event_run :: "net_action list" where
  "late_event_run = [Load 1, Load 2, PageSet 1 11 ''k'' ''a'', PageSet 2 22 ''k'' ''b'', Serve 1, Serve 2,
     Receive 2, RunPost, RunPost, RunPost, RunPost, Receive 2, Receive 2, Receive 1, Receive 1, Receive 1]"

lemma late_event_computed:
  "map_option (\<lambda>net. (net_posts net, net_up net 1, net_up net 2, net_down net 1, net_down net 2,
       area_shows list_env (net_area net) ''k'', map_option (\<lambda>t. t ''k'') (client_shows list_env (net_client net 1)),
       map_option (\<lambda>t. t ''k'') (client_shows list_env (net_client net 2))))
     (net_run list_env late_event_run (net_start list_env 1000 [1, 2] None)) =
   Some ([], [], [], [], [], Some ''b'', Some (Some ''b''), Some (Some ''a''))"
  by code_simp

definition clear_event_run :: "net_action list" where
  "clear_event_run = [Load 1, Load 2, PageSet 2 22 ''j'' ''x'', Serve 2, RunPost, RunPost, Receive 1, Receive 2, Receive 2,
     PageSet 1 11 ''k'' ''a'', PageClear 2 22, Serve 2, RunPost, RunPost, Receive 1, Receive 2, Receive 2,
     Serve 1, RunPost, RunPost, Receive 1, Receive 1, Receive 2]"

lemma clear_event_computed:
  "map_option (\<lambda>net. (net_posts net, net_up net 1, net_up net 2, net_down net 1, net_down net 2,
       area_shows list_env (net_area net) ''k'', map_option (\<lambda>t. t ''k'') (client_shows list_env (net_client net 1)),
       map_option (\<lambda>t. t ''k'') (client_shows list_env (net_client net 2))))
     (net_run list_env clear_event_run (net_start list_env 1000 [1, 2] None)) =
   Some ([], [], [], [], [], Some ''a'', Some None, Some (Some ''a''))"
  by code_simp


lemma run_quiet:
  assumes "map_option (\<lambda>net. (net_posts net, net_up net 1, net_up net 2, net_down net 1, net_down net 2,
       area_shows list_env (net_area net) k, map_option (\<lambda>t. t k) (client_shows list_env (net_client net 1)),
       map_option (\<lambda>t. t k) (client_shows list_env (net_client net 2)))) r = Some ([], [], [], [], [], v, w1, w2)"
    and "\<And>net. r = Some net \<Longrightarrow> sa_eventListeners (net_area net) = [1, 2]"
  shows "\<exists>net. r = Some net \<and> quiet net \<and> area_shows list_env (net_area net) k = v \<and>
    map_option (\<lambda>t. t k) (client_shows list_env (net_client net 1)) = w1 \<and>
    map_option (\<lambda>t. t k) (client_shows list_env (net_client net 2)) = w2"
  using assms by (auto simp: quiet_def)

lemma run_listeners:
  "map_option (sa_eventListeners \<circ> net_area) (net_run list_env late_event_run (net_start list_env 1000 [1, 2] None)) = Some [1, 2]"
  "map_option (sa_eventListeners \<circ> net_area) (net_run list_env clear_event_run (net_start list_env 1000 [1, 2] None)) = Some [1, 2]"
  by code_simp+


text \<open>Clearing loses the pending change of another page: a page sets a key, and before its message is
  handled the area is cleared by another page. The copy of the first page keeps the key with a null value,
  although the comment says the change is kept; when everything has been delivered the area and the
  second page show the value, and the page that set it does not.\<close>

theorem clear_event_loses_pending:
  "\<exists>net. net_run list_env clear_event_run (net_start list_env 1000 [1, 2] None) = Some net \<and> quiet net \<and>
     area_shows list_env (net_area net) ''k'' = Some ''a'' \<and>
     map_option (\<lambda>t. t ''k'') (client_shows list_env (net_client net 1)) = Some None \<and>
     map_option (\<lambda>t. t ''k'') (client_shows list_env (net_client net 2)) = Some (Some ''a'')"
  by (rule run_quiet [OF clear_event_computed]) (use run_listeners(2) in auto)

subsection \<open>When they stay together\<close>

text \<open>The changes of a key on their way to the area, and the acknowledgements on their way back.\<close>

primrec change_of :: "string \<Rightarrow> manager_message \<Rightarrow> wtf_string list" where
  "change_of k (SetItem mapID implID seed key value url) = (if key = k then [Some value] else [])"
| "change_of k (RemoveItem mapID implID seed key url) = (if key = k then [None] else [])"
| "change_of k (Clear mapID implID seed url) = []"
| "change_of k (DisconnectFromStorageArea mapID) = []"

definition changes_of :: "string \<Rightarrow> manager_message list \<Rightarrow> wtf_string list" where
  "changes_of k up = concat (map (change_of k) up)"

primrec acks_of :: "string \<Rightarrow> area_message \<Rightarrow> nat" where
  "acks_of k (DispatchStorageEvent implID key oldValue newValue url) = 0"
| "acks_of k ClearCache = 0"
| "acks_of k (DidSetItem seed key full) = (if key = k then 1 else 0)"
| "acks_of k (DidRemoveItem seed key) = (if key = k then 1 else 0)"
| "acks_of k (DidClear seed) = 0"

text \<open>What a message does to the value of a key and to the number of its pending changes.\<close>

primrec follow1 :: "string \<Rightarrow> area_message \<Rightarrow> wtf_string \<times> nat \<Rightarrow> wtf_string \<times> nat" where
  "follow1 k (DispatchStorageEvent implID key oldValue newValue url) vp =
     (if implID = None \<and> key = Some k \<and> snd vp = 0 then (newValue, 0) else vp)"
| "follow1 k ClearCache vp = vp"
| "follow1 k (DidSetItem seed key full) vp = (if key = k then (fst vp, snd vp - 1) else vp)"
| "follow1 k (DidRemoveItem seed key) vp = (if key = k then (fst vp, snd vp - 1) else vp)"
| "follow1 k (DidClear seed) vp = vp"

definition follow :: "string \<Rightarrow> area_message list \<Rightarrow> wtf_string \<times> nat \<Rightarrow> wtf_string \<times> nat" where
  "follow k = fold (follow1 k)"

text \<open>Messages of runs without clearing and without exceeded quota, all for the same seed.\<close>

primrec plain_up :: "u64 \<Rightarrow> manager_message \<Rightarrow> bool" where
  "plain_up seed (SetItem mapID implID seed' key value url) = (seed' = seed)"
| "plain_up seed (RemoveItem mapID implID seed' key url) = (seed' = seed)"
| "plain_up seed (Clear mapID implID seed' url) = False"
| "plain_up seed (DisconnectFromStorageArea mapID) = False"

primrec plain_down :: "u64 \<Rightarrow> area_message \<Rightarrow> bool" where
  "plain_down seed (DispatchStorageEvent implID key oldValue newValue url) = (key \<noteq> None)"
| "plain_down seed ClearCache = False"
| "plain_down seed (DidSetItem seed' key full) = (seed' = seed \<and> \<not> full)"
| "plain_down seed (DidRemoveItem seed' key) = (seed' = seed)"
| "plain_down seed (DidClear seed') = False"

definition wf_counted :: "(string \<times> nat) list \<Rightarrow> bool" where
  "wf_counted xs \<longleftrightarrow> distinct (map fst xs) \<and> (\<forall>x \<in> set xs. snd x > 0)"

lemma set_AList_update: "set (AList.update k v xs) \<subseteq> insert (k, v) (set xs)"
  by (induction xs) auto

lemma counted_wf:
  assumes "wf_counted xs"
  shows "wf_counted (counted_add k xs)" "wf_counted (counted_remove k xs)"
    "counted_count k' (counted_add k xs) = (if k' = k then counted_count k xs + 1 else counted_count k' xs)"
    "counted_count k' (counted_remove k xs) = (if k' = k then counted_count k xs - 1 else counted_count k' xs)"
    "counted_contains k xs \<longleftrightarrow> counted_count k xs > 0"
proof -
  have pos: "n > 0" if "map_of xs k = Some n" for n
    using that assms by (auto simp: wf_counted_def dest: map_of_SomeD)
  have update: "wf_counted (AList.update k n xs)" if "n > 0" for n
    using assms that set_AList_update [of k n xs] unfolding wf_counted_def by (auto simp: distinct_update)
  show "wf_counted (counted_add k xs)" unfolding counted_add_def by (rule update) simp
  have "wf_counted (AList.delete k xs)"
    using assms by (auto simp: wf_counted_def AList.delete_eq distinct_map_filter)
  then show "wf_counted (counted_remove k xs)" by (simp add: counted_remove_def update)
  show "counted_count k' (counted_add k xs) = (if k' = k then counted_count k xs + 1 else counted_count k' xs)"
    by (simp add: counted_add_def counted_count_def update_conv')
  show "counted_count k' (counted_remove k xs) = (if k' = k then counted_count k xs - 1 else counted_count k' xs)"
    by (auto simp: counted_remove_def counted_count_def update_conv' delete_conv' split: option.split)
  show "counted_contains k xs \<longleftrightarrow> counted_count k xs > 0"
    using pos by (auto simp: counted_contains_def counted_count_def split: option.split)
qed


lemma changes_of_simps [simp]:
  "changes_of k [] = []" "changes_of k (m # up) = change_of k m @ changes_of k up"
  "changes_of k (up @ up') = changes_of k up @ changes_of k up'"
  by (simp_all add: changes_of_def)

lemma follow_simps [simp]:
  "follow k [] vp = vp" "follow k (m # down) vp = follow k down (follow1 k m vp)"
  "follow k (down @ down') vp = follow k down' (follow k down vp)"
  by (simp_all add: follow_def)

lemma follow_count: "snd (follow k down (v, p)) = p - sum_list (map (acks_of k) down)"
proof (induction down arbitrary: v p)
  case (Cons m down)
  have "snd (follow1 k m (v, p)) = p - acks_of k m" by (cases m) auto
  moreover obtain v' p' where "follow1 k m (v, p) = (v', p')" by (cases "follow1 k m (v, p)")
  ultimately show ?case using Cons.IH [of v' p'] by simp
qed simp

text \<open>As long as changes are on their way up, nothing on its way down is applied.\<close>

lemma follow_pending:
  "p > sum_list (map (acks_of k) down) \<Longrightarrow> fst (follow k down (v, p)) = v"
proof (induction down arbitrary: p)
  case (Cons m down)
  then have "follow1 k m (v, p) = (v, p - acks_of k m)" by (cases m) auto
  then show ?case using Cons by simp
qed simp

text \<open>Without acknowledgements and pending changes the last event decides.\<close>

lemma follow_start:
  assumes "sum_list (map (acks_of k) down) = 0"
  shows "follow k down (v, 0) = (v, 0) \<or> (\<forall>w. follow k down (w, 0) = follow k down (v, 0))"
  using assms
proof (induction down arbitrary: v)
  case (Cons m down)
  have acks: "acks_of k m = 0" "sum_list (map (acks_of k) down) = 0" using Cons.prems by simp_all
  have "(\<forall>vp. follow1 k m vp = vp) \<or> (\<exists>u. \<forall>w. follow1 k m (w, 0) = (u, 0))"
    using acks(1) by (cases m) auto
  then show ?case using Cons.IH [OF acks(2), of v] by auto
qed simp

text \<open>
  A key is in step, where the area shows \<open>tk\<close> and the copy shows and counts \<open>gp\<close>, and \<open>up\<close> and \<open>down\<close> are on
  their way: once the copy has followed what is on its way down, it has as many pending changes as
  are on their way up, and shows the last of these or, if there is none, what the area shows.
\<close>

definition key_ok :: "string \<Rightarrow> wtf_string \<Rightarrow> wtf_string \<times> nat \<Rightarrow> manager_message list \<Rightarrow> area_message list \<Rightarrow> bool" where
  "key_ok k tk gp up down \<longleftrightarrow>
     snd gp = length (changes_of k up) + sum_list (map (acks_of k) down) \<and>
     fst (follow k down gp) = (if changes_of k up = [] then tk else last (changes_of k up))"

lemma key_ok_receive: "key_ok k tk gp up (m # down) \<Longrightarrow> key_ok k tk (follow1 k m gp) up down"
proof -
  have "snd (follow1 k m gp) = snd gp - acks_of k m" by (cases m) auto
  then show "key_ok k tk gp up (m # down) \<Longrightarrow> ?thesis" by (simp add: key_ok_def)
qed

lemma key_ok_event:
  assumes "key_ok k tk gp up down"
  shows "key_ok k (if k = k' then v else tk) gp up (down @ [DispatchStorageEvent None (Some k') old v url])"
proof -
  have "snd (follow k down gp) = length (changes_of k up)"
    using assms follow_count [of k down "fst gp" "snd gp"] unfolding key_ok_def by (metis add_diff_cancel_right' prod.collapse)
  then show ?thesis using assms by (auto simp: key_ok_def)
qed

lemma key_ok_own_event:
  "key_ok k tk gp up down \<Longrightarrow> key_ok k tk gp up (down @ [DispatchStorageEvent (Some i) key old v url])"
  by (simp add: key_ok_def)

lemma key_ok_ack:
  assumes "key_ok k tk gp (m # up) down" and "change_of k m = (if k = k' then [w] else [])"
    and "ack = DidSetItem seed k' full \<or> ack = DidRemoveItem seed k'"
  shows "key_ok k (if k = k' then w else tk) gp up (down @ [ack])"
  using assms by (auto simp: key_ok_def split: if_splits)

lemma key_ok_send:
  assumes "key_ok k tk (g, p) up down" and "change_of k m = [w]"
  shows "key_ok k tk (w, p + 1) (up @ [m]) down"
  using assms follow_pending [of k down "p + 1" w] by (simp add: key_ok_def)

lemma key_ok_send_other: "key_ok k tk gp up down \<Longrightarrow> change_of k m = [] \<Longrightarrow> key_ok k tk gp (up @ [m]) down"
  by (simp add: key_ok_def)

text \<open>A copy is in step when all its keys are; one that is not loaded will be when it is loaded now.\<close>

definition in_step ::
    "('m, 'd) storage_env \<Rightarrow> (string \<rightharpoonup> string) \<Rightarrow> 'm area_map \<Rightarrow> manager_message list \<Rightarrow> area_message list \<Rightarrow> bool" where
  "in_step E t am up down \<longleftrightarrow>
     \<not> am_hasPendingClear am \<and> am_mapID am \<noteq> None \<and> wf_counted (am_pendingValueChanges am) \<and>
     list_all (plain_up (am_currentSeed am)) up \<and> list_all (plain_down (am_currentSeed am)) down \<and>
     (case am_map am of
        None \<Rightarrow> up = [] \<and> am_pendingValueChanges am = [] \<and> (\<forall>k. key_ok k (t k) (t k, 0) [] down)
      | Some m \<Rightarrow> \<forall>k. key_ok k (t k) (sm_getItem (env_map E) m k, counted_count k (am_pendingValueChanges am)) up down)"

lemma key_ok_unloaded_receive:
  assumes "key_ok k tk (tk, 0) [] (m # down)"
  shows "key_ok k tk (tk, 0) [] down"
proof -
  have "snd (follow1 k m (tk, 0)) = 0" by (cases m) auto
  then obtain x where x: "follow1 k m (tk, 0) = (x, 0)" by (metis prod.collapse)
  have acks: "sum_list (map (acks_of k) down) = 0" "fst (follow k down (x, 0)) = tk"
    using assms x by (simp_all add: key_ok_def)
  then have "fst (follow k down (tk, 0)) = tk"
    using follow_start [OF acks(1), of x] by (metis fst_conv)
  then show ?thesis using acks(1) by (simp add: key_ok_def)
qed

lemma getItem_changed:
  assumes "map_works S"
  shows "sm_getItem S (sm_setItemIgnoringQuota S m k v) k' = (if k' = k then v else sm_getItem S m k')"
    "sm_getItem S (fst (sm_removeItem S m k)) k' = (if k' = k then None else sm_getItem S m k')"
proof -
  show "sm_getItem S (sm_setItemIgnoringQuota S m k v) k' = (if k' = k then v else sm_getItem S m k')"
    using map_worksD(5) [OF assms, of m k v] by (simp add: sm_getItem_def)
  obtain m' old where "sm_removeItem S m k = (m', old)" by (cases "sm_removeItem S m k")
  then show "sm_getItem S (fst (sm_removeItem S m k)) k' = (if k' = k then None else sm_getItem S m k')"
    using map_worksD(6) [OF assms, of m k m' old] by (simp add: sm_getItem_def)
qed

text \<open>Every message a plain run delivers acts on each key as \<open>follow1\<close> says.\<close>

lemma receive_follows:
  assumes "map_works (env_map E)" and "\<not> am_hasPendingClear am" and "wf_counted (am_pendingValueChanges am)"
    and "plain_down (am_currentSeed am) msg" and "am_map am = Some m"
  shows "\<exists>am' m'. am_didReceiveMessage (env_map E) msg am = Some am' \<and> am_map am' = Some m' \<and>
    \<not> am_hasPendingClear am' \<and> am_mapID am' = am_mapID am \<and> am_currentSeed am' = am_currentSeed am \<and>
    wf_counted (am_pendingValueChanges am') \<and>
    (\<forall>k. (sm_getItem (env_map E) m' k, counted_count k (am_pendingValueChanges am')) =
      follow1 k msg (sm_getItem (env_map E) m k, counted_count k (am_pendingValueChanges am)))"
proof (cases msg)
  case (DispatchStorageEvent implID key oldValue newValue url)
  obtain k' where key: "key = Some k'" using assms(4) DispatchStorageEvent by auto
  note contains = counted_wf(5) [OF assms(3)]
  show ?thesis
  proof (cases "implID = None \<and> counted_count k' (am_pendingValueChanges am) = 0")
    case True
    then show ?thesis
      using DispatchStorageEvent key assms contains
      by (cases newValue) (auto simp: dispatchStorageEvent_def applyChange_def shouldApplyChangeForKey_def getItem_changed)
  next
    case False
    then show ?thesis
      using DispatchStorageEvent key assms contains
      by (auto simp: dispatchStorageEvent_def applyChange_def shouldApplyChangeForKey_def)
  qed
next
  case (DidSetItem seed k full)
  then show ?thesis using assms counted_wf [OF assms(3)] by (auto simp: didSetItem_def)
next
  case (DidRemoveItem seed k)
  then show ?thesis using assms counted_wf [OF assms(3)] by (auto simp: client_didRemoveItem_def)
qed (use assms(4) in simp_all)

lemma receive_unloaded:
  assumes "\<not> am_hasPendingClear am" and "plain_down (am_currentSeed am) msg" and "am_map am = None"
    and "\<And>k. acks_of k msg = 0"
  shows "am_didReceiveMessage S msg am = Some am"
  using assms(2)
proof (cases msg)
  case (DidSetItem seed k full)
  then show ?thesis using assms(4) [of k] by simp
next
  case (DidRemoveItem seed k)
  then show ?thesis using assms(4) [of k] by simp
qed (use assms in \<open>auto simp: dispatchStorageEvent_def applyChange_def shouldApplyChangeForKey_def\<close>)

lemma in_step_receive:
  assumes "map_works (env_map E)" and "in_step E t am up (msg # down)"
  shows "\<exists>am'. am_didReceiveMessage (env_map E) msg am = Some am' \<and> in_step E t am' up down"
proof (cases "am_map am")
  case None
  have keys: "key_ok k (t k) (t k, 0) [] (msg # down)" for k using assms(2) None by (simp add: in_step_def)
  have "acks_of k msg = 0" for k using keys [of k] by (simp add: key_ok_def)
  then have "am_didReceiveMessage (env_map E) msg am = Some am"
    using receive_unloaded [of am msg "env_map E"] assms(2) None by (simp add: in_step_def)
  then show ?thesis
    using assms(2) None key_ok_unloaded_receive [OF keys] by (simp add: in_step_def wf_counted_def)
next
  case (Some m)
  then obtain am' m' where am': "am_didReceiveMessage (env_map E) msg am = Some am'" "am_map am' = Some m'"
    "\<not> am_hasPendingClear am'" "am_mapID am' = am_mapID am" "am_currentSeed am' = am_currentSeed am"
    "wf_counted (am_pendingValueChanges am')"
    "\<And>k. (sm_getItem (env_map E) m' k, counted_count k (am_pendingValueChanges am')) =
      follow1 k msg (sm_getItem (env_map E) m k, counted_count k (am_pendingValueChanges am))"
    using receive_follows [OF assms(1), of am msg m] assms(2) by (auto simp: in_step_def)
  then show ?thesis
    using assms(2) Some key_ok_receive by (simp add: in_step_def)
qed

text \<open>Maps whose quota is never exceeded, as that of session storage.\<close>

definition never_full :: "'m storage_map \<Rightarrow> bool" where
  "never_full S \<longleftrightarrow> (\<forall>m k v. \<not> snd (snd (sm_setItem S m k v)))"

lemma never_full_set:
  assumes "never_full S" and "map_works S"
  shows "\<exists>m'. sm_setItem S m k v = (m', sm_getItem S m k, False) \<and>
    (\<forall>k'. sm_getItem S m' k' = (if k' = k then v else sm_getItem S m k'))"
proof -
  obtain m' old full where set: "sm_setItem S m k v = (m', old, full)" by (cases "sm_setItem S m k v")
  have "\<not> full" using assms(1) set unfolding never_full_def by (metis snd_conv)
  then show ?thesis
    using set map_worksD(3,4) [OF assms(2), of m k v m' old] by (simp add: sm_getItem_def)
qed

lemma in_step_set:
  assumes "map_works (env_map E)" and "never_full (env_map E)" and "in_step E t am up down" and "am_map am \<noteq> None"
    and "am_setItem (env_map E) x y i k v url am = (full, out, am')"
  shows "in_step E t am' (up @ out) down"
proof -
  obtain m where m: "am_map am = Some m" using assms(4) by auto
  obtain mapID where id: "am_mapID am = Some mapID" using assms(3) by (auto simp: in_step_def)
  obtain m' where m': "sm_setItem (env_map E) m k (Some v) = (m', sm_getItem (env_map E) m k, False)"
    "\<And>k'. sm_getItem (env_map E) m' k' = (if k' = k then Some v else sm_getItem (env_map E) m k')"
    using never_full_set [OF assms(2,1), of m k "Some v"] by blast
  have keys: "key_ok k' (t k') (sm_getItem (env_map E) m k', counted_count k' (am_pendingValueChanges am)) up down" for k'
    using assms(3) m by (simp add: in_step_def)
  have map: "ensureMap (env_map E) x y am = (m, am)" using m id by (simp add: ensureMap_def am_connect_def)
  show ?thesis
  proof (cases "sm_getItem (env_map E) m k = Some v")
    case True
    then have "out = []" "am' = am\<lparr>am_map := Some m'\<rparr>" using assms(5) map m'(1) by (auto simp: am_setItem_def)
    moreover have "sm_getItem (env_map E) m' = sm_getItem (env_map E) m" using m'(2) True by auto
    ultimately show ?thesis using assms(3) keys by (simp add: in_step_def)
  next
    case False
    let ?msg = "SetItem mapID i (am_currentSeed am) k v url"
    have out: "out = [?msg]" "am' = am\<lparr>am_map := Some m', am_pendingValueChanges := counted_add k (am_pendingValueChanges am)\<rparr>"
      using assms(5) map m'(1) False id by (auto simp: am_setItem_def)
    have wf: "wf_counted (am_pendingValueChanges am)" using assms(3) by (simp add: in_step_def)
    have "key_ok k' (t k') (sm_getItem (env_map E) m' k', counted_count k' (counted_add k (am_pendingValueChanges am))) (up @ [?msg]) down" for k'
      using key_ok_send [OF keys, of k' ?msg "Some v"] key_ok_send_other [OF keys, of k' ?msg]
      by (cases "k' = k") (simp_all add: m'(2) counted_wf(3) [OF wf])
    then show ?thesis using assms(3) counted_wf(1) [OF wf] by (simp add: in_step_def out)
  qed
qed

lemma in_step_remove:
  assumes "map_works (env_map E)" and "in_step E t am up down" and "am_map am \<noteq> None"
    and "am_removeItem (env_map E) x y i k url am = (out, am')"
  shows "in_step E t am' (up @ out) down"
proof -
  obtain m where m: "am_map am = Some m" using assms(3) by auto
  obtain mapID where id: "am_mapID am = Some mapID" using assms(2) by (auto simp: in_step_def)
  obtain m' old where m': "sm_removeItem (env_map E) m k = (m', old)" by (cases "sm_removeItem (env_map E) m k")
  have old: "old = sm_getItem (env_map E) m k" using map_worksD(7) [OF assms(1) m'] .
  have get: "sm_getItem (env_map E) m' k' = (if k' = k then None else sm_getItem (env_map E) m k')" for k'
    using getItem_changed(2) [OF assms(1), of m k k'] m' by simp
  have keys: "key_ok k' (t k') (sm_getItem (env_map E) m k', counted_count k' (am_pendingValueChanges am)) up down" for k'
    using assms(2) m by (simp add: in_step_def)
  have map: "ensureMap (env_map E) x y am = (m, am)" using m id by (simp add: ensureMap_def am_connect_def)
  show ?thesis
  proof (cases "sm_getItem (env_map E) m k = None")
    case True
    then have "out = []" "am' = am\<lparr>am_map := Some m'\<rparr>" using assms(4) map m' old by (auto simp: am_removeItem_def)
    moreover have "sm_getItem (env_map E) m' = sm_getItem (env_map E) m" using get True by auto
    ultimately show ?thesis using assms(2) keys by (simp add: in_step_def)
  next
    case False
    let ?msg = "RemoveItem mapID i (am_currentSeed am) k url"
    have out: "out = [?msg]" "am' = am\<lparr>am_map := Some m', am_pendingValueChanges := counted_add k (am_pendingValueChanges am)\<rparr>"
      using assms(4) map m' old False id by (auto simp: am_removeItem_def)
    have wf: "wf_counted (am_pendingValueChanges am)" using assms(2) by (simp add: in_step_def)
    have "key_ok k' (t k') (sm_getItem (env_map E) m' k', counted_count k' (counted_add k (am_pendingValueChanges am))) (up @ [?msg]) down" for k'
      using key_ok_send [OF keys, of k' ?msg None] key_ok_send_other [OF keys, of k' ?msg]
      by (cases "k' = k") (simp_all add: get counted_wf(3) [OF wf])
    then show ?thesis using assms(2) counted_wf(1) [OF wf] by (simp add: in_step_def out)
  qed
qed

lemma in_step_load:
  assumes "map_works (env_map E)" and "in_step E t am [] down" and "am_map am = None"
    and "\<And>k. (case map_of values k of None \<Rightarrow> None | Some v \<Rightarrow> v) = t k"
  shows "in_step E t (snd (ensureMap (env_map E) x values am)) [] down"
proof -
  obtain mapID where id: "am_mapID am = Some mapID" using assms(2) by (auto simp: in_step_def)
  let ?m = "sm_importItems (env_map E) (StorageMap_create (env_map E) (am_quotaInBytes am)) values"
  have "sm_getItem (env_map E) ?m k = t k" for k
    using map_worksD(8) [OF assms(1)] assms(4) by (simp add: sm_getItem_def)
  then show ?thesis
    using assms(2,3) id by (simp add: ensureMap_def am_connect_def in_step_def wf_counted_def counted_count_def Let_def)
qed

lemma in_step_event:
  assumes "in_step E t am up down"
  shows "in_step E (t(k := v)) am up (down @ [DispatchStorageEvent None (Some k) old v url])"
proof -
  have "key_ok k' ((t(k := v)) k') gp up (down @ [DispatchStorageEvent None (Some k) old v url])"
    if "key_ok k' (t k') gp up down" for k' gp
    using key_ok_event [OF that, of k v old url] by (cases "k' = k") simp_all
  moreover have "key_ok k' ((t(k := v)) k') ((t(k := v)) k', 0) [] (down @ [DispatchStorageEvent None (Some k) old v url])"
    if "key_ok k' (t k') (t k', 0) [] down" for k'
  proof (cases "k' = k")
    case True
    have "snd (follow k' down (v, 0)) = 0" "sum_list (map (acks_of k') down) = 0"
      using that follow_count [of k' down v 0] by (simp_all add: key_ok_def)
    then show ?thesis using True by (simp add: key_ok_def)
  next
    case False
    then show ?thesis using key_ok_event [OF that, of k v old url] by simp
  qed
  ultimately show ?thesis using assms unfolding in_step_def by (cases "am_map am") auto
qed

lemma in_step_own_event:
  "in_step E t am up down \<Longrightarrow> in_step E t am up (down @ [DispatchStorageEvent (Some i) (Some k) old v url])"
  unfolding in_step_def by (cases "am_map am") (auto intro: key_ok_own_event)

lemma in_step_ack:
  assumes "in_step E t am (m # up) down" and "\<And>k. change_of k m = (if k = k' then [w] else [])"
    and "ack = DidSetItem (am_currentSeed am) k' False \<or> ack = DidRemoveItem (am_currentSeed am) k'"
  shows "in_step E (t(k' := w)) am up (down @ [ack])"
proof -
  have "key_ok k ((t(k' := w)) k) gp up (down @ [ack])" if "key_ok k (t k) gp (m # up) down" for k gp
    using key_ok_ack [OF that assms(2), of ack "am_currentSeed am" False] assms(3) by (cases "k = k'") auto
  then show ?thesis using assms(1,3) unfolding in_step_def by (cases "am_map am") auto
qed


subsection \<open>Runs that stay together\<close>

definition posts_for :: "connection_ref \<Rightarrow> post list \<Rightarrow> area_message list" where
  "posts_for c posts = map (snd \<circ> snd) (filter (\<lambda>p. fst p = c) posts)"

lemma posts_for_simps [simp]:
  "posts_for c [] = []" "posts_for c (p # posts) = (if fst p = c then [snd (snd p)] else []) @ posts_for c posts"
  "posts_for c (ps @ qs) = posts_for c ps @ posts_for c qs"
  by (simp_all add: posts_for_def)

lemma posts_for_events:
  assumes "distinct cs"
  shows "posts_for c (map (\<lambda>l. (l, i, DispatchStorageEvent (f l) key old new url)) cs) =
    (if c \<in> set cs then [DispatchStorageEvent (f c) key old new url] else [])"
  using assms by (induction cs) auto

text \<open>Every listener's copy is in step, counting the posted events as on their way down.\<close>

definition net_ok :: "('m, 'd) storage_env \<Rightarrow> ('m, 'd) storage_net \<Rightarrow> bool" where
  "net_ok E net \<longleftrightarrow> opened (net_area net) \<and> distinct (sa_eventListeners (net_area net)) \<and>
     (\<forall>c. c \<notin> set (sa_eventListeners (net_area net)) \<longrightarrow> net_up net c = []) \<and>
     (\<forall>c \<in> set (sa_eventListeners (net_area net)).
        in_step E (area_shows E (net_area net)) (net_client net c) (net_up net c)
          (net_down net c @ posts_for c (net_posts net)))"

text \<open>Prompt: the main run loop sends the posted events before the next message is handled; nothing is cleared.\<close>

primrec prompt :: "net_action \<Rightarrow> ('m, 'd) storage_net \<Rightarrow> bool" where
  "prompt (Load c) net = True"
| "prompt (PageSet c i k v) net = True"
| "prompt (PageRemove c i k) net = True"
| "prompt (PageClear c i) net = False"
| "prompt (Serve c) net = (net_posts net = [])"
| "prompt RunPost net = True"
| "prompt (Receive c) net = True"

fun prompt_run :: "('m, 'd) storage_env \<Rightarrow> net_action list \<Rightarrow> ('m, 'd) storage_net \<Rightarrow> ('m, 'd) storage_net option" where
  "prompt_run E [] net = Some net"
| "prompt_run E (act # acts) net =
     (if \<not> prompt act net then None
      else case net_do E act net of None \<Rightarrow> None | Some net \<Rightarrow> prompt_run E acts net)"

lemma serve_set_result:
  assumes "map_works (env_map E)" and "never_full (env_map E)" and "opened a"
  shows "\<exists>a' old. area_setItem E c i k v url (a, d, posts) =
      (False, a', d, posts @ map (\<lambda>l. (l, sa_identifier a, DispatchStorageEvent (if l = c then Some i else None) (Some k) old (Some v) url)) (sa_eventListeners a)) \<and>
    opened a' \<and> sa_eventListeners a' = sa_eventListeners a \<and> area_shows E a' = (area_shows E a)(k \<mapsto> v)"
proof -
  obtain m' where m': "sm_setItem (env_map E) (sa_storageMap a) k (Some v) = (m', sm_getItem (env_map E) (sa_storageMap a) k, False)"
    "\<And>k'. sm_getItem (env_map E) m' k' = (if k' = k then Some v else sm_getItem (env_map E) (sa_storageMap a) k')"
    using never_full_set [OF assms(2,1), of "sa_storageMap a" k "Some v"] by blast
  then show ?thesis
    using assms(3) by (auto simp: area_setItem_def open_opened area_database_def dispatchEvents_def opened_def area_shows_def fun_eq_iff)
qed

lemma serve_remove_result:
  assumes "map_works (env_map E)" and "opened a"
  shows "\<exists>a' old. area_removeItem E c i k url (a, d, posts) =
      (a', d, posts @ (if area_shows E a k = None then []
        else map (\<lambda>l. (l, sa_identifier a, DispatchStorageEvent (if l = c then Some i else None) (Some k) old None url)) (sa_eventListeners a))) \<and>
    opened a' \<and> sa_eventListeners a' = sa_eventListeners a \<and> area_shows E a' = (area_shows E a)(k := None)"
proof -
  obtain m' old where m': "sm_removeItem (env_map E) (sa_storageMap a) k = (m', old)"
    by (cases "sm_removeItem (env_map E) (sa_storageMap a) k")
  have "old = area_shows E a k" using map_worksD(7) [OF assms(1) m'] by (simp add: area_shows_def)
  moreover have "sm_getItem (env_map E) m' k' = (if k' = k then None else sm_getItem (env_map E) (sa_storageMap a) k')" for k'
    using getItem_changed(2) [OF assms(1), of "sa_storageMap a" k k'] m' by simp
  ultimately show ?thesis
    using assms(2) m'
    by (cases old) (auto simp: area_removeItem_def open_opened area_database_def dispatchEvents_def opened_def area_shows_def fun_eq_iff)
qed


lemma net_okD:
  assumes "net_ok E net"
  shows "opened (net_area net)" "distinct (sa_eventListeners (net_area net))"
    "c \<notin> set (sa_eventListeners (net_area net)) \<Longrightarrow> net_up net c = []"
    "c \<in> set (sa_eventListeners (net_area net)) \<Longrightarrow> in_step E (area_shows E (net_area net)) (net_client net c) (net_up net c)
       (net_down net c @ posts_for c (net_posts net))"
  using assms by (auto simp: net_ok_def)

lemma net_send_ok:
  assumes "net_ok E net" and "c \<in> set (sa_eventListeners (net_area net))"
    and "in_step E (area_shows E (net_area net)) am (net_up net c @ out) (net_down net c @ posts_for c (net_posts net))"
  shows "net_ok E (net_send c (out, am) net)"
  using assms by (auto simp: net_ok_def net_send_def)

lemma serve_ok:
  assumes "map_works (env_map E)" and "never_full (env_map E)" and "net_ok E net" and "net_posts net = []"
    and "net_up net c = msg # up"
    and "serve E c msg (net_area net, net_file net, []) = ((a, d, posts), replies)"
  shows "net_ok E (net\<lparr>net_area := a, net_file := d, net_posts := posts, net_up := (net_up net)(c := up),
    net_down := (net_down net)(c := net_down net c @ replies)\<rparr>)"
proof -
  let ?a = "net_area net" and ?t = "area_shows E (net_area net)"
  have c: "c \<in> set (sa_eventListeners ?a)" using net_okD(3) [OF assms(3)] assms(5) by (metis list.distinct(1))
  have steps: "in_step E ?t (net_client net c') (net_up net c') (net_down net c')" if "c' \<in> set (sa_eventListeners ?a)" for c'
    using net_okD(4) [OF assms(3) that] assms(4) by simp
  have own: "in_step E ?t (net_client net c) (msg # up) (net_down net c)" using steps [OF c] assms(5) by simp
  obtain i k w url ack where msg: "\<And>k'. change_of k' msg = (if k' = k then [w] else [])"
    "ack = DidSetItem (am_currentSeed (net_client net c)) k False \<or> ack = DidRemoveItem (am_currentSeed (net_client net c)) k"
    "replies = [ack]" "opened a" "sa_eventListeners a = sa_eventListeners ?a" "area_shows E a = ?t(k := w)"
    "(\<exists>old. posts = map (\<lambda>l. (l, sa_identifier ?a, DispatchStorageEvent (if l = c then Some i else None) (Some k) old w url)) (sa_eventListeners ?a)) \<or>
     posts = [] \<and> ?t k = w"
  proof (cases msg)
    case (SetItem mapID i seed k v url)
    then have "seed = am_currentSeed (net_client net c)" using own by (simp add: in_step_def)
    then show ?thesis
      using that [of k "Some v" "DidSetItem seed k False" i url] SetItem assms(6)
        serve_set_result [OF assms(1,2) net_okD(1) [OF assms(3)], of c i k v url "net_file net" "[]"]
      by (auto simp: set_setItem_def)
  next
    case (RemoveItem mapID i seed k url)
    then have "seed = am_currentSeed (net_client net c)" using own by (simp add: in_step_def)
    then show ?thesis
      using that [of k None "DidRemoveItem seed k" i url] RemoveItem assms(6)
        serve_remove_result [OF assms(1) net_okD(1) [OF assms(3)], of c i k url "net_file net" "[]"]
      by (auto simp: set_removeItem_def split: if_splits)
  qed (use own in \<open>simp_all add: in_step_def\<close>)
  have step: "in_step E (area_shows E a) (net_client net c') (((net_up net)(c := up)) c')
      (((net_down net)(c := net_down net c @ replies)) c' @ posts_for c' posts)"
    if "c' \<in> set (sa_eventListeners ?a)" for c'
    using msg(7)
  proof (elim disjE exE)
    fix old
    assume posts: "posts = map (\<lambda>l. (l, sa_identifier ?a, DispatchStorageEvent (if l = c then Some i else None) (Some k) old w url)) (sa_eventListeners ?a)"
    have "posts_for c' posts = [DispatchStorageEvent (if c' = c then Some i else None) (Some k) old w url]"
      unfolding posts using posts_for_events [OF net_okD(2) [OF assms(3)]] that by simp
    then show ?thesis
      using in_step_own_event [OF in_step_ack [OF own msg(1,2)]] in_step_event [OF steps [OF that]] msg(3,6)
      by (cases "c' = c") simp_all
  next
    assume "posts = [] \<and> ?t k = w"
    moreover from this have "?t(k := w) = ?t" by auto
    ultimately show ?thesis
      using in_step_ack [OF own msg(1,2)] steps [OF that] msg(3,6) by (cases "c' = c") simp_all
  qed
  show ?thesis
    unfolding net_ok_def using step msg(4,5) net_okD(2,3) [OF assms(3)] c by simp
qed


lemma net_do_ok:
  assumes "map_works (env_map E)" and "never_full (env_map E)" and "net_ok E net" and "prompt act net"
    and "net_do E act net = Some net'"
  shows "net_ok E net'"
proof (cases act)
  case (Load c)
  have guard: "c \<in> set (sa_eventListeners (net_area net))" "am_map (net_client net c) = None" "net_up net c = []"
    using assms(5) Load by (auto split: if_splits)
  let ?items = "sm_items (env_map E) (sa_storageMap (net_area net))"
  have "in_step E (area_shows E (net_area net))
      (snd (ensureMap (env_map E) (Some (sa_identifier (net_area net))) ?items (net_client net c))) []
      (net_down net c @ posts_for c (net_posts net))"
    by (rule in_step_load [OF assms(1)])
      (use net_okD(4) [OF assms(3) guard(1)] guard in \<open>simp_all add: area_shows_def sm_getItem_def sm_table_def\<close>)
  moreover have "net' = net\<lparr>net_client := (net_client net)(c :=
      snd (ensureMap (env_map E) (Some (sa_identifier (net_area net))) ?items (net_client net c)))\<rparr>"
    using assms(5) Load guard by (simp add: area_items_def open_opened [OF net_okD(1) [OF assms(3)]])
  ultimately show ?thesis using assms(3) guard by (simp add: net_ok_def)
next
  case (PageSet c i k v)
  obtain full out am where set: "am_setItem (env_map E) None [] i k v None (net_client net c) = (full, out, am)"
    by (cases "am_setItem (env_map E) None [] i k v None (net_client net c)")
  have guard: "c \<in> set (sa_eventListeners (net_area net))" "am_map (net_client net c) \<noteq> None"
    using assms(5) PageSet by (auto simp: net_loaded_def split: if_splits)
  show ?thesis
    using net_send_ok [OF assms(3) guard(1) in_step_set [OF assms(1,2) net_okD(4) [OF assms(3) guard(1)] guard(2) set]]
      assms(5) PageSet set by (auto split: if_splits)
next
  case (PageRemove c i k)
  obtain out am where remove: "am_removeItem (env_map E) None [] i k None (net_client net c) = (out, am)"
    by (cases "am_removeItem (env_map E) None [] i k None (net_client net c)")
  have guard: "c \<in> set (sa_eventListeners (net_area net))" "am_map (net_client net c) \<noteq> None"
    using assms(5) PageRemove by (auto simp: net_loaded_def split: if_splits)
  show ?thesis
    using net_send_ok [OF assms(3) guard(1) in_step_remove [OF assms(1) net_okD(4) [OF assms(3) guard(1)] guard(2) remove]]
      assms(5) PageRemove remove by (auto split: if_splits)
next
  case (PageClear c i)
  then show ?thesis using assms(4) by simp
next
  case (Serve c)
  obtain msg up where up: "net_up net c = msg # up" using assms(5) Serve by (cases "net_up net c") auto
  obtain a d posts replies where served: "serve E c msg (net_area net, net_file net, []) = ((a, d, posts), replies)"
    by (metis prod.collapse)
  have posts: "net_posts net = []" using assms(4) Serve by simp
  show ?thesis
    using serve_ok [OF assms(1-3) posts up served] assms(5) Serve up posts served by simp
next
  case RunPost
  obtain p posts where posts: "net_posts net = p # posts" using assms(5) RunPost by (cases "net_posts net") auto
  obtain c i m where p: "p = (c, i, m)" by (cases p)
  have "net' = net\<lparr>net_posts := posts, net_down := (net_down net)(c := net_down net c @ [m])\<rparr>"
    using assms(5) RunPost posts p by simp
  then show ?thesis using assms(3) posts p by (auto simp: net_ok_def)
next
  case (Receive c)
  obtain m down where down: "net_down net c = m # down" using assms(5) Receive by (cases "net_down net c") auto
  obtain am where am: "am_didReceiveMessage (env_map E) m (net_client net c) = Some am"
    "net' = net\<lparr>net_client := (net_client net)(c := am), net_down := (net_down net)(c := down)\<rparr>"
    using assms(5) Receive down by auto
  have "in_step E (area_shows E (net_area net)) am (net_up net c) (down @ posts_for c (net_posts net))"
    if "c \<in> set (sa_eventListeners (net_area net))"
    using in_step_receive [OF assms(1), of "area_shows E (net_area net)" "net_client net c" "net_up net c" m
        "down @ posts_for c (net_posts net)"] net_okD(4) [OF assms(3) that] down am(1) by auto
  then show ?thesis using assms(3) am(2) by (auto simp: net_ok_def)
qed

lemma prompt_run_ok:
  assumes "map_works (env_map E)" and "never_full (env_map E)"
  shows "net_ok E net \<Longrightarrow> prompt_run E acts net = Some net' \<Longrightarrow> net_ok E net'"
proof (induction acts arbitrary: net)
  case (Cons act acts)
  then obtain net1 where "prompt act net" "net_do E act net = Some net1" "prompt_run E acts net1 = Some net'"
    by (auto split: if_splits option.splits)
  then show ?case using Cons.IH net_do_ok [OF assms Cons.prems(1)] by blast
qed simp

lemma net_start_ok:
  assumes "map_works (env_map E)" and "distinct cs"
  shows "net_ok E (net_start E quota cs d)"
proof -
  have "sm_getItem (env_map E) (StorageMap_create (env_map E) quota) k = None" for k
    using map_worksD(1) [OF assms(1)] by (simp add: sm_getItem_def)
  then show ?thesis
    using assms(2) by (simp add: net_ok_def net_start_def opened_def StorageArea_new_def in_step_def StorageAreaMap_new_def
        am_connect_def wf_counted_def key_ok_def area_shows_def)
qed

text \<open>A map without quota, and runs of two pages on it.\<close>

definition unlimited_env :: "(list_map, (string \<times> string) list option) storage_env" where
  "unlimited_env = list_env\<lparr>env_map := list_storage_map\<lparr>sm_setItem :=
     \<lambda>m k v. ((fst m, AList.update k v (snd m)), list_map_get (snd m) k, False)\<rparr>\<rparr>"

lemma unlimited_works: "map_works (env_map unlimited_env)" "never_full (env_map unlimited_env)"
proof -
  show "map_works (env_map unlimited_env)"
    unfolding map_works_def
    by (auto simp: unlimited_env_def list_storage_map_def sm_table_def sm_getItem_def list_map_get_def update_conv' delete_conv'
        map_of_empty_iff fun_eq_iff split: option.splits)
  show "never_full (env_map unlimited_env)" by (simp add: never_full_def unlimited_env_def)
qed

definition sample_run :: "net_action list" where
  "sample_run = [Load 1, Load 2, PageSet 1 11 ''k'' ''a'', PageSet 2 22 ''k'' ''b'', Serve 1, RunPost, RunPost, Serve 2,
     Receive 2, RunPost, RunPost, Receive 2, Receive 2, Receive 1, Receive 1, Receive 1]"

lemma sample_run_computed:
  "map_option (\<lambda>net. (net_posts net, net_up net 1, net_up net 2, net_down net 1, net_down net 2,
       sa_eventListeners (net_area net), area_shows unlimited_env (net_area net) ''k'', am_map (net_client net 2) \<noteq> None))
     (prompt_run unlimited_env sample_run (net_start unlimited_env 1000 [1, 2] None)) =
   Some ([], [], [], [], [], [1, 2], Some ''b'', True)"
  by code_simp

lemma pending_run_computed:
  "map_option (\<lambda>net. (sa_eventListeners (net_area net), am_map (net_client net 2) \<noteq> None, net_down net 2 \<noteq> [],
       changes_of ''k'' (net_up net 2)))
     (prompt_run unlimited_env [Load 1, Load 2, PageSet 1 11 ''k'' ''a'', PageSet 2 22 ''k'' ''b'', Serve 1, RunPost, RunPost]
       (net_start unlimited_env 1000 [1, 2] None)) =
   Some ([1, 2], True, True, [Some ''b''])"
  by code_simp





end
