(* ===== verification/Storage_Manager.thy ===== *)
theory Storage_Manager
  imports Storage_Sync
begin

text \<open>
  All storage of the network process: \<^verbatim>\<open>LocalStorageDatabaseTracker\<close>, the three kinds of namespaces,
  \<^verbatim>\<open>StorageManager\<close> and \<^verbatim>\<open>StorageManagerSet\<close> (src/NetworkProcess/WebStorage). The areas are kept in a store
  by their identifier; a namespace owns its areas through their identifiers, and a weak pointer to an area is
  null when the store has no such area. \<^verbatim>\<open>StorageManagerSet\<close> is called on the main thread and works on a
  queue of its own, to which the messages of the web processes are dispatched as well.
\<close>

text \<open>The parameters: WebCore's maps, origins and SQLite, the hash traits of WTF and the file system.\<close>

record ('m, 'd) storage_host =
  host_map :: "'m storage_map"
  host_sqlite :: "'d sqlite"
  ensureDatabaseDirectoryExists :: "wtf_string \<Rightarrow> bool"
  appendDatabaseFileNameToPath :: "wtf_string \<Rightarrow> string \<Rightarrow> string"
  databaseIdentifier :: "string \<Rightarrow> string"
  fromDatabaseIdentifier :: "string \<Rightarrow> string option"
  originFromURL :: "string \<Rightarrow> string"
  listDirectory :: "wtf_string \<Rightarrow> string \<Rightarrow> (wtf_string \<Rightarrow> 'd) \<Rightarrow> string list"
  pathGetFileName :: "string \<Rightarrow> string"
  databaseCreationTime :: "(wtf_string \<Rightarrow> 'd) \<Rightarrow> wtf_string \<Rightarrow> nat option"
  databaseModificationTime :: "(wtf_string \<Rightarrow> 'd) \<Rightarrow> wtf_string \<Rightarrow> nat option"
  moveFile :: "string \<Rightarrow> string \<Rightarrow> (wtf_string \<Rightarrow> 'd) \<Rightarrow> (wtf_string \<Rightarrow> 'd)"
  isValidNamespaceKey :: "u64 \<Rightarrow> bool"
  isValidTransientKey :: "u64 \<times> string \<Rightarrow> bool"

subsection \<open>The tracker\<close>

definition databasePath_file :: "('m, 'd) storage_host \<Rightarrow> wtf_string \<Rightarrow> string \<Rightarrow> wtf_string" where
  "databasePath_file H directory filename =
     (if \<not> ensureDatabaseDirectoryExists H directory then None
      else Some (appendDatabaseFileNameToPath H directory filename))"

definition databasePath :: "('m, 'd) storage_host \<Rightarrow> wtf_string \<Rightarrow> string \<Rightarrow> wtf_string" where
  "databasePath H directory origin = databasePath_file H directory (databaseIdentifier H origin @ ''.localstorage'')"

definition host_env :: "('m, 'd) storage_host \<Rightarrow> ('m, 'd) storage_env" where
  "host_env H = \<lparr>env_map = host_map H, env_sqlite = host_sqlite H, env_databasePath = databasePath H\<rparr>"

type_synonym 'd files = "wtf_string \<Rightarrow> 'd"

definition deleteDatabaseFileAt :: "('m, 'd) storage_host \<Rightarrow> wtf_string \<Rightarrow> 'd files \<Rightarrow> 'd files" where
  "deleteDatabaseFileAt H path files = files(path := deleteDatabaseFile (host_sqlite H) (files path))"

definition LocalStorageDatabaseTracker_new :: "('m, 'd) storage_host \<Rightarrow> wtf_string \<Rightarrow> 'd files \<Rightarrow> 'd files" where
  "LocalStorageDatabaseTracker_new H directory files =
     deleteDatabaseFileAt H (databasePath_file H directory ''StorageTracker.db'') files"

definition tracker_deleteDatabaseWithOrigin :: "('m, 'd) storage_host \<Rightarrow> wtf_string \<Rightarrow> string \<Rightarrow> 'd files \<Rightarrow> 'd files" where
  "tracker_deleteDatabaseWithOrigin H directory origin files =
     (let path = databasePath H directory origin in
      files(path := deleteDatabaseWithOrigin (host_sqlite H) path (files path)))"

definition deleteAllDatabases :: "('m, 'd) storage_host \<Rightarrow> wtf_string \<Rightarrow> 'd files \<Rightarrow> 'd files" where
  "deleteAllDatabases H directory files =
     fold (\<lambda>path. deleteDatabaseFileAt H (Some path)) (listDirectory H directory ''*.localstorage'' files) files"

definition tracker_originOf :: "('m, 'd) storage_host \<Rightarrow> string \<Rightarrow> string option" where
  "tracker_originOf H path =
     (let filename = pathGetFileName H path in
      fromDatabaseIdentifier H (take (length filename - length ''.localstorage'') filename))"

definition tracker_origins :: "('m, 'd) storage_host \<Rightarrow> wtf_string \<Rightarrow> 'd files \<Rightarrow> string list" where
  "tracker_origins H directory files =
     List.map_filter (tracker_originOf H) (listDirectory H directory ''*.localstorage'' files)"

definition databasesModifiedSince ::
    "('m, 'd) storage_host \<Rightarrow> wtf_string \<Rightarrow> nat \<Rightarrow> 'd files \<Rightarrow> string list" where
  "databasesModifiedSince H directory time files =
     filter (\<lambda>origin. case databaseModificationTime H files (databasePath H directory origin) of
         None \<Rightarrow> False | Some modificationTime \<Rightarrow> modificationTime \<ge> time)
       (tracker_origins H directory files)"

record origin_details =
  originIdentifier :: string
  creationTime :: "nat option"
  modificationTime :: "nat option"

definition originDetailsCrossThreadCopy ::
    "('m, 'd) storage_host \<Rightarrow> wtf_string \<Rightarrow> 'd files \<Rightarrow> origin_details list" where
  "originDetailsCrossThreadCopy H directory files =
     map (\<lambda>origin. let path = databasePath H directory origin in
         \<lparr>originIdentifier = databaseIdentifier H origin, creationTime = databaseCreationTime H files path,
          modificationTime = databaseModificationTime H files path\<rparr>)
       (tracker_origins H directory files)"

subsection \<open>The store of areas\<close>

record ('m, 'd) area_store =
  st_areas :: "(area_ref \<times> 'm storage_area) list"
  st_files :: "'d files"
  st_posts :: "post list"
  st_generated :: area_ref

text \<open>The path of the file behind an area.\<close>

definition area_file :: "('m, 'd) storage_host \<Rightarrow> 'm storage_area \<Rightarrow> wtf_string" where
  "area_file H a = (case sa_tracker a of None \<Rightarrow> None | Some directory \<Rightarrow> databasePath H directory (sa_securityOrigin a))"

text \<open>A call of an area through a pointer that may be null.\<close>

definition withArea ::
    "('m, 'd) storage_host \<Rightarrow> (('m, 'd) area_state \<Rightarrow> 'r \<times> ('m, 'd) area_state) \<Rightarrow> area_ref \<Rightarrow>
     ('m, 'd) area_store \<Rightarrow> 'r option \<times> ('m, 'd) area_store" where
  "withArea H f i st =
     (case map_of (st_areas st) i of
        None \<Rightarrow> (None, st)
      | Some a \<Rightarrow> (case f (a, st_files st (area_file H a), st_posts st) of
          (r, a', d, posts) \<Rightarrow> (Some r, st\<lparr>st_areas := AList.update i a' (st_areas st),
            st_files := (st_files st)(area_file H a := d), st_posts := posts\<rparr>)))"

definition changeArea ::
    "('m, 'd) storage_host \<Rightarrow> (('m, 'd) area_state \<Rightarrow> ('m, 'd) area_state) \<Rightarrow> area_ref \<Rightarrow>
     ('m, 'd) area_store \<Rightarrow> ('m, 'd) area_store" where
  "changeArea H f i st = snd (withArea H (\<lambda>s. ((), f s)) i st)"

definition createArea ::
    "('m, 'd) storage_host \<Rightarrow> wtf_string option \<Rightarrow> string \<Rightarrow> u32 \<Rightarrow>
     ('m, 'd) area_store \<Rightarrow> area_ref \<times> ('m, 'd) area_store" where
  "createArea H tracker origin quota st =
     (let i = st_generated st + 1 in
      (i, st\<lparr>st_areas := (i, StorageArea_new (host_env H) tracker origin quota i) # st_areas st, st_generated := i\<rparr>))"

definition destroyArea :: "('m, 'd) storage_host \<Rightarrow> area_ref \<Rightarrow> ('m, 'd) area_store \<Rightarrow> ('m, 'd) area_store" where
  "destroyArea H i st =
     (case map_of (st_areas st) i of
        None \<Rightarrow> st
      | Some a \<Rightarrow> st\<lparr>st_areas := AList.delete i (st_areas st), st_files :=
          (st_files st)(area_file H a := StorageArea_dtor (host_env H) a (st_files st (area_file H a)))\<rparr>)"

subsection \<open>Namespaces\<close>

record storage_namespace =
  ns_quotaInBytes :: u32
  ns_storageAreaMap :: "(string \<times> area_ref) list"

definition localStorageDatabaseQuotaInBytes :: u32 where
  "localStorageDatabaseQuotaInBytes = 5 * 1024 * 1024"

definition LocalStorageNamespace_new :: storage_namespace where
  "LocalStorageNamespace_new = \<lparr>ns_quotaInBytes = localStorageDatabaseQuotaInBytes, ns_storageAreaMap = []\<rparr>"

definition TransientLocalStorageNamespace_new :: storage_namespace where
  "TransientLocalStorageNamespace_new = \<lparr>ns_quotaInBytes = localStorageDatabaseQuotaInBytes, ns_storageAreaMap = []\<rparr>"

definition SessionStorageNamespace_new :: "u32 \<Rightarrow> storage_namespace" where
  "SessionStorageNamespace_new quota = \<lparr>ns_quotaInBytes = quota, ns_storageAreaMap = []\<rparr>"

text \<open>The area of an origin, created at its first use; only areas of local storage are kept in files.\<close>

definition ensureArea ::
    "('m, 'd) storage_host \<Rightarrow> wtf_string option \<Rightarrow> string \<Rightarrow> storage_namespace \<times> ('m, 'd) area_store \<Rightarrow>
     area_ref \<times> storage_namespace \<times> ('m, 'd) area_store" where
  "ensureArea H tracker origin s =
     (let (ns, st) = s in
      case map_of (ns_storageAreaMap ns) origin of
        Some i \<Rightarrow> (i, ns, st)
      | None \<Rightarrow> (case createArea H tracker origin (ns_quotaInBytes ns) st of
          (i, st) \<Rightarrow> (i, ns\<lparr>ns_storageAreaMap := (origin, i) # ns_storageAreaMap ns\<rparr>, st)))"

definition local_getOrCreateStorageArea ::
    "('m, 'd) storage_host \<Rightarrow> wtf_string option \<Rightarrow> string \<Rightarrow> storage_namespace \<times> ('m, 'd) area_store \<Rightarrow>
     area_ref \<times> storage_namespace \<times> ('m, 'd) area_store" where
  "local_getOrCreateStorageArea H tracker origin s = ensureArea H tracker origin s"

definition transient_getOrCreateStorageArea ::
    "('m, 'd) storage_host \<Rightarrow> string \<Rightarrow> storage_namespace \<times> ('m, 'd) area_store \<Rightarrow>
     area_ref \<times> storage_namespace \<times> ('m, 'd) area_store" where
  "transient_getOrCreateStorageArea H origin s = ensureArea H None origin s"

definition session_getOrCreateStorageArea ::
    "('m, 'd) storage_host \<Rightarrow> string \<Rightarrow> storage_namespace \<times> ('m, 'd) area_store \<Rightarrow>
     area_ref \<times> storage_namespace \<times> ('m, 'd) area_store" where
  "session_getOrCreateStorageArea H origin s = ensureArea H None origin s"

definition storageAreaIdentifiers :: "storage_namespace \<Rightarrow> area_ref list" where
  "storageAreaIdentifiers ns = map snd (ns_storageAreaMap ns)"

definition clearStorageAreasMatchingOrigin ::
    "('m, 'd) storage_host \<Rightarrow> string \<Rightarrow> storage_namespace \<Rightarrow> ('m, 'd) area_store \<Rightarrow> ('m, 'd) area_store" where
  "clearStorageAreasMatchingOrigin H origin ns st =
     (case map_of (ns_storageAreaMap ns) origin of
        None \<Rightarrow> st
      | Some i \<Rightarrow> changeArea H (area_reset (host_env H)) i st)"

definition clearAllStorageAreas ::
    "('m, 'd) storage_host \<Rightarrow> storage_namespace \<Rightarrow> ('m, 'd) area_store \<Rightarrow> ('m, 'd) area_store" where
  "clearAllStorageAreas H ns st = fold (changeArea H (area_reset (host_env H))) (storageAreaIdentifiers ns) st"

definition flushAndClose ::
    "('m, 'd) storage_host \<Rightarrow> string \<Rightarrow> storage_namespace \<Rightarrow> ('m, 'd) area_store \<Rightarrow> ('m, 'd) area_store" where
  "flushAndClose H origin ns st =
     (case map_of (ns_storageAreaMap ns) origin of
        None \<Rightarrow> st
      | Some i \<Rightarrow> changeArea H (area_close (host_env H)) i (changeArea H (area_syncToDatabase (host_env H)) i st))"

text \<open>The origins of the areas with items; asking for the items of an area may open its database.\<close>

primrec originsWithItems ::
    "('m, 'd) storage_host \<Rightarrow> area_ref list \<Rightarrow> ('m, 'd) area_store \<Rightarrow> string list \<times> ('m, 'd) area_store" where
  "originsWithItems H [] st = ([], st)"
| "originsWithItems H (i # is) st =
     (case withArea H (\<lambda>s. case area_items (host_env H) s of (values, a, s) \<Rightarrow> ((values, sa_securityOrigin a), a, s)) i st of
        (found, st) \<Rightarrow> (case originsWithItems H is st of
          (origins, st) \<Rightarrow> (case found of
              None \<Rightarrow> (origins, st)
            | Some (values, origin) \<Rightarrow> (if values = [] then origins else origin # origins, st))))"

definition namespace_origins ::
    "('m, 'd) storage_host \<Rightarrow> storage_namespace \<Rightarrow> ('m, 'd) area_store \<Rightarrow> string list \<times> ('m, 'd) area_store" where
  "namespace_origins H ns st = originsWithItems H (storageAreaIdentifiers ns) st"

text \<open>Every area of a session storage namespace is copied, unless the new namespace has one for its origin.\<close>

primrec cloneAreas ::
    "('m, 'd) storage_host \<Rightarrow> (string \<times> area_ref) list \<Rightarrow> storage_namespace \<times> ('m, 'd) area_store \<Rightarrow>
     storage_namespace \<times> ('m, 'd) area_store" where
  "cloneAreas H [] s = s"
| "cloneAreas H (pair # pairs) s =
     (let (ns, st) = s in
      cloneAreas H pairs
       (case map_of (st_areas st) (snd pair) of
          None \<Rightarrow> (ns, st)
        | Some a \<Rightarrow>
            (let i = st_generated st + 1 in
             if map_of (ns_storageAreaMap ns) (fst pair) \<noteq> None then (ns, st\<lparr>st_generated := i\<rparr>)
             else (ns\<lparr>ns_storageAreaMap := (fst pair, i) # ns_storageAreaMap ns\<rparr>,
               st\<lparr>st_areas := (i, area_clone (host_env H) i a) # st_areas st, st_generated := i\<rparr>))))"

subsection \<open>The manager of a session\<close>

record storage_manager =
  mgr_tracker :: "wtf_string option"
  mgr_local :: "(u64 \<times> storage_namespace) list"
  mgr_transient :: "((u64 \<times> string) \<times> storage_namespace) list"
  mgr_session :: "(u64 \<times> storage_namespace) list"

type_synonym ('m, 'd) manager_state = "storage_manager \<times> ('m, 'd) area_store"

definition StorageManager_new :: "('m, 'd) storage_host \<Rightarrow> wtf_string \<Rightarrow> ('m, 'd) area_store \<Rightarrow> ('m, 'd) manager_state" where
  "StorageManager_new H localStorageDirectory st =
     (if localStorageDirectory = None
      then (\<lparr>mgr_tracker = None, mgr_local = [], mgr_transient = [], mgr_session = []\<rparr>, st)
      else (\<lparr>mgr_tracker = Some localStorageDirectory, mgr_local = [], mgr_transient = [], mgr_session = []\<rparr>,
        st\<lparr>st_files := LocalStorageDatabaseTracker_new H localStorageDirectory (st_files st)\<rparr>))"

text \<open>\<^verbatim>\<open>HashMap::ensure\<close>\<close>

definition ensure :: "'k \<Rightarrow> 'v \<Rightarrow> ('k \<times> 'v) list \<Rightarrow> 'v \<times> ('k \<times> 'v) list" where
  "ensure k v xs = (case map_of xs k of Some v' \<Rightarrow> (v', xs) | None \<Rightarrow> (v, (k, v) # xs))"

definition getOrCreateLocalStorageNamespace ::
    "('m, 'd) storage_host \<Rightarrow> u64 \<Rightarrow> storage_manager \<Rightarrow> storage_namespace option \<times> storage_manager" where
  "getOrCreateLocalStorageNamespace H storageNamespaceID mgr =
     (if \<not> isValidNamespaceKey H storageNamespaceID then (None, mgr)
      else case ensure storageNamespaceID LocalStorageNamespace_new (mgr_local mgr) of
        (ns, nss) \<Rightarrow> (Some ns, mgr\<lparr>mgr_local := nss\<rparr>))"

definition getOrCreateTransientLocalStorageNamespace ::
    "('m, 'd) storage_host \<Rightarrow> u64 \<Rightarrow> string \<Rightarrow> storage_manager \<Rightarrow> storage_namespace option \<times> storage_manager" where
  "getOrCreateTransientLocalStorageNamespace H storageNamespaceID topLevelOrigin mgr =
     (if \<not> isValidTransientKey H (storageNamespaceID, topLevelOrigin) then (None, mgr)
      else case ensure (storageNamespaceID, topLevelOrigin) TransientLocalStorageNamespace_new (mgr_transient mgr) of
        (ns, nss) \<Rightarrow> (Some ns, mgr\<lparr>mgr_transient := nss\<rparr>))"

definition getOrCreateSessionStorageNamespace ::
    "('m, 'd) storage_host \<Rightarrow> u64 \<Rightarrow> storage_manager \<Rightarrow> storage_namespace option \<times> storage_manager" where
  "getOrCreateSessionStorageNamespace H storageNamespaceID mgr =
     (if \<not> isValidNamespaceKey H storageNamespaceID then (None, mgr)
      else case ensure storageNamespaceID (SessionStorageNamespace_new (- 1)) (mgr_session mgr) of
        (ns, nss) \<Rightarrow> (Some ns, mgr\<lparr>mgr_session := nss\<rparr>))"

definition createLocalStorageArea ::
    "('m, 'd) storage_host \<Rightarrow> u64 \<Rightarrow> string \<Rightarrow> ('m, 'd) manager_state \<Rightarrow> area_ref option \<times> ('m, 'd) manager_state" where
  "createLocalStorageArea H storageNamespaceID origin s =
     (let (mgr, st) = s in
      case getOrCreateLocalStorageNamespace H storageNamespaceID mgr of
        (None, mgr) \<Rightarrow> (None, mgr, st)
      | (Some ns, mgr) \<Rightarrow> (case local_getOrCreateStorageArea H (mgr_tracker mgr) origin (ns, st) of
          (i, ns, st) \<Rightarrow> (Some i, mgr\<lparr>mgr_local := AList.update storageNamespaceID ns (mgr_local mgr)\<rparr>, st)))"

definition createTransientLocalStorageArea ::
    "('m, 'd) storage_host \<Rightarrow> u64 \<Rightarrow> string \<Rightarrow> string \<Rightarrow> ('m, 'd) manager_state \<Rightarrow> area_ref option \<times> ('m, 'd) manager_state" where
  "createTransientLocalStorageArea H storageNamespaceID topLevelOrigin origin s =
     (let (mgr, st) = s in
      case getOrCreateTransientLocalStorageNamespace H storageNamespaceID topLevelOrigin mgr of
        (None, mgr) \<Rightarrow> (None, mgr, st)
      | (Some ns, mgr) \<Rightarrow> (case transient_getOrCreateStorageArea H origin (ns, st) of
          (i, ns, st) \<Rightarrow>
            (Some i, mgr\<lparr>mgr_transient := AList.update (storageNamespaceID, topLevelOrigin) ns (mgr_transient mgr)\<rparr>, st)))"

definition createSessionStorageArea ::
    "('m, 'd) storage_host \<Rightarrow> u64 \<Rightarrow> string \<Rightarrow> ('m, 'd) manager_state \<Rightarrow> area_ref option \<times> ('m, 'd) manager_state" where
  "createSessionStorageArea H storageNamespaceID origin s =
     (let (mgr, st) = s in
      case getOrCreateSessionStorageNamespace H storageNamespaceID mgr of
        (None, mgr) \<Rightarrow> (None, mgr, st)
      | (Some ns, mgr) \<Rightarrow> (case session_getOrCreateStorageArea H origin (ns, st) of
          (i, ns, st) \<Rightarrow> (Some i, mgr\<lparr>mgr_session := AList.update storageNamespaceID ns (mgr_session mgr)\<rparr>, st)))"

text \<open>A namespace that is removed destroys its areas.\<close>

definition destroyNamespace ::
    "('m, 'd) storage_host \<Rightarrow> storage_namespace \<Rightarrow> ('m, 'd) area_store \<Rightarrow> ('m, 'd) area_store" where
  "destroyNamespace H ns st = fold (destroyArea H) (storageAreaIdentifiers ns) st"

definition createSessionStorageNamespace :: "u64 \<Rightarrow> u32 \<Rightarrow> storage_manager \<Rightarrow> storage_manager" where
  "createSessionStorageNamespace storageNamespaceID quotaInBytes mgr =
     mgr\<lparr>mgr_session := snd (ensure storageNamespaceID (SessionStorageNamespace_new quotaInBytes) (mgr_session mgr))\<rparr>"

definition destroySessionStorageNamespace ::
    "('m, 'd) storage_host \<Rightarrow> u64 \<Rightarrow> ('m, 'd) manager_state \<Rightarrow> ('m, 'd) manager_state" where
  "destroySessionStorageNamespace H storageNamespaceID s =
     (let (mgr, st) = s in
      case map_of (mgr_session mgr) storageNamespaceID of
        None \<Rightarrow> (mgr, st)
      | Some ns \<Rightarrow> (mgr\<lparr>mgr_session := AList.delete storageNamespaceID (mgr_session mgr)\<rparr>, destroyNamespace H ns st))"

definition cloneTo ::
    "('m, 'd) storage_host \<Rightarrow> storage_namespace \<Rightarrow> storage_namespace \<times> ('m, 'd) area_store \<Rightarrow>
     storage_namespace \<times> ('m, 'd) area_store" where
  "cloneTo H ns s = cloneAreas H (ns_storageAreaMap ns) s"

text \<open>The new namespace is null if its identifier is no valid key, and following it crashes.\<close>

definition mgr_cloneSessionStorageNamespace ::
    "('m, 'd) storage_host \<Rightarrow> u64 \<Rightarrow> u64 \<Rightarrow> ('m, 'd) manager_state \<Rightarrow> ('m, 'd) manager_state option" where
  "mgr_cloneSessionStorageNamespace H storageNamespaceID newStorageNamespaceID s =
     (let (mgr, st) = s in
      case map_of (mgr_session mgr) storageNamespaceID of
        None \<Rightarrow> Some (mgr, st)
      | Some ns \<Rightarrow> (case getOrCreateSessionStorageNamespace H newStorageNamespaceID mgr of
          (None, mgr) \<Rightarrow> if ns_storageAreaMap ns = [] then Some (mgr, st) else None
        | (Some newNs, mgr) \<Rightarrow> (case cloneTo H ns (newNs, st) of
            (newNs, st) \<Rightarrow>
              Some (mgr\<lparr>mgr_session := AList.update newStorageNamespaceID newNs (mgr_session mgr)\<rparr>, st))))"

primrec namespacesOrigins ::
    "('m, 'd) storage_host \<Rightarrow> storage_namespace list \<Rightarrow> ('m, 'd) area_store \<Rightarrow> string list \<times> ('m, 'd) area_store" where
  "namespacesOrigins H [] st = ([], st)"
| "namespacesOrigins H (ns # nss) st =
     (case namespace_origins H ns st of
        (origins, st) \<Rightarrow> (case namespacesOrigins H nss st of (origins', st) \<Rightarrow> (origins @ origins', st)))"

definition getSessionStorageOriginsCrossThreadCopy ::
    "('m, 'd) storage_host \<Rightarrow> ('m, 'd) manager_state \<Rightarrow> string list \<times> ('m, 'd) area_store" where
  "getSessionStorageOriginsCrossThreadCopy H s =
     (let (mgr, st) = s; (origins, st) = namespacesOrigins H (map snd (mgr_session mgr)) st in (remdups origins, st))"

definition deleteSessionStorageOrigins :: "('m, 'd) storage_host \<Rightarrow> ('m, 'd) manager_state \<Rightarrow> ('m, 'd) area_store" where
  "deleteSessionStorageOrigins H s =
     (let (mgr, st) = s in fold (clearAllStorageAreas H) (map snd (mgr_session mgr)) st)"

definition deleteSessionStorageEntriesForOrigins ::
    "('m, 'd) storage_host \<Rightarrow> string list \<Rightarrow> ('m, 'd) manager_state \<Rightarrow> ('m, 'd) area_store" where
  "deleteSessionStorageEntriesForOrigins H origins s =
     (let (mgr, st) = s in
      fold (\<lambda>origin. fold (clearStorageAreasMatchingOrigin H origin) (map snd (mgr_session mgr))) origins st)"

definition getLocalStorageOriginsCrossThreadCopy ::
    "('m, 'd) storage_host \<Rightarrow> ('m, 'd) manager_state \<Rightarrow> string list \<times> ('m, 'd) area_store" where
  "getLocalStorageOriginsCrossThreadCopy H s =
     (let (mgr, st) = s;
          (origins, st) = (case mgr_tracker mgr of
             Some directory \<Rightarrow> (tracker_origins H directory (st_files st), st)
           | None \<Rightarrow> namespacesOrigins H (map snd (mgr_local mgr)) st);
          (origins', st) = namespacesOrigins H (map snd (mgr_transient mgr)) st in
      (remdups (origins @ origins'), st))"

definition getLocalStorageOriginDetailsCrossThreadCopy ::
    "('m, 'd) storage_host \<Rightarrow> ('m, 'd) manager_state \<Rightarrow> origin_details list" where
  "getLocalStorageOriginDetailsCrossThreadCopy H s =
     (let (mgr, st) = s in
      case mgr_tracker mgr of None \<Rightarrow> [] | Some directory \<Rightarrow> originDetailsCrossThreadCopy H directory (st_files st))"

text \<open>A file is moved with the two files SQLite keeps beside it.\<close>

definition moveDatabase :: "('m, 'd) storage_host \<Rightarrow> wtf_string \<Rightarrow> string \<Rightarrow> string \<Rightarrow> 'd files \<Rightarrow> 'd files" where
  "moveDatabase H directory oldOrigin newOrigin files =
     (let path = (\<lambda>origin. case databasePath H directory origin of None \<Rightarrow> [] | Some p \<Rightarrow> p) in
      fold (\<lambda>suffix. moveFile H (path oldOrigin @ suffix) (path newOrigin @ suffix)) [[], ''-shm'', ''-wal''] files)"

definition mgr_renameOrigin ::
    "('m, 'd) storage_host \<Rightarrow> string \<Rightarrow> string \<Rightarrow> ('m, 'd) manager_state \<Rightarrow> ('m, 'd) area_store" where
  "mgr_renameOrigin H oldURL newURL s =
     (let (mgr, st) = s;
          oldOrigin = originFromURL H oldURL;
          newOrigin = originFromURL H newURL;
          st = fold (flushAndClose H oldOrigin) (map snd (mgr_local mgr)) st;
          st = (case mgr_tracker mgr of
             None \<Rightarrow> st
           | Some directory \<Rightarrow> st\<lparr>st_files := moveDatabase H directory oldOrigin newOrigin (st_files st)\<rparr>) in
      fold (clearStorageAreasMatchingOrigin H oldOrigin) (map snd (mgr_local mgr)) st)"

definition deleteDatabaseOf :: "('m, 'd) storage_host \<Rightarrow> wtf_string \<Rightarrow> string \<Rightarrow> ('m, 'd) area_store \<Rightarrow> ('m, 'd) area_store" where
  "deleteDatabaseOf H directory origin st =
     st\<lparr>st_files := tracker_deleteDatabaseWithOrigin H directory origin (st_files st)\<rparr>"

definition deleteLocalStorageOriginsModifiedSince ::
    "('m, 'd) storage_host \<Rightarrow> nat \<Rightarrow> ('m, 'd) manager_state \<Rightarrow> ('m, 'd) area_store" where
  "deleteLocalStorageOriginsModifiedSince H time s =
     (let (mgr, st) = s in
      case mgr_tracker mgr of
        Some directory \<Rightarrow>
          (let originsToDelete = databasesModifiedSince H directory time (st_files st);
               st = fold (clearAllStorageAreas H) (map snd (mgr_transient mgr)) st in
           fold (\<lambda>origin st. deleteDatabaseOf H directory origin
               (fold (clearStorageAreasMatchingOrigin H origin) (map snd (mgr_local mgr)) st)) originsToDelete st)
      | None \<Rightarrow> fold (clearAllStorageAreas H) (map snd (mgr_local mgr)) st)"

definition deleteLocalStorageEntriesForOrigins ::
    "('m, 'd) storage_host \<Rightarrow> string list \<Rightarrow> ('m, 'd) manager_state \<Rightarrow> ('m, 'd) area_store" where
  "deleteLocalStorageEntriesForOrigins H origins s =
     (let (mgr, st) = s in
      fold (\<lambda>origin st.
         let st = fold (clearStorageAreasMatchingOrigin H origin) (map snd (mgr_local mgr)) st;
             st = fold (clearStorageAreasMatchingOrigin H origin) (map snd (mgr_transient mgr)) st in
         case mgr_tracker mgr of None \<Rightarrow> st | Some directory \<Rightarrow> deleteDatabaseOf H directory origin st) origins st)"

definition clearStorageNamespaces :: "('m, 'd) storage_host \<Rightarrow> ('m, 'd) manager_state \<Rightarrow> ('m, 'd) manager_state" where
  "clearStorageNamespaces H s =
     (let (mgr, st) = s in
      (mgr\<lparr>mgr_local := [], mgr_transient := [], mgr_session := []\<rparr>,
       fold (destroyNamespace H) (map snd (mgr_local mgr) @ map snd (mgr_transient mgr) @ map snd (mgr_session mgr)) st))"

definition allStorageAreaIdentifiers :: "storage_manager \<Rightarrow> area_ref list" where
  "allStorageAreaIdentifiers mgr =
     concat (map (storageAreaIdentifiers \<circ> snd) (mgr_local mgr)) @
     concat (map (storageAreaIdentifiers \<circ> snd) (mgr_transient mgr)) @
     concat (map (storageAreaIdentifiers \<circ> snd) (mgr_session mgr))"

subsection \<open>The set of managers\<close>

datatype storage_state = Running | WillSuspend | Suspended

text \<open>The work dispatched to the queue: by the main thread, and by the connections of the web processes.\<close>

datatype storage_task =
    T_add u64 wtf_string
  | T_remove u64
  | T_removeConnection connection_ref
  | T_finish
  | T_sync
  | T_suspend
  | T_getSessionStorageOrigins u64
  | T_deleteSessionStorage u64
  | T_deleteSessionStorageForOrigins u64 "string list"
  | T_getLocalStorageOrigins u64
  | T_deleteLocalStorageModifiedSince u64 nat
  | T_deleteLocalStorageForOrigins u64 "string list"
  | T_getLocalStorageOriginDetails u64
  | T_renameOrigin u64 string string
  | ConnectToLocalStorageArea connection_ref u64 u64 string
  | ConnectToTransientLocalStorageArea connection_ref u64 u64 string string
  | ConnectToSessionStorageArea connection_ref u64 u64 string
  | GetValues connection_ref area_ref
  | CloneSessionStorageNamespace u64 u64 u64
  | ManagerMessage connection_ref manager_message

text \<open>What the work answers: completion handlers, replies to synchronous messages, and messages sent.\<close>

datatype storage_output =
    Done
  | Origins "string list"
  | OriginDetails "origin_details list"
  | ConnectedTo connection_ref "area_ref option"
  | Values connection_ref items
  | Send connection_ref area_ref area_message

record ('m, 'd) storage_set =
  set_managerPaths :: "(u64 \<times> wtf_string) list"
  set_connections :: "connection_ref list"
  set_queue :: "storage_task list"
  set_state :: storage_state
  set_managers :: "(u64 \<times> storage_manager) list"
  set_areas :: "area_ref list"
  set_store :: "('m, 'd) area_store"

definition StorageManagerSet_new :: "'d files \<Rightarrow> ('m, 'd) storage_set" where
  "StorageManagerSet_new files =
     \<lparr>set_managerPaths = [], set_connections = [], set_queue = [], set_state = Running, set_managers = [], set_areas = [],
      set_store = \<lparr>st_areas = [], st_files = files, st_posts = [], st_generated = 0\<rparr>\<rparr>"

definition set_dispatch :: "storage_task \<Rightarrow> ('m, 'd) storage_set \<Rightarrow> ('m, 'd) storage_set" where
  "set_dispatch task S = S\<lparr>set_queue := set_queue S @ [task]\<rparr>"

definition set_add :: "u64 \<Rightarrow> wtf_string \<Rightarrow> ('m, 'd) storage_set \<Rightarrow> ('m, 'd) storage_set" where
  "set_add sessionID localStorageDirectory S =
     (if map_of (set_managerPaths S) sessionID \<noteq> None then S
      else set_dispatch (T_add sessionID localStorageDirectory)
        (S\<lparr>set_managerPaths := (sessionID, localStorageDirectory) # set_managerPaths S\<rparr>))"

definition set_remove :: "u64 \<Rightarrow> ('m, 'd) storage_set \<Rightarrow> ('m, 'd) storage_set" where
  "set_remove sessionID S =
     (if map_of (set_managerPaths S) sessionID = None then S
      else set_dispatch (T_remove sessionID) (S\<lparr>set_managerPaths := AList.delete sessionID (set_managerPaths S)\<rparr>))"

definition set_contains :: "u64 \<Rightarrow> ('m, 'd) storage_set \<Rightarrow> bool" where
  "set_contains sessionID S \<longleftrightarrow> map_of (set_managerPaths S) sessionID \<noteq> None"

text \<open>From then on the messages of the connection are dispatched to the queue.\<close>

definition addConnection :: "connection_ref \<Rightarrow> ('m, 'd) storage_set \<Rightarrow> ('m, 'd) storage_set" where
  "addConnection c S = S\<lparr>set_connections := List.insert c (set_connections S)\<rparr>"

definition removeConnection :: "connection_ref \<Rightarrow> ('m, 'd) storage_set \<Rightarrow> ('m, 'd) storage_set" where
  "removeConnection c S =
     set_dispatch (T_removeConnection c) (S\<lparr>set_connections := removeAll c (set_connections S)\<rparr>)"

text \<open>If nothing is to be suspended the completion handler is called at once.\<close>

definition set_suspend :: "('m, 'd) storage_set \<Rightarrow> storage_output list \<times> ('m, 'd) storage_set" where
  "set_suspend S =
     (if set_state S \<noteq> Running then ([Done], S)
      else ([], set_dispatch T_suspend (S\<lparr>set_state := WillSuspend\<rparr>)))"

definition set_resume :: "('m, 'd) storage_set \<Rightarrow> ('m, 'd) storage_set" where
  "set_resume S = S\<lparr>set_state := Running\<rparr>"

definition runSuspend :: "('m, 'd) storage_set \<Rightarrow> storage_output list \<times> ('m, 'd) storage_set" where
  "runSuspend S = ([Done], if set_state S \<noteq> WillSuspend then S else S\<lparr>set_state := Suspended\<rparr>)"

definition runAdd :: "('m, 'd) storage_host \<Rightarrow> u64 \<Rightarrow> wtf_string \<Rightarrow> ('m, 'd) storage_set \<Rightarrow> ('m, 'd) storage_set" where
  "runAdd H sessionID localStorageDirectory S =
     (if map_of (set_managers S) sessionID \<noteq> None then S
      else case StorageManager_new H localStorageDirectory (set_store S) of
        (mgr, st) \<Rightarrow> S\<lparr>set_managers := (sessionID, mgr) # set_managers S, set_store := st\<rparr>)"

definition runRemove :: "('m, 'd) storage_host \<Rightarrow> u64 \<Rightarrow> ('m, 'd) storage_set \<Rightarrow> ('m, 'd) storage_set" where
  "runRemove H sessionID S =
     (case map_of (set_managers S) sessionID of
        None \<Rightarrow> S
      | Some mgr \<Rightarrow> S\<lparr>set_areas := filter (\<lambda>i. i \<notin> set (allStorageAreaIdentifiers mgr)) (set_areas S),
          set_managers := AList.delete sessionID (set_managers S),
          set_store := snd (clearStorageNamespaces H (mgr, set_store S))\<rparr>)"

text \<open>The area leaves the namespace that holds it, which destroys it.\<close>

definition removeStorageArea :: "area_ref \<Rightarrow> storage_namespace \<Rightarrow> storage_namespace" where
  "removeStorageArea i ns = ns\<lparr>ns_storageAreaMap := filter (\<lambda>e. snd e \<noteq> i) (ns_storageAreaMap ns)\<rparr>"

definition mgr_removeStorageArea :: "area_ref \<Rightarrow> storage_manager \<Rightarrow> storage_manager" where
  "mgr_removeStorageArea i mgr = mgr\<lparr>mgr_local := map (\<lambda>e. (fst e, removeStorageArea i (snd e))) (mgr_local mgr)\<rparr>"

definition set_removeListener ::
    "('m, 'd) storage_host \<Rightarrow> connection_ref \<Rightarrow> area_ref \<Rightarrow> ('m, 'd) storage_set \<Rightarrow> ('m, 'd) storage_set" where
  "set_removeListener H c i S =
     (case withArea H (removeListener (host_env H) c) i (set_store S) of
        (Some True, st) \<Rightarrow> S\<lparr>set_managers := map (\<lambda>e. (fst e, mgr_removeStorageArea i (snd e))) (set_managers S),
          set_store := destroyArea H i st\<rparr>
      | (found, st) \<Rightarrow> S\<lparr>set_store := st\<rparr>)"

definition isLive :: "('m, 'd) storage_set \<Rightarrow> area_ref \<Rightarrow> bool" where
  "isLive S i \<longleftrightarrow> map_of (st_areas (set_store S)) i \<noteq> None"

definition runRemoveConnection :: "('m, 'd) storage_host \<Rightarrow> connection_ref \<Rightarrow> ('m, 'd) storage_set \<Rightarrow> ('m, 'd) storage_set" where
  "runRemoveConnection H c S =
     (let S = fold (set_removeListener H c) (set_areas S) S in
      S\<lparr>set_areas := filter (isLive S) (set_areas S)\<rparr>)"

definition runFinish :: "('m, 'd) storage_host \<Rightarrow> ('m, 'd) storage_set \<Rightarrow> ('m, 'd) storage_set" where
  "runFinish H S =
     S\<lparr>set_store := fold (\<lambda>mgr st. snd (clearStorageNamespaces H (mgr, st))) (map snd (set_managers S)) (set_store S),
       set_managers := [], set_areas := []\<rparr>"

definition runSync :: "('m, 'd) storage_host \<Rightarrow> ('m, 'd) storage_set \<Rightarrow> ('m, 'd) storage_set" where
  "runSync H S = S\<lparr>set_store := fold (changeArea H (area_syncToDatabase (host_env H))) (set_areas S) (set_store S)\<rparr>"

text \<open>Work for a session follows the pointer to its manager, and crashes without one.\<close>

definition forManager ::
    "u64 \<Rightarrow> (('m, 'd) manager_state \<Rightarrow> storage_output \<times> ('m, 'd) area_store) \<Rightarrow> ('m, 'd) storage_set \<Rightarrow>
     (storage_output list \<times> ('m, 'd) storage_set) option" where
  "forManager sessionID f S =
     (case map_of (set_managers S) sessionID of
        None \<Rightarrow> None
      | Some mgr \<Rightarrow> (case f (mgr, set_store S) of (out, st) \<Rightarrow> Some ([out], S\<lparr>set_store := st\<rparr>)))"

text \<open>A connection to an area: it is answered, and then listens.\<close>

definition connectTo ::
    "('m, 'd) storage_host \<Rightarrow> connection_ref \<Rightarrow> u64 \<Rightarrow>
     (('m, 'd) manager_state \<Rightarrow> area_ref option \<times> ('m, 'd) manager_state) \<Rightarrow> ('m, 'd) storage_set \<Rightarrow>
     storage_output list \<times> ('m, 'd) storage_set" where
  "connectTo H c sessionID create S =
     (case map_of (set_managers S) sessionID of
        None \<Rightarrow> ([ConnectedTo c None], S)
      | Some mgr \<Rightarrow> (case create (mgr, set_store S) of
          (created, mgr, st) \<Rightarrow>
            (let S = S\<lparr>set_managers := AList.update sessionID mgr (set_managers S), set_store := st\<rparr> in
             case created of
               None \<Rightarrow> ([ConnectedTo c None], S)
             | Some i \<Rightarrow> ([ConnectedTo c (Some i)], S\<lparr>set_areas := List.insert i (set_areas S),
                 set_store := changeArea H (addListener (host_env H) c) i st\<rparr>))))"

definition connectToLocalStorageArea ::
    "('m, 'd) storage_host \<Rightarrow> connection_ref \<Rightarrow> u64 \<Rightarrow> u64 \<Rightarrow> string \<Rightarrow> ('m, 'd) storage_set \<Rightarrow>
     storage_output list \<times> ('m, 'd) storage_set" where
  "connectToLocalStorageArea H c sessionID storageNamespaceID origin =
     connectTo H c sessionID (createLocalStorageArea H storageNamespaceID origin)"

definition connectToTransientLocalStorageArea ::
    "('m, 'd) storage_host \<Rightarrow> connection_ref \<Rightarrow> u64 \<Rightarrow> u64 \<Rightarrow> string \<Rightarrow> string \<Rightarrow> ('m, 'd) storage_set \<Rightarrow>
     storage_output list \<times> ('m, 'd) storage_set" where
  "connectToTransientLocalStorageArea H c sessionID storageNamespaceID topLevelOrigin origin =
     connectTo H c sessionID (createTransientLocalStorageArea H storageNamespaceID topLevelOrigin origin)"

definition connectToSessionStorageArea ::
    "('m, 'd) storage_host \<Rightarrow> connection_ref \<Rightarrow> u64 \<Rightarrow> u64 \<Rightarrow> string \<Rightarrow> ('m, 'd) storage_set \<Rightarrow>
     storage_output list \<times> ('m, 'd) storage_set" where
  "connectToSessionStorageArea H c sessionID storageNamespaceID origin =
     connectTo H c sessionID (createSessionStorageArea H storageNamespaceID origin)"

definition set_disconnectFromStorageArea ::
    "('m, 'd) storage_host \<Rightarrow> connection_ref \<Rightarrow> area_ref \<Rightarrow> ('m, 'd) storage_set \<Rightarrow> ('m, 'd) storage_set" where
  "set_disconnectFromStorageArea H c i S =
     (if i \<notin> set (set_areas S) \<or> \<not> isLive S i then S
      else
        (let S = set_removeListener H c i S in
         if isLive S i then S else S\<lparr>set_areas := removeAll i (set_areas S)\<rparr>))"

definition set_getValues ::
    "('m, 'd) storage_host \<Rightarrow> connection_ref \<Rightarrow> area_ref \<Rightarrow> ('m, 'd) storage_set \<Rightarrow>
     storage_output list \<times> ('m, 'd) storage_set" where
  "set_getValues H c i S =
     (if i \<notin> set (set_areas S) then ([Values c []], S)
      else case withArea H (area_items (host_env H)) i (set_store S) of
        (found, st) \<Rightarrow> ([Values c (case found of None \<Rightarrow> [] | Some values \<Rightarrow> values)], S\<lparr>set_store := st\<rparr>))"

definition set_cloneSessionStorageNamespace ::
    "('m, 'd) storage_host \<Rightarrow> u64 \<Rightarrow> u64 \<Rightarrow> u64 \<Rightarrow> ('m, 'd) storage_set \<Rightarrow> ('m, 'd) storage_set option" where
  "set_cloneSessionStorageNamespace H sessionID from to S =
     (case map_of (set_managers S) sessionID of
        None \<Rightarrow> Some S
      | Some mgr \<Rightarrow> map_option (\<lambda>(mgr, st). S\<lparr>set_managers := AList.update sessionID mgr (set_managers S), set_store := st\<rparr>)
          (mgr_cloneSessionStorageNamespace H from to (mgr, set_store S)))"

text \<open>The handlers of changes; without the area a change is acknowledged all the same.\<close>

definition serveArea ::
    "('m, 'd) storage_host \<Rightarrow> connection_ref \<Rightarrow> area_ref \<Rightarrow> manager_message \<Rightarrow> area_message list \<Rightarrow> ('m, 'd) storage_set \<Rightarrow>
     storage_output list \<times> ('m, 'd) storage_set" where
  "serveArea H c i message without S =
     (if i \<notin> set (set_areas S) then (map (Send c i) without, S)
      else case withArea H (\<lambda>s. case serve (host_env H) c message s of (s, replies) \<Rightarrow> (replies, s)) i (set_store S) of
        (found, st) \<Rightarrow> (map (Send c i) (case found of None \<Rightarrow> without | Some replies \<Rightarrow> replies), S\<lparr>set_store := st\<rparr>))"

primrec set_didReceiveMessage ::
    "('m, 'd) storage_host \<Rightarrow> connection_ref \<Rightarrow> manager_message \<Rightarrow> ('m, 'd) storage_set \<Rightarrow>
     storage_output list \<times> ('m, 'd) storage_set" where
  "set_didReceiveMessage H c (SetItem i implID seed key value url) S =
     serveArea H c i (SetItem i implID seed key value url) [DidSetItem seed key False] S"
| "set_didReceiveMessage H c (RemoveItem i implID seed key url) S =
     serveArea H c i (RemoveItem i implID seed key url) [DidRemoveItem seed key] S"
| "set_didReceiveMessage H c (Clear i implID seed url) S =
     serveArea H c i (Clear i implID seed url) [DidClear seed] S"
| "set_didReceiveMessage H c (DisconnectFromStorageArea i) S = ([], set_disconnectFromStorageArea H c i S)"

primrec runTask ::
    "('m, 'd) storage_host \<Rightarrow> storage_task \<Rightarrow> ('m, 'd) storage_set \<Rightarrow> (storage_output list \<times> ('m, 'd) storage_set) option" where
  "runTask H (T_add sessionID directory) S = Some ([], runAdd H sessionID directory S)"
| "runTask H (T_remove sessionID) S = Some ([], runRemove H sessionID S)"
| "runTask H (T_removeConnection c) S = Some ([], runRemoveConnection H c S)"
| "runTask H T_finish S = Some ([Done], runFinish H S)"
| "runTask H T_sync S = Some ([Done], runSync H S)"
| "runTask H T_suspend S = Some (runSuspend S)"
| "runTask H (T_getSessionStorageOrigins sessionID) S =
     forManager sessionID (\<lambda>s. case getSessionStorageOriginsCrossThreadCopy H s of (origins, st) \<Rightarrow> (Origins origins, st)) S"
| "runTask H (T_deleteSessionStorage sessionID) S =
     forManager sessionID (\<lambda>s. (Done, deleteSessionStorageOrigins H s)) S"
| "runTask H (T_deleteSessionStorageForOrigins sessionID origins) S =
     forManager sessionID (\<lambda>s. (Done, deleteSessionStorageEntriesForOrigins H origins s)) S"
| "runTask H (T_getLocalStorageOrigins sessionID) S =
     forManager sessionID (\<lambda>s. case getLocalStorageOriginsCrossThreadCopy H s of (origins, st) \<Rightarrow> (Origins origins, st)) S"
| "runTask H (T_deleteLocalStorageModifiedSince sessionID time) S =
     forManager sessionID (\<lambda>s. (Done, deleteLocalStorageOriginsModifiedSince H time s)) S"
| "runTask H (T_deleteLocalStorageForOrigins sessionID origins) S =
     forManager sessionID (\<lambda>s. (Done, deleteLocalStorageEntriesForOrigins H origins s)) S"
| "runTask H (T_getLocalStorageOriginDetails sessionID) S =
     forManager sessionID (\<lambda>s. (OriginDetails (getLocalStorageOriginDetailsCrossThreadCopy H s), snd s)) S"
| "runTask H (T_renameOrigin sessionID oldName newName) S =
     forManager sessionID (\<lambda>s. (Done, mgr_renameOrigin H oldName newName s)) S"
| "runTask H (ConnectToLocalStorageArea c sessionID ns origin) S =
     Some (connectToLocalStorageArea H c sessionID ns origin S)"
| "runTask H (ConnectToTransientLocalStorageArea c sessionID ns topLevelOrigin origin) S =
     Some (connectToTransientLocalStorageArea H c sessionID ns topLevelOrigin origin S)"
| "runTask H (ConnectToSessionStorageArea c sessionID ns origin) S =
     Some (connectToSessionStorageArea H c sessionID ns origin S)"
| "runTask H (GetValues c i) S = Some (set_getValues H c i S)"
| "runTask H (CloneSessionStorageNamespace sessionID from to) S =
     map_option (Pair []) (set_cloneSessionStorageNamespace H sessionID from to S)"
| "runTask H (ManagerMessage c message) S = Some (set_didReceiveMessage H c message S)"

text \<open>The queue does its next piece of work, unless it waits to be resumed.\<close>

definition runQueue ::
    "('m, 'd) storage_host \<Rightarrow> ('m, 'd) storage_set \<Rightarrow> (storage_output list \<times> ('m, 'd) storage_set) option" where
  "runQueue H S =
     (if set_state S = Suspended then Some ([], S)
      else case set_queue S of
        [] \<Rightarrow> Some ([], S)
      | task # tasks \<Rightarrow> runTask H task (S\<lparr>set_queue := tasks\<rparr>))"

end
