(* ===== verification/Storage_Isolation.thy ===== *)
theory Storage_Isolation
  imports Storage_Manager
begin

text \<open>
  Whose data a page gets to see. The items of an area come from pages of the same origin and, unless
  they are kept in a file, of the same session, whatever SQLite calls fail and whatever order the work is
  done in.
\<close>

subsection \<open>Nothing is made up\<close>

text \<open>The rows a database file holds, or may get back by rolling back a transaction.\<close>

definition sqlite_confined :: "'d sqlite \<Rightarrow> ('d \<Rightarrow> (string \<times> string) set) \<Rightarrow> bool" where
  "sqlite_confined Q rows \<longleftrightarrow> (\<forall>d.
     rows (snd (sqlite_open Q d)) \<subseteq> rows d \<and> rows (sqlite_close Q d) \<subseteq> rows d \<and>
     (\<forall>sql. rows (snd (executeCommand Q sql d)) \<subseteq> rows d) \<and>
     rows (transaction_begin Q d) \<subseteq> rows d \<and> rows (transaction_commit Q d) \<subseteq> rows d \<and>
     rows (transaction_rollback Q d) \<subseteq> rows d \<and> rows (deleteDatabaseFile Q d) \<subseteq> rows d \<and>
     rows (snd (statement_step Q clear_statement [] d)) \<subseteq> rows d \<and>
     (\<forall>k. rows (snd (statement_step Q delete_statement [Some k] d)) \<subseteq> rows d) \<and>
     (\<forall>k v. rows (snd (statement_step Q insert_statement [Some k, Some v] d)) \<subseteq> insert (k, v) (rows d)) \<and>
     (\<forall>k v. (Some k, Some v) \<in> set (fst (statement_rows Q ''SELECT key, value FROM ItemTable'' d)) \<longrightarrow> (k, v) \<in> rows d))"

definition held :: "(string \<times> wtf_string) list \<Rightarrow> (string \<times> string) set" where
  "held xs = {(k, v). (k, Some v) \<in> set xs}"

definition map_confined :: "'m storage_map \<Rightarrow> bool" where
  "map_confined M \<longleftrightarrow> (\<forall>m.
     (\<forall>q. held (sm_items M (StorageMap_create M q)) = {}) \<and>
     (\<forall>k v. held (sm_items M (fst (sm_setItem M m k (Some v)))) \<subseteq> insert (k, v) (held (sm_items M m))) \<and>
     (\<forall>k. held (sm_items M (fst (sm_removeItem M m k))) \<subseteq> held (sm_items M m)) \<and>
     (\<forall>vs. held (sm_items M (sm_importItems M m vs)) \<subseteq> held vs \<union> held (sm_items M m)))"

lemma sqlite_confinedD:
  assumes "sqlite_confined Q rows"
  shows "rows (snd (sqlite_open Q d)) \<subseteq> rows d" "rows (sqlite_close Q d) \<subseteq> rows d"
    "rows (snd (executeCommand Q sql d)) \<subseteq> rows d" "rows (transaction_begin Q d) \<subseteq> rows d"
    "rows (transaction_commit Q d) \<subseteq> rows d" "rows (transaction_rollback Q d) \<subseteq> rows d"
    "rows (deleteDatabaseFile Q d) \<subseteq> rows d" "rows (snd (statement_step Q clear_statement [] d)) \<subseteq> rows d"
    "rows (snd (statement_step Q delete_statement [Some k] d)) \<subseteq> rows d"
    "rows (snd (statement_step Q insert_statement [Some k, Some v] d)) \<subseteq> insert (k, v) (rows d)"
    "(Some k, Some v) \<in> set (fst (statement_rows Q ''SELECT key, value FROM ItemTable'' d)) \<Longrightarrow> (k, v) \<in> rows d"
  using assms unfolding sqlite_confined_def by blast+

lemma map_confinedD:
  assumes "map_confined M"
  shows "held (sm_items M (StorageMap_create M q)) = {}"
    "held (sm_items M (fst (sm_setItem M m k (Some v)))) \<subseteq> insert (k, v) (held (sm_items M m))"
    "held (sm_items M (fst (sm_removeItem M m k))) \<subseteq> held (sm_items M m)"
    "held (sm_items M (sm_importItems M m vs)) \<subseteq> held vs \<union> held (sm_items M m)"
  using assms unfolding map_confined_def by blast+

lemma held_simps [simp]:
  "held [] = {}" "held (xs @ ys) = held xs \<union> held ys"
  "held ((k, v) # xs) = (case v of None \<Rightarrow> {} | Some v \<Rightarrow> {(k, v)}) \<union> held xs"
  by (auto simp: held_def split: option.splits)

lemma held_take_drop: "held (take n xs) \<subseteq> held xs" "held (drop n xs) \<subseteq> held xs"
  by (auto simp: held_def dest: in_set_takeD in_set_dropD)

lemma held_update: "held (AList.update k v xs) \<subseteq> held [(k, v)] \<union> held xs"
  using set_AList_update [of k v xs] by (auto simp: held_def)

subsection \<open>The database\<close>

text \<open>A database of an area on a file: what it will write, and what the file holds. Without a path the file is not touched.\<close>

definition db_within :: "('d \<Rightarrow> (string \<times> string) set) \<Rightarrow> wtf_string \<Rightarrow> 'd \<Rightarrow> (string \<times> string) set \<Rightarrow> local_db \<times> 'd \<Rightarrow> bool" where
  "db_within rows path d0 A s \<longleftrightarrow> db_databasePath (fst s) = path \<and> held (db_changedItems (fst s)) \<subseteq> A \<and>
     (if wtf_isEmpty path then \<not> db_isOpen (fst s) \<and> snd s = d0 else rows (snd s) \<subseteq> A)"

lemma rows_step:
  assumes "sqlite_confined Q rows" and "rows d \<subseteq> A"
  shows "rows (snd (sqlite_open Q d)) \<subseteq> A" "rows (sqlite_close Q d) \<subseteq> A"
    "rows (snd (executeCommand Q sql d)) \<subseteq> A" "rows (transaction_begin Q d) \<subseteq> A"
    "rows (transaction_commit Q d) \<subseteq> A" "rows (transaction_rollback Q d) \<subseteq> A"
    "rows (deleteDatabaseFile Q d) \<subseteq> A" "rows (snd (statement_step Q clear_statement [] d)) \<subseteq> A"
    "rows (snd (statement_step Q delete_statement [Some k] d)) \<subseteq> A"
    "(k, v) \<in> A \<Longrightarrow> rows (snd (statement_step Q insert_statement [Some k, Some v] d)) \<subseteq> A"
proof -
  note c = sqlite_confinedD [OF assms(1), where d = d]
  show "rows (snd (sqlite_open Q d)) \<subseteq> A" "rows (sqlite_close Q d) \<subseteq> A"
    "rows (snd (executeCommand Q sql d)) \<subseteq> A" "rows (transaction_begin Q d) \<subseteq> A"
    "rows (transaction_commit Q d) \<subseteq> A" "rows (transaction_rollback Q d) \<subseteq> A"
    "rows (deleteDatabaseFile Q d) \<subseteq> A" "rows (snd (statement_step Q clear_statement [] d)) \<subseteq> A"
    "rows (snd (statement_step Q delete_statement [Some k] d)) \<subseteq> A"
    using c(1-9) assms(2) by (meson subset_trans)+
  show "rows (snd (statement_step Q insert_statement [Some k, Some v] d)) \<subseteq> A" if "(k, v) \<in> A"
    using c(10) [of k v] assms(2) that by auto
qed

lemma execute_all_rows:
  assumes "sqlite_confined Q rows"
  shows "rows d \<subseteq> A \<Longrightarrow> rows (snd (execute_all Q commands d)) \<subseteq> A"
proof (induction commands arbitrary: d)
  case (Cons command commands)
  have "rows (snd (executeCommand Q command d)) \<subseteq> A" using rows_step(3) [OF assms Cons.prems] .
  moreover obtain ok d' where "executeCommand Q command d = (ok, d')" by (cases "executeCommand Q command d")
  ultimately show ?case using Cons.IH [of d'] by (cases ok) simp_all
qed simp

lemma migrate_rows:
  assumes "sqlite_confined Q rows" and "rows d \<subseteq> A"
  shows "rows (snd (migrateItemTableIfNeeded Q d)) \<subseteq> A"
proof -
  obtain ok d' where run: "execute_all Q migrate_commands (transaction_begin Q d) = (ok, d')"
    by (cases "execute_all Q migrate_commands (transaction_begin Q d)")
  have "rows d' \<subseteq> A" using execute_all_rows [OF assms(1) rows_step(4) [OF assms], of migrate_commands] run by simp
  then show ?thesis
    using assms run rows_step(5,6) [OF assms(1)] by (auto simp: migrateItemTableIfNeeded_def split: bool.split)
qed

lemma tryToOpen_within:
  assumes "sqlite_confined Q rows" and "db_within rows path d0 A s"
  shows "db_within rows path d0 A (snd (tryToOpenDatabase Q strategy s))"
proof -
  obtain db d where s: "s = (db, d)" by (cases s)
  obtain ok d1 where d1: "sqlite_open Q d = (ok, d1)" by (cases "sqlite_open Q d")
  obtain migrated d2 where d2: "migrateItemTableIfNeeded Q d1 = (migrated, d2)" by (cases "migrateItemTableIfNeeded Q d1")
  define d3 where "d3 = (if migrated then d2 else snd (executeCommand Q ''DROP TABLE ItemTable'' d2))"
  obtain created d4 where d4: "executeCommand Q create_command d3 = (created, d4)" by (cases "executeCommand Q create_command d3")
  have rows: "rows d1 \<subseteq> A \<and> rows d4 \<subseteq> A" if "rows d \<subseteq> A"
  proof -
    have "rows d1 \<subseteq> A" using rows_step(1) [OF assms(1) that] d1 by simp
    then have "rows d2 \<subseteq> A" using migrate_rows [OF assms(1), of d1 A] d2 by simp
    then have "rows d3 \<subseteq> A" using rows_step(3) [OF assms(1)] by (simp add: d3_def)
    then show ?thesis using rows_step(3) [OF assms(1), of d3 A create_command] d4 \<open>rows d1 \<subseteq> A\<close> by simp
  qed
  have result: "tryToOpenDatabase Q strategy s =
      (if \<not> fileExists Q d \<and> strategy = SkipIfNonExistent then (True, db, d)
       else if wtf_isEmpty (db_databasePath db) then (False, db, d)
       else if \<not> ok then (False, db, d1) else (created, db\<lparr>db_isOpen := True\<rparr>, d4))"
    unfolding tryToOpenDatabase_def s using d1 d2 d4 by (simp add: d3_def)
  show ?thesis
    unfolding result using assms(2) rows s by (auto simp: db_within_def)
qed

lemma openDatabase_within:
  assumes "sqlite_confined Q rows" and "db_within rows path d0 A s"
  shows "db_within rows path d0 A (openDatabase Q strategy s)"
proof -
  obtain ok db d where "tryToOpenDatabase Q strategy s = (ok, db, d)" by (cases "tryToOpenDatabase Q strategy s")
  then show ?thesis
    using tryToOpen_within [OF assms, of strategy] by (cases ok) (auto simp: openDatabase_def db_within_def)
qed

lemma writeItems_rows:
  assumes "sqlite_confined Q rows"
  shows "held items \<subseteq> A \<Longrightarrow> rows d \<subseteq> A \<Longrightarrow> rows (writeItems Q items d) \<subseteq> A"
proof (induction items arbitrary: d)
  case (Cons item items)
  obtain k v where item: "item = (k, v)" by (cases item)
  obtain ok d' where d': "(case v of None \<Rightarrow> statement_step Q delete_statement [Some k] d
      | Some value \<Rightarrow> statement_step Q insert_statement [Some k, Some value] d) = (ok, d')"
    by (metis surj_pair)
  have held: "held items \<subseteq> A" "\<And>w. v = Some w \<Longrightarrow> (k, w) \<in> A" using Cons.prems(1) item by auto
  have "rows d' \<subseteq> A"
  proof (cases v)
    case None
    then show ?thesis using rows_step(9) [OF assms Cons.prems(2), of k] d' by simp
  next
    case (Some w)
    then show ?thesis using rows_step(10) [OF assms Cons.prems(2) held(2) [OF Some]] d' by simp
  qed
  moreover have "writeItems Q (item # items) d = (if ok then writeItems Q items d' else d')"
    unfolding item using d' by (cases v; cases ok) simp_all
  ultimately show ?case using Cons.IH [OF held(1)] by simp
qed simp

lemma clearItems_within:
  assumes "sqlite_confined Q rows" and "db_within rows path d0 A s" and "db_isOpen (fst s)"
  shows "db_within rows path d0 A (snd (clearItems Q s)) \<and> db_isOpen (fst (snd (clearItems Q s)))"
proof -
  obtain db d where s: "s = (db, d)" by (cases s)
  have "rows (snd (statement_step Q clear_statement [] d)) \<subseteq> A"
    using rows_step(8) [OF assms(1)] assms(2,3) s by (auto simp: db_within_def split: if_splits)
  then show ?thesis
    using assms(2,3) s by (auto simp: clearItems_def db_within_def Let_def split: prod.split if_splits)
qed

lemma updateWithItems_within:
  assumes "sqlite_confined Q rows" and "db_within rows path d0 A s" and "held items \<subseteq> A"
  shows "db_within rows path d0 A (updateDatabaseWithChangedItems Q items s)"
proof -
  obtain db d where s: "(if \<not> db_isOpen (fst s) then openDatabase Q CreateIfNonExistent s else s) = (db, d)"
    by (metis surj_pair)
  have within: "db_within rows path d0 A (db, d)"
    using s assms(2) openDatabase_within [OF assms(1,2), of CreateIfNonExistent] by (auto split: if_splits)
  show ?thesis
  proof (cases "db_isOpen db")
    case True
    obtain ok db1 d1 where clear: "clearItems Q (db, d) = (ok, db1, d1)" by (cases "clearItems Q (db, d)")
    then have w1: "db_within rows path d0 A (db1, d1)" "db_isOpen db1"
      using clearItems_within [OF assms(1) within] True by auto
    then have "rows (transaction_commit Q (writeItems Q items (transaction_begin Q d1))) \<subseteq> A"
      using rows_step(4,5) [OF assms(1)] writeItems_rows [OF assms(1,3)] by (auto simp: db_within_def split: if_splits)
    then show ?thesis
      using w1 clear s True by (auto simp: updateDatabaseWithChangedItems_def Let_def db_within_def split: if_splits bool.split)
  next
    case False
    then show ?thesis using within s by (simp add: updateDatabaseWithChangedItems_def Let_def)
  qed
qed

lemma within_fields:
  assumes "db_within rows path d0 A (db, d)" and "db_databasePath db' = db_databasePath db"
    and "held (db_changedItems db') \<subseteq> A" and "db_isOpen db' \<longrightarrow> db_isOpen db"
  shows "db_within rows path d0 A (db', d)"
  using assms by (auto simp: db_within_def split: if_splits)

lemma updateDatabase_within:
  assumes "sqlite_confined Q rows" and "db_within rows path d0 A s"
  shows "db_within rows path d0 A (updateDatabase Q s)"
proof -
  obtain db d where s: "s = (db, d)" by (cases s)
  let ?n = maximumItemsToUpdate
  let ?rest = "scheduleDatabaseUpdate (db\<lparr>db_didScheduleDatabaseUpdate := False, db_changedItems := drop ?n (db_changedItems db)\<rparr>)"
  have held: "held (db_changedItems db) \<subseteq> A" using assms(2) s by (simp add: db_within_def)
  have "db_within rows path d0 A (db\<lparr>db_didScheduleDatabaseUpdate := False, db_changedItems := []\<rparr>, d)"
    by (rule within_fields [OF assms(2) [unfolded s]]) simp_all
  note few = updateWithItems_within [OF assms(1) this held]
  have "db_within rows path d0 A (?rest, d)"
    by (rule within_fields [OF assms(2) [unfolded s]])
      (use held held_take_drop(2) [of ?n "db_changedItems db"] in \<open>auto simp: scheduleDatabaseUpdate_def\<close>)
  note many = updateWithItems_within [OF assms(1) this order_trans [OF held_take_drop(1) [of ?n] held]]
  show ?thesis
    using few many assms(2) s
    by (cases "updateDatabaseWithChangedItems Q (db_changedItems db) (db\<lparr>db_didScheduleDatabaseUpdate := False, db_changedItems := []\<rparr>, d)")
      (auto simp: updateDatabase_def Let_def db_within_def)
qed

lemma runQueuedUpdate_within:
  assumes "sqlite_confined Q rows" and "db_within rows path d0 A s"
  shows "db_within rows path d0 A (runQueuedUpdate Q s)"
proof -
  obtain db d where s: "s = (db, d)" by (cases s)
  have "db_within rows path d0 A (db\<lparr>db_queuedUpdates := db_queuedUpdates db - 1\<rparr>, d)"
    using assms(2) s by (auto simp: db_within_def split: if_splits)
  then show ?thesis
    using updateDatabase_within [OF assms(1)] assms(2) s by (simp add: runQueuedUpdate_def)
qed

lemma db_close_within:
  assumes "sqlite_confined Q rows" and "db_within rows path d0 A s"
  shows "db_within rows path d0 A (db_close Q s)"
proof -
  obtain db d where s: "s = (db, d)" by (cases s)
  have held: "held (db_changedItems db) \<subseteq> A" using assms(2) s by (simp add: db_within_def)
  have closed: "db_within rows path d0 A (db\<lparr>db_isClosed := True\<rparr>, d)" using assms(2) s by (auto simp: db_within_def split: if_splits)
  obtain db1 d1 where s1: "(if db_didScheduleDatabaseUpdate db
      then (let (db, d) = updateDatabaseWithChangedItems Q (db_changedItems db) (db\<lparr>db_isClosed := True\<rparr>, d) in
            (db\<lparr>db_changedItems := []\<rparr>, d))
      else (db\<lparr>db_isClosed := True\<rparr>, d)) = (db1, d1)"
    by (metis surj_pair)
  have w1: "db_within rows path d0 A (db1, d1)"
    using s1 closed updateWithItems_within [OF assms(1) closed held]
    by (auto simp: Let_def db_within_def split: if_splits prod.splits)
  have path: "db_databasePath db1 = path" using w1 by (simp add: db_within_def)
  have w2: "db_within rows path d0 A (db1\<lparr>db_isOpen := False\<rparr>, sqlite_close Q d1)" if "db_isOpen db1"
    using w1 that rows_step(2) [OF assms(1), of d1 A] by (auto simp: db_within_def split: if_splits)
  have delete: "db_within rows path d0 A (db2, deleteDatabaseWithOrigin Q path d2)" if "db_within rows path d0 A (db2, d2)" for db2 d2
    using that rows_step(7) [OF assms(1), of d2 A] by (auto simp: db_within_def deleteDatabaseWithOrigin_def)
  show ?thesis
    using assms(2) s s1 w1 w2 delete path by (auto simp: db_close_def Let_def)
qed

lemma addRow_held:
  assumes "\<And>k v. (Some k, Some v) \<in> set table \<Longrightarrow> (k, v) \<in> A"
  shows "held items \<subseteq> A \<Longrightarrow> held (fold addRow table items) \<subseteq> A"
  using assms
proof (induction table arbitrary: items)
  case (Cons row table)
  have "held (addRow row items) \<subseteq> A"
    using Cons.prems(1) Cons.prems(2) [of "the (fst row)" "the (snd row)"]
    by (cases row) (auto simp: addRow_def split: option.splits)
  then show ?case using Cons.IH Cons.prems(2) by simp
qed simp

lemma importItems_within:
  assumes "map_confined M" and "sqlite_confined Q rows" and "db_within rows path d0 A s" and "held (sm_items M m) \<subseteq> A"
  shows "db_within rows path d0 A (snd (importItems M Q m s)) \<and> held (sm_items M (fst (importItems M Q m s))) \<subseteq> A"
proof -
  obtain db d where s: "s = (db, d)" by (cases s)
  obtain db1 d1 where opened: "openDatabase Q SkipIfNonExistent (db\<lparr>db_didImportItems := True\<rparr>, d) = (db1, d1)"
    by (cases "openDatabase Q SkipIfNonExistent (db\<lparr>db_didImportItems := True\<rparr>, d)")
  have "db_within rows path d0 A (db\<lparr>db_didImportItems := True\<rparr>, d)" using assms(3) s by (auto simp: db_within_def split: if_splits)
  from openDatabase_within [OF assms(2) this, of SkipIfNonExistent]
  have w1: "db_within rows path d0 A (db1, d1)" unfolding opened .
  obtain table finished where table: "statement_rows Q ''SELECT key, value FROM ItemTable'' d1 = (table, finished)"
    by (cases "statement_rows Q ''SELECT key, value FROM ItemTable'' d1")
  have "held (sm_items M (sm_importItems M m (fold addRow table []))) \<subseteq> A" if "db_isOpen db1"
  proof -
    have "rows d1 \<subseteq> A" using w1 that by (auto simp: db_within_def split: if_splits)
    then have "held (fold addRow table []) \<subseteq> A"
      using addRow_held [of table A "[]"] sqlite_confinedD(11) [OF assms(2), of _ _ d1] table by auto
    then show ?thesis using map_confinedD(4) [OF assms(1), of m "fold addRow table []"] assms(4) by blast
  qed
  then show ?thesis
    using w1 opened table assms(3,4) s by (simp add: importItems_def Let_def)
qed

lemma db_changes_within:
  assumes "db_within rows path d0 A (db, d)"
  shows "held [(k, v)] \<subseteq> A \<Longrightarrow> db_within rows path d0 A (db_setItem k v db, d)"
    "db_within rows path d0 A (db_removeItem k db, d)" "db_within rows path d0 A (db_clear db, d)"
proof -
  have "db_within rows path d0 A (itemDidChange k v db, d)" if "held [(k, v)] \<subseteq> A" for v
    by (rule within_fields [OF assms])
      (use assms that held_update [of k v "db_changedItems db"] in
        \<open>auto simp: itemDidChange_def scheduleDatabaseUpdate_def db_within_def\<close>)
  then show "held [(k, v)] \<subseteq> A \<Longrightarrow> db_within rows path d0 A (db_setItem k v db, d)"
    "db_within rows path d0 A (db_removeItem k db, d)"
    by (simp_all add: db_setItem_def db_removeItem_def)
  show "db_within rows path d0 A (db_clear db, d)"
    by (rule within_fields [OF assms]) (simp_all add: db_clear_def scheduleDatabaseUpdate_def)
qed

subsection \<open>Areas\<close>

definition file_within :: "('d \<Rightarrow> (string \<times> string) set) \<Rightarrow> wtf_string \<Rightarrow> 'd \<Rightarrow> (string \<times> string) set \<Rightarrow> 'd \<Rightarrow> bool" where
  "file_within rows path d0 A d \<longleftrightarrow> (if wtf_isEmpty path then d = d0 else rows d \<subseteq> A)"

lemma db_within_file: "db_within rows path d0 A (db, d) \<Longrightarrow> file_within rows path d0 A d"
  by (auto simp: db_within_def file_within_def split: if_splits)

text \<open>What an area shows, what its database will write and what its file holds is allowed.\<close>

definition area_within ::
    "('m, 'd) storage_host \<Rightarrow> ('d \<Rightarrow> (string \<times> string) set) \<Rightarrow> 'd \<Rightarrow> (string \<times> string) set \<Rightarrow> ('m, 'd) area_state \<Rightarrow> bool" where
  "area_within H rows d0 A s \<longleftrightarrow> (case s of (a, d, posts) \<Rightarrow>
     held (sm_items (host_map H) (sa_storageMap a)) \<subseteq> A \<and> (sa_tracker a = None \<longrightarrow> sa_database a = None) \<and>
     file_within rows (area_file H a) d0 A d \<and>
     (\<forall>db. sa_database a = Some db \<longrightarrow> db_within rows (area_file H a) d0 A (db, d)))"

definition same_area :: "'m storage_area \<Rightarrow> 'm storage_area \<Rightarrow> bool" where
  "same_area a a' \<longleftrightarrow> sa_tracker a' = sa_tracker a \<and> sa_securityOrigin a' = sa_securityOrigin a \<and>
     sa_identifier a' = sa_identifier a \<and> sa_quotaInBytes a' = sa_quotaInBytes a"

definition keeps ::
    "('m, 'd) storage_host \<Rightarrow> ('d \<Rightarrow> (string \<times> string) set) \<Rightarrow> (string \<times> string) set \<Rightarrow>
     (('m, 'd) area_state \<Rightarrow> ('m, 'd) area_state) \<Rightarrow> bool" where
  "keeps H rows A f \<longleftrightarrow> (\<forall>d0 s. area_within H rows d0 A s \<longrightarrow> area_within H rows d0 A (f s) \<and> same_area (fst s) (fst (f s)))"

lemma same_area_refl [simp]: "same_area a a"
  by (simp add: same_area_def)

lemma same_area_trans [trans]: "same_area a b \<Longrightarrow> same_area b c \<Longrightarrow> same_area a c"
  by (simp add: same_area_def)

lemma same_area_file: "same_area a a' \<Longrightarrow> area_file H a' = area_file H a"
  by (simp add: same_area_def area_file_def split: option.split)

lemma area_file_update [simp]:
  "area_file H (a\<lparr>sa_storageMap := m\<rparr>) = area_file H a" "area_file H (a\<lparr>sa_eventListeners := cs\<rparr>) = area_file H a"
  "area_file H (a\<lparr>sa_database := db\<rparr>) = area_file H a"
  "area_file H (a\<lparr>sa_didImportItemsFromDatabase := b\<rparr>) = area_file H a"
  by (simp_all add: area_file_def split: option.split)

lemma keepsI:
  assumes "\<And>d0 a d posts. area_within H rows d0 A (a, d, posts) \<Longrightarrow>
    area_within H rows d0 A (f (a, d, posts)) \<and> same_area a (fst (f (a, d, posts)))"
  shows "keeps H rows A f"
  using assms by (simp add: keeps_def)

lemma keepsD:
  assumes "keeps H rows A f" and "area_within H rows d0 A s"
  shows "area_within H rows d0 A (f s)" "same_area (fst s) (fst (f s))"
  using assms unfolding keeps_def by blast+

lemma keeps_comp: "keeps H rows A f \<Longrightarrow> keeps H rows A g \<Longrightarrow> keeps H rows A (\<lambda>s. g (f s))"
  unfolding keeps_def by (meson same_area_trans)

lemma keeps_id: "keeps H rows A (\<lambda>s. s)"
  by (simp add: keeps_def)

lemma keeps_if: "keeps H rows A f \<Longrightarrow> keeps H rows A g \<Longrightarrow> keeps H rows A (\<lambda>s. if P s then f s else g s)"
  by (simp add: keeps_def)

text \<open>A change of the map, of the database and of the posts.\<close>

lemma keeps_map:
  assumes "\<And>a. held (sm_items (host_map H) (sa_storageMap a)) \<subseteq> A \<Longrightarrow> held (sm_items (host_map H) (f a)) \<subseteq> A"
  shows "keeps H rows A (\<lambda>s. ((fst s)\<lparr>sa_storageMap := f (fst s)\<rparr>, snd s))"
  by (rule keepsI) (use assms in \<open>simp add: area_within_def same_area_def\<close>)

lemma keeps_posts: "keeps H rows A (\<lambda>s. (fst s, fst (snd s), g s))"
  by (rule keepsI) (simp add: area_within_def)

lemma keeps_listeners: "keeps H rows A (\<lambda>s. ((fst s)\<lparr>sa_eventListeners := g (fst s)\<rparr>, snd s))"
  by (rule keepsI) (simp add: area_within_def same_area_def)

lemma keeps_database:
  assumes "\<And>path d0 db d. db_within rows path d0 A (db, d) \<Longrightarrow> db_within rows path d0 A (f (db, d))"
  shows "keeps H rows A (\<lambda>(a, d, posts). case sa_database a of
      None \<Rightarrow> (a, d, posts)
    | Some db \<Rightarrow> (case f (db, d) of (db, d) \<Rightarrow> (a\<lparr>sa_database := Some db\<rparr>, d, posts)))"
proof (rule keepsI, clarify)
  fix d0 a d posts
  assume within: "area_within H rows d0 A (a, d, posts)"
  show "area_within H rows d0 A (case sa_database a of None \<Rightarrow> (a, d, posts)
      | Some db \<Rightarrow> (case f (db, d) of (db, d) \<Rightarrow> (a\<lparr>sa_database := Some db\<rparr>, d, posts))) \<and>
    same_area a (fst (case sa_database a of None \<Rightarrow> (a, d, posts)
      | Some db \<Rightarrow> (case f (db, d) of (db, d) \<Rightarrow> (a\<lparr>sa_database := Some db\<rparr>, d, posts))))"
  proof (cases "sa_database a")
    case (Some db)
    obtain db' d' where f: "f (db, d) = (db', d')" by (cases "f (db, d)")
    have "db_within rows (area_file H a) d0 A (db, d)" using within Some by (simp add: area_within_def)
    from assms [OF this] have "db_within rows (area_file H a) d0 A (db', d')" unfolding f .
    then show ?thesis
      using within Some f db_within_file by (auto simp: area_within_def same_area_def)
  qed (use within in simp)
qed

lemma host_env_simps [simp]:
  "env_map (host_env H) = host_map H" "env_sqlite (host_env H) = host_sqlite H" "env_databasePath (host_env H) = databasePath H"
  by (simp_all add: host_env_def)

lemma keeps_open:
  assumes "map_confined (host_map H)" and "sqlite_confined (host_sqlite H) rows"
  shows "keeps H rows A (openDatabaseAndImportItemsIfNeeded (host_env H))"
proof (rule keepsI)
  fix d0 a d posts
  assume within: "area_within H rows d0 A (a, d, posts)"
  show "area_within H rows d0 A (openDatabaseAndImportItemsIfNeeded (host_env H) (a, d, posts)) \<and>
    same_area a (fst (openDatabaseAndImportItemsIfNeeded (host_env H) (a, d, posts)))"
  proof (cases "sa_tracker a")
    case (Some directory)
    define db where "db = (case sa_database a of None \<Rightarrow> LocalStorageDatabase_new (databasePath H directory (sa_securityOrigin a))
      | Some db \<Rightarrow> db)"
    have "db_within rows (area_file H a) d0 A (db, d)"
      using within Some by (auto simp: db_def area_within_def db_within_def area_file_def LocalStorageDatabase_new_def
          file_within_def split: option.split)
    moreover obtain m db1 d1 where import: "importItems (host_map H) (host_sqlite H) (sa_storageMap a) (db, d) = (m, db1, d1)"
      by (cases "importItems (host_map H) (host_sqlite H) (sa_storageMap a) (db, d)")
    moreover have "openDatabaseAndImportItemsIfNeeded (host_env H) (a, d, posts) =
        (if sa_didImportItemsFromDatabase a then (a\<lparr>sa_database := Some db\<rparr>, d, posts)
         else (a\<lparr>sa_database := Some db1, sa_storageMap := m, sa_didImportItemsFromDatabase := True\<rparr>, d1, posts))"
      using Some import unfolding openDatabaseAndImportItemsIfNeeded_def host_env_simps by (simp add: Let_def flip: db_def)
    ultimately show ?thesis
      using within Some importItems_within [OF assms, of "area_file H a" d0 A "(db, d)" "sa_storageMap a"] db_within_file
      by (auto simp: area_within_def same_area_def)
  qed (use within in \<open>simp add: openDatabaseAndImportItemsIfNeeded_def\<close>)
qed

lemma keeps_database_step:
  assumes "sqlite_confined (host_sqlite H) rows"
  shows "keeps H rows A (area_syncToDatabase (host_env H))" "keeps H rows A (area_close (host_env H))"
proof -
  have sync: "area_syncToDatabase (host_env H) = (\<lambda>(a, d, posts). case sa_database a of
      None \<Rightarrow> (a, d, posts)
    | Some db \<Rightarrow> (case updateDatabase (host_sqlite H) (db, d) of (db, d) \<Rightarrow> (a\<lparr>sa_database := Some db\<rparr>, d, posts)))"
    by (rule ext) (simp add: area_syncToDatabase_def split: prod.split option.split)
  show "keeps H rows A (area_syncToDatabase (host_env H))"
    unfolding sync by (rule keeps_database) (rule updateDatabase_within [OF assms])
  have close: "area_close (host_env H) = (\<lambda>(a, d, posts). case sa_database a of
      None \<Rightarrow> (a, d, posts)
    | Some db \<Rightarrow> (case db_close (host_sqlite H) (db, d) of (db, d) \<Rightarrow> (a\<lparr>sa_database := Some db\<rparr>, d, posts)))"
    by (rule ext) (simp add: area_close_def split: prod.split option.split)
  show "keeps H rows A (area_close (host_env H))"
    unfolding close by (rule keeps_database) (rule db_close_within [OF assms])
qed

lemma keeps_area_database:
  assumes "\<And>path d0 db d. db_within rows path d0 A (db, d) \<Longrightarrow> db_within rows path d0 A (g db, d)"
  shows "keeps H rows A (area_database g)"
  by (rule keepsI) (use assms in \<open>auto simp: area_database_def area_within_def same_area_def\<close>)

lemma keeps_dispatch: "keeps H rows A (dispatchEvents c i k old new url)"
  by (rule keepsI) (simp add: dispatchEvents_def area_within_def)

lemma within_map:
  assumes "area_within H rows d0 A (a, d, posts)" and "held (sm_items (host_map H) m) \<subseteq> A"
  shows "area_within H rows d0 A (a\<lparr>sa_storageMap := m\<rparr>, d, posts)"
  using assms by (simp add: area_within_def)

definition confined :: "('m, 'd) storage_host \<Rightarrow> ('d \<Rightarrow> (string \<times> string) set) \<Rightarrow> bool" where
  "confined H rows \<longleftrightarrow> map_confined (host_map H) \<and> sqlite_confined (host_sqlite H) rows"

lemma confinedD: "confined H rows \<Longrightarrow> map_confined (host_map H)" "confined H rows \<Longrightarrow> sqlite_confined (host_sqlite H) rows"
  by (simp_all add: confined_def)

lemma keeps_setItem:
  assumes confined: "confined H rows" and "(k, v) \<in> A"
  shows "keeps H rows A (\<lambda>s. snd (area_setItem (host_env H) c i k v url s))"
proof (rule keepsI)
  fix d0 a d posts
  assume within: "area_within H rows d0 A (a, d, posts)"
  obtain a1 d1 posts1 where opened: "openDatabaseAndImportItemsIfNeeded (host_env H) (a, d, posts) = (a1, d1, posts1)"
    by (cases "openDatabaseAndImportItemsIfNeeded (host_env H) (a, d, posts)")
  note w1 = keepsD [OF keeps_open [OF confinedD [OF confined]] within, unfolded opened fst_conv]
  obtain m old full where set: "sm_setItem (host_map H) (sa_storageMap a1) k (Some v) = (m, old, full)"
    by (cases "sm_setItem (host_map H) (sa_storageMap a1) k (Some v)")
  have "held (sm_items (host_map H) m) \<subseteq> A"
    using map_confinedD(2) [OF confinedD(1) [OF confined], of "sa_storageMap a1" k v] set w1(1) assms(2) by (auto simp: area_within_def)
  note w2 = within_map [OF w1(1) this]
  have "keeps H rows A (\<lambda>s. dispatchEvents c i (Some k) old (Some v) url (area_database (db_setItem k (Some v)) s))"
    by (rule keeps_comp [OF keeps_area_database keeps_dispatch]) (use assms(2) in \<open>auto intro: db_changes_within(1)\<close>)
  note w3 = keepsD [OF this w2]
  show "area_within H rows d0 A (snd (area_setItem (host_env H) c i k v url (a, d, posts))) \<and>
      same_area a (fst (snd (area_setItem (host_env H) c i k v url (a, d, posts))))"
    using w1(2) w2 w3 opened set by (auto simp: area_setItem_def same_area_def Let_def)
qed

lemma keeps_removeItem:
  assumes confined: "confined H rows"
  shows "keeps H rows A (area_removeItem (host_env H) c i k url)"
proof (rule keepsI)
  fix d0 a d posts
  assume within: "area_within H rows d0 A (a, d, posts)"
  obtain a1 d1 posts1 where opened: "openDatabaseAndImportItemsIfNeeded (host_env H) (a, d, posts) = (a1, d1, posts1)"
    by (cases "openDatabaseAndImportItemsIfNeeded (host_env H) (a, d, posts)")
  note w1 = keepsD [OF keeps_open [OF confinedD [OF confined]] within, unfolded opened fst_conv]
  obtain m old where remove: "sm_removeItem (host_map H) (sa_storageMap a1) k = (m, old)"
    by (cases "sm_removeItem (host_map H) (sa_storageMap a1) k")
  have "held (sm_items (host_map H) m) \<subseteq> A"
    using map_confinedD(3) [OF confinedD(1) [OF confined], of "sa_storageMap a1" k] remove w1(1) by (auto simp: area_within_def)
  note w2 = within_map [OF w1(1) this]
  have "keeps H rows A (\<lambda>s. dispatchEvents c i (Some k) old None url (area_database (db_removeItem k) s))"
    by (rule keeps_comp [OF keeps_area_database keeps_dispatch]) (rule db_changes_within(2))
  note w3 = keepsD [OF this w2]
  show "area_within H rows d0 A (area_removeItem (host_env H) c i k url (a, d, posts)) \<and>
      same_area a (fst (area_removeItem (host_env H) c i k url (a, d, posts)))"
    using w1(2) w2 w3 opened remove by (auto simp: area_removeItem_def same_area_def Let_def)
qed

lemma keeps_clear:
  assumes confined: "confined H rows"
  shows "keeps H rows A (area_clear (host_env H) c i url)"
proof (rule keepsI)
  fix d0 a d posts
  assume within: "area_within H rows d0 A (a, d, posts)"
  obtain a1 d1 posts1 where opened: "openDatabaseAndImportItemsIfNeeded (host_env H) (a, d, posts) = (a1, d1, posts1)"
    by (cases "openDatabaseAndImportItemsIfNeeded (host_env H) (a, d, posts)")
  note w1 = keepsD [OF keeps_open [OF confinedD [OF confined]] within, unfolded opened fst_conv]
  have w2: "area_within H rows d0 A (a1\<lparr>sa_storageMap := StorageMap_create (host_map H) (sa_quotaInBytes a1)\<rparr>, d1, posts1)"
    by (rule within_map [OF w1(1)]) (simp add: map_confinedD(1) [OF confinedD(1) [OF confined]])
  have "keeps H rows A (\<lambda>s. dispatchEvents c i None None None url (area_database db_clear s))"
    by (rule keeps_comp [OF keeps_area_database keeps_dispatch]) (rule db_changes_within(3))
  note w3 = keepsD [OF this w2]
  show "area_within H rows d0 A (area_clear (host_env H) c i url (a, d, posts)) \<and>
      same_area a (fst (area_clear (host_env H) c i url (a, d, posts)))"
    using w1 w3 opened by (auto simp: area_clear_def same_area_def Let_def)
qed

lemma keeps_items:
  assumes confined: "confined H rows"
  shows "keeps H rows A (\<lambda>s. snd (area_items (host_env H) s))"
proof -
  have "snd (area_items (host_env H) s) = openDatabaseAndImportItemsIfNeeded (host_env H) s" for s
    by (simp add: area_items_def split: prod.split)
  then show ?thesis using keeps_open [OF confinedD [OF confined], of A] by simp
qed

lemma items_within:
  assumes confined: "confined H rows" and "area_within H rows d0 A s"
  shows "held (fst (area_items (host_env H) s)) \<subseteq> A"
  using keepsD(1) [OF keeps_open [OF confinedD [OF confined]] assms(2)]
  by (auto simp: area_items_def area_within_def split: prod.splits)

lemma keeps_reset:
  assumes confined: "confined H rows"
  shows "keeps H rows A (area_reset (host_env H))"
proof (rule keepsI)
  fix d0 a d posts
  assume within: "area_within H rows d0 A (a, d, posts)"
  show "area_within H rows d0 A (area_reset (host_env H) (a, d, posts)) \<and>
      same_area a (fst (area_reset (host_env H) (a, d, posts)))"
  proof (cases "sa_database a")
    case (Some db)
    have "db_within rows (area_file H a) d0 A (db_close (host_sqlite H) (db, d))"
      by (rule db_close_within [OF confinedD(2) [OF confined]]) (use within Some in \<open>simp add: area_within_def\<close>)
    from db_within_file [of rows "area_file H a" d0 A "fst (db_close (host_sqlite H) (db, d))" "snd (db_close (host_sqlite H) (db, d))"] this
    show ?thesis
      using within Some map_confinedD(1) [OF confinedD(1) [OF confined]] by (auto simp: area_reset_def area_within_def same_area_def)
  qed (use within map_confinedD(1) [OF confinedD(1) [OF confined]] in \<open>auto simp: area_reset_def area_within_def same_area_def\<close>)
qed

lemma keeps_addListener:
  assumes confined: "confined H rows"
  shows "keeps H rows A (addListener (host_env H) c)"
proof -
  let ?open = "\<lambda>s. if sa_eventListeners (fst s) = [] \<and> \<not> isEphemeral (fst s)
    then openDatabaseAndImportItemsIfNeeded (host_env H) s else s"
  have "addListener (host_env H) c s =
      ((fst (?open s))\<lparr>sa_eventListeners := List.insert c (sa_eventListeners (fst (?open s)))\<rparr>, snd (?open s))" for s
    by (simp add: addListener_def split_beta)
  then have "addListener (host_env H) c = (\<lambda>s. (\<lambda>s. ((fst s)\<lparr>sa_eventListeners := List.insert c (sa_eventListeners (fst s))\<rparr>, snd s)) (?open s))"
    by (rule ext)
  moreover have "keeps H rows A ?open" by (rule keeps_if [OF keeps_open [OF confinedD [OF confined]] keeps_id])
  ultimately show ?thesis using keeps_comp [OF _ keeps_listeners] by (simp only:)
qed

lemma keeps_removeListener:
  assumes confined: "confined H rows"
  shows "keeps H rows A (\<lambda>s. snd (removeListener (host_env H) c s))"
proof -
  let ?drop = "\<lambda>s. ((fst s)\<lparr>sa_eventListeners := removeAll c (sa_eventListeners (fst s))\<rparr>, snd s)"
  have "(\<lambda>s. snd (removeListener (host_env H) c s)) = (\<lambda>s.
      (\<lambda>s. if sa_eventListeners (fst s) \<noteq> [] \<or> sa_tracker (fst s) = None then s else area_syncToDatabase (host_env H) s) (?drop s))"
    by (rule ext) (simp add: removeListener_def Let_def split: prod.split)
  then show ?thesis
    by (simp only:) (rule keeps_comp [OF keeps_listeners keeps_if [OF keeps_id keeps_database_step(1) [OF confinedD(2) [OF confined]]]])
qed

lemma serve_within:
  assumes confined: "confined H rows" and "area_within H rows d0 A s"
    and "\<And>i j seed k v url. message = SetItem i j seed k v url \<Longrightarrow> (k, v) \<in> A"
  shows "area_within H rows d0 A (fst (serve (host_env H) c message s)) \<and> same_area (fst s) (fst (fst (serve (host_env H) c message s)))"
proof (cases message)
  case (SetItem i j seed k v url)
  note * = keepsD [OF keeps_setItem [OF confined assms(3) [OF SetItem]] assms(2)]
  show ?thesis
    using * [of c j url] SetItem by (simp add: set_setItem_def split_beta)
next
  case (RemoveItem i j seed k url)
  then show ?thesis using keepsD [OF keeps_removeItem [OF confined] assms(2)] by (simp add: set_removeItem_def)
next
  case (Clear i j seed url)
  then show ?thesis using keepsD [OF keeps_clear [OF confined] assms(2)] by (simp add: set_clear_def)
next
  case (DisconnectFromStorageArea i)
  then show ?thesis using keepsD [OF keeps_removeListener [OF confined] assms(2)] by simp
qed

subsection \<open>The store\<close>

text \<open>
  Every identifier belongs to a session and an origin, and is kept in a file or not. Items kept in files may be
  those allowed for the origin, other items those allowed for the session and the origin.
\<close>

type_synonym owners = "area_ref \<Rightarrow> u64 \<times> string \<times> bool"

record allowance =
  in_files :: "string \<Rightarrow> (string \<times> string) set"
  in_memory :: "u64 \<Rightarrow> string \<Rightarrow> (string \<times> string) set"

definition allowed :: "allowance \<Rightarrow> u64 \<times> string \<times> bool \<Rightarrow> (string \<times> string) set" where
  "allowed L x = (case x of (sessionID, origin, isKept) \<Rightarrow> if isKept then in_files L origin else in_memory L sessionID origin)"

definition area_conf :: "('m, 'd) storage_host \<Rightarrow> (string \<times> string) set \<Rightarrow> 'm storage_area \<Rightarrow> bool" where
  "area_conf H A a \<longleftrightarrow> held (sm_items (host_map H) (sa_storageMap a)) \<subseteq> A \<and> (sa_tracker a = None \<longrightarrow> sa_database a = None) \<and>
     (\<forall>db. sa_database a = Some db \<longrightarrow> db_databasePath db = area_file H a \<and> held (db_changedItems db) \<subseteq> A \<and>
        (wtf_isEmpty (area_file H a) \<longrightarrow> \<not> db_isOpen db))"

lemma area_within_conf:
  "area_within H rows d0 A (a, d, posts) \<longleftrightarrow> area_conf H A a \<and> file_within rows (area_file H a) d0 A d"
  by (auto simp: area_within_def area_conf_def db_within_def file_within_def split: if_splits)

text \<open>Files of different origins are different files.\<close>

definition paths_apart :: "('m, 'd) storage_host \<Rightarrow> bool" where
  "paths_apart H \<longleftrightarrow> (\<forall>directory directory' origin origin'.
     databasePath H directory origin = databasePath H directory' origin' \<and> \<not> wtf_isEmpty (databasePath H directory origin) \<longrightarrow>
       origin = origin')"

definition files_ok :: "('m, 'd) storage_host \<Rightarrow> ('d \<Rightarrow> (string \<times> string) set) \<Rightarrow> allowance \<Rightarrow> 'd files \<Rightarrow> bool" where
  "files_ok H rows L files \<longleftrightarrow> (\<forall>directory origin. \<not> wtf_isEmpty (databasePath H directory origin) \<longrightarrow>
     rows (files (databasePath H directory origin)) \<subseteq> in_files L origin)"

definition area_ok :: "('m, 'd) storage_host \<Rightarrow> owners \<Rightarrow> allowance \<Rightarrow> area_ref \<Rightarrow> 'm storage_area \<Rightarrow> bool" where
  "area_ok H owner L i a \<longleftrightarrow> fst (snd (owner i)) = sa_securityOrigin a \<and> (snd (snd (owner i)) \<longleftrightarrow> sa_tracker a \<noteq> None) \<and>
     area_conf H (allowed L (owner i)) a"

definition store_ok ::
    "('m, 'd) storage_host \<Rightarrow> ('d \<Rightarrow> (string \<times> string) set) \<Rightarrow> owners \<Rightarrow> allowance \<Rightarrow> ('m, 'd) area_store \<Rightarrow> bool" where
  "store_ok H rows owner L st \<longleftrightarrow> files_ok H rows L (st_files st) \<and>
     (\<forall>i a. map_of (st_areas st) i = Some a \<longrightarrow> i \<le> st_generated st \<and> area_ok H owner L i a)"

lemma store_okD:
  assumes "store_ok H rows owner L st"
  shows "files_ok H rows L (st_files st)" "map_of (st_areas st) i = Some a \<Longrightarrow> i \<le> st_generated st"
    "map_of (st_areas st) i = Some a \<Longrightarrow> area_ok H owner L i a"
  using assms by (auto simp: store_ok_def)

lemma area_ok_same: "area_ok H owner L i a \<Longrightarrow> same_area a a' \<Longrightarrow> area_conf H (allowed L (owner i)) a' \<Longrightarrow> area_ok H owner L i a'"
  by (simp add: area_ok_def same_area_def)

text \<open>An area that is kept may hold exactly what its file may hold.\<close>

lemma area_ok_file:
  assumes "files_ok H rows L files" and "area_ok H owner L i a"
  shows "file_within rows (area_file H a) (files (area_file H a)) (allowed L (owner i)) (files (area_file H a))"
proof (cases "sa_tracker a")
  case (Some directory)
  moreover from this obtain sessionID where "owner i = (sessionID, sa_securityOrigin a, True)"
    using assms(2) by (cases "owner i") (auto simp: area_ok_def)
  ultimately show ?thesis
    using assms(1) by (simp add: file_within_def files_ok_def allowed_def area_file_def)
qed (simp add: file_within_def area_file_def wtf_isEmpty_def)

lemma files_ok_write:
  assumes "paths_apart H" and "files_ok H rows L files" and "area_ok H owner L i a"
    and "file_within rows (area_file H a) (files (area_file H a)) (allowed L (owner i)) d"
  shows "files_ok H rows L (files(area_file H a := d))"
proof (cases "wtf_isEmpty (area_file H a)")
  case True
  then have "d = files (area_file H a)" using assms(4) by (simp add: file_within_def)
  then show ?thesis using assms(2) by simp
next
  case False
  then obtain directory where tracker: "sa_tracker a = Some directory"
    by (auto simp: area_file_def wtf_isEmpty_def split: option.splits)
  have rows: "rows d \<subseteq> in_files L (sa_securityOrigin a)"
    using assms(3,4) False tracker by (auto simp: file_within_def area_ok_def allowed_def split: prod.splits)
  show ?thesis
    unfolding files_ok_def
  proof (intro allI impI)
    fix directory' origin
    assume nonempty: "\<not> wtf_isEmpty (databasePath H directory' origin)"
    have "origin = sa_securityOrigin a" if "databasePath H directory' origin = area_file H a"
      using assms(1) nonempty that tracker unfolding paths_apart_def area_file_def by fastforce
    then show "rows ((files(area_file H a := d)) (databasePath H directory' origin)) \<subseteq> in_files L origin"
      using rows assms(2) nonempty by (auto simp: files_ok_def)
  qed
qed

lemma withArea_ok:
  assumes "paths_apart H" and "store_ok H rows owner L st" and "keeps H rows (allowed L (owner i)) (\<lambda>s. snd (f s))"
    and "withArea H f i st = (r, st')"
  shows "store_ok H rows owner L st' \<and> st_generated st' = st_generated st"
proof (cases "map_of (st_areas st) i")
  case None
  then show ?thesis using assms(2,4) by (simp add: withArea_def)
next
  case (Some a)
  let ?p = "area_file H a" and ?A = "allowed L (owner i)"
  obtain x a' d posts where f: "f (a, st_files st ?p, st_posts st) = (x, a', d, posts)"
    by (cases "f (a, st_files st ?p, st_posts st)")
  note ok = store_okD(3) [OF assms(2) Some] and files = store_okD(1) [OF assms(2)]
  have "area_within H rows (st_files st ?p) ?A (a, st_files st ?p, st_posts st)"
    using ok area_ok_file [OF files ok] by (simp add: area_within_conf area_ok_def)
  note * = keepsD [OF assms(3) this, unfolded f snd_conv fst_conv]
  have "area_ok H owner L i a'" "area_file H a' = ?p"
    using * area_ok_same [OF ok] same_area_file by (auto simp: area_within_conf)
  moreover have "files_ok H rows L ((st_files st)(?p := d))"
    by (rule files_ok_write [OF assms(1) files ok]) (use * calculation(2) in \<open>simp add: area_within_conf\<close>)
  ultimately show ?thesis
    using assms(2,4) Some f by (auto simp: withArea_def store_ok_def update_conv' split: if_splits)
qed

lemma changeArea_ok:
  assumes "paths_apart H" and "store_ok H rows owner L st" and "keeps H rows (allowed L (owner i)) f"
  shows "store_ok H rows owner L (changeArea H f i st) \<and> st_generated (changeArea H f i st) = st_generated st"
  unfolding changeArea_def
  by (rule withArea_ok [OF assms(1,2) _ prod.collapse [symmetric]]) (use assms(3) in simp)

lemma changeAreas_ok:
  assumes "paths_apart H" and "\<And>A. keeps H rows A f"
  shows "store_ok H rows owner L st \<Longrightarrow>
    store_ok H rows owner L (fold (changeArea H f) is st) \<and> st_generated (fold (changeArea H f) is st) = st_generated st"
proof (induction "is" arbitrary: st)
  case (Cons i "is")
  then show ?case using changeArea_ok [OF assms(1) Cons.prems assms(2), of i] Cons.IH [of "changeArea H f i st"] by simp
qed simp

lemma destroyArea_ok:
  assumes "confined H rows" and "paths_apart H" and "store_ok H rows owner L st"
  shows "store_ok H rows owner L (destroyArea H i st) \<and> st_generated (destroyArea H i st) = st_generated st"
proof (cases "map_of (st_areas st) i")
  case None
  then show ?thesis using assms(3) by (simp add: destroyArea_def)
next
  case (Some a)
  let ?p = "area_file H a" and ?A = "allowed L (owner i)"
  note ok = store_okD(3) [OF assms(3) Some] and files = store_okD(1) [OF assms(3)]
  have within: "area_within H rows (st_files st ?p) ?A (a, st_files st ?p, st_posts st)"
    using ok area_ok_file [OF files ok] by (simp add: area_within_conf area_ok_def)
  have "file_within rows ?p (st_files st ?p) ?A (StorageArea_dtor (host_env H) a (st_files st ?p))"
  proof (cases "sa_database a")
    case (Some db)
    have "db_within rows ?p (st_files st ?p) ?A (db_close (host_sqlite H) (db, st_files st ?p))"
      by (rule db_close_within [OF confinedD(2) [OF assms(1)]]) (use within Some in \<open>simp add: area_within_def\<close>)
    then show ?thesis
      using Some db_within_file [of rows ?p "st_files st ?p" ?A "fst (db_close (host_sqlite H) (db, st_files st ?p))"]
      by (simp add: StorageArea_dtor_def)
  qed (use within in \<open>simp add: StorageArea_dtor_def area_within_conf\<close>)
  then have "files_ok H rows L ((st_files st)(?p := StorageArea_dtor (host_env H) a (st_files st ?p)))"
    by (rule files_ok_write [OF assms(2) files ok])
  then show ?thesis
    using Some assms(3) by (auto simp: destroyArea_def store_ok_def delete_conv')
qed

lemma destroyAreas_ok:
  assumes "confined H rows" and "paths_apart H"
  shows "store_ok H rows owner L st \<Longrightarrow>
    store_ok H rows owner L (fold (destroyArea H) is st) \<and> st_generated (fold (destroyArea H) is st) = st_generated st"
proof (induction "is" arbitrary: st)
  case (Cons i "is")
  then show ?case using destroyArea_ok [OF assms Cons.prems, of i] Cons.IH [of "destroyArea H i st"] by simp
qed simp

subsection \<open>Namespaces and managers\<close>

definition grow :: "owners \<times> area_ref \<Rightarrow> owners \<times> area_ref \<Rightarrow> bool" where
  "grow x y \<longleftrightarrow> snd x \<le> snd y \<and> (\<forall>i \<le> snd x. fst y i = fst x i)"

definition ns_ok :: "owners \<times> area_ref \<Rightarrow> u64 \<Rightarrow> bool \<Rightarrow> storage_namespace \<Rightarrow> bool" where
  "ns_ok x sessionID isKept ns \<longleftrightarrow> (\<forall>e \<in> set (ns_storageAreaMap ns). fst x (snd e) = (sessionID, fst e, isKept) \<and> snd e \<le> snd x)"

definition mgr_ok :: "owners \<times> area_ref \<Rightarrow> u64 \<Rightarrow> storage_manager \<Rightarrow> bool" where
  "mgr_ok x sessionID mgr \<longleftrightarrow> (\<forall>e \<in> set (mgr_local mgr). ns_ok x sessionID (mgr_tracker mgr \<noteq> None) (snd e)) \<and>
     (\<forall>e \<in> set (mgr_transient mgr). ns_ok x sessionID False (snd e)) \<and>
     (\<forall>e \<in> set (mgr_session mgr). ns_ok x sessionID False (snd e))"

lemma grow_refl [simp]: "grow x x"
  by (simp add: grow_def)

lemma grow_trans: "grow x y \<Longrightarrow> grow y z \<Longrightarrow> grow x z"
  by (simp add: grow_def)

lemma ns_ok_grow: "ns_ok x sessionID isKept ns \<Longrightarrow> grow x y \<Longrightarrow> ns_ok y sessionID isKept ns"
  unfolding ns_ok_def
proof
  fix e
  assume "\<forall>e \<in> set (ns_storageAreaMap ns). fst x (snd e) = (sessionID, fst e, isKept) \<and> snd e \<le> snd x"
    and "grow x y" and "e \<in> set (ns_storageAreaMap ns)"
  then show "fst y (snd e) = (sessionID, fst e, isKept) \<and> snd e \<le> snd y" by (auto simp: grow_def dest!: bspec)
qed

lemma grow_new [simp]: "grow (owner, n) (owner(Suc n := x), Suc n)"
  by (simp add: grow_def)

lemma mgr_ok_grow: "mgr_ok x sessionID mgr \<Longrightarrow> grow x y \<Longrightarrow> mgr_ok y sessionID mgr"
  using ns_ok_grow unfolding mgr_ok_def by blast

lemma store_ok_grow:
  assumes "store_ok H rows owner L st" and "grow (owner, st_generated st) (owner', n)"
  shows "store_ok H rows owner' L st"
  using assms by (auto simp: store_ok_def grow_def area_ok_def)

lemma ns_ok_new [simp]:
  "ns_ok x sessionID isKept LocalStorageNamespace_new" "ns_ok x sessionID isKept TransientLocalStorageNamespace_new"
  "ns_ok x sessionID isKept (SessionStorageNamespace_new quota)"
  by (simp_all add: ns_ok_def LocalStorageNamespace_new_def TransientLocalStorageNamespace_new_def SessionStorageNamespace_new_def)

text \<open>A new area, with an empty map or with that of another area.\<close>

lemma new_area_ok:
  assumes "store_ok H rows owner L st" and "sa_securityOrigin a = origin" and "sa_tracker a \<noteq> None \<longleftrightarrow> isKept"
    and "sa_database a = None" and "held (sm_items (host_map H) (sa_storageMap a)) \<subseteq> allowed L (sessionID, origin, isKept)"
  defines "i \<equiv> st_generated st + 1"
  shows "store_ok H rows (owner(i := (sessionID, origin, isKept))) L (st\<lparr>st_areas := (i, a) # st_areas st, st_generated := i\<rparr>)"
proof -
  have "area_ok H (owner(i := (sessionID, origin, isKept))) L i a" using assms(2-5) by (auto simp: area_ok_def area_conf_def)
  moreover have "j \<le> i \<and> area_ok H (owner(i := (sessionID, origin, isKept))) L j b" if "map_of (st_areas st) j = Some b" for j b
    using store_okD(2,3) [OF assms(1) that] by (auto simp: area_ok_def i_def)
  ultimately show "store_ok H rows (owner(i := (sessionID, origin, isKept))) L (st\<lparr>st_areas := (i, a) # st_areas st, st_generated := i\<rparr>)"
    using store_okD(1) [OF assms(1)] by (simp add: store_ok_def)
qed

lemma ensureArea_ok:
  assumes "confined H rows" and "store_ok H rows owner L st" and "ns_ok (owner, st_generated st) sessionID (tracker \<noteq> None) ns"
    and "ensureArea H tracker origin (ns, st) = (i, ns', st')"
  shows "\<exists>owner'. grow (owner, st_generated st) (owner', st_generated st') \<and> store_ok H rows owner' L st' \<and>
    ns_ok (owner', st_generated st') sessionID (tracker \<noteq> None) ns' \<and> owner' i = (sessionID, origin, tracker \<noteq> None) \<and>
    i \<le> st_generated st'"
proof (cases "map_of (ns_storageAreaMap ns) origin")
  case (Some j)
  then have "owner j = (sessionID, origin, tracker \<noteq> None) \<and> j \<le> st_generated st"
    using assms(3) map_of_SomeD [OF Some] by (force simp: ns_ok_def)
  then show ?thesis using Some assms(2-4) by (intro exI [of _ owner]) (auto simp: ensureArea_def)
next
  case None
  let ?i = "st_generated st + 1"
  let ?a = "StorageArea_new (host_env H) tracker origin (ns_quotaInBytes ns) ?i"
  have results: "i = ?i" "ns' = ns\<lparr>ns_storageAreaMap := (origin, ?i) # ns_storageAreaMap ns\<rparr>"
    "st' = st\<lparr>st_areas := (?i, ?a) # st_areas st, st_generated := ?i\<rparr>"
    using assms(4) None by (auto simp: ensureArea_def createArea_def Let_def)
  have new: "store_ok H rows (owner(?i := (sessionID, origin, tracker \<noteq> None))) L st'"
    "grow (owner, st_generated st) (owner(?i := (sessionID, origin, tracker \<noteq> None)), ?i)"
    unfolding results
    by (rule new_area_ok [OF assms(2)]; simp add: StorageArea_new_def map_confinedD(1) [OF confinedD(1) [OF assms(1)]]) simp
  moreover have "ns_ok (owner(?i := (sessionID, origin, tracker \<noteq> None)), ?i) sessionID (tracker \<noteq> None) ns'"
    using ns_ok_grow [OF assms(3) new(2)] by (simp add: ns_ok_def results(2))
  ultimately show ?thesis by (intro exI [of _ "owner(?i := (sessionID, origin, tracker \<noteq> None))"]) (simp add: results)
qed

lemma cloneAreas_ok:
  assumes "confined H rows"
  shows "store_ok H rows owner L st \<Longrightarrow> ns_ok (owner, st_generated st) sessionID False ns \<Longrightarrow>
    (\<forall>e \<in> set pairs. owner (snd e) = (sessionID, fst e, False) \<and> snd e \<le> st_generated st) \<Longrightarrow>
    cloneAreas H pairs (ns, st) = (ns', st') \<Longrightarrow>
    \<exists>owner'. grow (owner, st_generated st) (owner', st_generated st') \<and> store_ok H rows owner' L st' \<and>
      ns_ok (owner', st_generated st') sessionID False ns'"
proof (induction pairs arbitrary: owner st ns)
  case (Cons pair pairs)
  let ?i = "st_generated st + 1"
  note IH = Cons.IH
  show ?case
  proof (cases "map_of (st_areas st) (snd pair)")
    case None
    then show ?thesis using IH [OF Cons.prems(1,2)] Cons.prems(3,4) by simp
  next
    case (Some a)
    have owner: "owner (snd pair) = (sessionID, fst pair, False)" using Cons.prems(3) by simp
    have a: "sa_securityOrigin a = fst pair" "held (sm_items (host_map H) (sa_storageMap a)) \<subseteq> allowed L (sessionID, fst pair, False)"
      using store_okD(3) [OF Cons.prems(1) Some] owner by (auto simp: area_ok_def area_conf_def)
    show ?thesis
    proof (cases "map_of (ns_storageAreaMap ns) (fst pair) = None")
      case True
      let ?owner = "owner(?i := (sessionID, fst pair, False))"
      let ?st = "st\<lparr>st_areas := (?i, area_clone (host_env H) ?i a) # st_areas st, st_generated := ?i\<rparr>"
      let ?ns = "ns\<lparr>ns_storageAreaMap := (fst pair, ?i) # ns_storageAreaMap ns\<rparr>"
      have new: "store_ok H rows ?owner L ?st" "grow (owner, st_generated st) (?owner, ?i)"
        by (rule new_area_ok [OF Cons.prems(1)]; use a in \<open>simp add: area_clone_def StorageArea_new_def\<close>) simp
      have ns: "ns_ok (?owner, st_generated ?st) sessionID False ?ns"
        using ns_ok_grow [OF Cons.prems(2) new(2)] by (simp add: ns_ok_def)
      have pairs: "\<forall>e \<in> set pairs. ?owner (snd e) = (sessionID, fst e, False) \<and> snd e \<le> st_generated ?st"
        using Cons.prems(3) by (auto dest: bspec)
      have "cloneAreas H pairs (?ns, ?st) = (ns', st')" using Cons.prems(4) Some True by (simp add: Let_def)
      from IH [OF new(1) ns pairs this] obtain owner' where
        "grow (?owner, st_generated ?st) (owner', st_generated st')" "store_ok H rows owner' L st'"
        "ns_ok (owner', st_generated st') sessionID False ns'" by blast
      then show ?thesis using grow_trans [OF new(2), of "(owner', st_generated st')"] by auto
    next
      case False
      let ?st = "st\<lparr>st_generated := ?i\<rparr>"
      have st: "store_ok H rows owner L ?st" using Cons.prems(1) by (auto simp: store_ok_def intro: le_SucI)
      have ns: "ns_ok (owner, st_generated ?st) sessionID False ns" using Cons.prems(2) by (auto simp: ns_ok_def intro: le_SucI)
      have pairs: "\<forall>e \<in> set pairs. owner (snd e) = (sessionID, fst e, False) \<and> snd e \<le> st_generated ?st"
        using Cons.prems(3) by (auto intro: le_SucI)
      have "cloneAreas H pairs (ns, ?st) = (ns', st')" using Cons.prems(4) Some False by (simp add: Let_def)
      from IH [OF st ns pairs this] obtain owner' where
        "grow (owner, st_generated ?st) (owner', st_generated st')" "store_ok H rows owner' L st'"
        "ns_ok (owner', st_generated st') sessionID False ns'" by blast
      moreover have "grow (owner, st_generated st) (owner, st_generated ?st)" by (simp add: grow_def)
      ultimately show ?thesis using grow_trans by blast
    qed
  qed
next
  case Nil
  then show ?case by (intro exI [of _ owner]) simp
qed

text \<open>Work on the store that leaves every area and every file with what is allowed.\<close>

definition safe :: "('m, 'd) storage_host \<Rightarrow> ('d \<Rightarrow> (string \<times> string) set) \<Rightarrow> (('m, 'd) area_store \<Rightarrow> ('m, 'd) area_store) \<Rightarrow> bool" where
  "safe H rows f \<longleftrightarrow> (\<forall>owner L st. store_ok H rows owner L st \<longrightarrow> store_ok H rows owner L (f st) \<and> st_generated (f st) = st_generated st)"

lemma safe_id: "safe H rows (\<lambda>st. st)"
  by (simp add: safe_def)

lemma safe_comp: "safe H rows f \<Longrightarrow> safe H rows g \<Longrightarrow> safe H rows (\<lambda>st. g (f st))"
  unfolding safe_def by metis

lemma safe_fold: "(\<And>x. safe H rows (f x)) \<Longrightarrow> safe H rows (fold f xs)"
proof (induction xs)
  case (Cons x xs)
  then show ?case using safe_comp [of H rows "f x" "fold f xs"] by (simp add: comp_def)
qed (simp add: safe_def id_def)

lemma safe_diag: "(\<And>x. safe H rows (f x)) \<Longrightarrow> safe H rows (\<lambda>st. f st st)"
  unfolding safe_def by blast

lemma safe_case: "safe H rows f \<Longrightarrow> (\<And>x. safe H rows (g x)) \<Longrightarrow> safe H rows (\<lambda>st. case y of None \<Rightarrow> f st | Some x \<Rightarrow> g x st)"
  by (cases y) simp_all

lemma safeD: "safe H rows f \<Longrightarrow> store_ok H rows owner L st \<Longrightarrow> store_ok H rows owner L (f st)"
  "safe H rows f \<Longrightarrow> store_ok H rows owner L st \<Longrightarrow> st_generated (f st) = st_generated st"
  unfolding safe_def by blast+

lemma safe_change: "paths_apart H \<Longrightarrow> (\<And>A. keeps H rows A f) \<Longrightarrow> safe H rows (changeArea H f i)"
  using changeArea_ok unfolding safe_def by blast

lemma safe_clear:
  assumes "confined H rows" and "paths_apart H"
  shows "safe H rows (clearStorageAreasMatchingOrigin H origin ns)" "safe H rows (clearAllStorageAreas H ns)"
    "safe H rows (destroyNamespace H ns)" "safe H rows (flushAndClose H origin ns)"
proof -
  note reset = safe_change [OF assms(2) keeps_reset [OF assms(1)]]
  show "safe H rows (clearStorageAreasMatchingOrigin H origin ns)"
    using safe_case [OF safe_id reset] by (simp add: clearStorageAreasMatchingOrigin_def [abs_def])
  show "safe H rows (clearAllStorageAreas H ns)"
    using safe_fold [OF reset] by (simp add: clearAllStorageAreas_def [abs_def])
  show "safe H rows (destroyNamespace H ns)"
    using destroyAreas_ok [OF assms] by (auto simp: safe_def destroyNamespace_def)
  note step = keeps_database_step [OF confinedD(2) [OF assms(1)]]
  show "safe H rows (flushAndClose H origin ns)"
    using safe_case [OF safe_id safe_comp [OF safe_change [OF assms(2) step(1)] safe_change [OF assms(2) step(2)]]]
    by (simp add: flushAndClose_def [abs_def])
qed

lemma safe_origins:
  assumes "confined H rows" and "paths_apart H"
  shows "safe H rows (\<lambda>st. snd (originsWithItems H is st))" "safe H rows (\<lambda>st. snd (namespacesOrigins H nss st))"
proof -
  show one: "safe H rows (\<lambda>st. snd (originsWithItems H is st))" for "is"
  proof (induction "is")
    case (Cons i "is")
    let ?f = "\<lambda>s. case area_items (host_env H) s of (values, a, s) \<Rightarrow> ((values, sa_securityOrigin a), a, s)"
    have "keeps H rows A (\<lambda>s. snd (?f s))" for A
      using keeps_items [OF assms(1), of A] by (simp add: split_beta)
    then have "safe H rows (\<lambda>st. snd (withArea H ?f i st))"
      using withArea_ok [OF assms(2) _ _ prod.collapse [symmetric], of rows _ _ _ _ ?f] unfolding safe_def by blast
    moreover have "snd (originsWithItems H (i # is) st) = snd (originsWithItems H is (snd (withArea H ?f i st)))" for st
      by (cases "fst (withArea H ?f i st)")
        (simp_all only: originsWithItems.simps, simp_all add: prod.case_eq_if)
    ultimately show ?case using safe_comp [OF _ Cons] by simp
  qed (simp add: safe_id)
  show "safe H rows (\<lambda>st. snd (namespacesOrigins H nss st))"
  proof (induction nss)
    case (Cons ns nss)
    from safe_comp [OF one Cons] show ?case by (simp add: namespace_origins_def split_beta)
  qed (simp add: safe_id)
qed

lemma files_ok_delete:
  assumes "confined H rows" and "files_ok H rows L files"
  shows "files_ok H rows L (files(path := deleteDatabaseFile (host_sqlite H) (files path)))"
  using assms sqlite_confinedD(7) [OF confinedD(2) [OF assms(1)], of "files path"] by (fastforce simp: files_ok_def)

lemma safe_delete:
  assumes "confined H rows"
  shows "safe H rows (deleteDatabaseOf H directory origin)"
  using files_ok_delete [OF assms]
  by (auto simp: safe_def deleteDatabaseOf_def store_ok_def tracker_deleteDatabaseWithOrigin_def deleteDatabaseWithOrigin_def Let_def)

lemma manager_safe:
  assumes "confined H rows" and "paths_apart H"
  shows "safe H rows (\<lambda>st. snd (getSessionStorageOriginsCrossThreadCopy H (mgr, st)))"
    "safe H rows (\<lambda>st. deleteSessionStorageOrigins H (mgr, st))"
    "safe H rows (\<lambda>st. deleteSessionStorageEntriesForOrigins H origins (mgr, st))"
    "safe H rows (\<lambda>st. snd (getLocalStorageOriginsCrossThreadCopy H (mgr, st)))"
    "safe H rows (\<lambda>st. deleteLocalStorageOriginsModifiedSince H time (mgr, st))"
    "safe H rows (\<lambda>st. deleteLocalStorageEntriesForOrigins H origins (mgr, st))"
    "safe H rows (\<lambda>st. snd (clearStorageNamespaces H (mgr, st)))"
proof -
  note clear = safe_clear [OF assms] and origins = safe_origins [OF assms] and delete = safe_delete [OF assms(1)]
  show "safe H rows (\<lambda>st. snd (getSessionStorageOriginsCrossThreadCopy H (mgr, st)))"
    using origins(2) by (simp add: getSessionStorageOriginsCrossThreadCopy_def split_beta)
  show "safe H rows (\<lambda>st. deleteSessionStorageOrigins H (mgr, st))"
    using safe_fold [OF clear(2)] by (simp add: deleteSessionStorageOrigins_def)
  show "safe H rows (\<lambda>st. deleteSessionStorageEntriesForOrigins H origins (mgr, st))"
    using safe_fold [OF safe_fold [OF clear(1)]] by (simp add: deleteSessionStorageEntriesForOrigins_def)
  show "safe H rows (\<lambda>st. snd (getLocalStorageOriginsCrossThreadCopy H (mgr, st)))"
    using origins(2) safe_comp [OF origins(2) origins(2)]
    by (cases "mgr_tracker mgr") (simp_all add: getLocalStorageOriginsCrossThreadCopy_def split_beta)
  have "safe H rows (\<lambda>st. fold (\<lambda>origin st. deleteDatabaseOf H directory origin
      (fold (clearStorageAreasMatchingOrigin H origin) (map snd (mgr_local mgr)) st))
        (databasesModifiedSince H directory time (st_files st))
        (fold (clearAllStorageAreas H) (map snd (mgr_transient mgr)) st))" for directory
    by (rule safe_diag) (rule safe_comp [OF safe_fold [OF clear(2)] safe_fold [OF safe_comp [OF safe_fold [OF clear(1)] delete]]])
  then show "safe H rows (\<lambda>st. deleteLocalStorageOriginsModifiedSince H time (mgr, st))"
    using safe_fold [OF clear(2)]
    by (cases "mgr_tracker mgr") (simp_all add: deleteLocalStorageOriginsModifiedSince_def Let_def)
  show "safe H rows (\<lambda>st. deleteLocalStorageEntriesForOrigins H origins (mgr, st))"
    using safe_fold [OF safe_comp [OF safe_comp [OF safe_fold [OF clear(1)] safe_fold [OF clear(1)]] safe_case [OF safe_id delete]]]
    by (simp add: deleteLocalStorageEntriesForOrigins_def Let_def)
  show "safe H rows (\<lambda>st. snd (clearStorageNamespaces H (mgr, st)))"
    using safe_fold [OF clear(3)] by (simp add: clearStorageNamespaces_def del: fold_append fold_simps)
qed

lemma ensure_all:
  assumes "ensure k v xs = (v', xs')" and "P v" and "\<forall>e \<in> set xs. P (snd e)"
  shows "P v' \<and> (\<forall>e \<in> set xs'. P (snd e))"
proof (cases "map_of xs k")
  case (Some w)
  then show ?thesis using assms map_of_SomeD [OF Some] by (auto simp: ensure_def)
qed (use assms in \<open>auto simp: ensure_def\<close>)

lemma update_all: "P v \<Longrightarrow> \<forall>e \<in> set xs. P (snd e) \<Longrightarrow> \<forall>e \<in> set (AList.update k v xs). P (snd e)"
  using set_AList_update [of k v xs] by auto

text \<open>The area that a session asks for belongs to the session and the origin.\<close>

definition created_ok ::
    "('m, 'd) storage_host \<Rightarrow> ('d \<Rightarrow> (string \<times> string) set) \<Rightarrow> u64 \<Rightarrow> string \<Rightarrow>
     (('m, 'd) manager_state \<Rightarrow> area_ref option \<times> ('m, 'd) manager_state) \<Rightarrow> bool" where
  "created_ok H rows sessionID origin create \<longleftrightarrow> (\<forall>owner L mgr st r mgr' st'.
     store_ok H rows owner L st \<and> mgr_ok (owner, st_generated st) sessionID mgr \<and> create (mgr, st) = (r, mgr', st') \<longrightarrow>
     (\<exists>owner'. grow (owner, st_generated st) (owner', st_generated st') \<and> store_ok H rows owner' L st' \<and>
        mgr_ok (owner', st_generated st') sessionID mgr' \<and>
        (\<forall>i. r = Some i \<longrightarrow> (\<exists>isKept. owner' i = (sessionID, origin, isKept)) \<and> i \<le> st_generated st')))"

lemma ensureArea_in_ok:
  assumes "confined H rows" and "store_ok H rows owner L st" and "ensure n new nss0 = (ns, nss)"
    and "ns_ok (owner, st_generated st) sessionID (tracker \<noteq> None) new"
    and "\<forall>e \<in> set nss0. ns_ok (owner, st_generated st) sessionID (tracker \<noteq> None) (snd e)"
    and "ensureArea H tracker origin (ns, st) = (i, ns', st')"
  obtains owner' where "grow (owner, st_generated st) (owner', st_generated st')" "store_ok H rows owner' L st'"
    "\<forall>e \<in> set (AList.update n ns' nss). ns_ok (owner', st_generated st') sessionID (tracker \<noteq> None) (snd e)"
    "owner' i = (sessionID, origin, tracker \<noteq> None)" "i \<le> st_generated st'"
proof -
  let ?x = "(owner, st_generated st)"
  have all: "ns_ok ?x sessionID (tracker \<noteq> None) ns \<and> (\<forall>e \<in> set nss. ns_ok ?x sessionID (tracker \<noteq> None) (snd e))"
    by (rule ensure_all [OF assms(3-5)])
  obtain owner' where owner': "grow ?x (owner', st_generated st')" "store_ok H rows owner' L st'"
    "ns_ok (owner', st_generated st') sessionID (tracker \<noteq> None) ns'"
    "owner' i = (sessionID, origin, tracker \<noteq> None)" "i \<le> st_generated st'"
    using ensureArea_ok [OF assms(1,2) conjunct1 [OF all] assms(6)] by blast
  have "\<forall>e \<in> set (AList.update n ns' nss). ns_ok (owner', st_generated st') sessionID (tracker \<noteq> None) (snd e)"
    by (rule update_all) (use owner'(3) all ns_ok_grow [OF _ owner'(1)] in blast)+
  then show ?thesis using that owner' by blast
qed

lemma created_okI:
  assumes "\<And>owner L mgr st r mgr' st'. store_ok H rows owner L st \<Longrightarrow> mgr_ok (owner, st_generated st) sessionID mgr \<Longrightarrow>
    create (mgr, st) = (r, mgr', st') \<Longrightarrow> mgr' = mgr \<and> st' = st \<and> r = None \<or>
    (\<exists>owner' i isKept. grow (owner, st_generated st) (owner', st_generated st') \<and> store_ok H rows owner' L st' \<and>
        mgr_ok (owner', st_generated st') sessionID mgr' \<and> r = Some i \<and> owner' i = (sessionID, origin, isKept) \<and>
        i \<le> st_generated st')"
  shows "created_ok H rows sessionID origin create"
  unfolding created_ok_def
proof (intro allI impI, elim conjE)
  fix owner L mgr st r mgr' st'
  assume *: "store_ok H rows owner L st" "mgr_ok (owner, st_generated st) sessionID mgr" "create (mgr, st) = (r, mgr', st')"
  from assms [OF *] show "\<exists>owner'. grow (owner, st_generated st) (owner', st_generated st') \<and> store_ok H rows owner' L st' \<and>
      mgr_ok (owner', st_generated st') sessionID mgr' \<and>
      (\<forall>i. r = Some i \<longrightarrow> (\<exists>isKept. owner' i = (sessionID, origin, isKept)) \<and> i \<le> st_generated st')"
    using * by (elim disjE exE conjE) (fastforce intro: exI [of _ owner])+
qed

lemma createLocal_ok:
  assumes "confined H rows"
  shows "created_ok H rows sessionID origin (createLocalStorageArea H n origin)"
proof (rule created_okI)
  fix owner L mgr st r mgr' st'
  assume st: "store_ok H rows owner L st" and mgr: "mgr_ok (owner, st_generated st) sessionID mgr"
    and create: "createLocalStorageArea H n origin (mgr, st) = (r, mgr', st')"
  show "mgr' = mgr \<and> st' = st \<and> r = None \<or>
    (\<exists>owner' i isKept. grow (owner, st_generated st) (owner', st_generated st') \<and> store_ok H rows owner' L st' \<and>
        mgr_ok (owner', st_generated st') sessionID mgr' \<and> r = Some i \<and> owner' i = (sessionID, origin, isKept) \<and>
        i \<le> st_generated st')"
  proof (cases "isValidNamespaceKey H n")
    case True
    obtain ns nss where ns: "ensure n LocalStorageNamespace_new (mgr_local mgr) = (ns, nss)"
      by (cases "ensure n LocalStorageNamespace_new (mgr_local mgr)")
    obtain i ns' st1 where area: "ensureArea H (mgr_tracker mgr) origin (ns, st) = (i, ns', st1)"
      by (cases "ensureArea H (mgr_tracker mgr) origin (ns, st)")
    have results: "r = Some i" "st' = st1" "mgr' = mgr\<lparr>mgr_local := AList.update n ns' nss\<rparr>"
      using create ns area True by (auto simp: createLocalStorageArea_def getOrCreateLocalStorageNamespace_def local_getOrCreateStorageArea_def)
    obtain owner' where owner': "grow (owner, st_generated st) (owner', st_generated st1)" "store_ok H rows owner' L st1"
      "\<forall>e \<in> set (AList.update n ns' nss). ns_ok (owner', st_generated st1) sessionID ((mgr_tracker mgr) \<noteq> None) (snd e)"
      "owner' i = (sessionID, origin, (mgr_tracker mgr) \<noteq> None)" "i \<le> st_generated st1"
      by (rule ensureArea_in_ok [OF assms st ns _ _ area, of sessionID]) (use mgr in \<open>simp_all add: mgr_ok_def\<close>)
    then have "mgr_ok (owner', st_generated st1) sessionID mgr'"
      using mgr_ok_grow [OF mgr owner'(1)] by (simp add: mgr_ok_def results(3))
    then show ?thesis using owner' results by blast
  qed (use create in \<open>auto simp: createLocalStorageArea_def getOrCreateLocalStorageNamespace_def local_getOrCreateStorageArea_def\<close>)
qed

lemma createTransient_ok:
  assumes "confined H rows"
  shows "created_ok H rows sessionID origin (createTransientLocalStorageArea H n topLevel origin)"
proof (rule created_okI)
  fix owner L mgr st r mgr' st'
  assume st: "store_ok H rows owner L st" and mgr: "mgr_ok (owner, st_generated st) sessionID mgr"
    and create: "createTransientLocalStorageArea H n topLevel origin (mgr, st) = (r, mgr', st')"
  show "mgr' = mgr \<and> st' = st \<and> r = None \<or>
    (\<exists>owner' i isKept. grow (owner, st_generated st) (owner', st_generated st') \<and> store_ok H rows owner' L st' \<and>
        mgr_ok (owner', st_generated st') sessionID mgr' \<and> r = Some i \<and> owner' i = (sessionID, origin, isKept) \<and>
        i \<le> st_generated st')"
  proof (cases "isValidTransientKey H (n, topLevel)")
    case True
    obtain ns nss where ns: "ensure (n, topLevel) TransientLocalStorageNamespace_new (mgr_transient mgr) = (ns, nss)"
      by (cases "ensure (n, topLevel) TransientLocalStorageNamespace_new (mgr_transient mgr)")
    obtain i ns' st1 where area: "ensureArea H None origin (ns, st) = (i, ns', st1)"
      by (cases "ensureArea H None origin (ns, st)")
    have results: "r = Some i" "st' = st1" "mgr' = mgr\<lparr>mgr_transient := AList.update (n, topLevel) ns' nss\<rparr>"
      using create ns area True by (auto simp: createTransientLocalStorageArea_def getOrCreateTransientLocalStorageNamespace_def
          transient_getOrCreateStorageArea_def)
    obtain owner' where owner': "grow (owner, st_generated st) (owner', st_generated st1)" "store_ok H rows owner' L st1"
      "\<forall>e \<in> set (AList.update (n, topLevel) ns' nss). ns_ok (owner', st_generated st1) sessionID (None \<noteq> None) (snd e)"
      "owner' i = (sessionID, origin, None \<noteq> None)" "i \<le> st_generated st1"
      by (rule ensureArea_in_ok [OF assms st ns _ _ area, of sessionID]) (use mgr in \<open>simp_all add: mgr_ok_def\<close>)
    then have "mgr_ok (owner', st_generated st1) sessionID mgr'"
      using mgr_ok_grow [OF mgr owner'(1)] by (simp add: mgr_ok_def results(3))
    then show ?thesis using owner' results by blast
  qed (use create in \<open>auto simp: createTransientLocalStorageArea_def getOrCreateTransientLocalStorageNamespace_def
          transient_getOrCreateStorageArea_def\<close>)
qed

lemma createSession_ok:
  assumes "confined H rows"
  shows "created_ok H rows sessionID origin (createSessionStorageArea H n origin)"
proof (rule created_okI)
  fix owner L mgr st r mgr' st'
  assume st: "store_ok H rows owner L st" and mgr: "mgr_ok (owner, st_generated st) sessionID mgr"
    and create: "createSessionStorageArea H n origin (mgr, st) = (r, mgr', st')"
  show "mgr' = mgr \<and> st' = st \<and> r = None \<or>
    (\<exists>owner' i isKept. grow (owner, st_generated st) (owner', st_generated st') \<and> store_ok H rows owner' L st' \<and>
        mgr_ok (owner', st_generated st') sessionID mgr' \<and> r = Some i \<and> owner' i = (sessionID, origin, isKept) \<and>
        i \<le> st_generated st')"
  proof (cases "isValidNamespaceKey H n")
    case True
    obtain ns nss where ns: "ensure n (SessionStorageNamespace_new (- 1)) (mgr_session mgr) = (ns, nss)"
      by (cases "ensure n (SessionStorageNamespace_new (- 1)) (mgr_session mgr)")
    obtain i ns' st1 where area: "ensureArea H None origin (ns, st) = (i, ns', st1)"
      by (cases "ensureArea H None origin (ns, st)")
    have results: "r = Some i" "st' = st1" "mgr' = mgr\<lparr>mgr_session := AList.update n ns' nss\<rparr>"
      using create ns area True by (auto simp: createSessionStorageArea_def getOrCreateSessionStorageNamespace_def
          session_getOrCreateStorageArea_def)
    obtain owner' where owner': "grow (owner, st_generated st) (owner', st_generated st1)" "store_ok H rows owner' L st1"
      "\<forall>e \<in> set (AList.update n ns' nss). ns_ok (owner', st_generated st1) sessionID (None \<noteq> None) (snd e)"
      "owner' i = (sessionID, origin, None \<noteq> None)" "i \<le> st_generated st1"
      by (rule ensureArea_in_ok [OF assms st ns _ _ area, of sessionID]) (use mgr in \<open>simp_all add: mgr_ok_def\<close>)
    then have "mgr_ok (owner', st_generated st1) sessionID mgr'"
      using mgr_ok_grow [OF mgr owner'(1)] by (simp add: mgr_ok_def results(3))
    then show ?thesis using owner' results by blast
  qed (use create in \<open>auto simp: createSessionStorageArea_def getOrCreateSessionStorageNamespace_def
          session_getOrCreateStorageArea_def\<close>)
qed

lemma clone_ok:
  assumes "confined H rows" and "store_ok H rows owner L st" and "mgr_ok (owner, st_generated st) sessionID mgr"
    and "mgr_cloneSessionStorageNamespace H n n' (mgr, st) = Some (mgr', st')"
  shows "\<exists>owner'. grow (owner, st_generated st) (owner', st_generated st') \<and> store_ok H rows owner' L st' \<and>
    mgr_ok (owner', st_generated st') sessionID mgr'"
proof (cases "map_of (mgr_session mgr) n = None \<or> \<not> isValidNamespaceKey H n'")
  case True
  then have "mgr' = mgr \<and> st' = st"
    using assms(4) by (auto simp: mgr_cloneSessionStorageNamespace_def getOrCreateSessionStorageNamespace_def split: option.splits if_splits)
  then show ?thesis using assms(2,3) by (intro exI [of _ owner]) simp
next
  case False
  let ?x = "(owner, st_generated st)"
  obtain ns where ns: "map_of (mgr_session mgr) n = Some ns" using False by auto
  obtain new nss where new: "ensure n' (SessionStorageNamespace_new (- 1)) (mgr_session mgr) = (new, nss)"
    by (cases "ensure n' (SessionStorageNamespace_new (- 1)) (mgr_session mgr)")
  obtain new' st1 where clone: "cloneAreas H (ns_storageAreaMap ns) (new, st) = (new', st1)"
    by (cases "cloneAreas H (ns_storageAreaMap ns) (new, st)")
  have results: "st' = st1" "mgr' = mgr\<lparr>mgr_session := AList.update n' new' nss\<rparr>"
    using assms(4) ns new clone False
    by (auto simp: mgr_cloneSessionStorageNamespace_def getOrCreateSessionStorageNamespace_def cloneTo_def)
  have all: "ns_ok ?x sessionID False new \<and> (\<forall>e \<in> set nss. ns_ok ?x sessionID False (snd e))"
    by (rule ensure_all [OF new]) (use assms(3) in \<open>simp_all add: mgr_ok_def\<close>)
  have "ns_ok ?x sessionID False ns" using assms(3) map_of_SomeD [OF ns] by (auto simp: mgr_ok_def)
  then have pairs: "\<forall>e \<in> set (ns_storageAreaMap ns). owner (snd e) = (sessionID, fst e, False) \<and> snd e \<le> st_generated st"
    by (simp add: ns_ok_def)
  obtain owner' where owner': "grow ?x (owner', st_generated st1)" "store_ok H rows owner' L st1"
    "ns_ok (owner', st_generated st1) sessionID False new'"
    using cloneAreas_ok [OF assms(1,2) conjunct1 [OF all] pairs clone] by blast
  have "\<forall>e \<in> set (AList.update n' new' nss). ns_ok (owner', st_generated st1) sessionID False (snd e)"
    by (rule update_all) (use owner'(3) all ns_ok_grow [OF _ owner'(1)] in blast)+
  then have "mgr_ok (owner', st_generated st1) sessionID mgr'"
    using mgr_ok_grow [OF assms(3) owner'(1)] by (simp add: mgr_ok_def results(2))
  then show ?thesis using owner' results by (intro exI [of _ owner']) simp
qed

subsection \<open>Isolation\<close>

type_synonym grant = "area_ref \<times> u64 \<times> string"

definition set_ok ::
    "('m, 'd) storage_host \<Rightarrow> ('d \<Rightarrow> (string \<times> string) set) \<Rightarrow> owners \<Rightarrow> allowance \<Rightarrow> grant set \<Rightarrow> ('m, 'd) storage_set \<Rightarrow> bool" where
  "set_ok H rows owner L G S \<longleftrightarrow> store_ok H rows owner L (set_store S) \<and>
     (\<forall>e \<in> set (set_managers S). mgr_ok (owner, st_generated (set_store S)) (fst e) (snd e)) \<and>
     (\<forall>g \<in> G. fst (owner (fst g)) = fst (snd g) \<and> fst (snd (owner (fst g))) = snd (snd g) \<and> fst g \<le> st_generated (set_store S)) \<and>
     (\<forall>i \<in> set (set_areas S). (i, fst (owner i), fst (snd (owner i))) \<in> G)"

lemma set_okD:
  assumes "set_ok H rows owner L G S"
  shows "store_ok H rows owner L (set_store S)"
    "(sessionID, mgr) \<in> set (set_managers S) \<Longrightarrow> mgr_ok (owner, st_generated (set_store S)) sessionID mgr"
    "i \<in> set (set_areas S) \<Longrightarrow> (i, fst (owner i), fst (snd (owner i))) \<in> G"
  using assms by (auto simp: set_ok_def)

lemma set_ok_state [simp]: "set_ok H rows owner L G (S\<lparr>set_state := state\<rparr>) = set_ok H rows owner L G S"
  by (simp add: set_ok_def)

text \<open>Work that keeps the managers, or takes from them, and does what is safe on the store.\<close>

lemma set_ok_safe:
  assumes "set_ok H rows owner L G S" and "safe H rows f"
    and "set_store S' = f (set_store S)" and "set (set_areas S') \<subseteq> set (set_areas S)"
    and "\<And>e x. e \<in> set (set_managers S') \<Longrightarrow> (\<forall>e \<in> set (set_managers S). mgr_ok x (fst e) (snd e)) \<Longrightarrow> mgr_ok x (fst e) (snd e)"
  shows "set_ok H rows owner L G S'"
proof -
  note st = safeD [OF assms(2) set_okD(1) [OF assms(1)]]
  show ?thesis
    using assms(1,4) st assms(5) unfolding set_ok_def assms(3) by auto
qed

lemma set_ok_grow:
  assumes "set_ok H rows owner L G S" and "grow (owner, st_generated (set_store S)) (owner', st_generated st)"
    and "store_ok H rows owner' L st" and "mgr_ok (owner', st_generated st) sessionID mgr"
  shows "set_ok H rows owner' L G (S\<lparr>set_managers := AList.update sessionID mgr (set_managers S), set_store := st\<rparr>)"
proof -
  have "mgr_ok (owner', st_generated st) (fst e) (snd e)" if "e \<in> set (set_managers S)" for e
    using mgr_ok_grow [OF set_okD(2) [OF assms(1)] assms(2)] that by (cases e) auto
  then have "\<forall>e \<in> set (AList.update sessionID mgr (set_managers S)). mgr_ok (owner', st_generated st) (fst e) (snd e)"
    using set_AList_update [of sessionID mgr "set_managers S"] assms(4) by auto
  moreover have "fst (owner' (fst g)) = fst (snd g) \<and> fst (snd (owner' (fst g))) = snd (snd g) \<and> fst g \<le> st_generated st" if "g \<in> G" for g
    using assms(1,2) that by (auto simp: set_ok_def grow_def dest!: bspec)
  moreover have "(i, fst (owner' i), fst (snd (owner' i))) \<in> G" if "i \<in> set (set_areas S)" for i
    using calculation(2) [OF set_okD(3) [OF assms(1) that]] set_okD(3) [OF assms(1) that] by simp
  ultimately show ?thesis using assms(3) by (simp add: set_ok_def)
qed

lemma created_okD:
  assumes "created_ok H rows sessionID origin create" and "store_ok H rows owner L st"
    and "mgr_ok (owner, st_generated st) sessionID mgr" and "create (mgr, st) = (r, mgr', st')"
  obtains owner' where "grow (owner, st_generated st) (owner', st_generated st')" "store_ok H rows owner' L st'"
    "mgr_ok (owner', st_generated st') sessionID mgr'"
    "\<forall>i. r = Some i \<longrightarrow> fst (owner' i) = sessionID \<and> fst (snd (owner' i)) = origin \<and> i \<le> st_generated st'"
  using assms(1) [unfolded created_ok_def, rule_format, OF conjI [OF assms(2) conjI [OF assms(3,4)]]] that by fastforce

lemma connectTo_ok:
  assumes "confined H rows" and "paths_apart H" and "set_ok H rows owner L G S" and "created_ok H rows sessionID origin create"
    and "connectTo H c sessionID create S = (outs, S')"
  shows "\<exists>owner'. set_ok H rows owner' L (G \<union> {(i, sessionID, origin) | i. ConnectedTo c (Some i) \<in> set outs}) S'"
proof (cases "map_of (set_managers S) sessionID")
  case None
  then have "S' = S" "outs = [ConnectedTo c None]" using assms(5) by (simp_all add: connectTo_def)
  then show ?thesis using assms(3) by auto
next
  case (Some mgr)
  obtain r mgr' st' where create: "create (mgr, set_store S) = (r, mgr', st')" by (cases "create (mgr, set_store S)")
  have "mgr_ok (owner, st_generated (set_store S)) sessionID mgr"
    by (rule set_okD(2) [OF assms(3) map_of_SomeD [OF Some]])
  then obtain owner' where owner': "grow (owner, st_generated (set_store S)) (owner', st_generated st')"
    "store_ok H rows owner' L st'" "mgr_ok (owner', st_generated st') sessionID mgr'"
    "\<forall>i. r = Some i \<longrightarrow> fst (owner' i) = sessionID \<and> fst (snd (owner' i)) = origin \<and> i \<le> st_generated st'"
    by (rule created_okD [OF assms(4) set_okD(1) [OF assms(3)] _ create])
  note grown = set_ok_grow [OF assms(3) owner'(1-3)]
  show ?thesis
  proof (cases r)
    case None
    then have "S' = S\<lparr>set_managers := AList.update sessionID mgr' (set_managers S), set_store := st'\<rparr>" "outs = [ConnectedTo c None]"
      using assms(5) Some create by (simp_all add: connectTo_def)
    then show ?thesis using grown by auto
  next
    case (Some i)
    have results: "S' = S\<lparr>set_managers := AList.update sessionID mgr' (set_managers S), set_areas := List.insert i (set_areas S),
        set_store := changeArea H (addListener (host_env H) c) i st'\<rparr>" "outs = [ConnectedTo c (Some i)]"
      using assms(5) Some create \<open>map_of (set_managers S) sessionID = Some mgr\<close> by (simp_all add: connectTo_def Let_def)
    have listened: "store_ok H rows owner' L (changeArea H (addListener (host_env H) c) i st')"
      "st_generated (changeArea H (addListener (host_env H) c) i st') = st_generated st'"
      using changeArea_ok [OF assms(2) owner'(2) keeps_addListener [OF assms(1)]] by blast+
    have "{(j, sessionID, origin) | j. ConnectedTo c (Some j) \<in> set outs} = {(i, sessionID, origin)}" by (auto simp: results(2))
    moreover have "fst (owner' i) = sessionID" "fst (snd (owner' i)) = origin" "i \<le> st_generated st'" using owner'(4) Some by simp_all
    ultimately show ?thesis
      using grown listened by (intro exI [of _ owner']) (simp add: set_ok_def results(1))
  qed
qed

lemma set_removeListener_ok:
  assumes "confined H rows" and "paths_apart H" and "set_ok H rows owner L G S"
  shows "set_ok H rows owner L G (set_removeListener H c i S)"
proof -
  obtain r st where run: "withArea H (removeListener (host_env H) c) i (set_store S) = (r, st)"
    by (cases "withArea H (removeListener (host_env H) c) i (set_store S)")
  note st = withArea_ok [OF assms(2) set_okD(1) [OF assms(3)] keeps_removeListener [OF assms(1)] run]
  note destroyed = destroyArea_ok [OF assms(1,2) conjunct1 [OF st], of i]
  have ns: "ns_ok x sessionID isKept (removeStorageArea i ns)" if "ns_ok x sessionID isKept ns" for x sessionID isKept ns
    using that by (simp add: ns_ok_def removeStorageArea_def)
  have "mgr_ok x sessionID (mgr_removeStorageArea i mgr)" if "mgr_ok x sessionID mgr" for x sessionID mgr
    using that ns by (auto simp: mgr_ok_def mgr_removeStorageArea_def)
  then show ?thesis
    using assms(3) st destroyed run
    by (cases "r = Some True") (auto simp: set_removeListener_def set_ok_def split: option.split bool.split)
qed

lemma set_removeListeners_ok:
  assumes "confined H rows" and "paths_apart H"
  shows "set_ok H rows owner L G S \<Longrightarrow> set_ok H rows owner L G (fold (set_removeListener H c) is S)"
proof (induction "is" arbitrary: S)
  case (Cons i "is")
  then show ?case using set_removeListener_ok [OF assms Cons.prems] by simp
qed simp

lemma set_ok_areas: "set_ok H rows owner L G S \<Longrightarrow> set is \<subseteq> set (set_areas S) \<Longrightarrow> set_ok H rows owner L G (S\<lparr>set_areas := is\<rparr>)"
  by (auto simp: set_ok_def)

lemma forManager_ok:
  assumes "set_ok H rows owner L G S" and "forManager sessionID f S = Some (outs, S')"
    and "\<And>mgr. safe H rows (\<lambda>st. snd (f (mgr, st)))"
  shows "set_ok H rows owner L G S'"
proof -
  obtain mgr where mgr: "map_of (set_managers S) sessionID = Some mgr" "S' = S\<lparr>set_store := snd (f (mgr, set_store S))\<rparr>"
    using assms(2) by (auto simp: forManager_def split: option.splits prod.splits)
  show ?thesis by (rule set_ok_safe [OF assms(1) assms(3) [of mgr]]) (simp_all add: mgr(2))
qed

lemma serveArea_ok:
  assumes "confined H rows" and "paths_apart H" and "set_ok H rows owner L G S"
    and "\<And>j implID seed k v url. message = SetItem j implID seed k v url \<Longrightarrow> i \<in> set (set_areas S) \<Longrightarrow> (k, v) \<in> allowed L (owner i)"
    and "serveArea H c i message without S = (outs, S')"
  shows "set_ok H rows owner L G S'"
proof (cases "i \<in> set (set_areas S)")
  case True
  let ?f = "\<lambda>s. case serve (host_env H) c message s of (s, replies) \<Rightarrow> (replies, s)"
  obtain r st where run: "withArea H ?f i (set_store S) = (r, st)" by (cases "withArea H ?f i (set_store S)")
  have "keeps H rows (allowed L (owner i)) (\<lambda>s. snd (?f s))"
  proof (rule keepsI)
    fix d0 a d posts
    assume "area_within H rows d0 (allowed L (owner i)) (a, d, posts)"
    from serve_within [OF assms(1) this, of message c] assms(4) True
    show "area_within H rows d0 (allowed L (owner i)) (snd (?f (a, d, posts))) \<and> same_area a (fst (snd (?f (a, d, posts))))"
      by (simp add: split_beta)
  qed
  note st = withArea_ok [OF assms(2) set_okD(1) [OF assms(3)] this run]
  have "S' = S\<lparr>set_store := st\<rparr>" using assms(5) True run by (simp add: serveArea_def)
  then show ?thesis using assms(3) st by (simp add: set_ok_def)
qed (use assms(3,5) in \<open>simp add: serveArea_def\<close>)

text \<open>What a page asks for and is granted, and what it writes.\<close>

fun connect_request :: "storage_task \<Rightarrow> (u64 \<times> string) option" where
  "connect_request (ConnectToLocalStorageArea c sessionID ns origin) = Some (sessionID, origin)"
| "connect_request (ConnectToTransientLocalStorageArea c sessionID ns topLevelOrigin origin) = Some (sessionID, origin)"
| "connect_request (ConnectToSessionStorageArea c sessionID ns origin) = Some (sessionID, origin)"
| "connect_request task = None"

fun connected_area :: "storage_output \<Rightarrow> area_ref option" where
  "connected_area (ConnectedTo c found) = found"
| "connected_area out = None"

definition grants_of :: "storage_task \<Rightarrow> storage_output list \<Rightarrow> grant list" where
  "grants_of task outs = (case connect_request task of
     None \<Rightarrow> []
   | Some (sessionID, origin) \<Rightarrow> map (\<lambda>i. (i, sessionID, origin)) (List.map_filter connected_area outs))"

fun writes_of :: "storage_task \<Rightarrow> (area_ref \<times> string \<times> string) list" where
  "writes_of (ManagerMessage c (SetItem i implID seed key value url)) = [(i, key, value)]"
| "writes_of task = []"

fun renames :: "storage_task \<Rightarrow> bool" where
  "renames (T_renameOrigin sessionID oldName newName) = True"
| "renames task = False"

definition area_runQueuedUpdate :: "('m, 'd) storage_env \<Rightarrow> ('m, 'd) area_state \<Rightarrow> ('m, 'd) area_state" where
  "area_runQueuedUpdate E = (\<lambda>(a, d, posts). case sa_database a of
      None \<Rightarrow> (a, d, posts)
    | Some db \<Rightarrow> (case runQueuedUpdate (env_sqlite E) (db, d) of (db, d) \<Rightarrow> (a\<lparr>sa_database := Some db\<rparr>, d, posts)))"

text \<open>The work of the queue in any order, and the updates of databases that are posted to it in between.\<close>

datatype set_action = Work storage_task | UpdateDatabaseOf area_ref

fun set_run ::
    "('m, 'd) storage_host \<Rightarrow> set_action list \<Rightarrow> ('m, 'd) storage_set \<times> grant list \<times> (area_ref \<times> string \<times> string) list \<Rightarrow>
     (('m, 'd) storage_set \<times> grant list \<times> (area_ref \<times> string \<times> string) list) option" where
  "set_run H [] s = Some s"
| "set_run H (Work task # acts) (S, grants, writes) =
     (case runTask H task S of
        None \<Rightarrow> None
      | Some (outs, S) \<Rightarrow> set_run H acts (S, grants_of task outs @ grants, writes_of task @ writes))"
| "set_run H (UpdateDatabaseOf i # acts) (S, grants, writes) =
     set_run H acts (S\<lparr>set_store := changeArea H (area_runQueuedUpdate (host_env H)) i (set_store S)\<rparr>, grants, writes)"

text \<open>What pages of an origin and a session have written, and what was in the files of the origin before.\<close>

definition written ::
    "('m, 'd) storage_host \<Rightarrow> ('d \<Rightarrow> (string \<times> string) set) \<Rightarrow> 'd files \<Rightarrow> grant set \<Rightarrow> (area_ref \<times> string \<times> string) set \<Rightarrow> allowance" where
  "written H rows files G W =
     \<lparr>in_files = (\<lambda>origin. {(k, v). (\<exists>i sessionID. (i, sessionID, origin) \<in> G \<and> (i, k, v) \<in> W) \<or>
        (\<exists>directory. (k, v) \<in> rows (files (databasePath H directory origin)))}),
      in_memory = (\<lambda>sessionID origin. {(k, v). \<exists>i. (i, sessionID, origin) \<in> G \<and> (i, k, v) \<in> W})\<rparr>"

definition below :: "allowance \<Rightarrow> allowance \<Rightarrow> bool" where
  "below L L' \<longleftrightarrow> (\<forall>origin. in_files L origin \<subseteq> in_files L' origin) \<and>
     (\<forall>sessionID origin. in_memory L sessionID origin \<subseteq> in_memory L' sessionID origin)"

lemma written_mono: "G \<subseteq> G' \<Longrightarrow> W \<subseteq> W' \<Longrightarrow> below (written H rows files G W) (written H rows files G' W')"
  unfolding below_def written_def by auto

lemma area_conf_mono: "area_conf H A a \<Longrightarrow> A \<subseteq> A' \<Longrightarrow> area_conf H A' a"
  by (auto simp: area_conf_def)

lemma set_ok_mono:
  assumes "set_ok H rows owner L G S" and "below L L'"
  shows "set_ok H rows owner L' G S"
proof -
  have "allowed L x \<subseteq> allowed L' x" for x using assms(2) by (cases x) (auto simp: allowed_def below_def)
  then have "area_ok H owner L' i a" if "area_ok H owner L i a" for i a
    using that area_conf_mono [of H "allowed L (owner i)" a "allowed L' (owner i)"] unfolding area_ok_def by blast
  moreover have "files_ok H rows L' files" if "files_ok H rows L files" for files
    using that assms(2) by (fastforce simp: files_ok_def below_def)
  ultimately show ?thesis using assms(1) by (auto simp: set_ok_def store_ok_def)
qed

lemma grants_nil: "connect_request task = None \<Longrightarrow> set (grants_of task outs) = {}"
  by (simp add: grants_of_def)

lemma grants_connect:
  assumes "connect_request task = Some (sessionID, origin)" and "\<And>out. out \<in> set outs \<Longrightarrow> \<exists>found. out = ConnectedTo c found"
  shows "set (grants_of task outs) = {(i, sessionID, origin) | i. ConnectedTo c (Some i) \<in> set outs}"
proof -
  have "set (List.map_filter connected_area outs) = {i. ConnectedTo c (Some i) \<in> set outs}"
    using assms(2) by (force simp: List.map_filter_def)
  then show ?thesis using assms(1) by (auto simp: grants_of_def)
qed

lemma connectTo_outs: "connectTo H c sessionID create S = (outs, S') \<Longrightarrow> \<exists>found. outs = [ConnectedTo c found]"
  by (auto simp: connectTo_def Let_def split: option.splits prod.splits)

lemma connect_task_ok:
  assumes "confined H rows" and "paths_apart H" and "set_ok H rows owner L G S" and "created_ok H rows sessionID origin create"
    and "connect_request task = Some (sessionID, origin)" and "connectTo H c sessionID create S = (outs, S')"
  shows "\<exists>owner'. set_ok H rows owner' L (G \<union> set (grants_of task outs)) S'"
proof -
  have "set (grants_of task outs) = {(i, sessionID, origin) | i. ConnectedTo c (Some i) \<in> set outs}"
    by (rule grants_connect [OF assms(5)]) (use connectTo_outs [OF assms(6)] in auto)
  then show ?thesis using connectTo_ok [OF assms(1-4,6)] by simp
qed

lemma cloned_ok:
  assumes "confined H rows" and "set_ok H rows owner L G S" and "set_cloneSessionStorageNamespace H sessionID ns ns' S = Some S'"
  shows "\<exists>owner'. set_ok H rows owner' L G S'"
proof (cases "map_of (set_managers S) sessionID")
  case (Some mgr)
  obtain mgr' st' where clone: "mgr_cloneSessionStorageNamespace H ns ns' (mgr, set_store S) = Some (mgr', st')"
    "S' = S\<lparr>set_managers := AList.update sessionID mgr' (set_managers S), set_store := st'\<rparr>"
    using assms(3) Some by (auto simp: set_cloneSessionStorageNamespace_def)
  have "mgr_ok (owner, st_generated (set_store S)) sessionID mgr"
    by (rule set_okD(2) [OF assms(2) map_of_SomeD [OF Some]])
  from clone_ok [OF assms(1) set_okD(1) [OF assms(2)] this clone(1)]
  show ?thesis using set_ok_grow [OF assms(2)] clone(2) by blast
qed (use assms(2,3) in \<open>auto simp: set_cloneSessionStorageNamespace_def\<close>)

lemma runAdd_ok:
  assumes "confined H rows" and "set_ok H rows owner L G S"
  shows "set_ok H rows owner L G (runAdd H sessionID directory S)"
proof -
  let ?delete = "\<lambda>st. st\<lparr>st_files := LocalStorageDatabaseTracker_new H directory (st_files st)\<rparr>"
  have delete: "safe H rows ?delete"
    using files_ok_delete [OF assms(1)]
    by (auto simp: safe_def store_ok_def LocalStorageDatabaseTracker_new_def deleteDatabaseFileAt_def)
  have new: "mgr_ok x sessionID \<lparr>mgr_tracker = tracker, mgr_local = [], mgr_transient = [], mgr_session = []\<rparr>" for x tracker
    by (simp add: mgr_ok_def)
  show ?thesis
  proof (cases "map_of (set_managers S) sessionID")
    case None
    show ?thesis
      by (rule set_ok_safe [OF assms(2), of "if directory = None then (\<lambda>st. st) else ?delete"])
        (use None new delete in \<open>auto simp: safe_id runAdd_def StorageManager_new_def split: if_splits\<close>)
  qed (use assms(2) in \<open>simp add: runAdd_def\<close>)
qed

lemma runRemove_ok:
  assumes "confined H rows" and "paths_apart H" and "set_ok H rows owner L G S"
  shows "set_ok H rows owner L G (runRemove H sessionID S)"
proof (cases "map_of (set_managers S) sessionID")
  case (Some mgr)
  show ?thesis
    by (rule set_ok_safe [OF assms(3) manager_safe(7) [OF assms(1,2)]])
      (use Some in \<open>auto simp: runRemove_def AList.delete_eq\<close>)
qed (use assms(3) in \<open>simp add: runRemove_def\<close>)

lemma runFinish_ok:
  assumes "confined H rows" and "paths_apart H" and "set_ok H rows owner L G S"
  shows "set_ok H rows owner L G (runFinish H S)"
  by (rule set_ok_safe [OF assms(3) safe_fold [OF manager_safe(7) [OF assms(1,2)]]]) (simp_all add: runFinish_def)

lemma runSync_ok:
  assumes "confined H rows" and "paths_apart H" and "set_ok H rows owner L G S"
  shows "set_ok H rows owner L G (runSync H S)"
  by (rule set_ok_safe [OF assms(3) safe_fold [OF safe_change [OF assms(2) keeps_database_step(1) [OF confinedD(2) [OF assms(1)]]]]])
    (simp_all add: runSync_def)

lemma getValues_ok:
  assumes "confined H rows" and "paths_apart H" and "set_ok H rows owner L G S" and "set_getValues H c i S = (outs, S')"
  shows "set_ok H rows owner L G S'"
proof (cases "i \<in> set (set_areas S)")
  case True
  obtain r st where run: "withArea H (area_items (host_env H)) i (set_store S) = (r, st)"
    by (cases "withArea H (area_items (host_env H)) i (set_store S)")
  note st = withArea_ok [OF assms(2) set_okD(1) [OF assms(3)] keeps_items [OF assms(1)] run]
  have "S' = S\<lparr>set_store := st\<rparr>" using assms(4) True run by (simp add: set_getValues_def)
  then show ?thesis using assms(3) st by (simp add: set_ok_def)
qed (use assms(3,4) in \<open>simp add: set_getValues_def\<close>)

lemma disconnect_ok:
  assumes "confined H rows" and "paths_apart H" and "set_ok H rows owner L G S"
  shows "set_ok H rows owner L G (set_disconnectFromStorageArea H c i S)"
  using assms(3) set_removeListener_ok [OF assms, of c i]
  by (auto simp: set_disconnectFromStorageArea_def Let_def intro: set_ok_areas)

lemma message_ok:
  assumes "confined H rows" and "paths_apart H" and "set_ok H rows owner L G S"
    and "\<And>i k v. (i, k, v) \<in> set (writes_of (ManagerMessage c message)) \<Longrightarrow> i \<in> set (set_areas S) \<Longrightarrow> (k, v) \<in> allowed L (owner i)"
    and "set_didReceiveMessage H c message S = (outs, S')"
  shows "set_ok H rows owner L G S'"
proof (cases message)
  case (DisconnectFromStorageArea i)
  then show ?thesis using assms(5) disconnect_ok [OF assms(1-3), of c i] by auto
qed (rule serveArea_ok [OF assms(1-3)], use assms(4,5) in auto)+

lemma runTask_ok:
  assumes "confined H rows" and "paths_apart H" and "set_ok H rows owner L G S" and "\<not> renames task"
    and "\<And>i k v. (i, k, v) \<in> set (writes_of task) \<Longrightarrow> i \<in> set (set_areas S) \<Longrightarrow> (k, v) \<in> allowed L (owner i)"
    and "runTask H task S = Some (outs, S')"
  shows "\<exists>owner'. set_ok H rows owner' L (G \<union> set (grants_of task outs)) S'"
proof -
  note safe = manager_safe [OF assms(1,2)]
  have kept: "?thesis" if "connect_request task = None" "set_ok H rows owner L G S'"
    using that by (auto simp: grants_nil)
  have connect: "?thesis" if "connect_request task = Some (sessionID, origin)" "created_ok H rows sessionID origin create"
    "connectTo H c sessionID create S = (outs, S')" for sessionID origin create c
    using connect_task_ok [OF assms(1-3) that(2,1,3)] .
  show ?thesis
  proof (cases task)
    case (T_add sessionID directory)
    then show ?thesis using assms(6) runAdd_ok [OF assms(1,3), of sessionID directory] kept by auto
  next
    case (T_remove sessionID)
    then show ?thesis using assms(6) runRemove_ok [OF assms(1-3), of sessionID] kept by auto
  next
    case (T_removeConnection c)
    have "set_ok H rows owner L G (runRemoveConnection H c S)"
      unfolding runRemoveConnection_def Let_def
      by (rule set_ok_areas [OF set_removeListeners_ok [OF assms(1-3)]]) auto
    then show ?thesis using assms(6) T_removeConnection kept by auto
  next
    case T_finish
    then show ?thesis using assms(6) runFinish_ok [OF assms(1-3)] kept by auto
  next
    case T_sync
    then show ?thesis using assms(6) runSync_ok [OF assms(1-3)] kept by auto
  next
    case T_suspend
    then have "set_ok H rows owner L G S'" using assms(3,6) by (auto simp: runSuspend_def split: if_splits)
    then show ?thesis using T_suspend kept by simp
  next
    case (T_getSessionStorageOrigins sessionID)
    then show ?thesis
      using kept forManager_ok [OF assms(3), of sessionID _ outs S'] assms(6) safe(1) by (simp add: split_beta)
  next
    case (T_deleteSessionStorage sessionID)
    then show ?thesis
      using kept forManager_ok [OF assms(3), of sessionID _ outs S'] assms(6) safe(2) by simp
  next
    case (T_deleteSessionStorageForOrigins sessionID origins)
    then show ?thesis
      using kept forManager_ok [OF assms(3), of sessionID _ outs S'] assms(6) safe(3) by simp
  next
    case (T_getLocalStorageOrigins sessionID)
    then show ?thesis
      using kept forManager_ok [OF assms(3), of sessionID _ outs S'] assms(6) safe(4) by (simp add: split_beta)
  next
    case (T_deleteLocalStorageModifiedSince sessionID time)
    then show ?thesis
      using kept forManager_ok [OF assms(3), of sessionID _ outs S'] assms(6) safe(5) by simp
  next
    case (T_deleteLocalStorageForOrigins sessionID origins)
    then show ?thesis
      using kept forManager_ok [OF assms(3), of sessionID _ outs S'] assms(6) safe(6) by simp
  next
    case (T_getLocalStorageOriginDetails sessionID)
    then have "forManager sessionID (\<lambda>s. (OriginDetails (getLocalStorageOriginDetailsCrossThreadCopy H s), snd s)) S = Some (outs, S')"
      using assms(6) by simp
    from forManager_ok [OF assms(3) this] show ?thesis using kept T_getLocalStorageOriginDetails safe_id [of H rows] by simp
  next
    case (T_renameOrigin sessionID oldName newName)
    then show ?thesis using assms(4) by simp
  next
    case (ConnectToLocalStorageArea c sessionID ns origin)
    then show ?thesis
      using connect [OF _ createLocal_ok [OF assms(1)]] assms(6) by (simp add: connectToLocalStorageArea_def)
  next
    case (ConnectToTransientLocalStorageArea c sessionID ns topLevel origin)
    then show ?thesis
      using connect [OF _ createTransient_ok [OF assms(1)]] assms(6) by (simp add: connectToTransientLocalStorageArea_def)
  next
    case (ConnectToSessionStorageArea c sessionID ns origin)
    then show ?thesis
      using connect [OF _ createSession_ok [OF assms(1)]] assms(6) by (simp add: connectToSessionStorageArea_def)
  next
    case (GetValues c i)
    then show ?thesis using assms(6) getValues_ok [OF assms(1-3)] kept by auto
  next
    case (CloneSessionStorageNamespace sessionID ns ns')
    then obtain S'' where "outs = []" "S' = S''" "set_cloneSessionStorageNamespace H sessionID ns ns' S = Some S''"
      using assms(6) by auto
    then show ?thesis
      using CloneSessionStorageNamespace cloned_ok [OF assms(1,3), of sessionID ns ns' S''] by (auto simp: grants_nil)
  next
    case (ManagerMessage c message)
    then have "set_ok H rows owner L G S'"
      using message_ok [OF assms(1-3), of c message outs S'] assms(5,6) by auto
    then show ?thesis using ManagerMessage kept by simp
  qed
qed

lemma set_run_ok:
  assumes "confined H rows" and "paths_apart H"
  shows "set_ok H rows owner (written H rows files (set grants) (set writes)) (set grants) S \<Longrightarrow>
    \<forall>task. Work task \<in> set acts \<longrightarrow> \<not> renames task \<Longrightarrow> set_run H acts (S, grants, writes) = Some (S', grants', writes') \<Longrightarrow>
    \<exists>owner'. set_ok H rows owner' (written H rows files (set grants') (set writes')) (set grants') S'"
proof (induction acts arbitrary: S grants writes owner)
  case (Cons act acts)
  show ?case
  proof (cases act)
    case (Work task)
    obtain outs S1 where run: "runTask H task S = Some (outs, S1)"
      "set_run H acts (S1, grants_of task outs @ grants, writes_of task @ writes) = Some (S', grants', writes')"
      using Cons.prems(3) Work by (auto split: option.splits)
    let ?L = "written H rows files (set (grants_of task outs @ grants)) (set (writes_of task @ writes))"
    have ok: "set_ok H rows owner ?L (set grants) S"
      by (rule set_ok_mono [OF Cons.prems(1) written_mono]) auto
    have "(k, v) \<in> allowed ?L (owner i)" if "(i, k, v) \<in> set (writes_of task)" "i \<in> set (set_areas S)" for i k v
      using that set_okD(3) [OF Cons.prems(1)] by (cases "owner i") (force simp: allowed_def written_def)
    from runTask_ok [OF assms ok _ this run(1)] Cons.prems(2) Work
    obtain owner' where "set_ok H rows owner' ?L (set (grants_of task outs @ grants)) S1" by (auto simp: Un_commute)
    from Cons.IH [OF this _ run(2)] Cons.prems(2) show ?thesis by simp
  next
    case (UpdateDatabaseOf i)
    have "keeps H rows A (area_runQueuedUpdate (host_env H))" for A
      unfolding area_runQueuedUpdate_def host_env_simps
      by (rule keeps_database) (rule runQueuedUpdate_within [OF confinedD(2) [OF assms(1)]])
    note safe = safe_change [OF assms(2) this, of i]
    let ?S = "S\<lparr>set_store := changeArea H (area_runQueuedUpdate (host_env H)) i (set_store S)\<rparr>"
    have "set_ok H rows owner (written H rows files (set grants) (set writes)) (set grants) ?S"
      by (rule set_ok_safe [OF Cons.prems(1) safe]) simp_all
    from Cons.IH [OF this] Cons.prems(2,3) UpdateDatabaseOf show ?thesis by simp
  qed
qed auto

lemma set_new_ok: "set_ok H rows owner (written H rows files {} {}) {} (StorageManagerSet_new files)"
  by (auto simp: set_ok_def StorageManagerSet_new_def store_ok_def files_ok_def written_def)


text \<open>A host on lists, in which a database file is named after its origin and no quota is exceeded.\<close>

definition list_host :: "(list_map, (string \<times> string) list option) storage_host" where
  "list_host = \<lparr>host_map = env_map unlimited_env, host_sqlite = list_sqlite, ensureDatabaseDirectoryExists = (\<lambda>directory. True),
     appendDatabaseFileNameToPath = (\<lambda>directory filename. filename), databaseIdentifier = (\<lambda>origin. origin),
     fromDatabaseIdentifier = Some, originFromURL = (\<lambda>url. url), listDirectory = (\<lambda>directory pattern files. []),
     pathGetFileName = (\<lambda>path. path), databaseCreationTime = (\<lambda>files path. None),
     databaseModificationTime = (\<lambda>files path. None), moveFile = (\<lambda>from to files. files(Some to := files (Some from), Some from := None)),
     isValidNamespaceKey = (\<lambda>i. i \<noteq> 0), isValidTransientKey = (\<lambda>key. fst key \<noteq> 0)\<rparr>"

definition list_rows :: "(string \<times> string) list option \<Rightarrow> (string \<times> string) set" where
  "list_rows d = (case d of None \<Rightarrow> {} | Some xs \<Rightarrow> set xs)"

lemma list_host_confined: "confined list_host list_rows"
proof -
  have map: "map_confined (env_map unlimited_env)"
    unfolding map_confined_def unlimited_env_def list_env_def list_storage_map_def
    using held_update by (fastforce simp: held_def AList.delete_eq Let_def)
  have "sqlite_confined list_sqlite list_rows"
    unfolding sqlite_confined_def list_sqlite_def list_rows_def
    by (auto simp: AList.delete_eq clear_statement_def insert_statement_def delete_statement_def
        dest: subsetD [OF set_AList_update] split: option.splits)
  then show ?thesis using map by (simp add: confined_def list_host_def)
qed

lemma list_host_apart: "paths_apart list_host"
  by (simp add: paths_apart_def databasePath_def databasePath_file_def list_host_def)

definition isolated_run :: "set_action list" where
  "isolated_run = [Work (T_add 7 (Some ''d'')), Work (ConnectToLocalStorageArea 1 7 3 ''a''), Work (ConnectToLocalStorageArea 2 7 3 ''b''),
     Work (ManagerMessage 1 (SetItem 1 11 0 ''k'' ''x'' None)), UpdateDatabaseOf 1,
     Work (ManagerMessage 2 (SetItem 2 22 0 ''k'' ''y'' None))]"

lemma isolated_run_computed:
  "map_option (\<lambda>(S, grants, writes). (grants, writes, fst (set_getValues list_host 1 1 S)))
     (set_run list_host isolated_run (StorageManagerSet_new (\<lambda>path. None), [], [])) =
   Some ([(2, 7, ''b''), (1, 7, ''a'')], [(2, ''k'', ''y''), (1, ''k'', ''x'')], [Values 1 [(''k'', Some ''x'')]])"
  by code_simp


end
