(* ===== verification/Storage_Lifecycle.thy ===== *)
theory Storage_Lifecycle
  imports Storage_Isolation
begin

text \<open>
  Sessions come and go and data is deleted: work for a session always finds its manager, and
  deleted local storage is gone from every area and from the file.
\<close>

subsection \<open>Deleting local storage\<close>

definition wiped :: "('m, 'd) storage_host \<Rightarrow> area_ref \<Rightarrow> ('m, 'd) area_store \<Rightarrow> bool" where
  "wiped H i st \<longleftrightarrow> (\<forall>a. map_of (st_areas st) i = Some a \<longrightarrow> area_shows (host_env H) a = Map.empty)"

text \<open>Every entry of a namespace names an area of its origin.\<close>

definition named :: "storage_namespace list \<Rightarrow> ('m, 'd) area_store \<Rightarrow> bool" where
  "named nss st \<longleftrightarrow> (\<forall>ns \<in> set nss. \<forall>e \<in> set (ns_storageAreaMap ns). \<forall>a.
     map_of (st_areas st) (snd e) = Some a \<longrightarrow> sa_securityOrigin a = fst e)"

lemma reset_area:
  assumes "map_works (host_map H)"
  shows "area_shows (host_env H) (fst (area_reset (host_env H) s)) = Map.empty"
    "sa_securityOrigin (fst (area_reset (host_env H) s)) = sa_securityOrigin (fst s)"
    "sa_tracker (fst (area_reset (host_env H) s)) = sa_tracker (fst s)"
proof -
  obtain a d posts where s: "s = (a, d, posts)" by (cases s)
  have "sm_getItem (host_map H) (StorageMap_create (host_map H) q) k = None" for q k
    using map_worksD(1) [OF assms] by (simp add: sm_getItem_def)
  then show "area_shows (host_env H) (fst (area_reset (host_env H) s)) = Map.empty"
    by (simp add: s area_reset_def Let_def area_shows_def fun_eq_iff split: option.split)
  show "sa_securityOrigin (fst (area_reset (host_env H) s)) = sa_securityOrigin (fst s)"
    "sa_tracker (fst (area_reset (host_env H) s)) = sa_tracker (fst s)"
    by (simp_all add: s area_reset_def Let_def split: option.split)
qed

lemma changeArea_areas:
  "map_of (st_areas (changeArea H f i st)) j =
     (if j = i then map_option (\<lambda>a. fst (f (a, st_files st (area_file H a), st_posts st))) (map_of (st_areas st) i)
      else map_of (st_areas st) j)"
  by (auto simp: changeArea_def withArea_def update_conv' split: option.splits prod.splits)

lemma changeArea_files:
  "st_files (changeArea H f i st) path = (case map_of (st_areas st) i of
     None \<Rightarrow> st_files st path
   | Some a \<Rightarrow> if area_file H a = path then fst (snd (f (a, st_files st path, st_posts st))) else st_files st path)"
  by (auto simp: changeArea_def withArea_def split: option.splits prod.splits)

text \<open>
  Clearing the areas of an origin, as far as it concerns others: areas that are wiped stay so, areas and files of
  other origins stay as they are, and entries keep naming areas of their origins.
\<close>

definition clears :: "('m, 'd) storage_host \<Rightarrow> storage_namespace list \<Rightarrow> string set \<Rightarrow> (('m, 'd) area_store \<Rightarrow> ('m, 'd) area_store) \<Rightarrow> bool" where
  "clears H nss os f \<longleftrightarrow> (\<forall>st. named nss st \<longrightarrow> named nss (f st) \<and> (\<forall>i. wiped H i st \<longrightarrow> wiped H i (f st)) \<and>
     (\<forall>i a. map_of (st_areas st) i = Some a \<and> sa_securityOrigin a \<notin> os \<longrightarrow> map_of (st_areas (f st)) i = Some a) \<and>
     (\<forall>directory origin. origin \<notin> os \<and> \<not> wtf_isEmpty (databasePath H directory origin) \<longrightarrow>
        st_files (f st) (databasePath H directory origin) = st_files st (databasePath H directory origin)))"

lemma clears_comp: "clears H nss os f \<Longrightarrow> clears H nss os g \<Longrightarrow> clears H nss os (\<lambda>st. g (f st))"
  unfolding clears_def by metis

lemma clears_id: "clears H nss os (\<lambda>st. st)"
  by (simp add: clears_def)

lemma clears_fold: "(\<And>x. x \<in> set xs \<Longrightarrow> clears H nss os (f x)) \<Longrightarrow> clears H nss os (fold f xs)"
proof (induction xs)
  case (Cons x xs)
  then show ?case using clears_comp [of H nss os "f x" "fold f xs"] by (simp add: comp_def)
qed (simp add: clears_def id_def)

lemma clears_mono: "clears H nss os f \<Longrightarrow> os \<subseteq> os' \<Longrightarrow> clears H nss os' f"
  unfolding clears_def by (meson subsetD)

lemma clearMatching_clears:
  assumes "map_works (host_map H)" and "paths_apart H" and "ns \<in> set nss"
  shows "clears H nss {origin} (clearStorageAreasMatchingOrigin H origin ns)"
proof (cases "map_of (ns_storageAreaMap ns) origin")
  case None
  then have "clearStorageAreasMatchingOrigin H origin ns = (\<lambda>st. st)" by (rule_tac ext) (simp add: clearStorageAreasMatchingOrigin_def)
  then show ?thesis using clears_id by simp
next
  case (Some i)
  have f: "clearStorageAreasMatchingOrigin H origin ns st = changeArea H (area_reset (host_env H)) i st" for st
    using Some by (simp add: clearStorageAreasMatchingOrigin_def)
  show ?thesis
    unfolding clears_def
  proof (intro allI impI conjI)
    fix st :: "('a, 'b) area_store"
    assume named: "named nss st"
    have area: "sa_securityOrigin a = origin" if "map_of (st_areas st) i = Some a" for a
      using named assms(3) map_of_SomeD [OF Some] that by (force simp: named_def)
    show "named nss (clearStorageAreasMatchingOrigin H origin ns st)"
      using named reset_area(2) [OF assms(1)] unfolding f named_def by (auto simp: changeArea_areas split: if_splits)
    show "wiped H j (clearStorageAreasMatchingOrigin H origin ns st)" if "wiped H j st" for j
      using that reset_area(1) [OF assms(1)] unfolding f wiped_def by (auto simp: changeArea_areas split: if_splits)
    show "map_of (st_areas (clearStorageAreasMatchingOrigin H origin ns st)) j = Some a"
      if "map_of (st_areas st) j = Some a \<and> sa_securityOrigin a \<notin> {origin}" for j a
      using that area unfolding f by (auto simp: changeArea_areas)
    show "st_files (clearStorageAreasMatchingOrigin H origin ns st) (databasePath H directory origin') =
        st_files st (databasePath H directory origin')"
      if other: "origin' \<notin> {origin} \<and> \<not> wtf_isEmpty (databasePath H directory origin')" for directory origin'
    proof -
      have "area_file H a \<noteq> databasePath H directory origin'" if "map_of (st_areas st) i = Some a" for a
      proof (cases "sa_tracker a")
        case None
        then have "wtf_isEmpty (area_file H a)" by (simp add: area_file_def wtf_isEmpty_def)
        then show ?thesis using other by auto
      next
        case (Some directory')
        then show ?thesis
          using assms(2) other area [OF that] unfolding paths_apart_def area_file_def by (metis option.simps(5) singletonI)
      qed
      then show ?thesis unfolding f by (auto simp: changeArea_files split: option.split)
    qed
  qed
qed

lemma clearMatching_wipes:
  assumes "map_works (host_map H)" and "map_of (ns_storageAreaMap ns) origin = Some i"
  shows "wiped H i (clearStorageAreasMatchingOrigin H origin ns st)"
  using reset_area(1) [OF assms(1)] assms(2)
  by (auto simp: clearStorageAreasMatchingOrigin_def wiped_def changeArea_areas)

text \<open>One origin of a deletion.\<close>

definition delete_origin :: "('m, 'd) storage_host \<Rightarrow> storage_manager \<Rightarrow> string \<Rightarrow> ('m, 'd) area_store \<Rightarrow> ('m, 'd) area_store" where
  "delete_origin H mgr origin st =
     (let st = fold (clearStorageAreasMatchingOrigin H origin) (map snd (mgr_local mgr)) st;
          st = fold (clearStorageAreasMatchingOrigin H origin) (map snd (mgr_transient mgr)) st in
      case mgr_tracker mgr of None \<Rightarrow> st | Some directory \<Rightarrow> deleteDatabaseOf H directory origin st)"

abbreviation local_namespaces :: "storage_manager \<Rightarrow> storage_namespace list" where
  "local_namespaces mgr \<equiv> map snd (mgr_local mgr) @ map snd (mgr_transient mgr)"

lemma deleteDatabase_clears:
  assumes "paths_apart H"
  shows "clears H nss {origin} (deleteDatabaseOf H directory origin)"
proof -
  have "databasePath H directory' origin' \<noteq> databasePath H directory origin"
    if "origin' \<noteq> origin" "\<not> wtf_isEmpty (databasePath H directory' origin')" for directory' origin'
    using assms that unfolding paths_apart_def by blast
  then show ?thesis
    by (simp add: clears_def deleteDatabaseOf_def tracker_deleteDatabaseWithOrigin_def Let_def named_def wiped_def)
qed

lemma delete_origin_clears:
  assumes "map_works (host_map H)" and "paths_apart H"
  shows "clears H (local_namespaces mgr) {origin} (delete_origin H mgr origin)"
proof -
  note clear = clearMatching_clears [OF assms, of _ "local_namespaces mgr" origin]
  have both: "clears H (local_namespaces mgr) {origin} (\<lambda>st.
      fold (clearStorageAreasMatchingOrigin H origin) (map snd (mgr_transient mgr))
        (fold (clearStorageAreasMatchingOrigin H origin) (map snd (mgr_local mgr)) st))"
    by (rule clears_comp; rule clears_fold; rule clear) simp_all
  show ?thesis
    using both clears_comp [OF both deleteDatabase_clears [OF assms(2)]]
    by (cases "mgr_tracker mgr") (simp_all add: delete_origin_def [abs_def] Let_def)
qed

lemma fold_wipes:
  assumes "map_works (host_map H)" and "paths_apart H" and "set nss' \<subseteq> set nss"
  shows "named nss st \<Longrightarrow> ns \<in> set nss' \<Longrightarrow> map_of (ns_storageAreaMap ns) origin = Some i \<Longrightarrow>
    wiped H i (fold (clearStorageAreasMatchingOrigin H origin) nss' st)"
  using assms(3)
proof (induction nss' arbitrary: st)
  case (Cons n nss')
  note clear = clearMatching_clears [OF assms(1,2), of _ nss origin]
  have one: "named nss (clearStorageAreasMatchingOrigin H origin n st)"
    using clear [of n] Cons.prems(1,4) unfolding clears_def by simp
  show ?case
  proof (cases "ns = n")
    case True
    have "clears H nss {origin} (fold (clearStorageAreasMatchingOrigin H origin) nss')"
      by (rule clears_fold, rule clear) (use Cons.prems(4) in auto)
    then show ?thesis
      using one clearMatching_wipes [OF assms(1) Cons.prems(3), of st] True unfolding clears_def by simp
  next
    case False
    then show ?thesis using Cons.IH [OF one] Cons.prems by simp
  qed
qed simp

lemma delete_origin_wipes:
  assumes "map_works (host_map H)" and "paths_apart H" and "named (local_namespaces mgr) st"
    and "ns \<in> set (local_namespaces mgr)" and "map_of (ns_storageAreaMap ns) origin = Some i"
  shows "wiped H i (delete_origin H mgr origin st)"
proof -
  let ?clear = "clearStorageAreasMatchingOrigin H origin"
  let ?nss = "local_namespaces mgr"
  have "fold ?clear (map snd (mgr_transient mgr)) (fold ?clear (map snd (mgr_local mgr)) st) = fold ?clear ?nss st" by simp
  then have "wiped H i (fold ?clear (map snd (mgr_transient mgr)) (fold ?clear (map snd (mgr_local mgr)) st))"
    using fold_wipes [OF assms(1,2) subset_refl assms(3-5)] by (simp only:)
  then show ?thesis
    by (cases "mgr_tracker mgr") (simp_all add: delete_origin_def Let_def deleteDatabaseOf_def wiped_def)
qed

lemma delete_origin_file:
  assumes "sqlite_works (host_sqlite H) table" and "mgr_tracker mgr = Some directory"
    and "\<not> wtf_isEmpty (databasePath H directory origin)"
  shows "table (st_files (delete_origin H mgr origin st) (databasePath H directory origin)) = Map.empty"
  using assms sqlite_worksD(14) [OF assms(1)]
  by (simp add: delete_origin_def Let_def deleteDatabaseOf_def tracker_deleteDatabaseWithOrigin_def deleteDatabaseWithOrigin_def)

lemma delete_origins_gone:
  assumes "map_works (host_map H)" and "sqlite_works (host_sqlite H) table" and "paths_apart H"
  shows "named (local_namespaces mgr) st \<Longrightarrow> origin \<in> set origins \<Longrightarrow>
    (\<forall>ns \<in> set (local_namespaces mgr). \<forall>i. map_of (ns_storageAreaMap ns) origin = Some i \<longrightarrow>
       wiped H i (fold (delete_origin H mgr) origins st)) \<and>
    (\<forall>directory. mgr_tracker mgr = Some directory \<and> \<not> wtf_isEmpty (databasePath H directory origin) \<longrightarrow>
       table (st_files (fold (delete_origin H mgr) origins st) (databasePath H directory origin)) = Map.empty)"
proof (induction origins arbitrary: st rule: rev_induct)
  case (snoc x origins)
  let ?st = "fold (delete_origin H mgr) origins st"
  have "clears H (local_namespaces mgr) UNIV (fold (delete_origin H mgr) origins)"
    by (rule clears_fold) (use clears_mono [OF delete_origin_clears [OF assms(1,3)]] in blast)
  then have named: "named (local_namespaces mgr) ?st" using snoc.prems(1) unfolding clears_def by blast
  note one = delete_origin_clears [OF assms(1,3), of mgr x]
  have last: "fold (delete_origin H mgr) (origins @ [x]) st = delete_origin H mgr x ?st" by simp
  show ?case
  proof (cases "x = origin")
    case True
    then show ?thesis
      unfolding last using delete_origin_wipes [OF assms(1,3) named] delete_origin_file [OF assms(2)] by blast
  next
    case False
    then have "origin \<in> set origins" using snoc.prems(2) by simp
    note IH = snoc.IH [OF snoc.prems(1) this]
    show ?thesis
      unfolding last using IH one named False unfolding clears_def by auto
  qed
qed simp

lemma set_ok_named:
  assumes "set_ok H rows owner L G S" and "map_of (set_managers S) sessionID = Some mgr"
  shows "named (local_namespaces mgr) (set_store S)"
proof -
  have "mgr_ok (owner, st_generated (set_store S)) sessionID mgr"
    by (rule set_okD(2) [OF assms(1) map_of_SomeD [OF assms(2)]])
  then have owner: "fst (snd (owner (snd e))) = fst e"
    if "ns \<in> set (local_namespaces mgr)" "e \<in> set (ns_storageAreaMap ns)" for ns e
    using that by (auto simp: mgr_ok_def ns_ok_def)
  show ?thesis
    unfolding named_def using owner store_okD(3) [OF set_okD(1) [OF assms(1)]] by (fastforce simp: area_ok_def)
qed

lemma delete_origins: "deleteLocalStorageEntriesForOrigins H origins (mgr, st) = fold (delete_origin H mgr) origins st"
  by (simp add: deleteLocalStorageEntriesForOrigins_def delete_origin_def [abs_def])


definition deletion_run :: "set_action list" where
  "deletion_run = [Work (T_add 7 (Some ''d'')), Work (ConnectToLocalStorageArea 1 7 3 ''a''),
     Work (ConnectToTransientLocalStorageArea 2 7 3 ''b'' ''a''),
     Work (ManagerMessage 1 (SetItem 1 11 0 ''k'' ''x'' None)), UpdateDatabaseOf 1,
     Work (ManagerMessage 2 (SetItem 2 22 0 ''k'' ''y'' None))]"

lemma deletion_run_computed:
  "map_option (\<lambda>(S, grants, writes). (map_option (\<lambda>mgr. (mgr_tracker mgr, map_of (mgr_local mgr) 3)) (map_of (set_managers S) 7),
       list_table (st_files (set_store S) (Some ''a.localstorage'')) ''k'',
       map_option (map_option (\<lambda>a. (area_shows (host_env list_host) a ''k'')) \<circ> map_of (st_areas (set_store S))) (Some 1),
       map_option (\<lambda>(outs, S). map_of (st_areas (set_store S)) 1 \<noteq> None)
         (runTask list_host (T_deleteLocalStorageForOrigins 7 [''a'']) S)))
     (set_run list_host deletion_run (StorageManagerSet_new (\<lambda>path. None), [], [])) =
   Some (Some (Some (Some ''d''), Some \<lparr>ns_quotaInBytes = localStorageDatabaseQuotaInBytes, ns_storageAreaMap = [(''a'', 1)]\<rparr>),
     Some ''x'', Some (Some (Some ''x'')), Some True)"
  by code_simp


definition ephemeral_run :: "set_action list" where
  "ephemeral_run = [Work (T_add 7 None), Work (ConnectToTransientLocalStorageArea 1 7 3 ''b'' ''a''),
     Work (ManagerMessage 1 (SetItem 1 11 0 ''k'' ''x'' None)), Work (T_deleteLocalStorageModifiedSince 7 0)]"

lemma ephemeral_run_computed:
  "map_option (\<lambda>(S, grants, writes). (fst (set_getValues list_host 1 1 S),
       map_option fst (runTask list_host (T_getLocalStorageOrigins 7) S)))
     (set_run list_host ephemeral_run (StorageManagerSet_new (\<lambda>path. None), [], [])) =
   Some ([Values 1 [(''k'', Some ''x'')]], Some [Origins [''a'']])"
  by code_simp


subsection \<open>The main thread and the queue\<close>

text \<open>The network process asks for a session only if the set contains it.\<close>

fun session_of :: "storage_task \<Rightarrow> u64 option" where
  "session_of (T_getSessionStorageOrigins sessionID) = Some sessionID"
| "session_of (T_deleteSessionStorage sessionID) = Some sessionID"
| "session_of (T_deleteSessionStorageForOrigins sessionID origins) = Some sessionID"
| "session_of (T_getLocalStorageOrigins sessionID) = Some sessionID"
| "session_of (T_deleteLocalStorageModifiedSince sessionID time) = Some sessionID"
| "session_of (T_deleteLocalStorageForOrigins sessionID origins) = Some sessionID"
| "session_of (T_getLocalStorageOriginDetails sessionID) = Some sessionID"
| "session_of (T_renameOrigin sessionID oldName newName) = Some sessionID"
| "session_of task = None"

definition network_call :: "storage_task \<Rightarrow> ('m, 'd) storage_set \<Rightarrow> ('m, 'd) storage_set" where
  "network_call task S =
     (case session_of task of
        None \<Rightarrow> S
      | Some sessionID \<Rightarrow> if set_contains sessionID S then set_dispatch task S else S)"

fun is_message :: "storage_task \<Rightarrow> bool" where
  "is_message (ConnectToLocalStorageArea c sessionID ns origin) = True"
| "is_message (ConnectToTransientLocalStorageArea c sessionID ns topLevelOrigin origin) = True"
| "is_message (ConnectToSessionStorageArea c sessionID ns origin) = True"
| "is_message (GetValues c i) = True"
| "is_message (CloneSessionStorageNamespace sessionID from to) = True"
| "is_message (ManagerMessage c message) = True"
| "is_message task = False"

text \<open>What the main thread and the connections do, and the queue.\<close>

datatype network_action =
    AddSession u64 wtf_string
  | RemoveSession u64
  | NetworkCall storage_task
  | AddConnection connection_ref
  | RemoveConnection connection_ref
  | SyncLocalStorage
  | SuspendStorage
  | ResumeStorage
  | MessageArrives storage_task
  | RunQueue

primrec network_do :: "('m, 'd) storage_host \<Rightarrow> network_action \<Rightarrow> ('m, 'd) storage_set \<Rightarrow> ('m, 'd) storage_set option" where
  "network_do H (AddSession sessionID directory) S = Some (set_add sessionID directory S)"
| "network_do H (RemoveSession sessionID) S = Some (set_remove sessionID S)"
| "network_do H (NetworkCall task) S = Some (network_call task S)"
| "network_do H (AddConnection c) S = Some (addConnection c S)"
| "network_do H (RemoveConnection c) S = Some (removeConnection c S)"
| "network_do H SyncLocalStorage S = Some (set_dispatch T_sync S)"
| "network_do H SuspendStorage S = Some (snd (set_suspend S))"
| "network_do H ResumeStorage S = Some (set_resume S)"
| "network_do H (MessageArrives task) S = Some (if is_message task then set_dispatch task S else S)"
| "network_do H RunQueue S = map_option snd (runQueue H S)"

fun network_run :: "('m, 'd) storage_host \<Rightarrow> network_action list \<Rightarrow> ('m, 'd) storage_set \<Rightarrow> ('m, 'd) storage_set option" where
  "network_run H [] S = Some S"
| "network_run H (act # acts) S = (case network_do H act S of None \<Rightarrow> None | Some S \<Rightarrow> network_run H acts S)"

text \<open>The sessions with a manager after a piece of work.\<close>

fun sessions_after :: "storage_task \<Rightarrow> u64 set \<Rightarrow> u64 set" where
  "sessions_after (T_add sessionID directory) P = insert sessionID P"
| "sessions_after (T_remove sessionID) P = P - {sessionID}"
| "sessions_after task P = P"

text \<open>Work that finds the managers it needs.\<close>

fun work_ok :: "('m, 'd) storage_host \<Rightarrow> storage_task \<Rightarrow> u64 set \<Rightarrow> bool" where
  "work_ok H (CloneSessionStorageNamespace sessionID from to) P = isValidNamespaceKey H to"
| "work_ok H T_finish P = False"
| "work_ok H task P = (case session_of task of None \<Rightarrow> True | Some sessionID \<Rightarrow> sessionID \<in> P)"

fun queue_ok :: "('m, 'd) storage_host \<Rightarrow> u64 set \<Rightarrow> storage_task list \<Rightarrow> bool" where
  "queue_ok H P [] = True"
| "queue_ok H P (task # tasks) = (work_ok H task P \<and> queue_ok H (sessions_after task P) tasks)"

definition sessions :: "('m, 'd) storage_set \<Rightarrow> u64 set" where
  "sessions S = {sessionID. map_of (set_managers S) sessionID \<noteq> None}"

definition network_ok :: "('m, 'd) storage_host \<Rightarrow> ('m, 'd) storage_set \<Rightarrow> bool" where
  "network_ok H S \<longleftrightarrow> queue_ok H (sessions S) (set_queue S) \<and>
     fold sessions_after (set_queue S) (sessions S) = {sessionID. set_contains sessionID S} \<and>
     (set_state S = WillSuspend \<longrightarrow> T_suspend \<in> set (set_queue S))"

lemma queue_ok_append: "queue_ok H P (xs @ ys) \<longleftrightarrow> queue_ok H P xs \<and> queue_ok H (fold sessions_after xs P) ys"
  by (induction xs arbitrary: P) auto

text \<open>Work leaves what the main thread keeps alone.\<close>

definition main_part :: "('m, 'd) storage_set \<Rightarrow> (u64 \<times> wtf_string) list \<times> connection_ref list \<times> storage_task list" where
  "main_part S = (set_managerPaths S, set_connections S, set_queue S)"

definition same_main :: "('m, 'd) storage_set \<Rightarrow> ('m, 'd) storage_set \<Rightarrow> bool" where
  "same_main S S' \<longleftrightarrow> main_part S' = main_part S \<and> set_state S' = set_state S"

lemma same_main_update [simp]:
  "same_main S (S\<lparr>set_managers := ms\<rparr>)" "same_main S (S\<lparr>set_areas := is\<rparr>)" "same_main S (S\<lparr>set_store := st\<rparr>)"
  "same_main S (S\<lparr>set_managers := ms, set_store := st\<rparr>)" "same_main S S"
  "same_main S (S\<lparr>set_managers := ms, set_areas := is, set_store := st\<rparr>)"
  by (simp_all add: same_main_def main_part_def)

lemma sessions_update [simp]:
  "sessions (S\<lparr>set_areas := is\<rparr>) = sessions S" "sessions (S\<lparr>set_store := st\<rparr>) = sessions S"
  "sessions (S\<lparr>set_state := state\<rparr>) = sessions S" "sessions (S\<lparr>set_queue := q\<rparr>) = sessions S"
  "sessions (S\<lparr>set_managerPaths := p\<rparr>) = sessions S" "sessions (S\<lparr>set_connections := cs\<rparr>) = sessions S"
  by (simp_all add: sessions_def)

lemma connectTo_main:
  assumes "connectTo H c sessionID create S = (outs, S')"
  shows "same_main S S' \<and> sessions S' = sessions S"
proof (cases "map_of (set_managers S) sessionID")
  case (Some mgr)
  obtain r mgr' st' where "create (mgr, set_store S) = (r, mgr', st')" by (cases "create (mgr, set_store S)")
  then show ?thesis
    using assms Some
    by (cases r) (auto simp: connectTo_def Let_def same_main_def main_part_def sessions_def update_conv' split: if_splits)
qed (use assms in \<open>auto simp: connectTo_def\<close>)

lemma map_of_map_snd [simp]: "map_of (map (\<lambda>e. (fst e, f (snd e))) xs) k = map_option f (map_of xs k)"
  by (induction xs) auto

lemma removeListener_main:
  "same_main S (set_removeListener H c i S) \<and> sessions (set_removeListener H c i S) = sessions S"
proof -
  obtain r st where "withArea H (removeListener (host_env H) c) i (set_store S) = (r, st)"
    by (cases "withArea H (removeListener (host_env H) c) i (set_store S)")
  then show ?thesis
    by (cases "r = Some True") (auto simp: set_removeListener_def sessions_def split: option.split bool.split)
qed

lemma removeListeners_main:
  "same_main S (fold (set_removeListener H c) is S) \<and> sessions (fold (set_removeListener H c) is S) = sessions S"
proof (induction "is" arbitrary: S)
  case (Cons i "is")
  then show ?case using removeListener_main [of S H c i] by (simp add: same_main_def)
qed simp

lemma forManager_main:
  "forManager sessionID f S = Some (outs, S') \<Longrightarrow> same_main S S' \<and> sessions S' = sessions S"
  by (auto simp: forManager_def split: option.splits prod.splits)

lemma message_main:
  assumes "set_didReceiveMessage H c message S = (outs, S')"
  shows "same_main S S' \<and> sessions S' = sessions S"
proof (cases message)
  case (DisconnectFromStorageArea i)
  have "same_main S (set_disconnectFromStorageArea H c i S) \<and> sessions (set_disconnectFromStorageArea H c i S) = sessions S"
    using removeListener_main [of S H c i]
    by (auto simp: set_disconnectFromStorageArea_def Let_def same_main_def main_part_def)
  then show ?thesis using assms DisconnectFromStorageArea by auto
qed (use assms in \<open>auto simp: serveArea_def split: if_splits prod.splits\<close>)

lemma runAdd_main:
  "same_main S (runAdd H sessionID directory S) \<and> sessions (runAdd H sessionID directory S) = insert sessionID (sessions S)"
proof (cases "map_of (set_managers S) sessionID")
  case None
  obtain mgr st where "StorageManager_new H directory (set_store S) = (mgr, st)"
    by (cases "StorageManager_new H directory (set_store S)")
  then show ?thesis using None by (auto simp: runAdd_def sessions_def)
qed (auto simp: runAdd_def sessions_def)

lemma runRemove_main:
  "same_main S (runRemove H sessionID S) \<and> sessions (runRemove H sessionID S) = sessions S - {sessionID}"
proof (cases "map_of (set_managers S) sessionID")
  case (Some mgr)
  then show ?thesis by (auto simp: runRemove_def sessions_def delete_conv' same_main_def main_part_def)
qed (auto simp: runRemove_def sessions_def)

lemma runRemoveConnection_main:
  "same_main S (runRemoveConnection H c S) \<and> sessions (runRemoveConnection H c S) = sessions S"
  using removeListeners_main [of S H c "set_areas S"] by (simp add: runRemoveConnection_def Let_def same_main_def main_part_def)

lemma clone_main:
  assumes "set_cloneSessionStorageNamespace H sessionID ns ns' S = Some S'"
  shows "same_main S S' \<and> sessions S' = sessions S"
proof (cases "map_of (set_managers S) sessionID")
  case (Some mgr)
  then obtain mgr' st' where "S' = S\<lparr>set_managers := AList.update sessionID mgr' (set_managers S), set_store := st'\<rparr>"
    using assms by (auto simp: set_cloneSessionStorageNamespace_def)
  then show ?thesis using Some by (auto simp: sessions_def update_conv' split: if_splits)
qed (use assms in \<open>simp add: set_cloneSessionStorageNamespace_def\<close>)

lemma runTask_main:
  assumes "runTask H task S = Some (outs, S')" and "task \<noteq> T_finish" and "task \<noteq> T_suspend"
  shows "same_main S S' \<and> sessions S' = sessions_after task (sessions S)"
proof (cases task)
  case (T_add sessionID directory)
  then show ?thesis using assms runAdd_main [of S H sessionID directory] by auto
next
  case (T_remove sessionID)
  then show ?thesis using assms runRemove_main [of S H sessionID] by auto
next
  case (T_removeConnection c)
  then show ?thesis using assms runRemoveConnection_main [of S H c] by auto
next
  case (ConnectToLocalStorageArea c sessionID ns origin)
  then show ?thesis using assms connectTo_main by (simp add: connectToLocalStorageArea_def)
next
  case (ConnectToTransientLocalStorageArea c sessionID ns topLevel origin)
  then show ?thesis using assms connectTo_main by (simp add: connectToTransientLocalStorageArea_def)
next
  case (ConnectToSessionStorageArea c sessionID ns origin)
  then show ?thesis using assms connectTo_main by (simp add: connectToSessionStorageArea_def)
next
  case (GetValues c i)
  then show ?thesis using assms by (auto simp: set_getValues_def split: if_splits prod.splits)
next
  case (CloneSessionStorageNamespace sessionID ns ns')
  then show ?thesis using assms clone_main [of H sessionID ns ns' S S'] by auto
next
  case (ManagerMessage c message)
  then show ?thesis using assms message_main by simp
next
  case T_sync
  then show ?thesis using assms by (auto simp: runSync_def)
qed (use assms forManager_main in simp_all)

lemma runTask_total:
  assumes "work_ok H task (sessions S)"
  shows "\<exists>outs S'. runTask H task S = Some (outs, S')"
proof -
  have manager: "\<exists>outs S'. forManager sessionID f S = Some (outs, S')" if present: "sessionID \<in> sessions S" for sessionID f
  proof -
    obtain mgr where "map_of (set_managers S) sessionID = Some mgr" using present unfolding sessions_def by auto
    then show ?thesis by (cases "f (mgr, set_store S)") (simp add: forManager_def)
  qed
  show ?thesis
  proof (cases task)
    case (CloneSessionStorageNamespace sessionID ns ns')
    then show ?thesis
      using assms by (auto simp: set_cloneSessionStorageNamespace_def mgr_cloneSessionStorageNamespace_def
          getOrCreateSessionStorageNamespace_def split: option.split prod.split)
  qed (use assms manager in \<open>auto simp: surj_pair\<close>)
qed

lemma work_ok_finish: "work_ok H task P \<Longrightarrow> task \<noteq> T_finish"
  by auto

text \<open>A piece of work from the queue.\<close>

lemma run_head:
  assumes "network_ok H S" and "set_state S \<noteq> Suspended" and "set_queue S = task # tasks"
  shows "\<exists>outs S'. runQueue H S = Some (outs, S') \<and> network_ok H S' \<and> set_queue S' = tasks \<and>
    set_state S' = (if task = T_suspend \<and> set_state S = WillSuspend then Suspended else set_state S)"
proof -
  let ?S = "S\<lparr>set_queue := tasks\<rparr>"
  have ok: "work_ok H task (sessions ?S)" "queue_ok H (sessions_after task (sessions ?S)) tasks"
    "fold sessions_after tasks (sessions_after task (sessions ?S)) = {sessionID. set_contains sessionID S}"
    using assms by (simp_all add: network_ok_def)
  obtain outs S' where run: "runTask H task ?S = Some (outs, S')" using runTask_total [OF ok(1)] by blast
  have "runQueue H S = Some (outs, S')" using run assms(2,3) by (simp add: runQueue_def)
  moreover have "main_part S' = main_part ?S \<and> sessions S' = sessions_after task (sessions ?S) \<and>
      set_state S' = (if task = T_suspend \<and> set_state S = WillSuspend then Suspended else set_state S)"
  proof (cases "task = T_suspend")
    case True
    then show ?thesis using run by (auto simp: runSuspend_def main_part_def)
  next
    case False
    then show ?thesis using runTask_main [OF run work_ok_finish [OF ok(1)]] by (simp add: same_main_def)
  qed
  ultimately show ?thesis
    using ok(2,3) assms(1,3) by (auto simp: network_ok_def main_part_def set_contains_def)
qed

lemma runQueue_ok:
  assumes "network_ok H S"
  shows "\<exists>outs S'. runQueue H S = Some (outs, S') \<and> network_ok H S'"
  using assms run_head [OF assms] by (cases "set_state S = Suspended"; cases "set_queue S") (auto simp: runQueue_def)

lemma dispatch_ok:
  assumes "network_ok H S" and "\<And>P. P = {sessionID. set_contains sessionID S} \<Longrightarrow> work_ok H task P"
    and "sessions_after task {sessionID. set_contains sessionID S} = {sessionID. set_contains sessionID S'}"
    and "set_managers S' = set_managers S" and "set_queue S' = set_queue S @ [task]"
    and "set_state S' = WillSuspend \<longrightarrow> set_state S = WillSuspend \<or> task = T_suspend"
  shows "network_ok H S'"
  using assms by (auto simp: network_ok_def queue_ok_append sessions_def)

text \<open>The messages that arrive have passed the decoder, which refuses identifiers that are no valid keys.\<close>

fun message_valid :: "('m, 'd) storage_host \<Rightarrow> storage_task \<Rightarrow> bool" where
  "message_valid H (CloneSessionStorageNamespace sessionID from to) = isValidNamespaceKey H to"
| "message_valid H task = True"

lemma message_work_ok: "is_message task \<Longrightarrow> message_valid H task \<Longrightarrow> work_ok H task P \<and> sessions_after task P = P"
  by (cases task) auto

lemma call_work_ok: "session_of task = Some sessionID \<Longrightarrow> sessionID \<in> P \<Longrightarrow> work_ok H task P \<and> sessions_after task P = P"
  by (cases task) auto

lemma network_do_ok:
  assumes "network_ok H S" and "\<And>task. act = MessageArrives task \<Longrightarrow> message_valid H task"
  shows "\<exists>S'. network_do H act S = Some S' \<and> network_ok H S'"
proof (cases act)
  case (AddSession sessionID directory)
  have "network_ok H (set_add sessionID directory S)" if "map_of (set_managerPaths S) sessionID = None"
    by (rule dispatch_ok [OF assms(1), where task = "T_add sessionID directory"])
      (use that in \<open>auto simp: set_add_def set_dispatch_def set_contains_def\<close>)
  then show ?thesis using AddSession assms(1) by (auto simp: set_add_def)
next
  case (RemoveSession sessionID)
  have "network_ok H (set_remove sessionID S)" if "map_of (set_managerPaths S) sessionID \<noteq> None"
    by (rule dispatch_ok [OF assms(1), where task = "T_remove sessionID"])
      (use that in \<open>auto simp: set_remove_def set_dispatch_def set_contains_def delete_conv' split: if_splits\<close>)
  then show ?thesis using RemoveSession assms(1) by (auto simp: set_remove_def)
next
  case (NetworkCall task)
  have "network_ok H (set_dispatch task S)" if "session_of task = Some sessionID" "set_contains sessionID S" for sessionID
    by (rule dispatch_ok [OF assms(1), where task = task])
      (use that call_work_ok [OF that(1), of "{sessionID. set_contains sessionID S}" H] in
        \<open>simp_all add: set_dispatch_def set_contains_def\<close>)
  then show ?thesis using NetworkCall assms(1) by (auto simp: network_call_def split: option.split)
next
  case (AddConnection c)
  then show ?thesis using assms(1) by (auto simp: addConnection_def network_ok_def set_contains_def)
next
  case (RemoveConnection c)
  have "network_ok H (removeConnection c S)"
    by (rule dispatch_ok [OF assms(1), where task = "T_removeConnection c"])
      (auto simp: removeConnection_def set_dispatch_def set_contains_def)
  then show ?thesis using RemoveConnection by simp
next
  case SyncLocalStorage
  have "network_ok H (set_dispatch T_sync S)"
    by (rule dispatch_ok [OF assms(1), where task = T_sync]) (auto simp: set_dispatch_def set_contains_def)
  then show ?thesis using SyncLocalStorage by simp
next
  case SuspendStorage
  have "network_ok H (snd (set_suspend S))" if "set_state S = Running"
    by (rule dispatch_ok [OF assms(1), where task = T_suspend])
      (use that in \<open>auto simp: set_suspend_def set_dispatch_def set_contains_def\<close>)
  then show ?thesis using SuspendStorage assms(1) by (auto simp: set_suspend_def)
next
  case ResumeStorage
  then show ?thesis using assms(1) by (auto simp: set_resume_def network_ok_def set_contains_def)
next
  case (MessageArrives task)
  have "network_ok H (set_dispatch task S)" if "is_message task"
    by (rule dispatch_ok [OF assms(1), where task = task])
      (use message_work_ok [OF that assms(2) [OF MessageArrives]] in \<open>auto simp: set_dispatch_def set_contains_def\<close>)
  then show ?thesis using MessageArrives assms(1) by auto
next
  case RunQueue
  then show ?thesis using runQueue_ok [OF assms(1)] by auto
qed

lemma network_run_ok:
  "network_ok H S \<Longrightarrow> \<forall>task. MessageArrives task \<in> set acts \<longrightarrow> message_valid H task \<Longrightarrow>
    \<exists>S'. network_run H acts S = Some S' \<and> network_ok H S'"
proof (induction acts arbitrary: S)
  case (Cons act acts)
  obtain S1 where "network_do H act S = Some S1" "network_ok H S1"
    using network_do_ok [OF Cons.prems(1), of act] Cons.prems(2) by auto
  then show ?case using Cons.IH [of S1] Cons.prems(2) by simp
qed simp

lemma network_run_append: "network_run H (xs @ ys) S = Option.bind (network_run H xs S) (network_run H ys)"
  by (induction xs arbitrary: S) (auto split: option.split)

lemma network_new_ok: "network_ok H (StorageManagerSet_new files)"
  by (simp add: network_ok_def StorageManagerSet_new_def sessions_def set_contains_def)

text \<open>Claim C15. Work for a session always finds its manager: whatever the network process, the web processes and the queue do
  in whatever order, with sessions added and removed in between, no work follows a null pointer. The
  queue does the work in order, so a call made while the main thread knows the session runs while the
  session has a manager.\<close>

theorem storage_work_never_crashes:
  assumes "\<forall>task. MessageArrives task \<in> set acts \<longrightarrow> message_valid H task"
  shows "\<exists>S. network_run H acts (StorageManagerSet_new files) = Some S"
  using network_run_ok [OF network_new_ok assms] by blast

theorem storage_work_never_crashes_witness:
  "\<exists>S. network_run list_host [AddSession 7 None, NetworkCall (T_deleteSessionStorage 7), RemoveSession 7,
      NetworkCall (T_getLocalStorageOrigins 7), MessageArrives (CloneSessionStorageNamespace 7 1 2), RunQueue, RunQueue, RunQueue, RunQueue]
      (StorageManagerSet_new (\<lambda>path. None)) = Some S"
  by (rule storage_work_never_crashes) (simp add: list_host_def)

subsection \<open>Waiting for the queue\<close>

text \<open>The main thread waits on a semaphore; only the queue runs meanwhile. The wait does not end if the queue is suspended.\<close>

primrec drain :: "('m, 'd) storage_host \<Rightarrow> nat \<Rightarrow> ('m, 'd) storage_set \<Rightarrow> ('m, 'd) storage_set option" where
  "drain H 0 S = Some S"
| "drain H (Suc n) S =
     (if set_state S = Suspended then None
      else case runQueue H S of None \<Rightarrow> None | Some (outs, S) \<Rightarrow> drain H n S)"

definition waitUntilSyncingLocalStorageFinished ::
    "('m, 'd) storage_host \<Rightarrow> ('m, 'd) storage_set \<Rightarrow> ('m, 'd) storage_set option" where
  "waitUntilSyncingLocalStorageFinished H S = drain H (length (set_queue S) + 1) (set_dispatch T_sync S)"

lemma drain_running:
  "network_ok H S \<Longrightarrow> set_state S = Running \<Longrightarrow> length (set_queue S) = n \<Longrightarrow> drain H n S \<noteq> None"
proof (induction n arbitrary: S)
  case (Suc n)
  obtain task tasks where q: "set_queue S = task # tasks" using Suc.prems(3) by (cases "set_queue S") auto
  obtain outs S' where "runQueue H S = Some (outs, S')" "network_ok H S'" "set_queue S' = tasks" "set_state S' = Running"
    using run_head [OF Suc.prems(1) _ q] Suc.prems(2) by auto
  then show ?case using Suc.IH [of S'] Suc.prems(2,3) q by simp
qed simp

lemma drain_suspending:
  "network_ok H S \<Longrightarrow> set_state S = WillSuspend \<Longrightarrow> set_queue S = tasks @ [T_sync] \<Longrightarrow> drain H (length tasks + 1) S = None"
proof (induction tasks arbitrary: S)
  case Nil
  then show ?case by (auto simp: network_ok_def)
next
  case (Cons task tasks)
  obtain outs S' where S': "runQueue H S = Some (outs, S')" "network_ok H S'" "set_queue S' = tasks @ [T_sync]"
    "set_state S' = (if task = T_suspend then Suspended else WillSuspend)"
    using run_head [OF Cons.prems(1) _ Cons.prems(3) [simplified]] Cons.prems(2) by auto
  show ?case
  proof (cases "task = T_suspend")
    case False
    then show ?thesis using Cons.IH [OF S'(2) _ S'(3)] S'(1,4) Cons.prems(2) by simp
  qed (use S'(1,4) Cons.prems(2) in simp)
qed

text \<open>Claim C31. In every reachable state, waiting for local storage to be synchronised ends if and only if the set is neither
  suspended nor about to be: the main thread that would resume it is the one that waits.\<close>

theorem sync_returns_iff_running:
  assumes "\<forall>task. MessageArrives task \<in> set acts \<longrightarrow> message_valid H task"
    and "network_run H acts (StorageManagerSet_new files) = Some S"
  shows "waitUntilSyncingLocalStorageFinished H S \<noteq> None \<longleftrightarrow> set_state S = Running"
proof -
  have ok: "network_ok H S" using network_run_ok [OF network_new_ok assms(1), of files] assms(2) by simp
  let ?S = "set_dispatch T_sync S"
  have ok': "network_ok H ?S" using network_do_ok [OF ok, of SyncLocalStorage] by simp
  have S: "set_state ?S = set_state S" "set_queue ?S = set_queue S @ [T_sync]" by (simp_all add: set_dispatch_def)
  show ?thesis
  proof (cases "set_state S")
    case Running
    then show ?thesis using drain_running [OF ok'] S by (simp add: waitUntilSyncingLocalStorageFinished_def)
  next
    case WillSuspend
    then show ?thesis using drain_suspending [OF ok' _ S(2)] S(1) by (simp add: waitUntilSyncingLocalStorageFinished_def)
  next
    case Suspended
    then show ?thesis using S(1) by (simp add: waitUntilSyncingLocalStorageFinished_def)
  qed
qed

theorem sync_returns_iff_running_witness:
  "\<exists>S. network_run list_host [AddSession 7 None, SuspendStorage, RunQueue] (StorageManagerSet_new (\<lambda>path. None)) = Some S \<and>
     waitUntilSyncingLocalStorageFinished list_host S = None \<and>
     waitUntilSyncingLocalStorageFinished list_host (set_resume S) \<noteq> None"
proof -
  let ?acts = "[AddSession 7 None, SuspendStorage, RunQueue]"
  obtain S where run: "network_run list_host ?acts (StorageManagerSet_new (\<lambda>path. None)) = Some S"
    using network_run_ok [OF network_new_ok, of ?acts list_host] by auto
  have "map_option set_state (network_run list_host ?acts (StorageManagerSet_new (\<lambda>path. None))) = Some WillSuspend" by code_simp
  then have state: "set_state S = WillSuspend" using run by simp
  have valid: "\<forall>task. MessageArrives task \<in> set ?acts \<longrightarrow> message_valid list_host task"
    "\<forall>task. MessageArrives task \<in> set (?acts @ [ResumeStorage]) \<longrightarrow> message_valid list_host task" by simp_all
  have resumed: "network_run list_host (?acts @ [ResumeStorage]) (StorageManagerSet_new (\<lambda>path. None)) = Some (set_resume S)"
    unfolding network_run_append using run by (simp only: Option.bind.simps) simp
  show ?thesis
    using sync_returns_iff_running [OF valid(1) run] sync_returns_iff_running [OF valid(2) resumed] run state
    by (simp add: set_resume_def)
qed

end
