(* ===== verification/Load_Statistics.thy ===== *)
theory Load_Statistics
  imports WK_Prelude
begin

text \<open>
  The statistics of Intelligent Tracking Prevention: \<^verbatim>\<open>ResourceLoadStatisticsMemoryStore\<close> and its base class
  \<^verbatim>\<open>ResourceLoadStatisticsStore\<close> (src/NetworkProcess/Classifier) with the classifier
  (src/Platform/classifier). The store records for each registrable domain where it was loaded and
  whom it redirected to, decides which domains are prevalent, whose cookies are blocked, whose
  website data is deleted, and who may be granted storage access.

  Times are whole seconds; the code only compares, adds and subtracts them. The clock is read once per operation.
  What a method dispatches to the main thread is a list of \<open>effects\<close>, and what the main thread
  answers is an operation of its own. The logging of the debug mode is left out.
\<close>

subsection \<open>Data\<close>

type_synonym domain = string
type_synonym seconds = int

record load_statistics =
  registrableDomain :: domain
  lastSeen :: seconds
  hadUserInteraction :: bool
  mostRecentUserInteractionTime :: seconds
  grandfathered :: bool
  storageAccessUnderTopFrameDomains :: "domain list"
  topFrameUniqueRedirectsTo :: "domain list"
  topFrameUniqueRedirectsToSinceSameSiteStrictEnforcement :: "domain list"
  topFrameUniqueRedirectsFrom :: "domain list"
  topFrameLinkDecorationsFrom :: "domain list"
  gotLinkDecorationFromPrevalentResource :: bool
  topFrameLoadedThirdPartyScripts :: "domain list"
  subframeUnderTopFrameDomains :: "domain list"
  subresourceUnderTopFrameDomains :: "domain list"
  subresourceUniqueRedirectsTo :: "domain list"
  subresourceUniqueRedirectsFrom :: "domain list"
  isPrevalentResource :: bool
  isVeryPrevalentResource :: bool
  dataRecordsRemoved :: u32
  timesAccessedAsFirstPartyDueToStorageAccessAPI :: u32

datatype prevalence = Low | High | VeryHigh

datatype dates_window = LongWindow | ShortWindow | ForLiveOnTesting | ForReproTesting

datatype cookie_access = CannotRequest | BasedOnCookiePolicy | OnlyIfGranted

datatype storage_access_status = CannotRequestAccess | RequiresUserPrompt | HasAccess

datatype storage_access_scope = PerFrame | PerPage

datatype cookie_blocking_mode =
  BlockAll | AllExceptBetweenAppBoundDomains | AllOnSitesWithoutUserInteraction | OnlyAccordingToPerDomainPolicy

datatype data_removal_mode =
  AllButCookies | NoRemoval | AllButCookiesLiveOnTestingTimeout | AllButCookiesReproTestingTimeout

record operating_date =
  m_year :: int
  m_month :: int
  m_monthDay :: int

record blocked_domains =
  domainsToBlockAndDeleteCookiesFor :: "domain list"
  domainsToBlockButKeepCookiesFor :: "domain list"
  domainsWithUserInteractionAsFirstParty :: "domain list"
  domainsWithStorageAccess :: "(domain \<times> domain) list"

record removed_domains =
  domainsToDeleteAllCookiesFor :: "domain list"
  domainsToDeleteAllButHttpOnlyCookiesFor :: "domain list"
  domainsToDeleteAllNonCookieWebsiteDataFor :: "domain list"
  domainsToEnforceSameSiteStrictFor :: "domain list"

definition removed_isEmpty :: "removed_domains \<Rightarrow> bool" where
  "removed_isEmpty r \<longleftrightarrow> domainsToDeleteAllCookiesFor r = [] \<and> domainsToDeleteAllButHttpOnlyCookiesFor r = [] \<and>
     domainsToDeleteAllNonCookieWebsiteDataFor r = [] \<and> domainsToEnforceSameSiteStrictFor r = []"

text \<open>The data about a third party under one first party; the time is never set by the memory store.\<close>

type_synonym third_party_data = "domain \<times> (domain \<times> bool) list"

text \<open>
  What comes from other projects: the statistics of a new domain, the merge of two statistics and
  the resolution of their times (WebCore), and the calendar (WTF).
\<close>

record statistics_env =
  newStatistics :: "domain \<Rightarrow> load_statistics"
  merge_statistic :: "load_statistics \<Rightarrow> load_statistics \<Rightarrow> load_statistics"
  reduceTimeResolution :: "seconds \<Rightarrow> seconds"
  statistic_toString :: "load_statistics \<Rightarrow> string"
  msToYear :: "int \<Rightarrow> int"
  dayInYear :: "int \<Rightarrow> int \<Rightarrow> int"
  isLeapYear :: "int \<Rightarrow> bool"
  monthFromDayInYear :: "int \<Rightarrow> bool \<Rightarrow> int"
  dayInMonthFromDayInYear :: "int \<Rightarrow> bool \<Rightarrow> int"
  dateToDaysFrom1970 :: "int \<Rightarrow> int \<Rightarrow> int \<Rightarrow> int"

record statistics_parameters =
  pruneEntriesDownTo :: nat
  maxStatisticsEntries :: nat
  timeToLiveUserInteraction :: "seconds option"
  minimumTimeBetweenDataRecordsRemoval :: seconds
  grandfatheringTime :: seconds
  cacheMaxAgeCapTime :: seconds
  clientSideCookiesAgeCapTime :: seconds
  minDelayAfterMainFrameDocumentLoadToNotBeARedirect :: seconds
  shouldNotifyPagesWhenDataRecordsWereScanned :: bool
  shouldClassifyResourcesBeforeDataRecordsRemoval :: bool
  minimumTopFrameRedirectsForSameSiteStrictEnforcement :: nat
  isRunningTest :: bool

definition default_parameters :: statistics_parameters where
  "default_parameters = \<lparr>pruneEntriesDownTo = 800, maxStatisticsEntries = 1000, timeToLiveUserInteraction = None,
     minimumTimeBetweenDataRecordsRemoval = 3600, grandfatheringTime = 24 * 3600 * 7,
     cacheMaxAgeCapTime = 24 * 3600 * 7, clientSideCookiesAgeCapTime = 24 * 3600 * 7,
     minDelayAfterMainFrameDocumentLoadToNotBeARedirect = 5, shouldNotifyPagesWhenDataRecordsWereScanned = False,
     shouldClassifyResourcesBeforeDataRecordsRemoval = True,
     minimumTopFrameRedirectsForSameSiteStrictEnforcement = 10, isRunningTest = False\<rparr>"

text \<open>
  The waiting requests for a dump are numbers. The processing requests that the queue will run after
  five seconds are \<open>m_scheduled\<close>; they carry the identifier they were made with.
\<close>

record statistics_store =
  m_resourceStatisticsMap :: "(domain \<times> load_statistics) list"
  m_operatingDates :: "operating_date list"
  m_parameters :: statistics_parameters
  m_endOfGrandfatheringTimestamp :: seconds
  m_debugManualPrevalentResource :: domain
  m_lastTimeDataRecordsWereRemoved :: seconds
  m_lastStatisticsProcessingRequestIdentifier :: u64
  m_pendingStatisticsProcessingRequestIdentifier :: "u64 option"
  m_debugModeEnabled :: bool
  m_thirdPartyCookieBlockingMode :: cookie_blocking_mode
  m_sameSiteStrictEnforcementEnabled :: bool
  m_dataRecordsBeingRemoved :: bool
  m_shouldIncludeLocalhost :: bool
  m_firstPartyWebsiteDataRemovalMode :: data_removal_mode
  m_standaloneApplicationDomain :: domain
  m_appBoundDomains :: "domain list"
  m_dataRecordRemovalCompletionHandlers :: "nat list"
  m_scheduled :: "u64 list"

datatype effect =
  UpdateCookieBlocking blocked_domains
| DeleteAndRestrict removed_domains
| GrantStorageAccess domain domain "u64 option" u64 storage_access_scope
| RemoveAllStorageAccess
| AskHasStorageAccess domain domain u64 u64
| AskHasCookies domain
| SetCacheMaxAgeCap seconds
| SetAgeCapForClientSideCookies seconds
| NotifyProcessed
| TestingEvent string
| Dumped nat "string list" "third_party_data list"

type_synonym 'a with_effects = "'a \<times> effect list"

definition debugStaticPrevalentResource :: domain where
  "debugStaticPrevalentResource = ''3rdpartytestwebkit.org''"

subsection \<open>Operating dates\<close>

definition operatingDatesWindowLong :: nat where
  "operatingDatesWindowLong = 30"

definition operatingDatesWindowShort :: nat where
  "operatingDatesWindowShort = 7"

definition operatingTimeWindowForLiveOnTesting :: seconds where
  "operatingTimeWindowForLiveOnTesting = 3600"

definition secondsPerDay :: int where
  "secondsPerDay = 86400"

definition fromWallTime :: "statistics_env \<Rightarrow> seconds \<Rightarrow> operating_date" where
  "fromWallTime E time =
     (let ms = time * 1000;
          year = msToYear E ms;
          yearDay = dayInYear E ms year;
          month = monthFromDayInYear E yearDay (isLeapYear E year);
          monthDay = dayInMonthFromDayInYear E yearDay (isLeapYear E year) in
      \<lparr>m_year = year, m_month = month, m_monthDay = monthDay\<rparr>)"

definition secondsSinceEpoch :: "statistics_env \<Rightarrow> operating_date \<Rightarrow> seconds" where
  "secondsSinceEpoch E d = dateToDaysFrom1970 E (m_year d) (m_month d) (m_monthDay d) * secondsPerDay"

definition date_less :: "statistics_env \<Rightarrow> operating_date \<Rightarrow> operating_date \<Rightarrow> bool" where
  "date_less E d d' \<longleftrightarrow> secondsSinceEpoch E d < secondsSinceEpoch E d'"

definition date_le :: "statistics_env \<Rightarrow> operating_date \<Rightarrow> operating_date \<Rightarrow> bool" where
  "date_le E d d' \<longleftrightarrow> secondsSinceEpoch E d \<le> secondsSinceEpoch E d'"

text \<open>\<^verbatim>\<open>std::merge\<close> takes from the first range unless the head of the second is less.\<close>

fun std_merge :: "('a \<Rightarrow> 'a \<Rightarrow> bool) \<Rightarrow> 'a list \<Rightarrow> 'a list \<Rightarrow> 'a list" where
  "std_merge lt [] ys = ys"
| "std_merge lt xs [] = xs"
| "std_merge lt (x # xs) (y # ys) =
     (if lt y x then y # std_merge lt (x # xs) ys else x # std_merge lt xs (y # ys))"

definition mergeOperatingDates :: "statistics_env \<Rightarrow> operating_date list \<Rightarrow> operating_date list \<Rightarrow> operating_date list" where
  "mergeOperatingDates E existingDates newDates =
     (if existingDates = [] then newDates
      else let mergedDates = remdups_adj (std_merge (date_less E) existingDates newDates) in
        drop (length mergedDates - operatingDatesWindowLong) mergedDates)"

definition includeTodayAsOperatingDateIfNecessary :: "statistics_env \<Rightarrow> seconds \<Rightarrow> statistics_store \<Rightarrow> statistics_store" where
  "includeTodayAsOperatingDateIfNecessary E now s =
     (let today = fromWallTime E now; dates = m_operatingDates s in
      if dates \<noteq> [] \<and> date_le E today (last dates) then s
      else s\<lparr>m_operatingDates := drop (Suc (length dates) - operatingDatesWindowLong) dates @ [today]\<rparr>)"

definition hasStatisticsExpired :: "statistics_env \<Rightarrow> seconds \<Rightarrow> statistics_store \<Rightarrow> seconds \<Rightarrow> dates_window \<Rightarrow> bool" where
  "hasStatisticsExpired E now s mostRecent window =
     (let daysPassed = (\<lambda>operatingDatesWindowInDays.
            length (m_operatingDates s) \<ge> operatingDatesWindowInDays \<and>
              date_less E (fromWallTime E mostRecent) (hd (m_operatingDates s)) \<or>
            (case timeToLiveUserInteraction (m_parameters s) of
               None \<Rightarrow> False
             | Some timeToLive \<Rightarrow> now > mostRecent + timeToLive)) in
      case window of
        LongWindow \<Rightarrow> daysPassed operatingDatesWindowLong
      | ShortWindow \<Rightarrow> daysPassed operatingDatesWindowShort
      | ForLiveOnTesting \<Rightarrow> now > mostRecent + operatingTimeWindowForLiveOnTesting
      | ForReproTesting \<Rightarrow> True)"

subsection \<open>The map of statistics\<close>

text \<open>
  A method that holds a reference to an entry of the map changes it by \<open>modifyStatistics\<close>. No
  reference outlives an insertion that may move the entries, except in \<open>logCrossSiteLoadWithLinkDecoration\<close>,
  where it is used only if nothing was inserted.
\<close>

definition findStatistics :: "domain \<Rightarrow> statistics_store \<Rightarrow> load_statistics option" where
  "findStatistics domain s = map_of (m_resourceStatisticsMap s) domain"

definition modifyStatistics :: "domain \<Rightarrow> (load_statistics \<Rightarrow> load_statistics) \<Rightarrow> statistics_store \<Rightarrow> statistics_store" where
  "modifyStatistics domain f s =
     s\<lparr>m_resourceStatisticsMap := map (\<lambda>e. if fst e = domain then (fst e, f (snd e)) else e) (m_resourceStatisticsMap s)\<rparr>"

definition ensureResourceStatisticsForRegistrableDomain :: "statistics_env \<Rightarrow> domain \<Rightarrow> statistics_store \<Rightarrow> statistics_store" where
  "ensureResourceStatisticsForRegistrableDomain E domain s =
     (if findStatistics domain s \<noteq> None then s
      else s\<lparr>m_resourceStatisticsMap := m_resourceStatisticsMap s @ [(domain, newStatistics E domain)]\<rparr>)"

definition changeStatistics ::
    "statistics_env \<Rightarrow> domain \<Rightarrow> (load_statistics \<Rightarrow> load_statistics) \<Rightarrow> statistics_store \<Rightarrow> statistics_store" where
  "changeStatistics E domain f s = modifyStatistics domain f (ensureResourceStatisticsForRegistrableDomain E domain s)"

definition memory_isEmpty :: "statistics_store \<Rightarrow> bool" where
  "memory_isEmpty s \<longleftrightarrow> m_resourceStatisticsMap s = []"

definition allDomains :: "statistics_store \<Rightarrow> domain list" where
  "allDomains s = map fst (m_resourceStatisticsMap s)"

definition shouldSkip :: "statistics_store \<Rightarrow> domain \<Rightarrow> bool" where
  "shouldSkip s domain \<longleftrightarrow> \<not> isRunningTest (m_parameters s) \<and> \<not> m_shouldIncludeLocalhost s \<and> domain = ''localhost''"

definition shouldExemptFromWebsiteDataDeletion :: "statistics_store \<Rightarrow> domain \<Rightarrow> bool" where
  "shouldExemptFromWebsiteDataDeletion s domain \<longleftrightarrow>
     domain \<noteq> [] \<and> (domain = m_standaloneApplicationDomain s \<or> domain \<in> set (m_appBoundDomains s))"

definition ResourceLoadStatisticsMemoryStore_new :: "statistics_env \<Rightarrow> seconds \<Rightarrow> bool \<Rightarrow> statistics_store" where
  "ResourceLoadStatisticsMemoryStore_new E now shouldIncludeLocalhost =
     includeTodayAsOperatingDateIfNecessary E now
       \<lparr>m_resourceStatisticsMap = [], m_operatingDates = [], m_parameters = default_parameters,
        m_endOfGrandfatheringTimestamp = 0, m_debugManualPrevalentResource = [],
        m_lastTimeDataRecordsWereRemoved = 0, m_lastStatisticsProcessingRequestIdentifier = 0,
        m_pendingStatisticsProcessingRequestIdentifier = None, m_debugModeEnabled = False,
        m_thirdPartyCookieBlockingMode = BlockAll, m_sameSiteStrictEnforcementEnabled = False,
        m_dataRecordsBeingRemoved = False, m_shouldIncludeLocalhost = shouldIncludeLocalhost,
        m_firstPartyWebsiteDataRemovalMode = AllButCookies, m_standaloneApplicationDomain = [],
        m_appBoundDomains = [], m_dataRecordRemovalCompletionHandlers = [], m_scheduled = []\<rparr>"

subsection \<open>Third-party data\<close>

definition ensureThirdPartyDataForSpecificFirstPartyDomain ::
    "bool \<Rightarrow> domain \<Rightarrow> (domain \<times> bool) list \<Rightarrow> (domain \<times> bool) list" where
  "ensureThirdPartyDataForSpecificFirstPartyDomain thirdPartyHasStorageAccess firstPartyDomain list =
     (if (firstPartyDomain, thirdPartyHasStorageAccess) \<in> set list then list
      else list @ [(firstPartyDomain, thirdPartyHasStorageAccess)])"

definition getThirdPartyDataForSpecificFirstPartyDomains :: "load_statistics \<Rightarrow> (domain \<times> bool) list" where
  "getThirdPartyDataForSpecificFirstPartyDomains r =
     (let ensureAll = fold (\<lambda>firstPartyDomain. ensureThirdPartyDataForSpecificFirstPartyDomain
            (firstPartyDomain \<in> set (storageAccessUnderTopFrameDomains r)) firstPartyDomain) in
      ensureAll (subresourceUniqueRedirectsTo r)
        (ensureAll (subresourceUnderTopFrameDomains r)
          (ensureAll (subframeUnderTopFrameDomains r) [])))"

definition hasBeenThirdParty :: "load_statistics \<Rightarrow> bool" where
  "hasBeenThirdParty r \<longleftrightarrow> subframeUnderTopFrameDomains r \<noteq> [] \<or> subresourceUnderTopFrameDomains r \<noteq> [] \<or>
     subresourceUniqueRedirectsTo r \<noteq> []"

definition aggregatedThirdPartyData :: "statistics_store \<Rightarrow> third_party_data list" where
  "aggregatedThirdPartyData s =
     rev (sort_key (\<lambda>t. length (snd t))
       (rev (map (\<lambda>r. (registrableDomain r, getThirdPartyDataForSpecificFirstPartyDomains r))
         (filter (\<lambda>r. hasBeenThirdParty r \<and> (m_thirdPartyCookieBlockingMode s = BlockAll \<or> isPrevalentResource r))
           (map snd (m_resourceStatisticsMap s))))))"

subsection \<open>Classification\<close>

definition featureVectorLengthThresholdHigh :: nat where
  "featureVectorLengthThresholdHigh = 3"

definition featureVectorLengthThresholdVeryHigh :: nat where
  "featureVectorLengthThresholdVeryHigh = 30"

text \<open>The comparison of the length of a vector with a threshold, on the squares.\<close>

definition vectorLongerThan :: "nat \<Rightarrow> nat \<Rightarrow> nat \<Rightarrow> nat \<Rightarrow> bool" where
  "vectorLongerThan threshold a b c \<longleftrightarrow> a * a + b * b + c * c > threshold * threshold"

definition classifyWithVectorThreshold :: "nat \<Rightarrow> nat \<Rightarrow> nat \<Rightarrow> bool" where
  "classifyWithVectorThreshold a b c = vectorLongerThan featureVectorLengthThresholdHigh a b c"

definition calculateResourcePrevalence_counts :: "nat \<Rightarrow> nat \<Rightarrow> nat \<Rightarrow> nat \<Rightarrow> prevalence \<Rightarrow> prevalence" where
  "calculateResourcePrevalence_counts subresourceUnderTopFrameDomainsCount subresourceUniqueRedirectsToCount
       subframeUnderTopFrameDomainsCount topFrameUniqueRedirectsToCount currentPrevalence =
     (if subresourceUnderTopFrameDomainsCount = 0 \<and> subresourceUniqueRedirectsToCount = 0 \<and>
         subframeUnderTopFrameDomainsCount = 0 \<and> topFrameUniqueRedirectsToCount = 0 then Low
      else if vectorLongerThan featureVectorLengthThresholdVeryHigh subresourceUnderTopFrameDomainsCount
         subresourceUniqueRedirectsToCount subframeUnderTopFrameDomainsCount then VeryHigh
      else if currentPrevalence = High \<or> subresourceUnderTopFrameDomainsCount > featureVectorLengthThresholdHigh \<or>
         subresourceUniqueRedirectsToCount > featureVectorLengthThresholdHigh \<or>
         subframeUnderTopFrameDomainsCount > featureVectorLengthThresholdHigh \<or>
         topFrameUniqueRedirectsToCount > featureVectorLengthThresholdHigh \<or>
         classifyWithVectorThreshold subresourceUnderTopFrameDomainsCount subresourceUniqueRedirectsToCount
           subframeUnderTopFrameDomainsCount then High
      else Low)"

definition calculateResourcePrevalence :: "load_statistics \<Rightarrow> prevalence \<Rightarrow> prevalence" where
  "calculateResourcePrevalence r currentPrevalence =
     calculateResourcePrevalence_counts (length (subresourceUnderTopFrameDomains r)) (length (subresourceUniqueRedirectsTo r))
       (length (subframeUnderTopFrameDomains r)) (length (topFrameUniqueRedirectsTo r)) currentPrevalence"

definition maxNumberOfRecursiveCallsInRedirectTraceBack :: nat where
  "maxNumberOfRecursiveCallsInRedirectTraceBack = 50"

text \<open>
  The search for the domains that redirected to a domain. The counter that the code passes through
  the search ends it after fifty calls, so it is at most fifty-one calls deep; the first argument bounds the depth.
\<close>

definition traceBackDomain ::
    "(load_statistics \<Rightarrow> domain list \<times> nat \<Rightarrow> domain list \<times> nat) \<Rightarrow> (domain \<times> load_statistics) list \<Rightarrow> domain \<Rightarrow>
     domain list \<times> nat \<Rightarrow> domain list \<times> nat" where
  "traceBackDomain recursively m domain acc =
     (case map_of m domain of
        None \<Rightarrow> acc
      | Some r \<Rightarrow>
          if isPrevalentResource r then acc
          else if registrableDomain r \<in> set (fst acc) then acc
          else recursively r (registrableDomain r # fst acc, snd acc))"

primrec traceBack ::
    "nat \<Rightarrow> (domain \<times> load_statistics) list \<Rightarrow> load_statistics \<Rightarrow> domain list \<times> nat \<Rightarrow> domain list \<times> nat" where
  "traceBack 0 m r acc = acc"
| "traceBack (Suc depth) m r acc =
     (if snd acc \<ge> maxNumberOfRecursiveCallsInRedirectTraceBack then acc
      else fold (traceBackDomain (traceBack depth m) m) (topFrameUniqueRedirectsFrom r)
        (fold (traceBackDomain (traceBack depth m) m) (subresourceUniqueRedirectsFrom r) (fst acc, Suc (snd acc))))"

definition recursivelyGetAllDomainsThatHaveRedirectedToThisDomain ::
    "(domain \<times> load_statistics) list \<Rightarrow> load_statistics \<Rightarrow> domain list \<times> nat \<Rightarrow> domain list \<times> nat" where
  "recursivelyGetAllDomainsThatHaveRedirectedToThisDomain m r acc =
     traceBack (Suc maxNumberOfRecursiveCallsInRedirectTraceBack) m r acc"

definition setPrevalentResource :: "domain \<Rightarrow> prevalence \<Rightarrow> statistics_store \<Rightarrow> statistics_store" where
  "setPrevalentResource domain newPrevalence s =
     (if shouldSkip s domain then s
      else let s = modifyStatistics domain (\<lambda>r. r\<lparr>isPrevalentResource := True,
                 isVeryPrevalentResource := newPrevalence = VeryHigh\<rparr>) s in
        case findStatistics domain s of
          None \<Rightarrow> s
        | Some r \<Rightarrow> fold (\<lambda>redirecting. modifyStatistics redirecting (\<lambda>r. r\<lparr>isPrevalentResource := True\<rparr>))
            (fst (recursivelyGetAllDomainsThatHaveRedirectedToThisDomain (m_resourceStatisticsMap s) r ([], 0))) s)"

definition isPrevalentIn :: "statistics_store \<Rightarrow> domain \<Rightarrow> bool" where
  "isPrevalentIn s domain \<longleftrightarrow> (case findStatistics domain s of None \<Rightarrow> False | Some r \<Rightarrow> isPrevalentResource r)"

definition markAsPrevalentIfHasRedirectedToPrevalent :: "domain \<Rightarrow> load_statistics \<Rightarrow> statistics_store \<Rightarrow> statistics_store" where
  "markAsPrevalentIfHasRedirectedToPrevalent domain r s =
     (if isPrevalentResource r then s
      else if \<exists>redirectedTo \<in> set (subresourceUniqueRedirectsTo r). isPrevalentIn s redirectedTo
        then setPrevalentResource domain High s
      else if \<exists>redirectedTo \<in> set (topFrameUniqueRedirectsTo r). isPrevalentIn s redirectedTo
        then setPrevalentResource domain High s
      else s)"

definition isPrevalentDueToDebugMode :: "statistics_store \<Rightarrow> domain \<Rightarrow> bool" where
  "isPrevalentDueToDebugMode s domain \<longleftrightarrow>
     m_debugModeEnabled s \<and> (domain = debugStaticPrevalentResource \<or> domain = m_debugManualPrevalentResource s)"

definition classifyResource :: "domain \<Rightarrow> statistics_store \<Rightarrow> statistics_store" where
  "classifyResource domain s =
     (if shouldSkip s domain then s
      else if isPrevalentDueToDebugMode s domain then setPrevalentResource domain High s
      else case findStatistics domain s of
        None \<Rightarrow> s
      | Some r \<Rightarrow>
          if isVeryPrevalentResource r then s
          else let s = markAsPrevalentIfHasRedirectedToPrevalent domain r s in
            case findStatistics domain s of
              None \<Rightarrow> s
            | Some r \<Rightarrow>
                let currentPrevalence = if isPrevalentResource r then High else Low;
                    newPrevalence = calculateResourcePrevalence r currentPrevalence in
                if newPrevalence \<noteq> currentPrevalence then setPrevalentResource domain newPrevalence s else s)"

definition classifyPrevalentResources :: "statistics_store \<Rightarrow> statistics_store" where
  "classifyPrevalentResources s = fold classifyResource (allDomains s) s"

subsection \<open>User interaction\<close>

definition hasHadUnexpiredRecentUserInteraction ::
    "statistics_env \<Rightarrow> seconds \<Rightarrow> statistics_store \<Rightarrow> dates_window \<Rightarrow> load_statistics \<Rightarrow> bool \<times> load_statistics" where
  "hasHadUnexpiredRecentUserInteraction E now s window r =
     (if hadUserInteraction r \<and> hasStatisticsExpired E now s (mostRecentUserInteractionTime r) window
      then (False, if window = LongWindow
        then r\<lparr>mostRecentUserInteractionTime := 0, storageAccessUnderTopFrameDomains := [], hadUserInteraction := False\<rparr>
        else r)
      else (hadUserInteraction r, r))"

definition hasHadUserInteraction ::
    "statistics_env \<Rightarrow> seconds \<Rightarrow> domain \<Rightarrow> dates_window \<Rightarrow> statistics_store \<Rightarrow> bool \<times> statistics_store" where
  "hasHadUserInteraction E now domain window s =
     (case findStatistics domain s of
        None \<Rightarrow> (False, s)
      | Some r \<Rightarrow> (case hasHadUnexpiredRecentUserInteraction E now s window r of
          (result, r) \<Rightarrow> (result, modifyStatistics domain (\<lambda>_. r) s)))"

subsection \<open>Blocking of cookies\<close>

text \<open>One round of the loop over the map, for an entry and the lists so far.\<close>

definition updateCookieBlockingFor ::
    "statistics_env \<Rightarrow> seconds \<Rightarrow> statistics_store \<Rightarrow> domain \<times> load_statistics \<Rightarrow>
     (domain \<times> load_statistics) list \<times> blocked_domains \<Rightarrow> (domain \<times> load_statistics) list \<times> blocked_domains" where
  "updateCookieBlockingFor E now s e acc =
     (case hasHadUnexpiredRecentUserInteraction E now s LongWindow (snd e) of
        (interacted, r) \<Rightarrow>
          (fst acc @ [(fst e, r)],
           if interacted then
             (let b = if isPrevalentResource r
                then (snd acc)\<lparr>domainsToBlockButKeepCookiesFor := domainsToBlockButKeepCookiesFor (snd acc) @ [registrableDomain r]\<rparr>
                else snd acc in
              b\<lparr>domainsWithUserInteractionAsFirstParty := domainsWithUserInteractionAsFirstParty b @ [registrableDomain r]\<rparr>)
           else if isPrevalentResource r
             then (snd acc)\<lparr>domainsToBlockAndDeleteCookiesFor := domainsToBlockAndDeleteCookiesFor (snd acc) @ [registrableDomain r]\<rparr>
           else snd acc))"

definition no_blocked_domains :: blocked_domains where
  "no_blocked_domains = \<lparr>domainsToBlockAndDeleteCookiesFor = [], domainsToBlockButKeepCookiesFor = [],
     domainsWithUserInteractionAsFirstParty = [], domainsWithStorageAccess = []\<rparr>"

definition updateCookieBlocking :: "statistics_env \<Rightarrow> seconds \<Rightarrow> statistics_store \<Rightarrow> statistics_store with_effects" where
  "updateCookieBlocking E now s =
     (case fold (updateCookieBlockingFor E now s) (m_resourceStatisticsMap s) ([], no_blocked_domains) of
        (m, b) \<Rightarrow> (s\<lparr>m_resourceStatisticsMap := m\<rparr>,
          if b = no_blocked_domains \<and> \<not> m_debugModeEnabled s then [] else [UpdateCookieBlocking b]))"

definition updateCookieBlockingForDomains :: "blocked_domains \<Rightarrow> effect list" where
  "updateCookieBlockingForDomains b = [UpdateCookieBlocking b]"

definition shouldBlockAndKeepCookies :: "load_statistics \<Rightarrow> bool" where
  "shouldBlockAndKeepCookies r \<longleftrightarrow> isPrevalentResource r \<and> hadUserInteraction r"

definition shouldBlockAndPurgeCookies :: "load_statistics \<Rightarrow> bool" where
  "shouldBlockAndPurgeCookies r \<longleftrightarrow> isPrevalentResource r \<and> \<not> hadUserInteraction r"

subsection \<open>Storage access\<close>

definition areAllThirdPartyCookiesBlockedUnder ::
    "statistics_env \<Rightarrow> seconds \<Rightarrow> domain \<Rightarrow> statistics_store \<Rightarrow> bool \<times> statistics_store" where
  "areAllThirdPartyCookiesBlockedUnder E now topFrameDomain s =
     (if m_thirdPartyCookieBlockingMode s = BlockAll then (True, s)
      else if m_thirdPartyCookieBlockingMode s = AllOnSitesWithoutUserInteraction
        then (case hasHadUserInteraction E now topFrameDomain LongWindow s of (interacted, s) \<Rightarrow> (\<not> interacted, s))
      else (False, s))"

definition cookieAccess ::
    "statistics_env \<Rightarrow> seconds \<Rightarrow> load_statistics \<Rightarrow> domain \<Rightarrow> statistics_store \<Rightarrow> cookie_access \<times> statistics_store" where
  "cookieAccess E now r topFrameDomain s =
     (case areAllThirdPartyCookiesBlockedUnder E now topFrameDomain s of
        (blocked, s) \<Rightarrow>
          (if \<not> blocked \<and> \<not> isPrevalentResource r then BasedOnCookiePolicy
           else if \<not> hadUserInteraction r then CannotRequest
           else OnlyIfGranted, s))"

definition cookieAccessOf ::
    "statistics_env \<Rightarrow> seconds \<Rightarrow> domain \<Rightarrow> domain \<Rightarrow> statistics_store \<Rightarrow> cookie_access \<times> statistics_store" where
  "cookieAccessOf E now subFrameDomain topFrameDomain s =
     (let s = ensureResourceStatisticsForRegistrableDomain E subFrameDomain s in
      cookieAccess E now (the (findStatistics subFrameDomain s)) topFrameDomain s)"

text \<open>A reply is \<^term>\<open>None\<close> when it waits for the main thread. Taking the value of a missing frame crashes.\<close>

definition hasStorageAccess ::
    "statistics_env \<Rightarrow> seconds \<Rightarrow> domain \<Rightarrow> domain \<Rightarrow> u64 option \<Rightarrow> u64 \<Rightarrow> statistics_store \<Rightarrow>
     (bool option \<times> statistics_store with_effects) option" where
  "hasStorageAccess E now subFrameDomain topFrameDomain frameID pageID s =
     (case cookieAccessOf E now subFrameDomain topFrameDomain s of
        (CannotRequest, s) \<Rightarrow> Some (Some False, s, [])
      | (BasedOnCookiePolicy, s) \<Rightarrow> Some (None, s, [AskHasCookies subFrameDomain])
      | (OnlyIfGranted, s) \<Rightarrow> (case frameID of
          None \<Rightarrow> None
        | Some frame \<Rightarrow> Some (None, s, [AskHasStorageAccess subFrameDomain topFrameDomain frame pageID])))"

definition hasUserGrantedStorageAccessThroughPrompt :: "load_statistics \<Rightarrow> domain \<Rightarrow> bool" where
  "hasUserGrantedStorageAccessThroughPrompt r firstPartyDomain \<longleftrightarrow> firstPartyDomain \<in> set (storageAccessUnderTopFrameDomains r)"

definition grantStorageAccessInternal ::
    "statistics_env \<Rightarrow> seconds \<Rightarrow> domain \<Rightarrow> domain \<Rightarrow> u64 option \<Rightarrow> u64 \<Rightarrow> bool \<Rightarrow> storage_access_scope \<Rightarrow> statistics_store \<Rightarrow>
     bool option \<times> statistics_store with_effects" where
  "grantStorageAccessInternal E now subFrameDomain topFrameDomain frameID pageID promptWasShown scope s =
     (if subFrameDomain = topFrameDomain then (Some True, s, [])
      else (None,
        if promptWasShown then changeStatistics E subFrameDomain (\<lambda>r. r\<lparr>mostRecentUserInteractionTime := now\<rparr>) s else s,
        [GrantStorageAccess subFrameDomain topFrameDomain frameID pageID scope]))"

definition grantStorageAccess ::
    "statistics_env \<Rightarrow> seconds \<Rightarrow> domain \<Rightarrow> domain \<Rightarrow> u64 \<Rightarrow> u64 \<Rightarrow> bool \<Rightarrow> storage_access_scope \<Rightarrow> statistics_store \<Rightarrow>
     bool option \<times> statistics_store with_effects" where
  "grantStorageAccess E now subFrameDomain topFrameDomain frameID pageID promptWasShown scope s =
     grantStorageAccessInternal E now subFrameDomain topFrameDomain (Some frameID) pageID promptWasShown scope
       (if promptWasShown
        then changeStatistics E subFrameDomain (\<lambda>r. r\<lparr>storageAccessUnderTopFrameDomains :=
          List.insert topFrameDomain (storageAccessUnderTopFrameDomains r)\<rparr>) s
        else s)"

definition status_of_grant :: "bool \<Rightarrow> storage_access_status" where
  "status_of_grant wasGranted = (if wasGranted then HasAccess else CannotRequestAccess)"

definition requestStorageAccess ::
    "statistics_env \<Rightarrow> seconds \<Rightarrow> domain \<Rightarrow> domain \<Rightarrow> u64 \<Rightarrow> u64 \<Rightarrow> storage_access_scope \<Rightarrow> statistics_store \<Rightarrow>
     storage_access_status option \<times> statistics_store with_effects" where
  "requestStorageAccess E now subFrameDomain topFrameDomain frameID pageID scope s =
     (case cookieAccessOf E now subFrameDomain topFrameDomain s of
        (CannotRequest, s) \<Rightarrow> (Some CannotRequestAccess, s, [])
      | (BasedOnCookiePolicy, s) \<Rightarrow> (Some HasAccess, s, [])
      | (OnlyIfGranted, s) \<Rightarrow>
          if \<not> hasUserGrantedStorageAccessThroughPrompt (the (findStatistics subFrameDomain s)) topFrameDomain
          then (Some RequiresUserPrompt, s, [])
          else case grantStorageAccessInternal E now subFrameDomain topFrameDomain (Some frameID) pageID True scope
              (modifyStatistics subFrameDomain (\<lambda>r. r\<lparr>timesAccessedAsFirstPartyDueToStorageAccessAPI :=
                timesAccessedAsFirstPartyDueToStorageAccessAPI r + 1\<rparr>) s) of
            (reply, s, effects) \<Rightarrow> (map_option status_of_grant reply, s, effects))"

definition requestStorageAccessUnderOpener ::
    "statistics_env \<Rightarrow> seconds \<Rightarrow> domain \<Rightarrow> u64 \<Rightarrow> domain \<Rightarrow> statistics_store \<Rightarrow> statistics_store with_effects" where
  "requestStorageAccessUnderOpener E now domainInNeedOfStorageAccess openerPageID openerDomain s =
     (if domainInNeedOfStorageAccess = openerDomain then (s, [])
      else snd (grantStorageAccessInternal E now domainInNeedOfStorageAccess openerDomain None openerPageID False PerPage s))"

subsection \<open>Logging\<close>

definition scheduleStatisticsProcessingRequestIfNecessary :: "statistics_store \<Rightarrow> statistics_store" where
  "scheduleStatisticsProcessingRequestIfNecessary s =
     (let identifier = m_lastStatisticsProcessingRequestIdentifier s + 1 in
      s\<lparr>m_lastStatisticsProcessingRequestIdentifier := identifier,
        m_pendingStatisticsProcessingRequestIdentifier := Some identifier, m_scheduled := m_scheduled s @ [identifier]\<rparr>)"

definition cancelPendingStatisticsProcessingRequest :: "statistics_store \<Rightarrow> statistics_store" where
  "cancelPendingStatisticsProcessingRequest s = s\<lparr>m_pendingStatisticsProcessingRequestIdentifier := None\<rparr>"

text \<open>Adding to a set of an entry of the map, and whether the set had the element.\<close>

definition addToSet ::
    "statistics_env \<Rightarrow> (load_statistics \<Rightarrow> domain list) \<Rightarrow> ((domain list \<Rightarrow> domain list) \<Rightarrow> load_statistics \<Rightarrow> load_statistics) \<Rightarrow>
     domain \<Rightarrow> domain \<Rightarrow> bool \<times> statistics_store \<Rightarrow> bool \<times> statistics_store" where
  "addToSet E get_set update_set domain element acc =
     (let s = ensureResourceStatisticsForRegistrableDomain E domain (snd acc) in
      (fst acc \<or> element \<notin> set (get_set (the (findStatistics domain s))),
       modifyStatistics domain (update_set (List.insert element)) s))"

definition logFrameNavigation ::
    "statistics_env \<Rightarrow> seconds \<Rightarrow> domain \<Rightarrow> domain \<Rightarrow> domain \<Rightarrow> bool \<Rightarrow> bool \<Rightarrow> seconds \<Rightarrow> bool \<Rightarrow> statistics_store \<Rightarrow> statistics_store" where
  "logFrameNavigation E now targetDomain topFrameDomain sourceDomain isRedirect isMainFrame delayAfterMainFrameDocumentLoad
       wasPotentiallyInitiatedByUser s =
     (let areTargetAndTopFrameDomainsSameSite = targetDomain = topFrameDomain;
          areTargetAndSourceDomainsSameSite = targetDomain = sourceDomain;
          acc = (if \<not> isMainFrame \<and> \<not> (areTargetAndTopFrameDomainsSameSite \<or> areTargetAndSourceDomainsSameSite)
            then addToSet E subframeUnderTopFrameDomains subframeUnderTopFrameDomains_update targetDomain topFrameDomain
              (False, changeStatistics E targetDomain (\<lambda>r. r\<lparr>lastSeen := reduceTimeResolution E now\<rparr>) s)
            else (False, s));
          acc = (if \<not> areTargetAndSourceDomainsSameSite then
              (if isMainFrame then
                 (let acc = (fst acc, ensureResourceStatisticsForRegistrableDomain E sourceDomain (snd acc));
                      wasNavigatedAfterShortDelayWithoutUserInteraction = \<not> wasPotentiallyInitiatedByUser \<and>
                        delayAfterMainFrameDocumentLoad < minDelayAfterMainFrameDocumentLoadToNotBeARedirect (m_parameters s) in
                  if isRedirect \<or> wasNavigatedAfterShortDelayWithoutUserInteraction then
                    (let acc = addToSet E topFrameUniqueRedirectsTo topFrameUniqueRedirectsTo_update sourceDomain targetDomain acc;
                         acc = (if isRedirect then addToSet E topFrameUniqueRedirectsToSinceSameSiteStrictEnforcement
                             topFrameUniqueRedirectsToSinceSameSiteStrictEnforcement_update sourceDomain targetDomain acc
                           else acc) in
                     addToSet E topFrameUniqueRedirectsFrom topFrameUniqueRedirectsFrom_update targetDomain sourceDomain acc)
                  else acc)
               else if isRedirect then
                 addToSet E subresourceUniqueRedirectsFrom subresourceUniqueRedirectsFrom_update targetDomain sourceDomain
                   (addToSet E subresourceUniqueRedirectsTo subresourceUniqueRedirectsTo_update sourceDomain targetDomain acc)
               else acc)
            else acc) in
      if fst acc then scheduleStatisticsProcessingRequestIfNecessary (snd acc) else snd acc)"

definition logUserInteraction :: "statistics_env \<Rightarrow> seconds \<Rightarrow> domain \<Rightarrow> statistics_store \<Rightarrow> statistics_store with_effects" where
  "logUserInteraction E now domain s =
     (let s = ensureResourceStatisticsForRegistrableDomain E domain s;
          didHavePreviousUserInteraction = hadUserInteraction (the (findStatistics domain s));
          s = modifyStatistics domain (\<lambda>r. r\<lparr>hadUserInteraction := True, mostRecentUserInteractionTime := now\<rparr>) s in
      if didHavePreviousUserInteraction then (s, []) else updateCookieBlocking E now s)"

definition clearUserInteraction :: "statistics_env \<Rightarrow> seconds \<Rightarrow> domain \<Rightarrow> statistics_store \<Rightarrow> statistics_store with_effects" where
  "clearUserInteraction E now domain s =
     (let s = ensureResourceStatisticsForRegistrableDomain E domain s;
          didHavePreviousUserInteraction = hadUserInteraction (the (findStatistics domain s));
          s = modifyStatistics domain (\<lambda>r. r\<lparr>hadUserInteraction := False, mostRecentUserInteractionTime := 0\<rparr>) s in
      if \<not> didHavePreviousUserInteraction then (s, []) else updateCookieBlocking E now s)"

definition logCrossSiteLoadWithLinkDecoration :: "statistics_env \<Rightarrow> domain \<Rightarrow> domain \<Rightarrow> statistics_store \<Rightarrow> statistics_store" where
  "logCrossSiteLoadWithLinkDecoration E fromDomain toDomain s =
     (let s = changeStatistics E toDomain (\<lambda>r. r\<lparr>topFrameLinkDecorationsFrom :=
            List.insert fromDomain (topFrameLinkDecorationsFrom r)\<rparr>) s;
          s = ensureResourceStatisticsForRegistrableDomain E fromDomain s in
      if isPrevalentResource (the (findStatistics fromDomain s))
      then modifyStatistics toDomain (\<lambda>r. r\<lparr>gotLinkDecorationFromPrevalentResource := True\<rparr>) s
      else s)"

subsection \<open>Setting and reading statistics\<close>

definition incrementRecordsDeletedCountForDomains :: "statistics_env \<Rightarrow> domain list \<Rightarrow> statistics_store \<Rightarrow> statistics_store" where
  "incrementRecordsDeletedCountForDomains E domains =
     fold (\<lambda>domain. changeStatistics E domain (\<lambda>r. r\<lparr>dataRecordsRemoved := dataRecordsRemoved r + 1\<rparr>)) domains"

definition grandfatherDataForDomains :: "statistics_env \<Rightarrow> domain list \<Rightarrow> statistics_store \<Rightarrow> statistics_store" where
  "grandfatherDataForDomains E domains = fold (\<lambda>domain. changeStatistics E domain (\<lambda>r. r\<lparr>grandfathered := True\<rparr>)) domains"

definition setPrevalentResource_domain :: "statistics_env \<Rightarrow> domain \<Rightarrow> statistics_store \<Rightarrow> statistics_store" where
  "setPrevalentResource_domain E domain s =
     (if shouldSkip s domain then s
      else setPrevalentResource domain High (ensureResourceStatisticsForRegistrableDomain E domain s))"

definition setVeryPrevalentResource :: "statistics_env \<Rightarrow> domain \<Rightarrow> statistics_store \<Rightarrow> statistics_store" where
  "setVeryPrevalentResource E domain s =
     (if shouldSkip s domain then s
      else setPrevalentResource domain VeryHigh (ensureResourceStatisticsForRegistrableDomain E domain s))"

definition clearPrevalentResource :: "statistics_env \<Rightarrow> domain \<Rightarrow> statistics_store \<Rightarrow> statistics_store" where
  "clearPrevalentResource E domain =
     changeStatistics E domain (\<lambda>r. r\<lparr>isPrevalentResource := False, isVeryPrevalentResource := False\<rparr>)"

definition isPrevalentResource_domain :: "statistics_store \<Rightarrow> domain \<Rightarrow> bool" where
  "isPrevalentResource_domain s domain \<longleftrightarrow> \<not> shouldSkip s domain \<and>
     (case findStatistics domain s of None \<Rightarrow> False | Some r \<Rightarrow> isPrevalentResource r)"

definition isVeryPrevalentResource_domain :: "statistics_store \<Rightarrow> domain \<Rightarrow> bool" where
  "isVeryPrevalentResource_domain s domain \<longleftrightarrow> \<not> shouldSkip s domain \<and>
     (case findStatistics domain s of None \<Rightarrow> False | Some r \<Rightarrow> isPrevalentResource r \<and> isVeryPrevalentResource r)"

definition isRegisteredAsSubresourceUnder :: "statistics_store \<Rightarrow> domain \<Rightarrow> domain \<Rightarrow> bool" where
  "isRegisteredAsSubresourceUnder s subresourceDomain topFrameDomain \<longleftrightarrow>
     (case findStatistics subresourceDomain s of None \<Rightarrow> False | Some r \<Rightarrow> topFrameDomain \<in> set (subresourceUnderTopFrameDomains r))"

definition isRegisteredAsSubFrameUnder :: "statistics_store \<Rightarrow> domain \<Rightarrow> domain \<Rightarrow> bool" where
  "isRegisteredAsSubFrameUnder s subFrameDomain topFrameDomain \<longleftrightarrow>
     (case findStatistics subFrameDomain s of None \<Rightarrow> False | Some r \<Rightarrow> topFrameDomain \<in> set (subframeUnderTopFrameDomains r))"

definition isRegisteredAsRedirectingTo :: "statistics_store \<Rightarrow> domain \<Rightarrow> domain \<Rightarrow> bool" where
  "isRegisteredAsRedirectingTo s redirectedFromDomain redirectedToDomain \<longleftrightarrow>
     (case findStatistics redirectedFromDomain s of None \<Rightarrow> False | Some r \<Rightarrow> redirectedToDomain \<in> set (subresourceUniqueRedirectsTo r))"

definition setGrandfathered :: "statistics_env \<Rightarrow> domain \<Rightarrow> bool \<Rightarrow> statistics_store \<Rightarrow> statistics_store" where
  "setGrandfathered E domain b = changeStatistics E domain (\<lambda>r. r\<lparr>grandfathered := b\<rparr>)"

definition isGrandfathered :: "statistics_store \<Rightarrow> domain \<Rightarrow> bool" where
  "isGrandfathered s domain \<longleftrightarrow> (case findStatistics domain s of None \<Rightarrow> False | Some r \<Rightarrow> grandfathered r)"

definition setLastSeen :: "statistics_env \<Rightarrow> domain \<Rightarrow> seconds \<Rightarrow> statistics_store \<Rightarrow> statistics_store" where
  "setLastSeen E domain time = changeStatistics E domain (\<lambda>r. r\<lparr>lastSeen := time\<rparr>)"

text \<open>These also make sure that the other domain has an entry.\<close>

definition setSubframeUnderTopFrameDomain :: "statistics_env \<Rightarrow> domain \<Rightarrow> domain \<Rightarrow> statistics_store \<Rightarrow> statistics_store" where
  "setSubframeUnderTopFrameDomain E subFrameDomain topFrameDomain s =
     ensureResourceStatisticsForRegistrableDomain E topFrameDomain
       (changeStatistics E subFrameDomain (subframeUnderTopFrameDomains_update (List.insert topFrameDomain)) s)"

definition setSubresourceUnderTopFrameDomain :: "statistics_env \<Rightarrow> domain \<Rightarrow> domain \<Rightarrow> statistics_store \<Rightarrow> statistics_store" where
  "setSubresourceUnderTopFrameDomain E subresourceDomain topFrameDomain s =
     ensureResourceStatisticsForRegistrableDomain E topFrameDomain
       (changeStatistics E subresourceDomain (subresourceUnderTopFrameDomains_update (List.insert topFrameDomain)) s)"

definition setSubresourceUniqueRedirectTo :: "statistics_env \<Rightarrow> domain \<Rightarrow> domain \<Rightarrow> statistics_store \<Rightarrow> statistics_store" where
  "setSubresourceUniqueRedirectTo E subresourceDomain redirectDomain s =
     ensureResourceStatisticsForRegistrableDomain E redirectDomain
       (changeStatistics E subresourceDomain (subresourceUniqueRedirectsTo_update (List.insert redirectDomain)) s)"

definition setSubresourceUniqueRedirectFrom :: "statistics_env \<Rightarrow> domain \<Rightarrow> domain \<Rightarrow> statistics_store \<Rightarrow> statistics_store" where
  "setSubresourceUniqueRedirectFrom E subresourceDomain redirectDomain s =
     ensureResourceStatisticsForRegistrableDomain E redirectDomain
       (changeStatistics E subresourceDomain (subresourceUniqueRedirectsFrom_update (List.insert redirectDomain)) s)"

definition setTopFrameUniqueRedirectTo :: "statistics_env \<Rightarrow> domain \<Rightarrow> domain \<Rightarrow> statistics_store \<Rightarrow> statistics_store" where
  "setTopFrameUniqueRedirectTo E topFrameDomain redirectDomain s =
     ensureResourceStatisticsForRegistrableDomain E redirectDomain
       (changeStatistics E topFrameDomain (\<lambda>r. r\<lparr>
          topFrameUniqueRedirectsTo := List.insert redirectDomain (topFrameUniqueRedirectsTo r),
          topFrameUniqueRedirectsToSinceSameSiteStrictEnforcement :=
            List.insert redirectDomain (topFrameUniqueRedirectsToSinceSameSiteStrictEnforcement r)\<rparr>) s)"

definition setTopFrameUniqueRedirectFrom :: "statistics_env \<Rightarrow> domain \<Rightarrow> domain \<Rightarrow> statistics_store \<Rightarrow> statistics_store" where
  "setTopFrameUniqueRedirectFrom E topFrameDomain redirectDomain s =
     ensureResourceStatisticsForRegistrableDomain E redirectDomain
       (changeStatistics E topFrameDomain (topFrameUniqueRedirectsFrom_update (List.insert redirectDomain)) s)"

definition forgetDomain :: "domain \<Rightarrow> load_statistics \<Rightarrow> load_statistics" where
  "forgetDomain domain r = r\<lparr>
     topFrameUniqueRedirectsTo := removeAll domain (topFrameUniqueRedirectsTo r),
     topFrameUniqueRedirectsToSinceSameSiteStrictEnforcement :=
       removeAll domain (topFrameUniqueRedirectsToSinceSameSiteStrictEnforcement r),
     topFrameUniqueRedirectsFrom := removeAll domain (topFrameUniqueRedirectsFrom r),
     topFrameLinkDecorationsFrom := removeAll domain (topFrameLinkDecorationsFrom r),
     topFrameLoadedThirdPartyScripts := removeAll domain (topFrameLoadedThirdPartyScripts r),
     subframeUnderTopFrameDomains := removeAll domain (subframeUnderTopFrameDomains r),
     subresourceUnderTopFrameDomains := removeAll domain (subresourceUnderTopFrameDomains r),
     subresourceUniqueRedirectsTo := removeAll domain (subresourceUniqueRedirectsTo r),
     subresourceUniqueRedirectsFrom := removeAll domain (subresourceUniqueRedirectsFrom r)\<rparr>"

definition removeDataForDomain :: "domain \<Rightarrow> statistics_store \<Rightarrow> statistics_store" where
  "removeDataForDomain domain s =
     s\<lparr>m_resourceStatisticsMap :=
       map (\<lambda>e. (fst e, forgetDomain domain (snd e))) (AList.delete domain (m_resourceStatisticsMap s))\<rparr>"

definition ensurePrevalentResourcesForDebugMode :: "statistics_env \<Rightarrow> statistics_store \<Rightarrow> domain list \<times> statistics_store" where
  "ensurePrevalentResourcesForDebugMode E s =
     (if \<not> m_debugModeEnabled s then ([], s)
      else let s = setPrevalentResource debugStaticPrevalentResource High
             (ensureResourceStatisticsForRegistrableDomain E debugStaticPrevalentResource s);
           manual = m_debugManualPrevalentResource s in
        if manual \<noteq> [] then ([debugStaticPrevalentResource, manual],
          setPrevalentResource manual High (ensureResourceStatisticsForRegistrableDomain E manual s))
        else ([debugStaticPrevalentResource], s))"

definition setResourceLoadStatisticsDebugMode ::
    "statistics_env \<Rightarrow> seconds \<Rightarrow> bool \<Rightarrow> statistics_store \<Rightarrow> statistics_store with_effects" where
  "setResourceLoadStatisticsDebugMode E now enable s =
     (if m_debugModeEnabled s = enable then (s, [])
      else let s = snd (ensurePrevalentResourcesForDebugMode E (s\<lparr>m_debugModeEnabled := enable\<rparr>)) in
        if enable then updateCookieBlocking E now s else (s, []))"

definition setPrevalentResourceForDebugMode :: "domain \<Rightarrow> statistics_store \<Rightarrow> statistics_store" where
  "setPrevalentResourceForDebugMode domain s = s\<lparr>m_debugManualPrevalentResource := domain\<rparr>"

definition memory_clear :: "statistics_env \<Rightarrow> statistics_store \<Rightarrow> statistics_store with_effects" where
  "memory_clear E s =
     (case ensurePrevalentResourcesForDebugMode E (s\<lparr>m_resourceStatisticsMap := [], m_operatingDates := []\<rparr>) of
        (domains, s) \<Rightarrow> (s, RemoveAllStorageAccess #
          updateCookieBlockingForDomains (no_blocked_domains\<lparr>domainsToBlockAndDeleteCookiesFor := domains\<rparr>)))"

subsection \<open>Merging and the file\<close>

definition mergeStatistic :: "statistics_env \<Rightarrow> load_statistics \<Rightarrow> statistics_store \<Rightarrow> statistics_store" where
  "mergeStatistic E statistic s =
     (if findStatistics (registrableDomain statistic) s = None
      then s\<lparr>m_resourceStatisticsMap := m_resourceStatisticsMap s @ [(registrableDomain statistic, statistic)]\<rparr>
      else modifyStatistics (registrableDomain statistic) (\<lambda>r. merge_statistic E r statistic) s)"

definition mergeStatistics :: "statistics_env \<Rightarrow> load_statistics list \<Rightarrow> statistics_store \<Rightarrow> statistics_store" where
  "mergeStatistics E statistics = fold (mergeStatistic E) statistics"

text \<open>What the keyed decoder of WebCore reads: each field is missing if it cannot be decoded.\<close>

record statistics_file =
  file_version :: "nat option"
  file_endOfGrandfatheringTimestamp :: "seconds option"
  file_browsingStatistics :: "load_statistics list option"
  file_operatingDates :: "seconds list option"

definition statisticsModelVersion :: nat where
  "statisticsModelVersion = 17"

definition createEncoderFromData :: "statistics_env \<Rightarrow> statistics_store \<Rightarrow> statistics_file" where
  "createEncoderFromData E s =
     \<lparr>file_version = Some statisticsModelVersion,
      file_endOfGrandfatheringTimestamp = Some (m_endOfGrandfatheringTimestamp s),
      file_browsingStatistics = Some (map snd (m_resourceStatisticsMap s)),
      file_operatingDates = Some (map (secondsSinceEpoch E) (m_operatingDates s))\<rparr>"

definition mergeWithDataFromDecoder ::
    "statistics_env \<Rightarrow> seconds \<Rightarrow> statistics_file \<Rightarrow> statistics_store \<Rightarrow> statistics_store with_effects" where
  "mergeWithDataFromDecoder E now file s =
     (case file_version file of
        None \<Rightarrow> (s, [])
      | Some versionOnDisk \<Rightarrow>
          if versionOnDisk > statisticsModelVersion then (s, [])
          else let s = s\<lparr>m_endOfGrandfatheringTimestamp :=
                 (case file_endOfGrandfatheringTimestamp file of None \<Rightarrow> 0 | Some time \<Rightarrow> time)\<rparr> in
            case file_browsingStatistics file of
              None \<Rightarrow> (s, [])
            | Some loadedStatistics \<Rightarrow>
                (case updateCookieBlocking E now (mergeStatistics E loadedStatistics s) of
                   (s, effects) \<Rightarrow>
                     (case file_operatingDates file of
                        None \<Rightarrow> s
                      | Some dateTimes \<Rightarrow> s\<lparr>m_operatingDates :=
                          mergeOperatingDates E (m_operatingDates s) (map (fromWallTime E) dateTimes)\<rparr>, effects)))"

definition insertExpiredStatisticForTesting ::
    "statistics_env \<Rightarrow> seconds \<Rightarrow> domain \<Rightarrow> nat \<Rightarrow> bool \<Rightarrow> bool \<Rightarrow> bool \<Rightarrow> statistics_store \<Rightarrow> statistics_store" where
  "insertExpiredStatisticForTesting E now domain numberOfOperatingDaysPassed hasUserInteraction
       isScheduledForAllButCookieDataRemoval isPrevalent s =
     (let dates = map (\<lambda>i. fromWallTime E (now - secondsPerDay * int i)) [1..<Suc numberOfOperatingDaysPassed];
          daysAgoInSeconds = (if numberOfOperatingDaysPassed = 0 then 0
            else now - secondsPerDay * int numberOfOperatingDaysPassed) - secondsPerDay;
          statistic = (newStatistics E domain)\<lparr>lastSeen := daysAgoInSeconds, hadUserInteraction := hasUserInteraction,
            mostRecentUserInteractionTime := daysAgoInSeconds, isPrevalentResource := isPrevalent,
            gotLinkDecorationFromPrevalentResource := isScheduledForAllButCookieDataRemoval\<rparr>;
          s = s\<lparr>m_operatingDates := m_operatingDates s @ dates\<rparr> in
      if findStatistics domain s = None
      then s\<lparr>m_resourceStatisticsMap := m_resourceStatisticsMap s @ [(domain, statistic)]\<rparr>
      else s)"

subsection \<open>Removal of website data\<close>

definition shouldRemoveAllWebsiteDataFor ::
    "statistics_env \<Rightarrow> seconds \<Rightarrow> statistics_store \<Rightarrow> bool \<Rightarrow> load_statistics \<Rightarrow> bool \<times> load_statistics" where
  "shouldRemoveAllWebsiteDataFor E now s shouldCheckForGrandfathering r =
     (if \<not> isPrevalentResource r then (False, r)
      else case hasHadUnexpiredRecentUserInteraction E now s LongWindow r of
        (interacted, r) \<Rightarrow> (\<not> interacted \<and> (\<not> shouldCheckForGrandfathering \<or> \<not> grandfathered r), r))"

definition shouldRemoveAllButCookiesFor ::
    "statistics_env \<Rightarrow> seconds \<Rightarrow> statistics_store \<Rightarrow> bool \<Rightarrow> load_statistics \<Rightarrow> bool \<times> load_statistics" where
  "shouldRemoveAllButCookiesFor E now s shouldCheckForGrandfathering r =
     (let isRemovalEnabled = m_firstPartyWebsiteDataRemovalMode s \<noteq> NoRemoval \<or> gotLinkDecorationFromPrevalentResource r;
          isResourceGrandfathered = shouldCheckForGrandfathering \<and> grandfathered r;
          window = (case m_firstPartyWebsiteDataRemovalMode s of
              AllButCookies \<Rightarrow> ShortWindow
            | NoRemoval \<Rightarrow> ShortWindow
            | AllButCookiesLiveOnTestingTimeout \<Rightarrow> ForLiveOnTesting
            | AllButCookiesReproTestingTimeout \<Rightarrow> ForReproTesting) in
      if isRemovalEnabled \<and> \<not> isResourceGrandfathered
      then (case hasHadUnexpiredRecentUserInteraction E now s window r of (interacted, r) \<Rightarrow> (\<not> interacted, r))
      else (False, r))"

definition shouldEnforceSameSiteStrictForSpecificDomain :: "domain \<Rightarrow> bool" where
  "shouldEnforceSameSiteStrictForSpecificDomain domain = False"

definition shouldEnforceSameSiteStrictFor :: "statistics_store \<Rightarrow> bool \<Rightarrow> load_statistics \<Rightarrow> bool \<times> load_statistics" where
  "shouldEnforceSameSiteStrictFor s shouldCheckForGrandfathering r =
     (if \<not> m_sameSiteStrictEnforcementEnabled s \<and> \<not> shouldEnforceSameSiteStrictForSpecificDomain (registrableDomain r) \<or>
         shouldCheckForGrandfathering \<and> grandfathered r then (False, r)
      else if length (topFrameUniqueRedirectsToSinceSameSiteStrictEnforcement r) >
         minimumTopFrameRedirectsForSameSiteStrictEnforcement (m_parameters s)
      then (True, r\<lparr>topFrameUniqueRedirectsToSinceSameSiteStrictEnforcement := []\<rparr>)
      else (False, r))"

definition mostRecentUserInteractionTime_opt :: "load_statistics \<Rightarrow> seconds option" where
  "mostRecentUserInteractionTime_opt r =
     (if mostRecentUserInteractionTime r \<le> 0 then None else Some (mostRecentUserInteractionTime r))"

text \<open>What is removed or restricted for one entry, added to the lists so far, and the changed entry.\<close>

definition removeOrRestrict ::
    "statistics_env \<Rightarrow> seconds \<Rightarrow> statistics_store \<Rightarrow> bool \<Rightarrow> load_statistics \<Rightarrow> removed_domains \<Rightarrow> removed_domains \<times> load_statistics" where
  "removeOrRestrict E now s shouldCheckForGrandfathering r d =
     (let removeAll = shouldRemoveAllWebsiteDataFor E now s shouldCheckForGrandfathering r; r = snd removeAll in
      if fst removeAll
      then (d\<lparr>domainsToDeleteAllCookiesFor := domainsToDeleteAllCookiesFor d @ [registrableDomain r],
              domainsToDeleteAllNonCookieWebsiteDataFor := domainsToDeleteAllNonCookieWebsiteDataFor d @ [registrableDomain r]\<rparr>, r)
      else let removeAllBut = shouldRemoveAllButCookiesFor E now s shouldCheckForGrandfathering r;
               r = snd removeAllBut;
               d = (if fst removeAllBut
                 then d\<lparr>domainsToDeleteAllNonCookieWebsiteDataFor := domainsToDeleteAllNonCookieWebsiteDataFor d @ [registrableDomain r]\<rparr>
                 else d);
               r = (if fst removeAllBut then r\<lparr>gotLinkDecorationFromPrevalentResource := False\<rparr> else r);
               enforce = shouldEnforceSameSiteStrictFor s shouldCheckForGrandfathering r; r = snd enforce in
           (if fst enforce
            then d\<lparr>domainsToEnforceSameSiteStrictFor := domainsToEnforceSameSiteStrictFor d @ [registrableDomain r]\<rparr> else d, r))"

text \<open>One round of the loop: the lists, the oldest interaction and the changed entry.\<close>

definition removalRound ::
    "statistics_env \<Rightarrow> seconds \<Rightarrow> statistics_store \<Rightarrow> bool \<Rightarrow> bool \<Rightarrow> domain \<times> load_statistics \<Rightarrow>
     (domain \<times> load_statistics) list \<times> removed_domains \<times> seconds \<Rightarrow> (domain \<times> load_statistics) list \<times> removed_domains \<times> seconds" where
  "removalRound E now s shouldCheckForGrandfathering shouldClearGrandfathering e acc =
     (case acc of (m, d, oldestUserInteraction) \<Rightarrow>
      let r = snd e in
      if shouldExemptFromWebsiteDataDeletion s (registrableDomain r) then (m @ [e], d, oldestUserInteraction)
      else let oldestUserInteraction = (case mostRecentUserInteractionTime_opt r of
                 None \<Rightarrow> oldestUserInteraction | Some time \<Rightarrow> min oldestUserInteraction time);
               decided = removeOrRestrict E now s shouldCheckForGrandfathering r d;
               r = snd decided;
               r = (if shouldClearGrandfathering \<and> grandfathered r then r\<lparr>grandfathered := False\<rparr> else r) in
        (m @ [(fst e, r)], fst decided, oldestUserInteraction))"

definition no_removed_domains :: removed_domains where
  "no_removed_domains = \<lparr>domainsToDeleteAllCookiesFor = [], domainsToDeleteAllButHttpOnlyCookiesFor = [],
     domainsToDeleteAllNonCookieWebsiteDataFor = [], domainsToEnforceSameSiteStrictFor = []\<rparr>"

definition registrableDomainsToDeleteOrRestrictWebsiteDataFor ::
    "statistics_env \<Rightarrow> seconds \<Rightarrow> statistics_store \<Rightarrow> removed_domains \<times> statistics_store" where
  "registrableDomainsToDeleteOrRestrictWebsiteDataFor E now s =
     (let shouldCheckForGrandfathering = m_endOfGrandfatheringTimestamp s > now;
          shouldClearGrandfathering = \<not> shouldCheckForGrandfathering \<and> m_endOfGrandfatheringTimestamp s \<noteq> 0;
          s = (if shouldClearGrandfathering then s\<lparr>m_endOfGrandfatheringTimestamp := 0\<rparr> else s) in
      case fold (removalRound E now s shouldCheckForGrandfathering shouldClearGrandfathering) (m_resourceStatisticsMap s)
          ([], no_removed_domains, now) of
        (m, d, oldestUserInteraction) \<Rightarrow>
          (if \<not> isRunningTest (m_parameters s) \<and>
              now - oldestUserInteraction < minimumTimeBetweenDataRecordsRemoval (m_parameters s)
           then d\<lparr>domainsToDeleteAllNonCookieWebsiteDataFor := []\<rparr> else d,
           s\<lparr>m_resourceStatisticsMap := m\<rparr>))"

subsection \<open>Pruning\<close>

definition maxImportance :: nat where
  "maxImportance = 3"

definition computeImportance :: "load_statistics \<Rightarrow> nat" where
  "computeImportance r =
     maxImportance - (if isPrevalentResource r then 0 else 1) - (if hadUserInteraction r then 0 else 2)"

text \<open>A pair is the domain and when it was last seen. Of equal times \<^verbatim>\<open>std::sort\<close> may put either first.\<close>

definition pruneResources ::
    "(domain \<times> seconds) list \<Rightarrow> (domain \<times> load_statistics) list \<times> nat \<Rightarrow> (domain \<times> load_statistics) list \<times> nat" where
  "pruneResources statisticsToPrune acc =
     (case acc of (m, numberOfEntriesToPrune) \<Rightarrow>
      let sorted = (if length statisticsToPrune > numberOfEntriesToPrune then sort_key snd statisticsToPrune else statisticsToPrune);
          n = min numberOfEntriesToPrune (length sorted) in
      (fold AList.delete (map fst (take n sorted)) m, numberOfEntriesToPrune - n))"

definition resourcesOfImportance :: "nat \<Rightarrow> (domain \<times> load_statistics) list \<Rightarrow> (domain \<times> seconds) list" where
  "resourcesOfImportance importance m =
     map (\<lambda>e. (registrableDomain (snd e), lastSeen (snd e))) (filter (\<lambda>e. computeImportance (snd e) = importance) m)"

definition pruneStatisticsIfNeeded :: "statistics_store \<Rightarrow> statistics_store" where
  "pruneStatisticsIfNeeded s =
     (let m = m_resourceStatisticsMap s in
      if length m \<le> maxStatisticsEntries (m_parameters s) then s
      else s\<lparr>m_resourceStatisticsMap := fst (fold (\<lambda>importance acc.
          if snd acc = 0 then acc else pruneResources (resourcesOfImportance importance m) acc)
        [0..<Suc maxImportance] (m, unat (of_nat (length m) - of_nat (pruneEntriesDownTo (m_parameters s)) :: u64)))\<rparr>)"

subsection \<open>Processing\<close>

definition shouldRemoveDataRecords :: "seconds \<Rightarrow> statistics_store \<Rightarrow> bool" where
  "shouldRemoveDataRecords monotonicNow s \<longleftrightarrow> \<not> m_dataRecordsBeingRemoved s \<and>
     (m_lastTimeDataRecordsWereRemoved s = 0 \<or>
      monotonicNow \<ge> m_lastTimeDataRecordsWereRemoved s + minimumTimeBetweenDataRecordsRemoval (m_parameters s) \<or>
      isRunningTest (m_parameters s))"

definition setDataRecordsBeingRemoved :: "seconds \<Rightarrow> bool \<Rightarrow> statistics_store \<Rightarrow> statistics_store" where
  "setDataRecordsBeingRemoved monotonicNow b s =
     (let s = s\<lparr>m_dataRecordsBeingRemoved := b\<rparr> in
      if b then s\<lparr>m_lastTimeDataRecordsWereRemoved := monotonicNow\<rparr> else s)"

text \<open>\<^verbatim>\<open>removeDataRecords\<close> has one completion handler, \<open>dataRecordsProcessed\<close>; it is called at once or when the main thread has deleted the data.\<close>

definition dataRecordsProcessed :: "statistics_store \<Rightarrow> statistics_store with_effects" where
  "dataRecordsProcessed s =
     (pruneStatisticsIfNeeded s,
      TestingEvent ''Storage Synced'' #
        (if shouldNotifyPagesWhenDataRecordsWereScanned (m_parameters s) then [NotifyProcessed] else []))"

definition removeDataRecords :: "statistics_env \<Rightarrow> seconds \<Rightarrow> seconds \<Rightarrow> statistics_store \<Rightarrow> statistics_store with_effects" where
  "removeDataRecords E now monotonicNow s =
     (if \<not> shouldRemoveDataRecords monotonicNow s then dataRecordsProcessed s
      else case registrableDomainsToDeleteOrRestrictWebsiteDataFor E now s of
        (domains, s) \<Rightarrow>
          if removed_isEmpty domains then dataRecordsProcessed s
          else (setDataRecordsBeingRemoved monotonicNow True s, [DeleteAndRestrict domains]))"

definition dumpResourceLoadStatistics :: "statistics_env \<Rightarrow> nat \<Rightarrow> statistics_store \<Rightarrow> statistics_store with_effects" where
  "dumpResourceLoadStatistics E request s =
     (if m_dataRecordsBeingRemoved s
      then (s\<lparr>m_dataRecordRemovalCompletionHandlers := m_dataRecordRemovalCompletionHandlers s @ [request]\<rparr>, [])
      else (s, [Dumped request (map (statistic_toString E \<circ> snd) (m_resourceStatisticsMap s)) (aggregatedThirdPartyData s)]))"

definition runDump :: "statistics_env \<Rightarrow> nat \<Rightarrow> statistics_store with_effects \<Rightarrow> statistics_store with_effects" where
  "runDump E request acc = (case dumpResourceLoadStatistics E request (fst acc) of (s, effects) \<Rightarrow> (s, snd acc @ effects))"

definition didRemoveDataRecords ::
    "statistics_env \<Rightarrow> seconds \<Rightarrow> domain list \<Rightarrow> statistics_store \<Rightarrow> statistics_store with_effects" where
  "didRemoveDataRecords E monotonicNow domainsWithDeletedWebsiteData s =
     (let s = setDataRecordsBeingRemoved monotonicNow False
            (incrementRecordsDeletedCountForDomains E domainsWithDeletedWebsiteData s);
          handlers = m_dataRecordRemovalCompletionHandlers s in
      fold (runDump E) handlers (dataRecordsProcessed (s\<lparr>m_dataRecordRemovalCompletionHandlers := []\<rparr>)))"

definition processStatisticsAndDataRecords ::
    "statistics_env \<Rightarrow> seconds \<Rightarrow> seconds \<Rightarrow> statistics_store \<Rightarrow> statistics_store with_effects" where
  "processStatisticsAndDataRecords E now monotonicNow s =
     (if isRunningTest (m_parameters s) \<and> \<not> shouldNotifyPagesWhenDataRecordsWereScanned (m_parameters s) then (s, [])
      else removeDataRecords E now monotonicNow
        (if shouldClassifyResourcesBeforeDataRecordsRemoval (m_parameters s) then classifyPrevalentResources s else s))"

text \<open>The first of the scheduled processing requests is due.\<close>

definition runScheduled :: "statistics_env \<Rightarrow> seconds \<Rightarrow> seconds \<Rightarrow> statistics_store \<Rightarrow> statistics_store with_effects" where
  "runScheduled E now monotonicNow s =
     (case m_scheduled s of
        [] \<Rightarrow> (s, [])
      | identifier # rest \<Rightarrow>
          let s = s\<lparr>m_scheduled := rest\<rparr> in
          if m_pendingStatisticsProcessingRequestIdentifier s \<noteq> Some identifier then (s, [])
          else case updateCookieBlocking E now s of
            (s, effects) \<Rightarrow> (case processStatisticsAndDataRecords E now monotonicNow s of
              (s, effects') \<Rightarrow> (s, effects @ effects')))"

definition didFetchDomainsWithWebsiteData :: "statistics_env \<Rightarrow> seconds \<Rightarrow> domain list \<Rightarrow> statistics_store \<Rightarrow> statistics_store with_effects" where
  "didFetchDomainsWithWebsiteData E now domainsWithWebsiteData s =
     ((grandfatherDataForDomains E domainsWithWebsiteData s)\<lparr>m_endOfGrandfatheringTimestamp :=
        now + grandfatheringTime (m_parameters s)\<rparr>, [TestingEvent ''Grandfathered''])"

definition updateCacheMaxAgeCap :: "statistics_store \<Rightarrow> effect list" where
  "updateCacheMaxAgeCap s = [SetCacheMaxAgeCap (cacheMaxAgeCapTime (m_parameters s))]"

definition updateClientSideCookiesAgeCap :: "statistics_store \<Rightarrow> effect list" where
  "updateClientSideCookiesAgeCap s = [SetAgeCapForClientSideCookies (clientSideCookiesAgeCapTime (m_parameters s))]"

definition setCacheMaxAgeCap :: "seconds \<Rightarrow> statistics_store \<Rightarrow> statistics_store with_effects" where
  "setCacheMaxAgeCap time s = (let s = m_parameters_update (cacheMaxAgeCapTime_update (\<lambda>_. time)) s in (s, updateCacheMaxAgeCap s))"

definition setAgeCapForClientSideCookies :: "seconds \<Rightarrow> statistics_store \<Rightarrow> statistics_store with_effects" where
  "setAgeCapForClientSideCookies time s =
     (let s = m_parameters_update (clientSideCookiesAgeCapTime_update (\<lambda>_. time)) s in (s, updateClientSideCookiesAgeCap s))"

definition didCreateNetworkProcess :: "statistics_env \<Rightarrow> seconds \<Rightarrow> statistics_store \<Rightarrow> statistics_store with_effects" where
  "didCreateNetworkProcess E now s =
     (case updateCookieBlocking E now s of
        (s, effects) \<Rightarrow> (s, effects @ updateCacheMaxAgeCap s @ updateClientSideCookiesAgeCap s))"

text \<open>The setters of the parameters.\<close>

definition setNotifyPagesWhenDataRecordsWereScanned :: "bool \<Rightarrow> statistics_store \<Rightarrow> statistics_store" where
  "setNotifyPagesWhenDataRecordsWereScanned b = m_parameters_update (shouldNotifyPagesWhenDataRecordsWereScanned_update (\<lambda>_. b))"

definition setIsRunningTest :: "bool \<Rightarrow> statistics_store \<Rightarrow> statistics_store" where
  "setIsRunningTest b = m_parameters_update (isRunningTest_update (\<lambda>_. b))"

definition setShouldClassifyResourcesBeforeDataRecordsRemoval :: "bool \<Rightarrow> statistics_store \<Rightarrow> statistics_store" where
  "setShouldClassifyResourcesBeforeDataRecordsRemoval b =
     m_parameters_update (shouldClassifyResourcesBeforeDataRecordsRemoval_update (\<lambda>_. b))"

definition setTimeToLiveUserInteraction :: "seconds \<Rightarrow> statistics_store \<Rightarrow> statistics_store" where
  "setTimeToLiveUserInteraction time = m_parameters_update (timeToLiveUserInteraction_update (\<lambda>_. Some time))"

definition setMinimumTimeBetweenDataRecordsRemoval :: "seconds \<Rightarrow> statistics_store \<Rightarrow> statistics_store" where
  "setMinimumTimeBetweenDataRecordsRemoval time = m_parameters_update (minimumTimeBetweenDataRecordsRemoval_update (\<lambda>_. time))"

definition setGrandfatheringTime :: "seconds \<Rightarrow> statistics_store \<Rightarrow> statistics_store" where
  "setGrandfatheringTime time = m_parameters_update (grandfatheringTime_update (\<lambda>_. time))"

definition setMaxStatisticsEntries :: "nat \<Rightarrow> statistics_store \<Rightarrow> statistics_store" where
  "setMaxStatisticsEntries maximumEntryCount = m_parameters_update (maxStatisticsEntries_update (\<lambda>_. maximumEntryCount))"

definition setPruneEntriesDownTo :: "nat \<Rightarrow> statistics_store \<Rightarrow> statistics_store" where
  "setPruneEntriesDownTo pruneTargetCount = m_parameters_update (pruneEntriesDownTo_update (\<lambda>_. pruneTargetCount))"

definition resetParametersToDefaultValues :: "statistics_store \<Rightarrow> statistics_store" where
  "resetParametersToDefaultValues s = s\<lparr>m_parameters := default_parameters, m_appBoundDomains := []\<rparr>"

definition setAppBoundDomains :: "domain list \<Rightarrow> statistics_store \<Rightarrow> statistics_store" where
  "setAppBoundDomains domains s = s\<lparr>m_appBoundDomains := domains\<rparr>"

end
