(* ===== verification/Load_Classification.thy ===== *)
theory Load_Classification
  imports Load_Statistics
begin

text \<open>
  What the store of load statistics promises about prevalence: the search for redirecting domains finds the
  domains that are reachable in the graph of redirects, and classification marks the domains it should.
\<close>

subsection \<open>The map\<close>

lemma map_of_modify:
  "map_of (map (\<lambda>e. if fst e = d' then (fst e, f (snd e)) else e) m) d =
     (if d = d' then map_option f (map_of m d) else map_of m d)"
  by (induction m) auto

lemma find_modify [simp]:
  "findStatistics d (modifyStatistics d' f s) = (if d = d' then map_option f (findStatistics d s) else findStatistics d s)"
  unfolding findStatistics_def modifyStatistics_def by (simp add: map_of_modify)

lemma find_ensure [simp]:
  "findStatistics d (ensureResourceStatisticsForRegistrableDomain E d' s) =
     (if d = d' \<and> findStatistics d s = None then Some (newStatistics E d) else findStatistics d s)"
  unfolding ensureResourceStatisticsForRegistrableDomain_def findStatistics_def
  by (auto simp: map_add_def split: option.splits)

lemma find_change [simp]:
  "findStatistics d (changeStatistics E d' f s) =
     (if d = d' then Some (f (case findStatistics d s of None \<Rightarrow> newStatistics E d | Some r \<Rightarrow> r)) else findStatistics d s)"
  by (auto simp: changeStatistics_def split: option.splits)

lemma keys_modify [simp]: "allDomains (modifyStatistics d f s) = allDomains s"
  unfolding allDomains_def modifyStatistics_def by (auto simp: comp_def)

text \<open>Nothing but the map is changed by these.\<close>

lemma modify_frame [simp]:
  "m_operatingDates (modifyStatistics d f s) = m_operatingDates s"
  "m_parameters (modifyStatistics d f s) = m_parameters s"
  "m_debugModeEnabled (modifyStatistics d f s) = m_debugModeEnabled s"
  "m_debugManualPrevalentResource (modifyStatistics d f s) = m_debugManualPrevalentResource s"
  "m_shouldIncludeLocalhost (modifyStatistics d f s) = m_shouldIncludeLocalhost s"
  by (simp_all add: modifyStatistics_def)

lemma shouldSkip_modify [simp]: "shouldSkip (modifyStatistics d f s) = shouldSkip s"
  by (simp add: shouldSkip_def fun_eq_iff)

lemma debug_modify [simp]: "isPrevalentDueToDebugMode (modifyStatistics d f s) = isPrevalentDueToDebugMode s"
  by (simp add: isPrevalentDueToDebugMode_def fun_eq_iff)

definition map_wf :: "(domain \<times> load_statistics) list \<Rightarrow> bool" where
  "map_wf m \<longleftrightarrow> distinct (map fst m) \<and> (\<forall>d r. map_of m d = Some r \<longrightarrow> registrableDomain r = d)"

subsection \<open>The search for redirecting domains\<close>

definition candidate :: "(domain \<times> load_statistics) list \<Rightarrow> domain \<Rightarrow> bool" where
  "candidate m d \<longleftrightarrow> (\<exists>r. map_of m d = Some r \<and> \<not> isPrevalentResource r)"

definition redirectsFrom :: "load_statistics \<Rightarrow> domain set" where
  "redirectsFrom r = set (subresourceUniqueRedirectsFrom r) \<union> set (topFrameUniqueRedirectsFrom r)"

text \<open>The domains that redirected to a domain, directly or through others, on paths of domains that are not prevalent.\<close>

inductive_set redirectors :: "(domain \<times> load_statistics) list \<Rightarrow> load_statistics \<Rightarrow> domain set" for m r where
  direct: "d \<in> redirectsFrom r \<Longrightarrow> candidate m d \<Longrightarrow> d \<in> redirectors m r"
| through: "d \<in> redirectors m r \<Longrightarrow> map_of m d = Some r' \<Longrightarrow> d' \<in> redirectsFrom r' \<Longrightarrow> candidate m d' \<Longrightarrow>
    d' \<in> redirectors m r"

lemma redirectors_candidate: "d \<in> redirectors m r \<Longrightarrow> candidate m d"
  by (induction rule: redirectors.induct) auto

lemma redirectors_finite: "finite (redirectors m r)"
proof (rule finite_subset)
  show "redirectors m r \<subseteq> dom (map_of m)" using redirectors_candidate by (force simp: candidate_def)
qed (rule finite_dom_map_of)

lemma redirectors_trans:
  assumes "d \<in> redirectsFrom r" "map_of m d = Some r'" "\<not> isPrevalentResource r'" "x \<in> redirectors m r'"
  shows "x \<in> redirectors m r"
  using assms(4)
proof (induction rule: redirectors.induct)
  case (direct x)
  have "d \<in> redirectors m r" using assms by (intro redirectors.direct) (auto simp: candidate_def)
  then show ?case using direct assms(2) by (blast intro: redirectors.through)
qed (blast intro: redirectors.through)

lemma traceBackDomain_eq:
  assumes "map_wf m"
  shows "traceBackDomain f m d acc =
    (if candidate m d \<and> d \<notin> set (fst acc) then f (the (map_of m d)) (d # fst acc, snd acc) else acc)"
proof (cases "map_of m d")
  case (Some r)
  then have "registrableDomain r = d" using assms by (simp add: map_wf_def del: map_of_eq_Some_iff)
  then show ?thesis using Some by (simp add: traceBackDomain_def candidate_def)
qed (simp add: traceBackDomain_def candidate_def)

text \<open>All domains that redirected to one of \<open>xs\<close> are in \<open>found\<close>.\<close>

definition settled :: "(domain \<times> load_statistics) list \<Rightarrow> domain set \<Rightarrow> domain set \<Rightarrow> bool" where
  "settled m found xs \<longleftrightarrow> (\<forall>x \<in> xs. {y \<in> redirectsFrom (the (map_of m x)). candidate m y} \<subseteq> found)"

text \<open>From \<open>a\<close> to \<open>b\<close> only domains of \<open>found\<close> are added; if the counter stays below its bound, all of \<open>due\<close>
  are there in the end and whatever was added has been searched.\<close>

definition searched ::
    "(domain \<times> load_statistics) list \<Rightarrow> nat \<Rightarrow> domain set \<Rightarrow> domain set \<Rightarrow> domain list \<times> nat \<Rightarrow> domain list \<times> nat \<Rightarrow> bool" where
  "searched m depth found due a b \<longleftrightarrow>
     set (fst a) \<subseteq> set (fst b) \<and> set (fst b) \<subseteq> set (fst a) \<union> found \<and> snd a \<le> snd b \<and>
     (snd b < 50 \<and> 50 < depth + snd a \<longrightarrow>
       due \<subseteq> set (fst b) \<and> settled m (set (fst b)) (set (fst b) - set (fst a)))"

lemma settled_union:
  "settled m found (B - A) \<Longrightarrow> settled m found' (C - B) \<Longrightarrow> found \<subseteq> found' \<Longrightarrow> settled m found' (C - A)"
  unfolding settled_def by blast

lemma settled_insert:
  "settled m found (B - insert d A) \<Longrightarrow> {y \<in> redirectsFrom (the (map_of m d)). candidate m y} \<subseteq> found \<Longrightarrow> settled m found (B - A)"
  unfolding settled_def by blast

lemma searched_refl: "searched m depth found {} a a"
  by (simp add: searched_def settled_def)

lemma searched_trans:
  assumes "searched m depth found due a b" "searched m depth found' due' b c"
  shows "searched m depth (found \<union> found') (due \<union> due') a c"
proof -
  have ab: "set (fst a) \<subseteq> set (fst b)" "set (fst b) \<subseteq> set (fst a) \<union> found" "snd a \<le> snd b"
    and bc: "set (fst b) \<subseteq> set (fst c)" "set (fst c) \<subseteq> set (fst b) \<union> found'" "snd b \<le> snd c"
    using assms by (simp_all add: searched_def)
  have "due \<union> due' \<subseteq> set (fst c) \<and> settled m (set (fst c)) (set (fst c) - set (fst a))"
    if "snd c < 50" "50 < depth + snd a"
  proof -
    have b: "due \<subseteq> set (fst b)" "settled m (set (fst b)) (set (fst b) - set (fst a))"
      using assms(1) that bc(3) by (simp_all add: searched_def)
    have c: "due' \<subseteq> set (fst c)" "settled m (set (fst c)) (set (fst c) - set (fst b))"
      using assms(2) that ab(3) by (simp_all add: searched_def)
    show ?thesis using b(1) c(1) bc(1) settled_union [OF b(2) c(2) bc(1)] by blast
  qed
  moreover have "set (fst a) \<subseteq> set (fst c)" "set (fst c) \<subseteq> set (fst a) \<union> (found \<union> found')" "snd a \<le> snd c"
    using ab bc by auto
  ultimately show ?thesis unfolding searched_def by blast
qed

lemma fold_searched:
  assumes "\<And>d a. d \<in> set ds \<Longrightarrow> searched m depth (found d) (due d) a (f d a)"
  shows "searched m depth (\<Union>d \<in> set ds. found d) (\<Union>d \<in> set ds. due d) a (fold f ds a)"
  using assms
proof (induction ds arbitrary: a)
  case Nil
  then show ?case by (simp add: searched_refl)
next
  case (Cons d ds)
  have "searched m depth (\<Union>d \<in> set ds. found d) (\<Union>d \<in> set ds. due d) (f d a) (fold f ds (f d a))"
    using Cons by simp
  from searched_trans [OF Cons.prems this] show ?case by simp
qed

lemma searched_mono:
  assumes "searched m depth found due a b" "found \<subseteq> found'" "due' \<subseteq> due"
  shows "searched m depth found' due' a b"
  using assms unfolding searched_def by (meson order_trans sup_mono order_refl)

lemma searched_enter:
  assumes "searched m depth found {y \<in> redirectsFrom (the (map_of m d)). candidate m y} (d # l, n) b"
  shows "searched m depth (insert d found) {d} (l, n) b"
proof -
  have "insert d (set l) \<subseteq> set (fst b)" "set (fst b) \<subseteq> insert d (set l) \<union> found" "n \<le> snd b"
    using assms by (simp_all add: searched_def)
  moreover have "settled m (set (fst b)) (set (fst b) - set l)" if "snd b < 50" "50 < depth + n"
    by (rule settled_insert [of _ _ _ d]) (use assms that in \<open>simp_all add: searched_def\<close>)
  ultimately show ?thesis by (auto simp: searched_def)
qed

lemma searched_Suc: "searched m depth found due (l, Suc n) b \<Longrightarrow> searched m (Suc depth) found due (l, n) b"
  by (simp add: searched_def)

lemma traceBackDomain_searched:
  assumes wf: "map_wf m"
    and rec: "\<And>r a. searched m depth (redirectors m r) {d \<in> redirectsFrom r. candidate m d} a (f r a)"
    and d: "d \<in> redirectsFrom r"
  shows "searched m depth (redirectors m r) {d' \<in> {d}. candidate m d'} a (traceBackDomain f m d a)"
proof (cases "candidate m d \<and> d \<notin> set (fst a)")
  case False
  then have "traceBackDomain f m d a = a" using traceBackDomain_eq [OF wf] by metis
  then show ?thesis using False by (auto simp: searched_def settled_def)
next
  case True
  then obtain r' where r': "map_of m d = Some r'" "\<not> isPrevalentResource r'" by (auto simp: candidate_def)
  have "searched m depth (redirectors m r') {y \<in> redirectsFrom (the (map_of m d)). candidate m y} (d # fst a, snd a) (f r' (d # fst a, snd a))"
    using rec [of r'] r'(1) by simp
  from searched_enter [OF this]
  have "searched m depth (insert d (redirectors m r')) {d} a (f r' (d # fst a, snd a))" by simp
  moreover have "insert d (redirectors m r') \<subseteq> redirectors m r"
    using d True redirectors_trans [OF d r'] by (auto intro: redirectors.direct)
  ultimately have "searched m depth (redirectors m r) {d' \<in> {d}. candidate m d'} a (f r' (d # fst a, snd a))"
    by (rule searched_mono) blast
  then show ?thesis using True r'(1) traceBackDomain_eq [OF wf, of f d a] by simp
qed

lemma traceBack_searched:
  assumes wf: "map_wf m"
  shows "searched m depth (redirectors m r) {d \<in> redirectsFrom r. candidate m d} a (traceBack depth m r a)"
proof (induction depth arbitrary: r a)
  case 0
  then show ?case by (auto simp: searched_def)
next
  case (Suc depth)
  let ?f = "traceBackDomain (traceBack depth m) m"
  let ?b = "(fst a, Suc (snd a))"
  let ?ds = "subresourceUniqueRedirectsFrom r @ topFrameUniqueRedirectsFrom r"
  have ds: "set ?ds = redirectsFrom r" by (auto simp: redirectsFrom_def)
  have "searched m depth (\<Union>d \<in> set ?ds. redirectors m r) (\<Union>d \<in> set ?ds. {d' \<in> {d}. candidate m d'}) ?b (fold ?f ?ds ?b)"
    by (rule fold_searched, rule traceBackDomain_searched [OF wf Suc.IH]) (simp add: ds [symmetric])
  then have "searched m depth (redirectors m r) {d \<in> redirectsFrom r. candidate m d} ?b (fold ?f ?ds ?b)"
    by (rule searched_mono) (auto simp: redirectsFrom_def)
  from searched_Suc [OF this]
  have "searched m (Suc depth) (redirectors m r) {d \<in> redirectsFrom r. candidate m d} a (fold ?f ?ds ?b)" by simp
  then show ?case
    by (auto simp: maxNumberOfRecursiveCallsInRedirectTraceBack_def searched_def)
qed

text \<open>Every call adds at most one domain that it does not count.\<close>

definition counted :: "domain list \<times> nat \<Rightarrow> domain list \<times> nat \<Rightarrow> nat \<Rightarrow> bool" where
  "counted a b k \<longleftrightarrow> snd b + card (set (fst a)) \<le> snd a + card (set (fst b)) + k"

lemma fold_counted:
  assumes "\<And>d a. counted a (f d a) 0"
  shows "counted a (fold f ds a) 0"
proof (induction ds arbitrary: a)
  case (Cons d ds)
  show ?case using assms [of a d] Cons.IH [of "f d a"] unfolding counted_def fold_simps by linarith
qed (simp add: counted_def)

lemma traceBack_counted:
  assumes wf: "map_wf m"
  shows "counted a (traceBack depth m r a) 1"
proof (induction depth arbitrary: r a)
  case 0
  then show ?case by (simp add: counted_def)
next
  case (Suc depth)
  have "counted a (traceBackDomain (traceBack depth m) m d a) 0" for d a
    using Suc.IH [of "(d # fst a, snd a)" "the (map_of m d)"]
    by (auto simp: traceBackDomain_eq [OF wf] counted_def card_insert_if)
  then have "counted (fst a, Suc (snd a)) (fold (traceBackDomain (traceBack depth m) m)
      (subresourceUniqueRedirectsFrom r @ topFrameUniqueRedirectsFrom r) (fst a, Suc (snd a))) 0"
    by (rule fold_counted)
  then show ?case by (auto simp: counted_def)
qed

lemma redirectors_least:
  assumes "{d \<in> redirectsFrom r. candidate m d} \<subseteq> S" and "settled m S S" and "x \<in> redirectors m r"
  shows "x \<in> S"
  using assms(3)
proof (induction rule: redirectors.induct)
  case (through d r' d')
  then have "{y \<in> redirectsFrom r'. candidate m y} \<subseteq> S" using assms(2) by (force simp: settled_def)
  then show ?case using through by blast
qed (use assms(1) in blast)

lemma traceBack_sound:
  assumes "map_wf m"
  shows "set (fst (recursivelyGetAllDomainsThatHaveRedirectedToThisDomain m r ([], 0))) \<subseteq> redirectors m r"
  using traceBack_searched [OF assms, where a = "([], 0)"]
  by (simp add: recursivelyGetAllDomainsThatHaveRedirectedToThisDomain_def searched_def del: traceBack.simps)

lemma traceBack_complete:
  assumes wf: "map_wf m" and few: "card (redirectors m r) < 49"
  shows "set (fst (recursivelyGetAllDomainsThatHaveRedirectedToThisDomain m r ([], 0))) = redirectors m r"
proof -
  let ?b = "recursivelyGetAllDomainsThatHaveRedirectedToThisDomain m r ([], 0)"
  have s: "searched m 51 (redirectors m r) {d \<in> redirectsFrom r. candidate m d} ([], 0) ?b"
    and c: "counted ([], 0) ?b 1"
    using traceBack_searched [OF wf] traceBack_counted [OF wf]
    unfolding recursivelyGetAllDomainsThatHaveRedirectedToThisDomain_def maxNumberOfRecursiveCallsInRedirectTraceBack_def
    by (simp_all del: traceBack.simps)
  have sub: "set (fst ?b) \<subseteq> redirectors m r" using traceBack_sound [OF wf] .
  then have "card (set (fst ?b)) < 49" using card_mono [OF redirectors_finite sub] few by simp
  then have "snd ?b < 50" using c by (simp add: counted_def)
  then have "{d \<in> redirectsFrom r. candidate m d} \<subseteq> set (fst ?b)" "settled m (set (fst ?b)) (set (fst ?b))"
    using s by (simp_all add: searched_def)
  then show ?thesis using sub redirectors_least by blast
qed

text \<open>The depth never matters: the function satisfies the equation of the code.\<close>

lemma fold_counter_cong:
  assumes "\<And>d a. n \<le> snd a \<Longrightarrow> f d a = g d a" and "\<And>d a. n \<le> snd a \<Longrightarrow> n \<le> snd (g d a)" and "n \<le> snd a"
  shows "fold f ds a = fold g ds a \<and> n \<le> snd (fold g ds a)"
  using assms(3) by (induction ds arbitrary: a) (simp_all add: assms(1,2))

lemma traceBack_counter_grows: "map_wf m \<Longrightarrow> snd a \<le> snd (traceBack depth m r a)"
  using traceBack_searched [of m] by (simp add: searched_def)

lemma traceBackDomain_counter_grows:
  assumes "map_wf m" shows "snd a \<le> snd (traceBackDomain (traceBack depth m) m d a)"
  using traceBack_counter_grows [OF assms, of "(d # fst a, snd a)"] by (simp add: traceBackDomain_eq [OF assms])

lemma traceBack_depth:
  assumes wf: "map_wf m" and "50 \<le> depth + snd a" and "50 \<le> depth' + snd a"
  shows "traceBack depth m r a = traceBack depth' m r a"
  using assms(2,3)
proof (induction depth arbitrary: depth' r a)
  case 0
  then show ?case by (cases depth') (simp_all add: maxNumberOfRecursiveCallsInRedirectTraceBack_def)
next
  case (Suc depth)
  show ?case
  proof (cases "snd a \<ge> 50")
    case True
    then show ?thesis by (cases depth') (simp_all add: maxNumberOfRecursiveCallsInRedirectTraceBack_def)
  next
    case False
    then obtain depth'' where d: "depth' = Suc depth''" using Suc.prems by (cases depth') simp_all
    have eq: "traceBackDomain (traceBack depth m) m d b = traceBackDomain (traceBack depth'' m) m d b"
      if "Suc (snd a) \<le> snd b" for d b
      using Suc.IH [of "(d # fst b, snd b)" depth''] that Suc.prems d by (simp add: traceBackDomain_eq [OF wf])
    have grow: "Suc (snd a) \<le> snd (traceBackDomain (traceBack depth'' m) m d b)" if "Suc (snd a) \<le> snd b" for d b
      using traceBackDomain_counter_grows [OF wf, of b depth'' d] that by simp
    note cong = fold_counter_cong [where n = "Suc (snd a)" and f = "traceBackDomain (traceBack depth m) m"
      and g = "traceBackDomain (traceBack depth'' m) m", OF eq grow]
    have 1: "fold (traceBackDomain (traceBack depth m) m) xs (fst a, Suc (snd a)) = fold (traceBackDomain (traceBack depth'' m) m) xs (fst a, Suc (snd a))"
      for xs using cong [of "(fst a, Suc (snd a))" xs] by simp
    from 1 [of "subresourceUniqueRedirectsFrom r @ topFrameUniqueRedirectsFrom r"]
    show ?thesis by (simp add: d)
  qed
qed

lemma recursively_unfold:
  assumes wf: "map_wf m"
  shows "recursivelyGetAllDomainsThatHaveRedirectedToThisDomain m r a =
    (if snd a \<ge> maxNumberOfRecursiveCallsInRedirectTraceBack then a
     else fold (traceBackDomain (recursivelyGetAllDomainsThatHaveRedirectedToThisDomain m) m) (topFrameUniqueRedirectsFrom r)
       (fold (traceBackDomain (recursivelyGetAllDomainsThatHaveRedirectedToThisDomain m) m) (subresourceUniqueRedirectsFrom r)
         (fst a, Suc (snd a))))"
proof -
  let ?rec = "recursivelyGetAllDomainsThatHaveRedirectedToThisDomain m"
  have "traceBack 50 m r b = ?rec r b" for r b
    unfolding recursivelyGetAllDomainsThatHaveRedirectedToThisDomain_def maxNumberOfRecursiveCallsInRedirectTraceBack_def
    by (rule traceBack_depth [OF wf]) simp_all
  then have "traceBack 50 m = ?rec" by (simp add: fun_eq_iff)
  moreover have "?rec r a = traceBack (Suc 50) m r a"
    by (simp only: recursivelyGetAllDomainsThatHaveRedirectedToThisDomain_def maxNumberOfRecursiveCallsInRedirectTraceBack_def)
  ultimately show ?thesis by (simp only: traceBack.simps)
qed

subsection \<open>Prevalence only grows\<close>

definition only_prevalence :: "load_statistics \<Rightarrow> load_statistics \<Rightarrow> bool" where
  "only_prevalence r r' \<longleftrightarrow>
     r' = r\<lparr>isPrevalentResource := isPrevalentResource r', isVeryPrevalentResource := isVeryPrevalentResource r'\<rparr> \<and>
     (isPrevalentResource r \<longrightarrow> isPrevalentResource r') \<and>
     (isVeryPrevalentResource r' \<longrightarrow> isPrevalentResource r' \<or> isVeryPrevalentResource r)"

definition prevalence_grows :: "statistics_store \<Rightarrow> statistics_store \<Rightarrow> bool" where
  "prevalence_grows s s' \<longleftrightarrow> (\<forall>d. rel_option only_prevalence (findStatistics d s) (findStatistics d s')) \<and>
     allDomains s' = allDomains s \<and> s' = s\<lparr>m_resourceStatisticsMap := m_resourceStatisticsMap s'\<rparr>"

definition statistics_wf :: "statistics_store \<Rightarrow> bool" where
  "statistics_wf s \<longleftrightarrow> map_wf (m_resourceStatisticsMap s) \<and>
     (\<forall>d r. findStatistics d s = Some r \<longrightarrow> isVeryPrevalentResource r \<longrightarrow> isPrevalentResource r)"

lemma only_prevalence_refl: "only_prevalence r r"
  by (simp add: only_prevalence_def)

lemma only_prevalence_trans:
  assumes "only_prevalence r r'" "only_prevalence r' r''" shows "only_prevalence r r''"
proof -
  obtain p v where r': "r' = r\<lparr>isPrevalentResource := p, isVeryPrevalentResource := v\<rparr>"
    using assms(1) unfolding only_prevalence_def by blast
  obtain p' v' where r'': "r'' = r'\<lparr>isPrevalentResource := p', isVeryPrevalentResource := v'\<rparr>"
    using assms(2) unfolding only_prevalence_def by blast
  show ?thesis using assms unfolding r'' r' only_prevalence_def by simp blast
qed

lemma only_prevalenceD:
  assumes "only_prevalence r r'"
  shows "redirectsFrom r' = redirectsFrom r" "registrableDomain r' = registrableDomain r"
    "subresourceUniqueRedirectsTo r' = subresourceUniqueRedirectsTo r" "topFrameUniqueRedirectsTo r' = topFrameUniqueRedirectsTo r"
    "calculateResourcePrevalence r' = calculateResourcePrevalence r" "isPrevalentResource r \<Longrightarrow> isPrevalentResource r'"
proof -
  have r': "r' = r\<lparr>isPrevalentResource := isPrevalentResource r', isVeryPrevalentResource := isVeryPrevalentResource r'\<rparr>"
    using assms by (simp add: only_prevalence_def)
  show "redirectsFrom r' = redirectsFrom r" by (subst r') (simp add: redirectsFrom_def)
  show "registrableDomain r' = registrableDomain r" by (subst r') simp
  show "subresourceUniqueRedirectsTo r' = subresourceUniqueRedirectsTo r" by (subst r') simp
  show "topFrameUniqueRedirectsTo r' = topFrameUniqueRedirectsTo r" by (subst r') simp
  show "calculateResourcePrevalence r' = calculateResourcePrevalence r"
    by (subst r') (simp add: calculateResourcePrevalence_def fun_eq_iff)
  show "isPrevalentResource r \<Longrightarrow> isPrevalentResource r'" using assms by (simp add: only_prevalence_def)
qed

lemma prevalence_grows_refl: "prevalence_grows s s"
  by (simp add: prevalence_grows_def only_prevalence_refl option.rel_refl)

lemma prevalence_grows_trans:
  assumes "prevalence_grows s s'" "prevalence_grows s' s''" shows "prevalence_grows s s''"
proof -
  have "rel_option only_prevalence (findStatistics d s) (findStatistics d s'')" for d
  proof -
    have "rel_option only_prevalence (findStatistics d s) (findStatistics d s')"
      "rel_option only_prevalence (findStatistics d s') (findStatistics d s'')"
      using assms by (simp_all add: prevalence_grows_def)
    then show ?thesis by (auto elim!: option.rel_cases intro: only_prevalence_trans)
  qed
  moreover have "s'' = s\<lparr>m_resourceStatisticsMap := m_resourceStatisticsMap s''\<rparr>"
  proof -
    obtain m where s': "s' = s\<lparr>m_resourceStatisticsMap := m\<rparr>" using assms(1) unfolding prevalence_grows_def by blast
    obtain m' where s'': "s'' = s'\<lparr>m_resourceStatisticsMap := m'\<rparr>" using assms(2) unfolding prevalence_grows_def by blast
    show ?thesis unfolding s'' s' by simp
  qed
  moreover have "allDomains s'' = allDomains s" using assms by (simp add: prevalence_grows_def)
  ultimately show ?thesis unfolding prevalence_grows_def by blast
qed

lemma prevalence_grows_modify:
  assumes "\<And>r. findStatistics d s = Some r \<Longrightarrow> only_prevalence r (f r)"
  shows "prevalence_grows s (modifyStatistics d f s)"
proof -
  have "rel_option only_prevalence (findStatistics x s) (findStatistics x (modifyStatistics d f s))" for x
    using assms by (cases "findStatistics x s") (auto simp: only_prevalence_refl)
  moreover have "modifyStatistics d f s = s\<lparr>m_resourceStatisticsMap := m_resourceStatisticsMap (modifyStatistics d f s)\<rparr>"
    by (simp add: modifyStatistics_def)
  ultimately show ?thesis unfolding prevalence_grows_def by simp
qed

lemma prevalence_grows_fold:
  assumes "\<And>d s. prevalence_grows s (f d s)" shows "prevalence_grows s (fold f ds s)"
  by (induction ds arbitrary: s) (auto intro: prevalence_grows_refl prevalence_grows_trans [OF assms])

lemma setPrevalentResource_grows: "prevalence_grows s (setPrevalentResource d p s)"
proof (cases "shouldSkip s d")
  case False
  let ?f = "\<lambda>r. r\<lparr>isPrevalentResource := True, isVeryPrevalentResource := p = VeryHigh\<rparr>"
  let ?s = "modifyStatistics d ?f s"
  have "prevalence_grows s ?s" by (rule prevalence_grows_modify) (simp add: only_prevalence_def)
  moreover have "prevalence_grows ?s (fold (\<lambda>d'. modifyStatistics d' (\<lambda>r. r\<lparr>isPrevalentResource := True\<rparr>)) L ?s)" for L
    by (rule prevalence_grows_fold, rule prevalence_grows_modify) (simp add: only_prevalence_def)
  ultimately have "prevalence_grows s (fold (\<lambda>d'. modifyStatistics d' (\<lambda>r. r\<lparr>isPrevalentResource := True\<rparr>)) L ?s)" for L
    by (rule prevalence_grows_trans)
  moreover note \<open>prevalence_grows s ?s\<close>
  ultimately show ?thesis using False by (simp add: setPrevalentResource_def Let_def split: option.split)
qed (simp add: setPrevalentResource_def prevalence_grows_refl)

lemma mark_grows: "prevalence_grows s (markAsPrevalentIfHasRedirectedToPrevalent d r s)"
  by (simp add: markAsPrevalentIfHasRedirectedToPrevalent_def setPrevalentResource_grows prevalence_grows_refl)

lemma classifyResource_grows: "prevalence_grows s (classifyResource d s)"
proof -
  have "prevalence_grows s (case findStatistics d s' of
      None \<Rightarrow> s'
    | Some r \<Rightarrow> let currentPrevalence = if isPrevalentResource r then High else Low;
          newPrevalence = calculateResourcePrevalence r currentPrevalence in
        if newPrevalence \<noteq> currentPrevalence then setPrevalentResource d newPrevalence s' else s')"
    if "prevalence_grows s s'" for s'
    using that prevalence_grows_trans [OF that setPrevalentResource_grows] by (simp add: Let_def split: option.split)
  from this [OF mark_grows] show ?thesis
    by (simp add: classifyResource_def setPrevalentResource_grows prevalence_grows_refl Let_def split: option.split)
qed

lemma classify_grows: "prevalence_grows s (classifyPrevalentResources s)"
  unfolding classifyPrevalentResources_def by (rule prevalence_grows_fold) (rule classifyResource_grows)

lemma grows_find:
  assumes "prevalence_grows s s'"
  shows "findStatistics d s = Some r \<Longrightarrow> \<exists>r'. findStatistics d s' = Some r' \<and> only_prevalence r r'"
    and "findStatistics d s' = Some r' \<Longrightarrow> \<exists>r. findStatistics d s = Some r \<and> only_prevalence r r'"
    and "findStatistics d s' = None \<longleftrightarrow> findStatistics d s = None"
proof -
  have "rel_option only_prevalence (findStatistics d s) (findStatistics d s')" using assms by (simp add: prevalence_grows_def)
  then show "findStatistics d s = Some r \<Longrightarrow> \<exists>r'. findStatistics d s' = Some r' \<and> only_prevalence r r'"
    and "findStatistics d s' = Some r' \<Longrightarrow> \<exists>r. findStatistics d s = Some r \<and> only_prevalence r r'"
    and "findStatistics d s' = None \<longleftrightarrow> findStatistics d s = None"
    by (auto elim: option.rel_cases)
qed

lemma grows_prevalent: "prevalence_grows s s' \<Longrightarrow> isPrevalentIn s d \<Longrightarrow> isPrevalentIn s' d"
  using grows_find(1) [of s s' d] by (force simp: isPrevalentIn_def only_prevalenceD(6) split: option.splits)

lemma grows_config:
  assumes "prevalence_grows s s'"
  shows "shouldSkip s' = shouldSkip s" "isPrevalentDueToDebugMode s' = isPrevalentDueToDebugMode s"
proof -
  have s': "s' = s\<lparr>m_resourceStatisticsMap := m_resourceStatisticsMap s'\<rparr>" using assms by (simp add: prevalence_grows_def)
  show "shouldSkip s' = shouldSkip s" by (subst s') (simp add: shouldSkip_def fun_eq_iff)
  show "isPrevalentDueToDebugMode s' = isPrevalentDueToDebugMode s" by (subst s') (simp add: isPrevalentDueToDebugMode_def fun_eq_iff)
qed

lemma grows_map_wf:
  assumes "prevalence_grows s s'" "map_wf (m_resourceStatisticsMap s)" shows "map_wf (m_resourceStatisticsMap s')"
proof -
  have "map fst (m_resourceStatisticsMap s') = map fst (m_resourceStatisticsMap s)"
    using assms(1) by (simp add: prevalence_grows_def allDomains_def)
  moreover have "registrableDomain r' = d" if found: "map_of (m_resourceStatisticsMap s') d = Some r'" for d r'
  proof -
    obtain r where "findStatistics d s = Some r" "only_prevalence r r'"
      using grows_find(2) [OF assms(1), of d r'] found by (auto simp: findStatistics_def)
    then show ?thesis using assms(2) only_prevalenceD(2) [of r r'] unfolding map_wf_def findStatistics_def by metis
  qed
  ultimately show ?thesis using assms(2) unfolding map_wf_def by metis
qed

lemma grows_wf:
  assumes "prevalence_grows s s'" "statistics_wf s" shows "statistics_wf s'"
proof -
  have "isPrevalentResource r'" if found: "findStatistics d s' = Some r'" "isVeryPrevalentResource r'" for d r'
  proof -
    obtain r where "findStatistics d s = Some r" "only_prevalence r r'" using grows_find(2) [OF assms(1) found(1)] by blast
    then show ?thesis using assms(2) found(2) unfolding statistics_wf_def only_prevalence_def by blast
  qed
  then show ?thesis using assms grows_map_wf [OF assms(1)] unfolding statistics_wf_def by blast
qed

subsection \<open>Marking a domain\<close>

lemma find_fold_modify:
  assumes "\<And>r. f (f r) = f r"
  shows "findStatistics x (fold (\<lambda>d. modifyStatistics d f) L s) =
    (if x \<in> set L then map_option f (findStatistics x s) else findStatistics x s)"
proof (induction L arbitrary: s)
  case (Cons d L)
  then show ?case by (cases "findStatistics x s") (auto simp: assms)
qed simp

lemma grows_candidate:
  assumes "prevalence_grows s s'" "candidate (m_resourceStatisticsMap s') d"
  shows "candidate (m_resourceStatisticsMap s) d"
proof -
  obtain r' where "findStatistics d s' = Some r'" and np: "\<not> isPrevalentResource r'"
    using assms(2) by (auto simp: candidate_def findStatistics_def)
  then obtain r where "findStatistics d s = Some r" "only_prevalence r r'" using grows_find(2) [OF assms(1)] by blast
  then show ?thesis using np only_prevalenceD(6) [of r r'] by (auto simp: candidate_def findStatistics_def)
qed

lemma redirectors_grows:
  assumes g: "prevalence_grows s s'" and r: "redirectsFrom r' = redirectsFrom r"
  shows "redirectors (m_resourceStatisticsMap s') r' \<subseteq> redirectors (m_resourceStatisticsMap s) r"
proof
  fix x assume "x \<in> redirectors (m_resourceStatisticsMap s') r'"
  then show "x \<in> redirectors (m_resourceStatisticsMap s) r"
  proof (induction rule: redirectors.induct)
    case (direct d)
    then show ?case using r grows_candidate [OF g] by (simp add: redirectors.direct)
  next
    case (through d q' d')
    then have "findStatistics d s' = Some q'" by (simp add: findStatistics_def)
    then obtain q where q: "findStatistics d s = Some q" "only_prevalence q q'" using grows_find(2) [OF g] by blast
    then have "d' \<in> redirectsFrom q" using through only_prevalenceD(1) [OF q(2)] by simp
    then show ?case using through q(1) grows_candidate [OF g] by (auto simp: findStatistics_def intro: redirectors.through)
  qed
qed

definition redirects_closed :: "statistics_store \<Rightarrow> domain \<Rightarrow> bool" where
  "redirects_closed s x \<longleftrightarrow>
     (\<forall>r y. findStatistics x s = Some r \<and> y \<in> redirectsFrom r \<and> findStatistics y s \<noteq> None \<longrightarrow> isPrevalentIn s y)"

definition few_redirectors :: "statistics_store \<Rightarrow> bool" where
  "few_redirectors s \<longleftrightarrow> (\<forall>d r. findStatistics d s = Some r \<longrightarrow> card (redirectors (m_resourceStatisticsMap s) r) < 49)"

lemma grows_redirects_closed:
  assumes g: "prevalence_grows s s'" and c: "redirects_closed s x" shows "redirects_closed s' x"
  unfolding redirects_closed_def
proof (intro allI impI)
  fix r' y assume a: "findStatistics x s' = Some r' \<and> y \<in> redirectsFrom r' \<and> findStatistics y s' \<noteq> None"
  then obtain r where r: "findStatistics x s = Some r" "only_prevalence r r'" using grows_find(2) [OF g] by blast
  then have "y \<in> redirectsFrom r" "findStatistics y s \<noteq> None"
    using a only_prevalenceD(1) [OF r(2)] grows_find(3) [OF g] by simp_all
  then show "isPrevalentIn s' y" using c r(1) grows_prevalent [OF g] unfolding redirects_closed_def by blast
qed

lemma grows_few:
  assumes g: "prevalence_grows s s'" and few: "few_redirectors s" shows "few_redirectors s'"
  unfolding few_redirectors_def
proof (intro allI impI)
  fix d r' assume "findStatistics d s' = Some r'"
  then obtain r where r: "findStatistics d s = Some r" "only_prevalence r r'" using grows_find(2) [OF g] by blast
  have "card (redirectors (m_resourceStatisticsMap s') r') \<le> card (redirectors (m_resourceStatisticsMap s) r)"
    by (intro card_mono redirectors_finite redirectors_grows [OF g] only_prevalenceD(1) [OF r(2)])
  then show "card (redirectors (m_resourceStatisticsMap s') r') < 49"
    using few r(1) unfolding few_redirectors_def by fastforce
qed

lemma setPrevalent_obtain:
  assumes wf: "map_wf (m_resourceStatisticsMap s)" and skip: "\<not> shouldSkip s d" and r: "findStatistics d s = Some r"
  obtains L where
    "\<And>x. isPrevalentIn (setPrevalentResource d p s) x \<longleftrightarrow> isPrevalentIn s x \<or> x = d \<or> x \<in> L"
    and "L \<subseteq> redirectors (m_resourceStatisticsMap s) r"
    and "\<And>x. few_redirectors s \<Longrightarrow> x \<in> insert d L \<Longrightarrow> redirects_closed (setPrevalentResource d p s) x"
proof -
  let ?f = "\<lambda>r. r\<lparr>isPrevalentResource := True, isVeryPrevalentResource := p = VeryHigh\<rparr>"
  let ?s1 = "modifyStatistics d ?f s"
  let ?m1 = "m_resourceStatisticsMap ?s1"
  let ?L = "fst (recursivelyGetAllDomainsThatHaveRedirectedToThisDomain ?m1 (?f r) ([], 0))"
  let ?s2 = "fold (\<lambda>d. modifyStatistics d (\<lambda>r. r\<lparr>isPrevalentResource := True\<rparr>)) ?L ?s1"
  have s2: "setPrevalentResource d p s = ?s2" using skip r by (simp add: setPrevalentResource_def Let_def)
  have g1: "prevalence_grows s ?s1" by (rule prevalence_grows_modify) (simp add: only_prevalence_def)
  have g2: "prevalence_grows s ?s2" using setPrevalentResource_grows [of s d p] s2 by simp
  have wf1: "map_wf ?m1" by (rule grows_map_wf [OF g1 wf])
  have L: "set ?L \<subseteq> redirectors ?m1 (?f r)" by (rule traceBack_sound [OF wf1])
  have find: "findStatistics x ?s2 = (if x \<in> set ?L then map_option (\<lambda>r. r\<lparr>isPrevalentResource := True\<rparr>) (findStatistics x ?s1)
      else findStatistics x ?s1)" for x
    by (rule find_fold_modify) simp
  have "isPrevalentIn ?s2 x \<longleftrightarrow> isPrevalentIn s x \<or> x = d \<or> x \<in> set ?L" for x
  proof -
    have "findStatistics x s \<noteq> None" if "x \<in> set ?L"
      using L that redirectors_candidate grows_find(3) [OF g1, of x] by (fastforce simp: candidate_def findStatistics_def)
    then show ?thesis using r by (auto simp: isPrevalentIn_def find split: option.splits)
  qed
  moreover have "set ?L \<subseteq> redirectors (m_resourceStatisticsMap s) r"
    using L redirectors_grows [OF g1, of "?f r" r] by (simp add: redirectsFrom_def)
  moreover have "redirects_closed ?s2 x" if few: "few_redirectors s" and x: "x \<in> insert d (set ?L)" for x
    unfolding redirects_closed_def
  proof (intro allI impI)
    fix q y assume a: "findStatistics x ?s2 = Some q \<and> y \<in> redirectsFrom q \<and> findStatistics y ?s2 \<noteq> None"
    have r1: "findStatistics d ?s1 = Some (?f r)" using r by simp
    have complete: "set ?L = redirectors ?m1 (?f r)"
      using traceBack_complete [OF wf1] grows_few [OF g1 few] r1 unfolding few_redirectors_def by blast
    show "isPrevalentIn ?s2 y"
    proof (cases "candidate ?m1 y")
      case True
      have "y \<in> redirectors ?m1 (?f r)"
      proof (cases "x = d")
        case True
        then have "redirectsFrom q = redirectsFrom (?f r)" using a find [of x] r by (auto simp: redirectsFrom_def split: if_splits)
        then show ?thesis using a \<open>candidate ?m1 y\<close> by (auto intro: redirectors.direct)
      next
        case False
        then have "x \<in> redirectors ?m1 (?f r)" using x complete by simp
        moreover obtain q1 where q1: "findStatistics x ?s1 = Some q1" "redirectsFrom q = redirectsFrom q1"
          using a find [of x] by (auto simp: redirectsFrom_def split: if_splits)
        moreover have "map_of ?m1 x = Some q1" using q1(1) by (simp only: findStatistics_def)
        ultimately show ?thesis using a \<open>candidate ?m1 y\<close> by (auto intro: redirectors.through)
      qed
      then show ?thesis using complete find [of y] a by (auto simp: isPrevalentIn_def)
    next
      case False
      then have "isPrevalentIn ?s1 y" using a find [of y] by (auto simp: isPrevalentIn_def candidate_def findStatistics_def split: if_splits option.splits)
      then show ?thesis using find [of y] by (auto simp: isPrevalentIn_def split: if_splits option.splits)
    qed
  qed
  ultimately show ?thesis using that [of "set ?L"] s2 by simp
qed

subsection \<open>Classification\<close>

text \<open>Why a domain may be found prevalent.\<close>

inductive justified :: "statistics_store \<Rightarrow> domain \<Rightarrow> bool" for s where
  already: "isPrevalentIn s d \<Longrightarrow> justified s d"
| debug: "isPrevalentDueToDebugMode s d \<Longrightarrow> justified s d"
| features: "findStatistics d s = Some r \<Longrightarrow> calculateResourcePrevalence r Low \<noteq> Low \<Longrightarrow> justified s d"
| redirects_to: "findStatistics d s = Some r \<Longrightarrow>
    d' \<in> set (subresourceUniqueRedirectsTo r) \<union> set (topFrameUniqueRedirectsTo r) \<Longrightarrow> justified s d' \<Longrightarrow> justified s d"
| redirected_from: "justified s d \<Longrightarrow> findStatistics d s = Some r \<Longrightarrow> d' \<in> redirectsFrom r \<Longrightarrow> justified s d'"

definition classifying :: "statistics_store \<Rightarrow> statistics_store \<Rightarrow> bool" where
  "classifying s0 s \<longleftrightarrow> prevalence_grows s0 s \<and> (\<forall>x. isPrevalentIn s x \<longrightarrow> justified s0 x) \<and>
     (few_redirectors s0 \<longrightarrow> (\<forall>x. isPrevalentIn s x \<and> \<not> isPrevalentIn s0 x \<longrightarrow> redirects_closed s x))"

lemma redirectors_justified:
  assumes g: "prevalence_grows s0 s" and d: "justified s0 d" "findStatistics d s = Some r"
    and x: "x \<in> redirectors (m_resourceStatisticsMap s) r"
  shows "justified s0 x"
  using x
proof (induction rule: redirectors.induct)
  case (direct x)
  obtain r0 where "findStatistics d s0 = Some r0" "only_prevalence r0 r" using grows_find(2) [OF g d(2)] by blast
  then show ?case using direct d(1) only_prevalenceD(1) [of r0 r] by (auto intro: justified.redirected_from)
next
  case (through x q y)
  then have "findStatistics x s = Some q" by (simp add: findStatistics_def)
  then obtain q0 where "findStatistics x s0 = Some q0" "only_prevalence q0 q" using grows_find(2) [OF g] by blast
  then show ?case using through only_prevalenceD(1) [of q0 q] by (auto intro: justified.redirected_from)
qed

lemma classifying_set:
  assumes inv: "classifying s0 s" and wf: "map_wf (m_resourceStatisticsMap s0)" and d: "justified s0 d"
  shows "classifying s0 (setPrevalentResource d p s)"
proof (cases "shouldSkip s d")
  case True
  then show ?thesis using inv by (simp add: setPrevalentResource_def)
next
  case False
  let ?s = "setPrevalentResource d p s"
  have g: "prevalence_grows s0 s" using inv by (simp add: classifying_def)
  have g': "prevalence_grows s ?s" by (rule setPrevalentResource_grows)
  show ?thesis
  proof (cases "findStatistics d s")
    case None
    have s: "?s = modifyStatistics d (\<lambda>r. r\<lparr>isPrevalentResource := True, isVeryPrevalentResource := p = VeryHigh\<rparr>) s"
      using None False by (simp add: setPrevalentResource_def Let_def)
    have "isPrevalentIn ?s x = isPrevalentIn s x" for x unfolding s isPrevalentIn_def using None by (cases "x = d") simp_all
    then show ?thesis using inv prevalence_grows_trans [OF g g'] grows_redirects_closed [OF g'] unfolding classifying_def by blast
  next
    case (Some r)
    obtain L where L: "\<And>x. isPrevalentIn ?s x \<longleftrightarrow> isPrevalentIn s x \<or> x = d \<or> x \<in> L"
      "L \<subseteq> redirectors (m_resourceStatisticsMap s) r"
      "\<And>x. few_redirectors s \<Longrightarrow> x \<in> insert d L \<Longrightarrow> redirects_closed ?s x"
      by (rule setPrevalent_obtain [OF grows_map_wf [OF g wf] False Some, where p = p]) (rule that)
    have "justified s0 x" if prevalent: "isPrevalentIn ?s x" for x
    proof -
      consider "isPrevalentIn s x" | "x = d" | "x \<in> redirectors (m_resourceStatisticsMap s) r" using L(1) [of x] L(2) prevalent by blast
      then show ?thesis
      proof cases
        case 1
        then show ?thesis using inv by (simp add: classifying_def)
      qed (use d redirectors_justified [OF g d Some] in simp_all)
    qed
    moreover have "redirects_closed ?s x" if few: "few_redirectors s0" and x: "isPrevalentIn ?s x" "\<not> isPrevalentIn s0 x" for x
    proof (cases "isPrevalentIn s x")
      case True
      then have "redirects_closed s x" using inv few x(2) by (simp add: classifying_def)
      then show ?thesis by (rule grows_redirects_closed [OF g'])
    next
      case False
      then have "x \<in> insert d L" using L(1) [of x] x(1) by blast
      then show ?thesis by (rule L(3) [OF grows_few [OF g few]])
    qed
    ultimately show ?thesis using prevalence_grows_trans [OF g g'] unfolding classifying_def by blast
  qed
qed

lemma justified_redirecting:
  assumes inv: "classifying s0 s" and r: "findStatistics d s = Some r"
    and to: "d' \<in> set (subresourceUniqueRedirectsTo r) \<union> set (topFrameUniqueRedirectsTo r)" and p: "isPrevalentIn s d'"
  shows "justified s0 d"
proof -
  obtain r0 where r0: "findStatistics d s0 = Some r0" "only_prevalence r0 r"
    using grows_find(2) [of s0 s d r] inv r unfolding classifying_def by blast
  have "d' \<in> set (subresourceUniqueRedirectsTo r0) \<union> set (topFrameUniqueRedirectsTo r0)"
    using to only_prevalenceD(3,4) [OF r0(2)] by simp
  moreover have "justified s0 d'" using inv p by (simp add: classifying_def)
  ultimately show ?thesis using r0(1) by (blast intro: justified.redirects_to)
qed

lemma classifying_mark:
  assumes "classifying s0 s" "map_wf (m_resourceStatisticsMap s0)" "findStatistics d s = Some r"
  shows "classifying s0 (markAsPrevalentIfHasRedirectedToPrevalent d r s)"
proof -
  have "classifying s0 (setPrevalentResource d High s)"
    if "d' \<in> set (subresourceUniqueRedirectsTo r) \<union> set (topFrameUniqueRedirectsTo r)" "isPrevalentIn s d'" for d'
    by (rule classifying_set [OF assms(1,2) justified_redirecting [OF assms(1,3) that]])
  then show ?thesis using assms(1) by (auto simp: markAsPrevalentIfHasRedirectedToPrevalent_def)
qed

lemma classifying_resource:
  assumes inv: "classifying s0 s" and wf: "map_wf (m_resourceStatisticsMap s0)"
  shows "classifying s0 (classifyResource d s)"
proof -
  have g: "prevalence_grows s0 s" using inv by (simp add: classifying_def)
  show ?thesis
  proof (cases "shouldSkip s d \<or> findStatistics d s = None \<or> isPrevalentDueToDebugMode s d")
    case True
    have "justified s0 d" if "isPrevalentDueToDebugMode s d" using that grows_config(2) [OF g] by (simp add: justified.debug)
    then show ?thesis using True inv classifying_set [OF inv wf] by (auto simp: classifyResource_def)
  next
    case False
    then obtain r where r: "findStatistics d s = Some r" by auto
    let ?s = "markAsPrevalentIfHasRedirectedToPrevalent d r s"
    have inv': "classifying s0 ?s" by (rule classifying_mark [OF inv wf r])
    obtain r' where r': "findStatistics d ?s = Some r'" "only_prevalence r r'" using grows_find(1) [OF mark_grows r] by blast
    have "justified s0 d" if "calculateResourcePrevalence r' (if isPrevalentResource r' then High else Low) \<noteq>
        (if isPrevalentResource r' then High else Low)"
    proof (cases "isPrevalentResource r'")
      case True
      then show ?thesis using inv' r'(1) by (simp add: classifying_def isPrevalentIn_def)
    next
      case False
      obtain r0 where r0: "findStatistics d s0 = Some r0" "only_prevalence r0 r" using grows_find(2) [OF g r] by blast
      have "calculateResourcePrevalence r0 Low \<noteq> Low"
        using that False only_prevalenceD(5) [OF r0(2)] only_prevalenceD(5) [OF r'(2)] by simp
      then show ?thesis by (rule justified.features [OF r0(1)])
    qed
    from classifying_set [OF inv' wf this] show ?thesis
      using False r r'(1) inv inv' by (simp add: classifyResource_def Let_def)
  qed
qed

lemma classifying_refl: "classifying s s"
  by (auto simp: classifying_def prevalence_grows_refl intro: justified.already)

lemma classifying_all:
  assumes "statistics_wf s" shows "classifying s (classifyPrevalentResources s)"
proof -
  have "classifying s (fold classifyResource ds s')" if "classifying s s'" for ds s'
    using that by (induction ds arbitrary: s') (use assms in \<open>auto simp: statistics_wf_def intro: classifying_resource\<close>)
  then show ?thesis by (simp add: classifyPrevalentResources_def classifying_refl)
qed

text \<open>What classification must find.\<close>

definition tracks :: "statistics_store \<Rightarrow> domain \<Rightarrow> load_statistics \<Rightarrow> bool" where
  "tracks s d r \<longleftrightarrow> isPrevalentDueToDebugMode s d \<or> calculateResourcePrevalence r Low \<noteq> Low \<or>
     (\<exists>d' \<in> set (subresourceUniqueRedirectsTo r) \<union> set (topFrameUniqueRedirectsTo r). isPrevalentIn s d')"

lemma setPrevalent_marks:
  "findStatistics d s = Some r \<Longrightarrow> \<not> shouldSkip s d \<Longrightarrow> map_wf (m_resourceStatisticsMap s) \<Longrightarrow>
     isPrevalentIn (setPrevalentResource d p s) d"
  by (rule setPrevalent_obtain [where s = s and d = d and r = r and p = p]) simp_all

lemma classifyResource_finds:
  assumes wf: "statistics_wf s" and skip: "\<not> shouldSkip s d" and r: "findStatistics d s = Some r" and t: "tracks s d r"
  shows "isPrevalentIn (classifyResource d s) d"
proof -
  have mwf: "map_wf (m_resourceStatisticsMap s)" using wf by (simp add: statistics_wf_def)
  show ?thesis
  proof (cases "isPrevalentDueToDebugMode s d \<or> isPrevalentResource r")
    case True
    then show ?thesis
    proof
      assume "isPrevalentDueToDebugMode s d"
      then show ?thesis using setPrevalent_marks [OF r skip mwf] skip by (simp add: classifyResource_def)
    next
      assume "isPrevalentResource r"
      then show ?thesis using grows_prevalent [OF classifyResource_grows] r by (simp add: isPrevalentIn_def)
    qed
  next
    case False
    then have nv: "\<not> isVeryPrevalentResource r" using wf r unfolding statistics_wf_def by blast
    let ?s = "markAsPrevalentIfHasRedirectedToPrevalent d r s"
    obtain r' where r': "findStatistics d ?s = Some r'" "only_prevalence r r'" using grows_find(1) [OF mark_grows r] by blast
    let ?next = "\<lambda>p. if calculateResourcePrevalence r' p \<noteq> p then setPrevalentResource d (calculateResourcePrevalence r' p) ?s else ?s"
    have c: "classifyResource d s = ?next (if isPrevalentResource r' then High else Low)"
      using skip False nv r r'(1) by (simp add: classifyResource_def Let_def)
    show ?thesis
    proof (cases "isPrevalentResource r'")
      case True
      then have "isPrevalentIn ?s d" using r'(1) by (simp add: isPrevalentIn_def)
      then show ?thesis unfolding c using grows_prevalent [OF setPrevalentResource_grows] by simp
    next
      case False
      have "\<not> (\<exists>d' \<in> set (subresourceUniqueRedirectsTo r) \<union> set (topFrameUniqueRedirectsTo r). isPrevalentIn s d')"
      proof
        assume "\<exists>d' \<in> set (subresourceUniqueRedirectsTo r) \<union> set (topFrameUniqueRedirectsTo r). isPrevalentIn s d'"
        then have "?s = setPrevalentResource d High s"
          using \<open>\<not> (isPrevalentDueToDebugMode s d \<or> isPrevalentResource r)\<close> by (auto simp: markAsPrevalentIfHasRedirectedToPrevalent_def)
        then have "isPrevalentIn ?s d" using setPrevalent_marks [OF r skip mwf] by simp
        then show False using False r'(1) by (simp add: isPrevalentIn_def)
      qed
      then have "calculateResourcePrevalence r' Low \<noteq> Low"
        using t \<open>\<not> (isPrevalentDueToDebugMode s d \<or> isPrevalentResource r)\<close> only_prevalenceD(5) [OF r'(2)] by (simp add: tracks_def)
      moreover have "isPrevalentIn (setPrevalentResource d p ?s) d" for p
        using setPrevalent_marks [OF r'(1)] skip grows_config(1) [OF mark_grows] grows_map_wf [OF mark_grows mwf] by simp
      ultimately show ?thesis unfolding c using False by simp
    qed
  qed
qed

lemma grows_tracks:
  assumes g: "prevalence_grows s s'" and r: "findStatistics d s = Some r" and t: "tracks s d r"
  obtains r' where "findStatistics d s' = Some r'" "tracks s' d r'"
proof -
  obtain r' where r': "findStatistics d s' = Some r'" "only_prevalence r r'" using grows_find(1) [OF g r] by blast
  have "tracks s' d r'"
    using t grows_config(2) [OF g] only_prevalenceD(3-5) [OF r'(2)] grows_prevalent [OF g] by (auto simp: tracks_def)
  then show ?thesis using that r'(1) by blast
qed

lemma classify_finds:
  assumes "d \<in> set ds" "statistics_wf s" "\<not> shouldSkip s d" "findStatistics d s = Some r" "tracks s d r"
  shows "isPrevalentIn (fold classifyResource ds s) d"
  using assms
proof (induction ds arbitrary: s r)
  case (Cons d' ds)
  let ?s = "classifyResource d' s"
  show ?case
  proof (cases "d = d'")
    case True
    then have "isPrevalentIn ?s d" using classifyResource_finds Cons.prems by blast
    then show ?thesis using grows_prevalent [OF prevalence_grows_fold [OF classifyResource_grows]] by simp
  next
    case False
    obtain r' where "findStatistics d ?s = Some r'" "tracks ?s d r'"
      using grows_tracks [OF classifyResource_grows Cons.prems(4,5)] by blast
    then show ?thesis
      using Cons.IH [of ?s r'] False Cons.prems grows_wf [OF classifyResource_grows] grows_config(1) [OF classifyResource_grows] by simp
  qed
qed simp

text \<open>A calendar and statistics to compute with: a new domain has no statistics, and all years are one.\<close>

definition no_statistics :: "domain \<Rightarrow> load_statistics" where
  "no_statistics d = \<lparr>registrableDomain = d, lastSeen = 0, hadUserInteraction = False, mostRecentUserInteractionTime = 0,
     grandfathered = False, storageAccessUnderTopFrameDomains = [], topFrameUniqueRedirectsTo = [],
     topFrameUniqueRedirectsToSinceSameSiteStrictEnforcement = [], topFrameUniqueRedirectsFrom = [],
     topFrameLinkDecorationsFrom = [], gotLinkDecorationFromPrevalentResource = False,
     topFrameLoadedThirdPartyScripts = [], subframeUnderTopFrameDomains = [], subresourceUnderTopFrameDomains = [],
     subresourceUniqueRedirectsTo = [], subresourceUniqueRedirectsFrom = [], isPrevalentResource = False,
     isVeryPrevalentResource = False, dataRecordsRemoved = 0, timesAccessedAsFirstPartyDueToStorageAccessAPI = 0\<rparr>"

definition simple_env :: statistics_env where
  "simple_env = \<lparr>newStatistics = no_statistics, merge_statistic = (\<lambda>r r'. r), reduceTimeResolution = (\<lambda>t. t),
     statistic_toString = registrableDomain, msToYear = (\<lambda>ms. 1970), dayInYear = (\<lambda>ms year. ms div 86400000),
     isLeapYear = (\<lambda>year. False), monthFromDayInYear = (\<lambda>day leap. 0), dayInMonthFromDayInYear = (\<lambda>day leap. day),
     dateToDaysFrom1970 = (\<lambda>year month day. day)\<rparr>"


definition example_store :: statistics_store where
  "example_store = fold (\<lambda>top. setSubresourceUnderTopFrameDomain simple_env ''tracker'' top) [''a'', ''b'', ''c'', ''d'']
     (logFrameNavigation simple_env 5 ''tracker'' ''top'' ''redirector'' True False 0 False
       (ResourceLoadStatisticsMemoryStore_new simple_env 5 True))"

lemma example_computed:
  "distinct (map fst (m_resourceStatisticsMap example_store))"
  "list_all (\<lambda>e. registrableDomain (snd e) = fst e \<and> \<not> isVeryPrevalentResource (snd e)) (m_resourceStatisticsMap example_store)"
  "isPrevalentIn (classifyPrevalentResources example_store) ''redirector''"
  "list_all (\<lambda>top. \<not> isPrevalentIn (classifyPrevalentResources example_store) top) [''a'', ''b'', ''c'', ''d'']"
  by code_simp+

lemma example_wf: "statistics_wf example_store"
proof -
  have "registrableDomain r = d \<and> \<not> isVeryPrevalentResource r" if "map_of (m_resourceStatisticsMap example_store) d = Some r" for d r
    using example_computed(2) map_of_SomeD [OF that] by (auto simp: list_all_iff)
  then show ?thesis using example_computed(1) by (simp add: statistics_wf_def map_wf_def findStatistics_def del: map_of_eq_Some_iff)
qed


end
