(* ===== verification/Load_Policy.thy ===== *)
theory Load_Policy
  imports Load_Classification
begin

text \<open>
  What the store of load statistics promises about time and data: when a user interaction has expired, whose
  website data is deleted, and which statistics are dropped when there are too many.
\<close>

subsection \<open>Operating dates\<close>

text \<open>What is relied on of the calendar: a date denotes the day of the time it was made of, and nothing else.\<close>

definition day :: "seconds \<Rightarrow> int" where
  "day t = t div secondsPerDay"

definition date_of_day :: "statistics_env \<Rightarrow> int \<Rightarrow> operating_date" where
  "date_of_day E n = fromWallTime E (n * secondsPerDay)"

definition calendar_works :: "statistics_env \<Rightarrow> bool" where
  "calendar_works E \<longleftrightarrow> (\<forall>t. secondsSinceEpoch E (fromWallTime E t) = day t * secondsPerDay) \<and>
     (\<forall>t. fromWallTime E t = date_of_day E (day t))"

lemma calendar_worksD:
  assumes "calendar_works E"
  shows "fromWallTime E t = date_of_day E (day t)" "secondsSinceEpoch E (date_of_day E n) = n * secondsPerDay"
  using assms unfolding calendar_works_def
  by (blast, metis date_of_day_def day_def nonzero_mult_div_cancel_right secondsPerDay_def zero_neq_numeral)

lemma date_less_day: "calendar_works E \<Longrightarrow> date_less E (date_of_day E n) (date_of_day E n') \<longleftrightarrow> n < n'"
  by (simp add: calendar_worksD(2) date_less_def secondsPerDay_def)

lemma date_le_day: "calendar_works E \<Longrightarrow> date_le E (date_of_day E n) (date_of_day E n') \<longleftrightarrow> n \<le> n'"
  by (simp add: calendar_worksD(2) date_le_def secondsPerDay_def)

text \<open>The days on which the store was in use, oldest first.\<close>

definition add_day :: "int \<Rightarrow> int list \<Rightarrow> int list" where
  "add_day n ds = (if ds \<noteq> [] \<and> n \<le> last ds then ds else ds @ [n])"

definition days_of_use :: "seconds list \<Rightarrow> int list" where
  "days_of_use ts = fold (\<lambda>t. add_day (day t)) ts []"

definition last_days :: "nat \<Rightarrow> 'a list \<Rightarrow> 'a list" where
  "last_days n ds = drop (length ds - n) ds"

lemma length_last_days [simp]: "length (last_days n ds) = min n (length ds)"
  by (simp add: last_days_def min_def)

lemma last_last_days [simp]: "0 < n \<Longrightarrow> ds \<noteq> [] \<Longrightarrow> last (last_days n ds) = last ds"
  by (simp add: last_days_def)

lemma last_days_Nil [simp]: "0 < n \<Longrightarrow> last_days n ds = [] \<longleftrightarrow> ds = []"
  by (cases ds) (auto simp: last_days_def)

lemma last_days_append: "0 < n \<Longrightarrow> drop (Suc (length (last_days n ds)) - n) (last_days n ds) @ [d] = last_days n (ds @ [d])"
  by (cases "n \<le> length ds") (simp_all add: last_days_def Suc_diff_le)

lemma days_of_use_snoc: "days_of_use (ts @ [t]) = add_day (day t) (days_of_use ts)"
  by (simp add: days_of_use_def)

lemma sorted_last_greatest: "sorted_wrt (<) ds \<Longrightarrow> (n :: int) \<in> set ds \<Longrightarrow> n \<le> last ds"
  by (induction ds rule: rev_induct) (auto simp: sorted_wrt_append intro: less_imp_le)

lemma days_of_use_sorted:
  "sorted ts \<Longrightarrow> sorted_wrt (<) (days_of_use ts) \<and> set (days_of_use ts) = day ` set ts \<and>
     (ts \<noteq> [] \<longrightarrow> days_of_use ts \<noteq> [] \<and> last (days_of_use ts) = day (last ts))"
proof (induction ts rule: rev_induct)
  case Nil
  then show ?case by (simp add: days_of_use_def)
next
  case (snoc t ts)
  then have IH: "sorted_wrt (<) (days_of_use ts)" "set (days_of_use ts) = day ` set ts"
    "ts \<noteq> [] \<Longrightarrow> days_of_use ts \<noteq> [] \<and> last (days_of_use ts) = day (last ts)" by (simp_all add: sorted_append)
  have mono: "day u \<le> day t" if "u \<in> set ts" for u
    using snoc.prems that by (simp add: sorted_append day_def secondsPerDay_def zdiv_mono1)
  show ?case
  proof (cases "days_of_use ts \<noteq> [] \<and> day t \<le> last (days_of_use ts)")
    case True
    then have "ts \<noteq> []" by (auto simp: days_of_use_def)
    then have eq: "day t = day (last ts)" using True IH mono [of "last ts"] by simp
    then have "day t \<in> day ` set ts" using \<open>ts \<noteq> []\<close> by (metis imageI last_in_set)
    then show ?thesis using True IH(1,2) IH(3) [OF \<open>ts \<noteq> []\<close>] eq by (simp add: days_of_use_snoc add_day_def insert_absorb)
  next
    case False
    have "n < day t" if "n \<in> set (days_of_use ts)" for n
    proof -
      have "n \<le> last (days_of_use ts)" by (rule sorted_last_greatest [OF IH(1) that])
      moreover have "days_of_use ts \<noteq> []" using that by auto
      ultimately show ?thesis using False by linarith
    qed
    then show ?thesis using False IH by (auto simp: days_of_use_snoc add_day_def sorted_wrt_append)
  qed
qed

lemma operating_dates_of_use:
  assumes cal: "calendar_works E" and dates: "m_operatingDates s = map (date_of_day E) (last_days 30 ds)"
  shows "m_operatingDates (includeTodayAsOperatingDateIfNecessary E t s) = map (date_of_day E) (last_days 30 (add_day (day t) ds))"
proof -
  have "last (m_operatingDates s) = date_of_day E (last ds)" if "ds \<noteq> []"
    using that by (simp add: dates last_map)
  then show ?thesis
    using arg_cong [OF last_days_append [of 30 ds "day t"], of "map (date_of_day E)"]
    by (auto simp: includeTodayAsOperatingDateIfNecessary_def Let_def add_day_def dates calendar_worksD(1) [OF cal]
      date_le_day [OF cal] operatingDatesWindowLong_def drop_map)
qed

lemma operating_dates_run:
  assumes cal: "calendar_works E" and "m_operatingDates s = map (date_of_day E) (last_days 30 (days_of_use us))"
  shows "m_operatingDates (fold (includeTodayAsOperatingDateIfNecessary E) ts s) = map (date_of_day E) (last_days 30 (days_of_use (us @ ts)))"
  using assms(2)
proof (induction ts arbitrary: s us)
  case (Cons t ts)
  from operating_dates_of_use [OF cal Cons.prems, of t] Cons.IH [of _ "us @ [t]"] show ?case by (simp add: days_of_use_snoc)
qed simp

lemma hd_last_days:
  assumes "sorted_wrt (<) ds" "0 < n" "ds \<noteq> []"
  shows "(i :: int) < hd (last_days n ds) \<longleftrightarrow> min n (length ds) \<le> length (filter (\<lambda>d. i < d) ds)"
proof -
  let ?j = "length ds - n"
  have j: "?j < length ds" using assms by (cases ds) simp_all
  then have split: "ds = take ?j ds @ drop ?j ds" "drop ?j ds = (ds ! ?j) # drop (Suc ?j) ds" by (simp_all add: Cons_nth_drop_Suc)
  have sorted: "sorted_wrt (<) (take ?j ds @ ds ! ?j # drop (Suc ?j) ds)" using assms(1) split by metis
  have len: "length (filter (\<lambda>d. i < d) ds) = length (filter (\<lambda>d. i < d) (take ?j ds)) + length (filter (\<lambda>d. i < d) (drop ?j ds))"
    by (metis append_take_drop_id filter_append length_append)
  have m: "length ds - ?j = min n (length ds)" by linarith
  have hd: "hd (last_days n ds) = ds ! ?j" using j by (simp add: last_days_def hd_drop_conv_nth)
  show ?thesis
  proof (cases "i < ds ! ?j")
    case True
    then have "filter (\<lambda>d. i < d) (drop ?j ds) = drop ?j ds"
      using sorted unfolding split(2) by (auto simp: sorted_wrt_append intro!: filter_True)
    then have "length (drop ?j ds) \<le> length (filter (\<lambda>d. i < d) ds)" using len by simp
    then show ?thesis using True hd m by simp
  next
    case False
    have "filter (\<lambda>d. i < d) (take ?j ds) = []" using sorted False by (fastforce simp: sorted_wrt_append filter_empty_conv)
    moreover have "length (filter (\<lambda>d. i < d) (drop ?j ds)) \<le> length (drop (Suc ?j) ds)"
      unfolding split(2) using False length_filter_le [of "(<) i" "drop (Suc ?j) ds"] by simp
    ultimately have "length (filter (\<lambda>d. i < d) ds) < length ds - ?j" using len j by simp
    then show ?thesis using False hd m by linarith
  qed
qed

text \<open>The number of days of use after a day.\<close>

definition days_after :: "int \<Rightarrow> seconds list \<Rightarrow> nat" where
  "days_after n ts = card {d \<in> day ` set ts. n < d}"

lemma days_after_eq:
  assumes "sorted ts" shows "days_after n ts = length (filter (\<lambda>d. n < d) (days_of_use ts))"
    and "card (day ` set ts) = length (days_of_use ts)"
proof -
  have ds: "sorted_wrt (<) (days_of_use ts)" "set (days_of_use ts) = day ` set ts" using days_of_use_sorted [OF assms] by simp_all
  then have "distinct (days_of_use ts)" by (simp add: strict_sorted_iff)
  then show "days_after n ts = length (filter (\<lambda>d. n < d) (days_of_use ts))" "card (day ` set ts) = length (days_of_use ts)"
    unfolding days_after_def ds(2) [symmetric]
    by (metis distinct_card distinct_filter set_filter, simp add: distinct_card)
qed

lemma expired_counts_days:
  assumes cal: "calendar_works E" and sorted: "sorted (t # ts)"
    and s: "m_operatingDates s = map (date_of_day E) (last_days 30 (days_of_use (t # ts)))"
    and "timeToLiveUserInteraction (m_parameters s) = None"
  shows "hasStatisticsExpired E now s i LongWindow \<longleftrightarrow> 30 \<le> days_after (day i) (t # ts)"
    and "hasStatisticsExpired E now s i ShortWindow \<longleftrightarrow>
      7 \<le> card (day ` set (t # ts)) \<and> min 30 (card (day ` set (t # ts))) \<le> days_after (day i) (t # ts)"
proof -
  let ?ds = "days_of_use (t # ts)"
  have ds: "sorted_wrt (<) ?ds" "?ds \<noteq> []" using days_of_use_sorted [OF sorted] by simp_all
  have "date_less E (fromWallTime E i) (hd (m_operatingDates s)) \<longleftrightarrow> min 30 (length ?ds) \<le> days_after (day i) (t # ts)"
    using hd_last_days [OF ds(1) _ ds(2), of 30 "day i"] ds(2) s
    by (simp add: calendar_worksD(1) [OF cal] hd_map date_less_day [OF cal] days_after_eq(1) [OF sorted])
  moreover have "days_after (day i) (t # ts) \<le> length ?ds" by (simp add: days_after_eq(1) [OF sorted])
  ultimately show "hasStatisticsExpired E now s i LongWindow \<longleftrightarrow> 30 \<le> days_after (day i) (t # ts)"
    "hasStatisticsExpired E now s i ShortWindow \<longleftrightarrow>
      7 \<le> card (day ` set (t # ts)) \<and> min 30 (card (day ` set (t # ts))) \<le> days_after (day i) (t # ts)"
    using assms(4) s days_after_eq(2) [OF sorted]
    by (auto simp: hasStatisticsExpired_def Let_def operatingDatesWindowLong_def operatingDatesWindowShort_def min_def simp del: set_simps)
qed

text \<open>The store of a session that is used at the times \<open>ts\<close>: it is made at the first.\<close>

definition used_store :: "statistics_env \<Rightarrow> seconds list \<Rightarrow> statistics_store" where
  "used_store E ts = fold (includeTodayAsOperatingDateIfNecessary E) (tl ts) (ResourceLoadStatisticsMemoryStore_new E (hd ts) True)"

lemma parameters_includeToday [simp]: "m_parameters (includeTodayAsOperatingDateIfNecessary E t s) = m_parameters s"
  by (simp add: includeTodayAsOperatingDateIfNecessary_def Let_def)

lemma used_store_dates:
  assumes cal: "calendar_works E"
  shows "m_operatingDates (used_store E (t # ts)) = map (date_of_day E) (last_days 30 (days_of_use (t # ts)))"
    and "timeToLiveUserInteraction (m_parameters (used_store E (t # ts))) = None"
proof -
  let ?s = "ResourceLoadStatisticsMemoryStore_new E t True"
  have "m_operatingDates ?s = map (date_of_day E) (last_days 30 (days_of_use [t]))"
    by (simp add: ResourceLoadStatisticsMemoryStore_new_def includeTodayAsOperatingDateIfNecessary_def Let_def
      days_of_use_def add_day_def last_days_def calendar_worksD(1) [OF cal])
  from operating_dates_run [OF cal this, of ts]
  show "m_operatingDates (used_store E (t # ts)) = map (date_of_day E) (last_days 30 (days_of_use (t # ts)))"
    by (simp add: used_store_def)
  have "m_parameters (fold (includeTodayAsOperatingDateIfNecessary E) us s) = m_parameters s" for us s
    by (induction us arbitrary: s) simp_all
  moreover have "timeToLiveUserInteraction (m_parameters ?s) = None"
    by (simp add: ResourceLoadStatisticsMemoryStore_new_def default_parameters_def)
  ultimately show "timeToLiveUserInteraction (m_parameters (used_store E (t # ts))) = None" by (simp add: used_store_def)
qed

lemma calendar_simple: "calendar_works simple_env"
proof -
  have "t * 1000 div 86400000 = t div 86400" for t :: int
    using div_mult_mult2 [of 1000 t 86400] by simp
  then show ?thesis
    by (simp add: calendar_works_def date_of_day_def fromWallTime_def secondsSinceEpoch_def simple_env_def day_def secondsPerDay_def)
qed

text \<open>
  Claim C19. Although only thirty dates are kept, the long window is exact: a user interaction expires once the
  browser has been used on thirty later days, whatever the days, however often a day and however many days in all.
\<close>

theorem long_window_exact:
  assumes "calendar_works E" and "sorted (t # ts)"
  shows "hasStatisticsExpired E now (used_store E (t # ts)) i LongWindow \<longleftrightarrow> 30 \<le> days_after (day i) (t # ts)"
  by (rule expired_counts_days(1) [OF assms used_store_dates [OF assms(1)]])

theorem long_window_exact_witness:
  "\<not> hasStatisticsExpired simple_env 200000 (used_store simple_env [0, 100000, 200000]) 5 LongWindow"
proof -
  have "days_after (day 5) [0, 100000, 200000] \<le> card {0, 1, 2 :: int}"
    unfolding days_after_def by (rule card_mono) (auto simp: day_def secondsPerDay_def)
  then have "\<not> 30 \<le> days_after (day 5) [0, 100000, 200000]" by simp
  then show ?thesis using long_window_exact [OF calendar_simple, of 0 "[100000, 200000]" 200000 5] by simp
qed

text \<open>
  Claim C38. The short window is not seven days long: while at most thirty days of use are recorded, an interaction on any
  of them has not expired, though the browser was used on up to twenty-nine later days.
\<close>

theorem short_window_too_long:
  assumes "calendar_works E" and "sorted (t # ts)" and "day i \<in> day ` set (t # ts)" and "card (day ` set (t # ts)) \<le> 30"
  shows "\<not> hasStatisticsExpired E now (used_store E (t # ts)) i ShortWindow"
proof -
  have "days_after (day i) (t # ts) < card (day ` set (t # ts))"
    unfolding days_after_def by (rule psubset_card_mono) (use assms(3) in auto)
  then show ?thesis
    using expired_counts_days(2) [OF assms(1,2) used_store_dates [OF assms(1)], of now i] assms(4) by simp
qed

theorem short_window_too_long_witness:
  "days_after (day 5) (map (\<lambda>n. int n * secondsPerDay) [0..<20]) = 19 \<and>
     \<not> hasStatisticsExpired simple_env 1700000 (used_store simple_env (map (\<lambda>n. int n * secondsPerDay) [0..<20])) 5 ShortWindow"
proof -
  let ?ts = "map (\<lambda>n. int n * secondsPerDay) [1..<20]"
  have all: "map (\<lambda>n. int n * secondsPerDay) [0..<20] = 0 # ?ts" by (simp add: upt_rec)
  have days: "day ` set (0 # ?ts) = int ` {0..<20}"
  proof -
    have "day (int n * secondsPerDay) = int n" for n by (simp add: day_def secondsPerDay_def)
    then have "day ` set (map (\<lambda>n. int n * secondsPerDay) [0..<20]) = int ` {0..<20}" by (simp add: image_image)
    then show ?thesis using all by simp
  qed
  have "{d \<in> int ` {0..<20}. 0 < d} = int ` {1..<20}" by force
  then have "days_after (day 5) (0 # ?ts) = card (int ` {1..<20})"
    unfolding days_after_def days by (simp add: day_def secondsPerDay_def)
  then have "days_after (day 5) (0 # ?ts) = 19" by (simp add: card_image)
  moreover have "\<not> hasStatisticsExpired simple_env 1700000 (used_store simple_env (0 # ?ts)) 5 ShortWindow"
  proof (rule short_window_too_long [OF calendar_simple])
    show "sorted (0 # ?ts)" by (simp add: upt_rec secondsPerDay_def)
    show "day 5 \<in> day ` set (0 # ?ts)" unfolding days by (simp add: day_def secondsPerDay_def)
    show "card (day ` set (0 # ?ts)) \<le> 30" unfolding days by (simp add: card_image)
  qed
  ultimately show ?thesis unfolding all by blast
qed

subsection \<open>Removal of website data\<close>

definition interacted :: "statistics_env \<Rightarrow> seconds \<Rightarrow> statistics_store \<Rightarrow> dates_window \<Rightarrow> load_statistics \<Rightarrow> bool" where
  "interacted E now s window r \<longleftrightarrow>
     hadUserInteraction r \<and> \<not> hasStatisticsExpired E now s (mostRecentUserInteractionTime r) window"

definition removal_window :: "statistics_store \<Rightarrow> dates_window" where
  "removal_window s = (case m_firstPartyWebsiteDataRemovalMode s of
      AllButCookies \<Rightarrow> ShortWindow | NoRemoval \<Rightarrow> ShortWindow
    | AllButCookiesLiveOnTestingTimeout \<Rightarrow> ForLiveOnTesting | AllButCookiesReproTestingTimeout \<Rightarrow> ForReproTesting)"

definition spared :: "seconds \<Rightarrow> statistics_store \<Rightarrow> load_statistics \<Rightarrow> bool" where
  "spared now s r \<longleftrightarrow> now < m_endOfGrandfatheringTimestamp s \<and> grandfathered r"

definition loses_everything :: "statistics_env \<Rightarrow> seconds \<Rightarrow> statistics_store \<Rightarrow> load_statistics \<Rightarrow> bool" where
  "loses_everything E now s r \<longleftrightarrow> \<not> shouldExemptFromWebsiteDataDeletion s (registrableDomain r) \<and> \<not> spared now s r \<and>
     isPrevalentResource r \<and> \<not> interacted E now s LongWindow r"

definition loses_data :: "statistics_env \<Rightarrow> seconds \<Rightarrow> statistics_store \<Rightarrow> load_statistics \<Rightarrow> bool" where
  "loses_data E now s r \<longleftrightarrow> loses_everything E now s r \<or>
     \<not> shouldExemptFromWebsiteDataDeletion s (registrableDomain r) \<and> \<not> spared now s r \<and>
     (m_firstPartyWebsiteDataRemovalMode s \<noteq> NoRemoval \<or> gotLinkDecorationFromPrevalentResource r) \<and>
     \<not> interacted E now s (removal_window s) r"

definition made_strict :: "statistics_env \<Rightarrow> seconds \<Rightarrow> statistics_store \<Rightarrow> load_statistics \<Rightarrow> bool" where
  "made_strict E now s r \<longleftrightarrow> \<not> shouldExemptFromWebsiteDataDeletion s (registrableDomain r) \<and> \<not> spared now s r \<and>
     \<not> loses_everything E now s r \<and> m_sameSiteStrictEnforcementEnabled s \<and>
     length (topFrameUniqueRedirectsToSinceSameSiteStrictEnforcement r) > minimumTopFrameRedirectsForSameSiteStrictEnforcement (m_parameters s)"

definition expire :: "statistics_env \<Rightarrow> seconds \<Rightarrow> statistics_store \<Rightarrow> dates_window \<Rightarrow> load_statistics \<Rightarrow> load_statistics" where
  "expire E now s window r = (if window = LongWindow \<and> hadUserInteraction r \<and> \<not> interacted E now s window r
     then r\<lparr>mostRecentUserInteractionTime := 0, storageAccessUnderTopFrameDomains := [], hadUserInteraction := False\<rparr> else r)"

lemma unexpired_eq: "hasHadUnexpiredRecentUserInteraction E now s window r = (interacted E now s window r, expire E now s window r)"
  by (auto simp: hasHadUnexpiredRecentUserInteraction_def interacted_def expire_def)

lemma expire_keeps [simp]:
  "registrableDomain (expire E now s window r) = registrableDomain r"
  "grandfathered (expire E now s window r) = grandfathered r"
  "isPrevalentResource (expire E now s window r) = isPrevalentResource r"
  "gotLinkDecorationFromPrevalentResource (expire E now s window r) = gotLinkDecorationFromPrevalentResource r"
  "topFrameUniqueRedirectsToSinceSameSiteStrictEnforcement (expire E now s window r) =
     topFrameUniqueRedirectsToSinceSameSiteStrictEnforcement r"
  by (simp_all add: expire_def)

text \<open>The oldest interaction that counts.\<close>

definition older :: "statistics_store \<Rightarrow> load_statistics \<Rightarrow> seconds \<Rightarrow> seconds" where
  "older s r oldest = (if shouldExemptFromWebsiteDataDeletion s (registrableDomain r) \<or> mostRecentUserInteractionTime r \<le> 0
     then oldest else min oldest (mostRecentUserInteractionTime r))"

text \<open>The decisions of a round: the store of the loop may differ from the first in the end of grandfathering only.\<close>

lemma removeAll_eq:
  "shouldRemoveAllWebsiteDataFor E now s check r =
     (isPrevalentResource r \<and> \<not> interacted E now s LongWindow r \<and> \<not> (check \<and> grandfathered r),
      if isPrevalentResource r then expire E now s LongWindow r else r)"
  by (simp add: shouldRemoveAllWebsiteDataFor_def unexpired_eq)

lemma removeAllBut_eq:
  "shouldRemoveAllButCookiesFor E now s check r =
     (let enabled = (m_firstPartyWebsiteDataRemovalMode s \<noteq> NoRemoval \<or> gotLinkDecorationFromPrevalentResource r) \<and>
        \<not> (check \<and> grandfathered r) in
      (enabled \<and> \<not> interacted E now s (removal_window s) r, if enabled then expire E now s (removal_window s) r else r))"
  unfolding shouldRemoveAllButCookiesFor_def removal_window_def [symmetric] Let_def unexpired_eq by auto

lemma sameSite_eq:
  "fst (shouldEnforceSameSiteStrictFor s check r) \<longleftrightarrow> m_sameSiteStrictEnforcementEnabled s \<and> \<not> (check \<and> grandfathered r) \<and>
     length (topFrameUniqueRedirectsToSinceSameSiteStrictEnforcement r) > minimumTopFrameRedirectsForSameSiteStrictEnforcement (m_parameters s)"
  "registrableDomain (snd (shouldEnforceSameSiteStrictFor s check r)) = registrableDomain r"
  by (auto simp: shouldEnforceSameSiteStrictFor_def shouldEnforceSameSiteStrictForSpecificDomain_def)

lemma interacted_expired:
  "check \<and> grandfathered r \<or> interacted E now s LongWindow r \<or> \<not> isPrevalentResource r \<Longrightarrow>
     \<not> (check \<and> grandfathered r) \<Longrightarrow> (if isPrevalentResource r then expire E now s LongWindow r else r) = r"
  by (auto simp: expire_def)

text \<open>What is added to the lists for an entry.\<close>

lemma removeOrRestrict_eq:
  fixes E now s r and check :: bool
  defines "everything \<equiv> isPrevalentResource r \<and> \<not> interacted E now s LongWindow r \<and> \<not> (check \<and> grandfathered r)"
    and "data \<equiv> (m_firstPartyWebsiteDataRemovalMode s \<noteq> NoRemoval \<or> gotLinkDecorationFromPrevalentResource r) \<and>
      \<not> (check \<and> grandfathered r) \<and> \<not> interacted E now s (removal_window s) r"
    and "strict \<equiv> m_sameSiteStrictEnforcementEnabled s \<and> \<not> (check \<and> grandfathered r) \<and>
      length (topFrameUniqueRedirectsToSinceSameSiteStrictEnforcement r) > minimumTopFrameRedirectsForSameSiteStrictEnforcement (m_parameters s)"
  shows "fst (removeOrRestrict E now s check r d) =
    d\<lparr>domainsToDeleteAllCookiesFor := domainsToDeleteAllCookiesFor d @ (if everything then [registrableDomain r] else []),
      domainsToDeleteAllNonCookieWebsiteDataFor := domainsToDeleteAllNonCookieWebsiteDataFor d @
        (if everything \<or> data then [registrableDomain r] else []),
      domainsToEnforceSameSiteStrictFor := domainsToEnforceSameSiteStrictFor d @
        (if \<not> everything \<and> strict then [registrableDomain r] else [])\<rparr>"
proof (cases "everything")
  case True
  then show ?thesis by (simp add: removeOrRestrict_def Let_def everything_def removeAll_eq)
next
  case no: False
  show ?thesis
  proof (cases "check \<and> grandfathered r")
    case True
    then show ?thesis
      by (simp add: removeOrRestrict_def Let_def everything_def data_def strict_def removeAll_eq removeAllBut_eq sameSite_eq)
  next
    case False
    then have same: "(if isPrevalentResource r then expire E now s LongWindow r else r) = r"
      using no interacted_expired [of check r E now s] by (auto simp: everything_def)
    have "shouldRemoveAllWebsiteDataFor E now s check r = (False, r)" using no same by (simp add: removeAll_eq everything_def)
    then show ?thesis using False no
      by (auto simp: removeOrRestrict_def Let_def data_def strict_def removeAllBut_eq sameSite_eq)
  qed
qed

definition with_lists :: "domain list \<Rightarrow> domain list \<Rightarrow> domain list \<Rightarrow> removed_domains" where
  "with_lists cookies data strict = \<lparr>domainsToDeleteAllCookiesFor = cookies, domainsToDeleteAllButHttpOnlyCookiesFor = [],
     domainsToDeleteAllNonCookieWebsiteDataFor = data, domainsToEnforceSameSiteStrictFor = strict\<rparr>"

text \<open>The loop runs with the store whose grandfathering has been ended, if it has.\<close>

lemma removalRound_eq:
  fixes s' :: statistics_store and t :: seconds
  defines "s \<equiv> s'\<lparr>m_endOfGrandfatheringTimestamp := t\<rparr>"
  shows "snd (removalRound E now s (now < m_endOfGrandfatheringTimestamp s') clear e (m, with_lists cookies data strict, oldest)) =
    (let r = snd e in
     (with_lists (cookies @ (if loses_everything E now s' r then [registrableDomain r] else []))
       (data @ (if loses_data E now s' r then [registrableDomain r] else []))
       (strict @ (if made_strict E now s' r then [registrableDomain r] else [])), older s' r oldest))"
proof -
  have same: "interacted E now s window = interacted E now s' window" for window
    by (simp add: s_def interacted_def hasStatisticsExpired_def fun_eq_iff split: dates_window.split option.split)
  have "removal_window s = removal_window s'" "shouldExemptFromWebsiteDataDeletion s = shouldExemptFromWebsiteDataDeletion s'"
    by (simp_all add: s_def removal_window_def shouldExemptFromWebsiteDataDeletion_def fun_eq_iff)
  note same = same this
  show ?thesis
  proof (cases "shouldExemptFromWebsiteDataDeletion s' (registrableDomain (snd e))")
    case True
    then show ?thesis
      by (simp add: removalRound_def Let_def same loses_everything_def loses_data_def made_strict_def older_def with_lists_def)
  next
    case False
    then show ?thesis
      by (simp add: removalRound_def Let_def same removeOrRestrict_eq mostRecentUserInteractionTime_opt_def older_def with_lists_def
        loses_everything_def loses_data_def made_strict_def spared_def) (simp add: s_def conj_ac cong: conj_cong)
  qed
qed

lemma removal_fold:
  fixes s :: statistics_store and t :: seconds
  shows "snd (fold (removalRound E now (s\<lparr>m_endOfGrandfatheringTimestamp := t\<rparr>) (now < m_endOfGrandfatheringTimestamp s) clear) es
      (m, with_lists cookies data strict, oldest)) =
    (with_lists (cookies @ map registrableDomain (filter (loses_everything E now s) (map snd es)))
       (data @ map registrableDomain (filter (loses_data E now s) (map snd es)))
       (strict @ map registrableDomain (filter (made_strict E now s) (map snd es))), fold (older s) (map snd es) oldest)"
proof (induction es arbitrary: m cookies data strict oldest)
  case (Cons e es)
  let ?f = "removalRound E now (s\<lparr>m_endOfGrandfatheringTimestamp := t\<rparr>) (now < m_endOfGrandfatheringTimestamp s) clear"
  obtain m' where "?f e (m, with_lists cookies data strict, oldest) =
      (m', snd (?f e (m, with_lists cookies data strict, oldest)))" by (metis prod.collapse)
  then show ?case using Cons.IH by (simp add: removalRound_eq Let_def)
qed simp

lemma fold_older:
  "now - fold (older s) rs oldest < k \<longleftrightarrow> now - oldest < k \<and>
     (\<forall>r \<in> set rs. \<not> shouldExemptFromWebsiteDataDeletion s (registrableDomain r) \<and> 0 < mostRecentUserInteractionTime r \<longrightarrow>
        now - mostRecentUserInteractionTime r < k)"
  by (induction rs arbitrary: oldest) (auto simp: older_def min_def)

definition too_soon :: "seconds \<Rightarrow> statistics_store \<Rightarrow> bool" where
  "too_soon now s \<longleftrightarrow> \<not> isRunningTest (m_parameters s) \<and> 0 < minimumTimeBetweenDataRecordsRemoval (m_parameters s) \<and>
     (\<forall>r \<in> snd ` set (m_resourceStatisticsMap s).
        \<not> shouldExemptFromWebsiteDataDeletion s (registrableDomain r) \<and> 0 < mostRecentUserInteractionTime r \<longrightarrow>
        now - mostRecentUserInteractionTime r < minimumTimeBetweenDataRecordsRemoval (m_parameters s))"

text \<open>
  Claim C14. Website data is removed exactly as the policy says. All data of a domain is deleted if it is prevalent without a user
  interaction in the long window; its data other than cookies if data is removed at all, or it got decorated
  links from a prevalent domain, without an interaction in the window of the removal mode; its cookies become
  strict if it made too many redirects. Exempt domains and, until grandfathering ends, grandfathered
  domains are spared. No data but cookies is deleted if all interactions are too recent. That interactions
  expire while the domains are looked at makes no difference.
\<close>

theorem data_removal_exact:
  "fst (registrableDomainsToDeleteOrRestrictWebsiteDataFor E now s) =
    (let domainsOf = (\<lambda>P. map registrableDomain (filter P (map snd (m_resourceStatisticsMap s)))) in
     \<lparr>domainsToDeleteAllCookiesFor = domainsOf (loses_everything E now s),
      domainsToDeleteAllButHttpOnlyCookiesFor = [],
      domainsToDeleteAllNonCookieWebsiteDataFor = (if too_soon now s then [] else domainsOf (loses_data E now s)),
      domainsToEnforceSameSiteStrictFor = domainsOf (made_strict E now s)\<rparr>)"
proof -
  let ?clear = "\<not> now < m_endOfGrandfatheringTimestamp s \<and> m_endOfGrandfatheringTimestamp s \<noteq> 0"
  define t where "t = (if ?clear then 0 else m_endOfGrandfatheringTimestamp s)"
  let ?s = "s\<lparr>m_endOfGrandfatheringTimestamp := t\<rparr>"
  have s: "(if ?clear then s\<lparr>m_endOfGrandfatheringTimestamp := 0\<rparr> else s) = ?s" by (simp add: t_def)
  have none: "no_removed_domains = with_lists [] [] []" by (simp add: no_removed_domains_def with_lists_def)
  let ?fold = "fold (removalRound E now ?s (now < m_endOfGrandfatheringTimestamp s) ?clear) (m_resourceStatisticsMap s) ([], no_removed_domains, now)"
  obtain m d oldest where f: "?fold = (m, d, oldest)" by (metis prod.collapse)
  have "snd ?fold = (with_lists (map registrableDomain (filter (loses_everything E now s) (map snd (m_resourceStatisticsMap s))))
       (map registrableDomain (filter (loses_data E now s) (map snd (m_resourceStatisticsMap s))))
       (map registrableDomain (filter (made_strict E now s) (map snd (m_resourceStatisticsMap s)))),
       fold (older s) (map snd (m_resourceStatisticsMap s)) now)"
    unfolding none removal_fold by simp
  then have d: "d = with_lists (map registrableDomain (filter (loses_everything E now s) (map snd (m_resourceStatisticsMap s))))
       (map registrableDomain (filter (loses_data E now s) (map snd (m_resourceStatisticsMap s))))
       (map registrableDomain (filter (made_strict E now s) (map snd (m_resourceStatisticsMap s))))"
    and oldest: "oldest = fold (older s) (map snd (m_resourceStatisticsMap s)) now"
    using f by simp_all
  have "now - oldest < k \<longleftrightarrow> 0 < k \<and> (\<forall>r \<in> snd ` set (m_resourceStatisticsMap s).
      \<not> shouldExemptFromWebsiteDataDeletion s (registrableDomain r) \<and> 0 < mostRecentUserInteractionTime r \<longrightarrow>
        now - mostRecentUserInteractionTime r < k)" for k
    unfolding oldest fold_older by simp
  then have soon: "\<not> isRunningTest (m_parameters s) \<and> now - oldest < minimumTimeBetweenDataRecordsRemoval (m_parameters s) \<longleftrightarrow> too_soon now s"
    unfolding too_soon_def by blast
  have params: "m_parameters ?s = m_parameters s" "m_resourceStatisticsMap ?s = m_resourceStatisticsMap s" by simp_all
  show ?thesis
    unfolding registrableDomainsToDeleteOrRestrictWebsiteDataFor_def Let_def s params f prod.case soon
    by (simp add: d with_lists_def)
qed

subsection \<open>Pruning\<close>

lemma fold_delete: "fold AList.delete ks m = filter (\<lambda>e. fst e \<notin> set ks) m"
  by (induction ks arbitrary: m) (auto simp: AList.delete_eq case_prod_beta intro: filter_cong)

definition before :: "load_statistics \<Rightarrow> load_statistics \<Rightarrow> bool" where
  "before r r' \<longleftrightarrow> computeImportance r < computeImportance r' \<or>
     computeImportance r = computeImportance r' \<and> lastSeen r \<le> lastSeen r'"

lemma computeImportance_bound: "computeImportance r \<le> maxImportance"
  by (simp add: computeImportance_def)

text \<open>The keys \<open>R\<close> have been removed when \<open>n\<close> more are to be removed and the importances below \<open>k\<close> are done.\<close>

definition pruned ::
    "(domain \<times> load_statistics) list \<Rightarrow> nat \<Rightarrow> nat \<Rightarrow> domain set \<Rightarrow> (domain \<times> load_statistics) list \<times> nat \<Rightarrow> bool" where
  "pruned m count k R a \<longleftrightarrow> fst a = filter (\<lambda>e. fst e \<notin> R) m \<and> snd a \<le> count \<and> card R = count - snd a \<and>
     R \<subseteq> fst ` {e \<in> set m. computeImportance (snd e) < k} \<and>
     (0 < snd a \<longrightarrow> R = fst ` {e \<in> set m. computeImportance (snd e) < k}) \<and>
     (\<forall>e \<in> set m. \<forall>e' \<in> set m. fst e \<in> R \<and> fst e' \<notin> R \<and> computeImportance (snd e') < k \<longrightarrow> before (snd e) (snd e'))"

lemma map_wf_key:
  assumes "map_wf m" "e \<in> set m" shows "registrableDomain (snd e) = fst e"
proof -
  have "map_of m (fst e) = Some (snd e)" using assms by (simp add: map_wf_def)
  then show ?thesis using assms(1) unfolding map_wf_def by blast
qed

lemma map_wf_same: "map_wf m \<Longrightarrow> e \<in> set m \<Longrightarrow> e' \<in> set m \<Longrightarrow> fst e = fst e' \<Longrightarrow> e = e'"
  by (metis map_wf_def eq_key_imp_eq_value prod.collapse)

lemma resourcesOfImportance_eq:
  assumes "map_wf m"
  shows "resourcesOfImportance k m = map (\<lambda>e. (fst e, lastSeen (snd e))) (filter (\<lambda>e. computeImportance (snd e) = k) m)"
  unfolding resourcesOfImportance_def by (rule map_cong) (simp_all add: map_wf_key [OF assms])

lemma pruned_importance:
  assumes wf: "map_wf m" and p: "pruned m count k R a" and e: "e \<in> set m" "fst e \<in> R"
  shows "computeImportance (snd e) < k"
proof -
  obtain e1 where "e1 \<in> set m" "computeImportance (snd e1) < k" "fst e = fst e1" using p e(2) by (auto simp: pruned_def)
  then show ?thesis using map_wf_same [OF wf e(1)] by metis
qed

lemma pruned_before:
  assumes wf: "map_wf m" and p: "pruned m count k R a" and e: "e \<in> set m" "fst e \<in> R"
    and e': "e' \<in> set m" "fst e' \<notin> R" "computeImportance (snd e') \<le> k"
  shows "before (snd e) (snd e')"
proof (cases "computeImportance (snd e') = k")
  case True
  then show ?thesis using pruned_importance [OF wf p e] by (simp add: before_def)
next
  case False
  then have "computeImportance (snd e') < k" using e'(3) by simp
  then show ?thesis using p e e' unfolding pruned_def by blast
qed

lemma pruned_skip:
  assumes wf: "map_wf m" and p: "pruned m count k R (cur, 0)" shows "pruned m count (Suc k) R (cur, 0)"
proof -
  have "R \<subseteq> fst ` {e \<in> set m. computeImportance (snd e) < k}" using p by (simp add: pruned_def)
  then have "R \<subseteq> fst ` {e \<in> set m. computeImportance (snd e) < Suc k}" by force
  moreover have "\<forall>e \<in> set m. \<forall>e' \<in> set m. fst e \<in> R \<and> fst e' \<notin> R \<and> computeImportance (snd e') < Suc k \<longrightarrow> before (snd e) (snd e')"
    using pruned_before [OF wf p] by (simp add: less_Suc_eq_le)
  ultimately show ?thesis using p by (simp add: pruned_def)
qed

text \<open>The entries that are removed from one importance.\<close>

lemma insort_key_map: "insort_key f (g x) (map g xs) = map g (insort_key (\<lambda>y. f (g y)) x xs)"
  by (induction xs) simp_all

lemma sort_key_map: "sort_key f (map g xs) = map g (sort_key (\<lambda>y. f (g y)) xs)"
  by (induction xs) (simp_all add: insort_key_map)

lemma pruneResources_obtain:
  assumes wf: "map_wf m" and G: "G = filter (\<lambda>e. computeImportance (snd e) = k) m"
  obtains T where "pruneResources (resourcesOfImportance k m) (cur, n) = (filter (\<lambda>e. fst e \<notin> fst ` T) cur, n - card T)"
    and "T \<subseteq> set G" and "card T = min n (length G)" and "\<And>e e'. e \<in> T \<Longrightarrow> e' \<in> set G - T \<Longrightarrow> lastSeen (snd e) \<le> lastSeen (snd e')"
proof -
  define S where "S = (if length G > n then sort_key (\<lambda>e. lastSeen (snd e)) G else G)"
  let ?pair = "\<lambda>e. (fst e, lastSeen (snd e))"
  let ?T = "set (take n S)"
  have S: "set S = set G" "length S = length G" by (simp_all add: S_def)
  have "distinct m" using wf by (auto simp: map_wf_def distinct_map)
  then have "distinct S" using G by (simp add: S_def)
  then have T: "card ?T = min n (length G)" by (simp add: distinct_card S)
  have sorted: "(if length (map ?pair G) > n then sort_key snd (map ?pair G) else map ?pair G) = map ?pair S"
    by (simp add: S_def sort_key_map)
  have "map fst (take (min n (length (map ?pair S))) (map ?pair S)) = map fst (take n S)"
    by (simp add: take_map comp_def min_def)
  then have "pruneResources (resourcesOfImportance k m) (cur, n) = (filter (\<lambda>e. fst e \<notin> fst ` ?T) cur, n - card ?T)"
    unfolding resourcesOfImportance_eq [OF wf] G [symmetric] pruneResources_def prod.case sorted Let_def fold_delete
    by (simp add: T S)
  moreover have "?T \<subseteq> set G" using S set_take_subset [of n S] by simp
  moreover have "lastSeen (snd e) \<le> lastSeen (snd e')" if e: "e \<in> ?T" "e' \<in> set G - ?T" for e e'
  proof (cases "length G > n")
    case True
    have "sorted (map (\<lambda>e. lastSeen (snd e)) S)" using True by (simp add: S_def)
    then have "sorted_wrt (\<lambda>e e'. lastSeen (snd e) \<le> lastSeen (snd e')) (take n S @ drop n S)" by (simp add: sorted_map)
    moreover have "e' \<in> set (drop n S)" using e(2) S by (metis Diff_iff UnE append_take_drop_id set_append)
    ultimately show ?thesis using e(1) unfolding sorted_wrt_append by blast
  next
    case False
    then show ?thesis using e S by simp
  qed
  ultimately show ?thesis using that T by blast
qed

lemma pruned_round:
  assumes wf: "map_wf m" and p: "pruned m count k R (cur, n)" and n: "0 < n"
  shows "\<exists>R'. pruned m count (Suc k) R' (pruneResources (resourcesOfImportance k m) (cur, n))"
proof -
  let ?G = "filter (\<lambda>e. computeImportance (snd e) = k) m"
  obtain T where T: "pruneResources (resourcesOfImportance k m) (cur, n) = (filter (\<lambda>e. fst e \<notin> fst ` T) cur, n - card T)"
    "T \<subseteq> set ?G" "card T = min n (length ?G)" "\<And>e e'. e \<in> T \<Longrightarrow> e' \<in> set ?G - T \<Longrightarrow> lastSeen (snd e) \<le> lastSeen (snd e')"
    by (rule pruneResources_obtain [OF wf refl]) blast
  have R: "R = fst ` {e \<in> set m. computeImportance (snd e) < k}" "cur = filter (\<lambda>e. fst e \<notin> R) m" "n \<le> count" "card R = count - n"
    using p n unfolding pruned_def by auto
  let ?R = "R \<union> fst ` T"
  have inj: "inj_on fst (set m)" using wf by (auto simp: map_wf_def distinct_map)
  have Tm: "T \<subseteq> set m" using T(2) by auto
  have "card (fst ` T) = card T" using inj Tm by (simp add: card_image inj_on_subset)
  moreover have "R \<inter> fst ` T = {}"
  proof -
    have "computeImportance (snd e) \<noteq> k" if "e \<in> set m" "fst e \<in> R" for e using pruned_importance [OF wf p that] by simp
    then show ?thesis using T(2) by force
  qed
  moreover have "finite R" "finite (fst ` T)" using R(1) Tm finite_subset [OF Tm] by auto
  ultimately have "card ?R = count - n + card T" using R(4) by (simp add: card_Un_disjoint)
  then have card: "card ?R = count - (n - card T)" using R(3) T(3) by simp
  have cur: "filter (\<lambda>e. fst e \<notin> fst ` T) cur = filter (\<lambda>e. fst e \<notin> ?R) m" by (simp add: R(2) conj_commute)
  have sub: "?R \<subseteq> fst ` {e \<in> set m. computeImportance (snd e) < Suc k}" using R(1) T(2) by force
  have full: "?R = fst ` {e \<in> set m. computeImportance (snd e) < Suc k}" if "0 < n - card T"
  proof -
    have "card T = length ?G" using that T(3) by linarith
    moreover have "distinct ?G" using wf by (auto simp: map_wf_def distinct_map)
    ultimately have "T = set ?G" using T(2) by (metis List.finite_set card_subset_eq distinct_card)
    then show ?thesis using R(1) by (force simp: less_Suc_eq)
  qed
  have "before (snd e) (snd e')"
    if e: "e \<in> set m" "fst e \<in> ?R" and e': "e' \<in> set m" "fst e' \<notin> ?R" "computeImportance (snd e') < Suc k" for e e'
  proof -
    have "computeImportance (snd e') = k" using e' R(1) by (force simp: less_Suc_eq)
    then have e'G: "e' \<in> set ?G - T" using e' by auto
    show ?thesis
    proof (cases "fst e \<in> R")
      case True
      then show ?thesis using pruned_importance [OF wf p e(1)] e'G by (simp add: before_def)
    next
      case False
      then obtain e1 where "e1 \<in> T" "fst e = fst e1" using e(2) by auto
      then have "e \<in> T" using map_wf_same [OF wf e(1), of e1] Tm by auto
      then show ?thesis using T(4) [OF _ e'G] T(2) e'G by (auto simp: before_def)
    qed
  qed
  then have "pruned m count (Suc k) ?R (filter (\<lambda>e. fst e \<notin> fst ` T) cur, n - card T)"
    unfolding pruned_def using cur card sub full R(3) by auto
  then show ?thesis using T(1) by metis
qed

definition pruneImportance ::
    "(domain \<times> load_statistics) list \<Rightarrow> nat \<Rightarrow> (domain \<times> load_statistics) list \<times> nat \<Rightarrow> (domain \<times> load_statistics) list \<times> nat" where
  "pruneImportance m importance acc = (if snd acc = 0 then acc else pruneResources (resourcesOfImportance importance m) acc)"

lemma pruned_step:
  assumes wf: "map_wf m" and p: "pruned m count k R a"
  shows "\<exists>R'. pruned m count (Suc k) R' (pruneImportance m k a)"
proof -
  obtain cur n where a: "a = (cur, n)" by (cases a)
  show ?thesis
  proof (cases "n = 0")
    case True
    then have "pruned m count (Suc k) R a" using pruned_skip [OF wf, of count k R cur] p a by simp
    then show ?thesis using True a by (auto simp: pruneImportance_def)
  next
    case False
    then show ?thesis using pruned_round [OF wf p [unfolded a]] a by (simp add: pruneImportance_def)
  qed
qed

lemma pruned_fold:
  assumes wf: "map_wf m" and p: "pruned m count 0 R a"
  shows "\<exists>R'. pruned m count k R' (fold (pruneImportance m) [0..<k] a)"
proof (induction k)
  case 0
  then show ?case using p by auto
next
  case (Suc k)
  then obtain R' where "pruned m count k R' (fold (pruneImportance m) [0..<k] a)" by blast
  from pruned_step [OF wf this] show ?case by simp
qed

text \<open>
  Claim C20. Pruning keeps what matters: a store with too many entries is cut to the wanted size, no other store is changed,
  and every dropped domain is less important than every kept one, or as important and not seen later.
\<close>

theorem pruning_keeps_important:
  assumes "statistics_wf s" and "pruneEntriesDownTo (m_parameters s) \<le> maxStatisticsEntries (m_parameters s)"
    and "length (m_resourceStatisticsMap s) < 2 ^ 64"
  shows "\<exists>R. m_resourceStatisticsMap (pruneStatisticsIfNeeded s) = filter (\<lambda>e. fst e \<notin> R) (m_resourceStatisticsMap s) \<and>
    (length (m_resourceStatisticsMap s) \<le> maxStatisticsEntries (m_parameters s) \<longrightarrow> R = {}) \<and>
    (maxStatisticsEntries (m_parameters s) < length (m_resourceStatisticsMap s) \<longrightarrow>
       length (m_resourceStatisticsMap (pruneStatisticsIfNeeded s)) = pruneEntriesDownTo (m_parameters s)) \<and>
    (\<forall>e \<in> set (m_resourceStatisticsMap s). \<forall>e' \<in> set (m_resourceStatisticsMap s).
       fst e \<in> R \<and> fst e' \<notin> R \<longrightarrow> before (snd e) (snd e'))"
proof (cases "length (m_resourceStatisticsMap s) \<le> maxStatisticsEntries (m_parameters s)")
  case True
  then show ?thesis by (intro exI [of _ "{}"]) (simp add: pruneStatisticsIfNeeded_def)
next
  case False
  let ?m = "m_resourceStatisticsMap s"
  let ?down = "pruneEntriesDownTo (m_parameters s)"
  let ?count = "length ?m - ?down"
  have wf: "map_wf ?m" using assms(1) by (simp add: statistics_wf_def)
  have le: "?down \<le> length ?m" using False assms(2) by simp
  have "unat (of_nat (length ?m) - of_nat ?down :: u64) = ?count"
    using le assms(3) by (metis of_nat_diff unat_of_nat_u64 diff_le_self le_less_trans)
  then have prune: "m_resourceStatisticsMap (pruneStatisticsIfNeeded s) = fst (fold (pruneImportance ?m) [0..<4] (?m, ?count))"
    using False by (simp add: pruneStatisticsIfNeeded_def Let_def maxImportance_def pruneImportance_def [abs_def] del: upt_Suc)
  have "pruned ?m ?count 0 {} (?m, ?count)" by (simp add: pruned_def)
  from pruned_fold [OF wf this, of 4] obtain R n where
    p: "pruned ?m ?count 4 R (m_resourceStatisticsMap (pruneStatisticsIfNeeded s), n)"
    unfolding prune by (metis prod.collapse)
  have all: "computeImportance r < 4" for r using computeImportance_bound [of r] by (simp add: maxImportance_def)
  have R: "m_resourceStatisticsMap (pruneStatisticsIfNeeded s) = filter (\<lambda>e. fst e \<notin> R) ?m" "n \<le> ?count" "card R = ?count - n"
    "R \<subseteq> fst ` set ?m" "0 < n \<Longrightarrow> R = fst ` set ?m"
    using p all by (simp_all add: pruned_def)
  have distinct: "distinct (map fst ?m)" using wf by (simp add: map_wf_def)
  then have keys: "card (fst ` set ?m) = length ?m" by (metis distinct_card length_map set_map)
  have "n = 0"
  proof (rule ccontr)
    assume n: "n \<noteq> 0"
    then have "R = fst ` set ?m" using R(5) by blast
    then have "card R = length ?m" using keys by metis
    then show False using n R(2,3) by arith
  qed
  have "length (filter (\<lambda>e. fst e \<notin> R) ?m) = card (fst ` set ?m - R)"
  proof -
    have "distinct (map fst (filter (\<lambda>e. fst e \<notin> R) ?m))" using distinct by (simp add: distinct_map_filter)
    moreover have "fst ` {x \<in> set ?m. fst x \<notin> R} = fst ` set ?m - R" by auto
    ultimately show ?thesis using distinct_card [of "map fst (filter (\<lambda>e. fst e \<notin> R) ?m)"] by simp
  qed
  also have "\<dots> = length ?m - ?count" using card_Diff_subset [of R "fst ` set ?m"] R(3,4) keys \<open>n = 0\<close> finite_subset [OF R(4)] by simp
  finally have "length (m_resourceStatisticsMap (pruneStatisticsIfNeeded s)) = ?down" using R(1) le by simp
  moreover have "\<forall>e \<in> set ?m. \<forall>e' \<in> set ?m. fst e \<in> R \<and> fst e' \<notin> R \<longrightarrow> before (snd e) (snd e')"
    using p all unfolding pruned_def by blast
  ultimately show ?thesis using False R(1) by blast
qed

theorem pruning_keeps_important_witness:
  "length (m_resourceStatisticsMap (pruneStatisticsIfNeeded (setPruneEntriesDownTo 3 (setMaxStatisticsEntries 5 example_store)))) = 3"
proof -
  let ?s = "setPruneEntriesDownTo 3 (setMaxStatisticsEntries 5 example_store)"
  have m: "m_resourceStatisticsMap ?s = m_resourceStatisticsMap example_store"
    "pruneEntriesDownTo (m_parameters ?s) = 3" "maxStatisticsEntries (m_parameters ?s) = 5"
    by (simp_all add: setPruneEntriesDownTo_def setMaxStatisticsEntries_def)
  have len: "length (m_resourceStatisticsMap example_store) = 6" by code_simp
  have "statistics_wf ?s" using example_wf by (simp add: statistics_wf_def findStatistics_def m)
  from pruning_keeps_important [OF this] show ?thesis unfolding m len by auto
qed

end
