(* ===== verification/Load_Operations.thy ===== *)
theory Load_Operations
  imports Load_Policy
begin

text \<open>
  The operations on the store of load statistics as a datatype, for statements about sequences of operations, and
  the operations that give no third party access to its storage under a first party.
\<close>

subsection \<open>Operations\<close>

datatype statistics_op =
  LogFrameNavigation seconds domain domain domain bool bool seconds bool
| LogUserInteraction seconds domain
| ClearUserInteraction seconds domain
| LogCrossSiteLoad domain domain
| HasStorageAccess seconds domain domain "u64 option" u64
| RequestStorageAccess seconds domain domain u64 u64 storage_access_scope
| RequestStorageAccessUnderOpener seconds domain u64 domain
| Grant seconds domain domain u64 u64 bool storage_access_scope
| SetPrevalentResource domain
| SetVeryPrevalentResource domain
| ClearPrevalentResource domain
| SetGrandfathered domain bool
| DidFetchDomains seconds "domain list"
| SetLastSeen domain seconds
| SetSubframeUnder domain domain
| SetSubresourceUnder domain domain
| SetSubresourceRedirectTo domain domain
| SetSubresourceRedirectFrom domain domain
| SetTopFrameRedirectTo domain domain
| SetTopFrameRedirectFrom domain domain
| RemoveDataForDomain domain
| Clear
| MergeStatistics "load_statistics list"
| MergeFile seconds statistics_file
| InsertExpired seconds domain nat bool bool bool
| IncludeToday seconds
| UpdateBlocking seconds
| ProcessStatistics seconds seconds
| RunScheduled seconds seconds
| DidRemoveDataRecords seconds "domain list"
| Dump nat
| SetDebugMode seconds bool
| SetDebugResource domain
| SetBlockingMode cookie_blocking_mode
| SetParameters "statistics_parameters \<Rightarrow> statistics_parameters"

fun statistics_step :: "statistics_env \<Rightarrow> statistics_op \<Rightarrow> statistics_store \<Rightarrow> statistics_store" where
  "statistics_step E (LogFrameNavigation now target party source isRedirect isMainFrame delay byUser) s =
     logFrameNavigation E now target party source isRedirect isMainFrame delay byUser s"
| "statistics_step E (LogUserInteraction now d) s = fst (logUserInteraction E now d s)"
| "statistics_step E (ClearUserInteraction now d) s = fst (clearUserInteraction E now d s)"
| "statistics_step E (LogCrossSiteLoad from_domain to_domain) s = logCrossSiteLoadWithLinkDecoration E from_domain to_domain s"
| "statistics_step E (HasStorageAccess now sub party frame page) s =
     (case hasStorageAccess E now sub party frame page s of None \<Rightarrow> s | Some r \<Rightarrow> fst (snd r))"
| "statistics_step E (RequestStorageAccess now sub party frame page scope) s = fst (snd (requestStorageAccess E now sub party frame page scope s))"
| "statistics_step E (RequestStorageAccessUnderOpener now d page opener) s = fst (requestStorageAccessUnderOpener E now d page opener s)"
| "statistics_step E (Grant now sub party frame page prompt scope) s = fst (snd (grantStorageAccess E now sub party frame page prompt scope s))"
| "statistics_step E (SetPrevalentResource d) s = setPrevalentResource_domain E d s"
| "statistics_step E (SetVeryPrevalentResource d) s = setVeryPrevalentResource E d s"
| "statistics_step E (ClearPrevalentResource d) s = clearPrevalentResource E d s"
| "statistics_step E (SetGrandfathered d b) s = setGrandfathered E d b s"
| "statistics_step E (DidFetchDomains now ds) s = fst (didFetchDomainsWithWebsiteData E now ds s)"
| "statistics_step E (SetLastSeen d t) s = setLastSeen E d t s"
| "statistics_step E (SetSubframeUnder d party) s = setSubframeUnderTopFrameDomain E d party s"
| "statistics_step E (SetSubresourceUnder d party) s = setSubresourceUnderTopFrameDomain E d party s"
| "statistics_step E (SetSubresourceRedirectTo d d') s = setSubresourceUniqueRedirectTo E d d' s"
| "statistics_step E (SetSubresourceRedirectFrom d d') s = setSubresourceUniqueRedirectFrom E d d' s"
| "statistics_step E (SetTopFrameRedirectTo d d') s = setTopFrameUniqueRedirectTo E d d' s"
| "statistics_step E (SetTopFrameRedirectFrom d d') s = setTopFrameUniqueRedirectFrom E d d' s"
| "statistics_step E (RemoveDataForDomain d) s = removeDataForDomain d s"
| "statistics_step E Clear s = fst (memory_clear E s)"
| "statistics_step E (MergeStatistics rs) s = mergeStatistics E rs s"
| "statistics_step E (MergeFile now file) s = fst (mergeWithDataFromDecoder E now file s)"
| "statistics_step E (InsertExpired now d n interaction scheduled prevalent) s =
     insertExpiredStatisticForTesting E now d n interaction scheduled prevalent s"
| "statistics_step E (IncludeToday now) s = includeTodayAsOperatingDateIfNecessary E now s"
| "statistics_step E (UpdateBlocking now) s = fst (updateCookieBlocking E now s)"
| "statistics_step E (ProcessStatistics now monotonicNow) s = fst (processStatisticsAndDataRecords E now monotonicNow s)"
| "statistics_step E (RunScheduled now monotonicNow) s = fst (runScheduled E now monotonicNow s)"
| "statistics_step E (DidRemoveDataRecords monotonicNow ds) s = fst (didRemoveDataRecords E monotonicNow ds s)"
| "statistics_step E (Dump n) s = fst (dumpResourceLoadStatistics E n s)"
| "statistics_step E (SetDebugMode now b) s = fst (setResourceLoadStatisticsDebugMode E now b s)"
| "statistics_step E (SetDebugResource d) s = setPrevalentResourceForDebugMode d s"
| "statistics_step E (SetBlockingMode mode) s = s\<lparr>m_thirdPartyCookieBlockingMode := mode\<rparr>"
| "statistics_step E (SetParameters f) s = m_parameters_update f s"

definition statistics_run :: "statistics_env \<Rightarrow> statistics_op list \<Rightarrow> statistics_store \<Rightarrow> statistics_store" where
  "statistics_run E = fold (statistics_step E)"

text \<open>The pairs of a third party and a first party that the user has consented to, or that came with merged statistics.\<close>

definition brought :: "load_statistics list \<Rightarrow> (domain \<times> domain) set" where
  "brought rs = {(registrableDomain r, party) | r party. r \<in> set rs \<and> party \<in> set (storageAccessUnderTopFrameDomains r)}"

fun consent :: "statistics_op \<Rightarrow> (domain \<times> domain) set \<Rightarrow> (domain \<times> domain) set" where
  "consent (Grant now sub party frame page True scope) A = insert (sub, party) A"
| "consent (MergeStatistics rs) A = A \<union> brought rs"
| "consent (MergeFile now file) A = A \<union> (case file_browsingStatistics file of None \<Rightarrow> {} | Some rs \<Rightarrow> brought rs)"
| "consent Clear A = {}"
| "consent (RemoveDataForDomain d) A = {p \<in> A. fst p \<noteq> d}"
| "consent _ A = A"

definition consented :: "statistics_op list \<Rightarrow> (domain \<times> domain) set" where
  "consented ops = fold consent ops {}"

text \<open>What is relied on of WebCore: a new domain has no statistics, and merging brings nothing that neither side had.\<close>

definition env_works :: "statistics_env \<Rightarrow> bool" where
  "env_works E \<longleftrightarrow> (\<forall>d. registrableDomain (newStatistics E d) = d \<and> storageAccessUnderTopFrameDomains (newStatistics E d) = [] \<and>
      \<not> isPrevalentResource (newStatistics E d) \<and> \<not> hadUserInteraction (newStatistics E d)) \<and>
     (\<forall>r r'. registrableDomain (merge_statistic E r r') = registrableDomain r \<and>
        set (storageAccessUnderTopFrameDomains (merge_statistic E r r')) \<subseteq>
          set (storageAccessUnderTopFrameDomains r) \<union> set (storageAccessUnderTopFrameDomains r'))"

subsection \<open>Nothing else gives access\<close>

definition access :: "statistics_store \<Rightarrow> domain \<Rightarrow> domain set" where
  "access s d = (case findStatistics d s of None \<Rightarrow> {} | Some r \<Rightarrow> set (storageAccessUnderTopFrameDomains r))"

definition narrows :: "statistics_store \<Rightarrow> statistics_store \<Rightarrow> bool" where
  "narrows s s' \<longleftrightarrow> (\<forall>d. access s' d \<subseteq> access s d)"

lemma narrows_refl [simp]: "narrows s s"
  by (simp add: narrows_def)

lemma narrows_trans [trans]: "narrows s s' \<Longrightarrow> narrows s' s'' \<Longrightarrow> narrows s s''"
  unfolding narrows_def by blast

lemma narrows_same_map: "m_resourceStatisticsMap s' = m_resourceStatisticsMap s \<Longrightarrow> narrows s s'"
  by (simp add: narrows_def access_def findStatistics_def)

lemma narrows_modify:
  assumes "\<And>r. findStatistics d s = Some r \<Longrightarrow> set (storageAccessUnderTopFrameDomains (f r)) \<subseteq> set (storageAccessUnderTopFrameDomains r)"
  shows "narrows s (modifyStatistics d f s)"
  using assms by (auto simp: narrows_def access_def split: option.splits)

lemma narrows_ensure: "env_works E \<Longrightarrow> narrows s (ensureResourceStatisticsForRegistrableDomain E d s)"
  by (auto simp: narrows_def access_def env_works_def)

lemma narrows_change:
  assumes "env_works E" "\<And>r. set (storageAccessUnderTopFrameDomains (f r)) \<subseteq> set (storageAccessUnderTopFrameDomains r)"
  shows "narrows s (changeStatistics E d f s)"
  unfolding changeStatistics_def using narrows_trans [OF narrows_ensure [OF assms(1)] narrows_modify] assms(2) by blast

lemma narrows_fold: "(\<And>x s. narrows s (f x s)) \<Longrightarrow> narrows s (fold f xs s)"
  by (induction xs arbitrary: s) (auto intro: narrows_trans)

lemma narrows_entries:
  assumes "list_all2 (\<lambda>e e'. fst e' = fst e \<and> set (storageAccessUnderTopFrameDomains (snd e')) \<subseteq> set (storageAccessUnderTopFrameDomains (snd e)))
    (m_resourceStatisticsMap s) (m_resourceStatisticsMap s')"
  shows "narrows s s'"
proof -
  have "(case map_of m' d of None \<Rightarrow> {} | Some r \<Rightarrow> set (storageAccessUnderTopFrameDomains r)) \<subseteq>
      (case map_of m d of None \<Rightarrow> {} | Some r \<Rightarrow> set (storageAccessUnderTopFrameDomains r))"
    if "list_all2 (\<lambda>e e'. fst e' = fst e \<and> set (storageAccessUnderTopFrameDomains (snd e')) \<subseteq> set (storageAccessUnderTopFrameDomains (snd e))) m m'" for m m' d
    using that by (induction rule: list_all2_induct) (auto split: prod.splits)
  from this [OF assms] show ?thesis unfolding narrows_def access_def findStatistics_def by blast
qed

lemma narrows_grows: "prevalence_grows s s' \<Longrightarrow> narrows s s'"
proof -
  assume g: "prevalence_grows s s'"
  have "access s' d = access s d" for d
  proof (cases "findStatistics d s")
    case (Some r)
    then obtain r' where r': "findStatistics d s' = Some r'" "only_prevalence r r'" using grows_find(1) [OF g] by blast
    obtain p v where "r' = r\<lparr>isPrevalentResource := p, isVeryPrevalentResource := v\<rparr>"
      using r'(2) unfolding only_prevalence_def by blast
    then show ?thesis using Some r'(1) by (simp add: access_def)
  qed (use grows_find(3) [OF g, of d] in \<open>simp add: access_def\<close>)
  then show ?thesis by (simp add: narrows_def)
qed

subsection \<open>The operations narrow access\<close>

lemma updateBlocking_map:
  "fst (fold (updateCookieBlockingFor E now s) es (m, b)) = m @ map (\<lambda>e. (fst e, expire E now s LongWindow (snd e))) es"
  by (induction es arbitrary: m b) (simp_all add: updateCookieBlockingFor_def unexpired_eq)

lemma expire_access: "set (storageAccessUnderTopFrameDomains (expire E now s window r)) \<subseteq> set (storageAccessUnderTopFrameDomains r)"
  by (simp add: expire_def)

lemma updateCookieBlocking_narrows: "narrows s (fst (updateCookieBlocking E now s))"
proof (rule narrows_entries)
  have m: "m_resourceStatisticsMap (fst (updateCookieBlocking E now s)) =
      map (\<lambda>e. (fst e, expire E now s LongWindow (snd e))) (m_resourceStatisticsMap s)"
    using updateBlocking_map [of E now s "m_resourceStatisticsMap s" "[]" no_blocked_domains]
    by (auto simp: updateCookieBlocking_def split: prod.split)
  show "list_all2 (\<lambda>e e'. fst e' = fst e \<and> set (storageAccessUnderTopFrameDomains (snd e')) \<subseteq> set (storageAccessUnderTopFrameDomains (snd e)))
      (m_resourceStatisticsMap s) (m_resourceStatisticsMap (fst (updateCookieBlocking E now s)))"
    unfolding m by (rule list_all2_all_nthI) (simp_all add: expire_access)
qed

lemma hasHadUserInteraction_narrows: "narrows s (snd (hasHadUserInteraction E now d window s))"
proof (cases "findStatistics d s")
  case (Some r)
  then have "narrows s (modifyStatistics d (\<lambda>_. expire E now s window r) s)"
    by (intro narrows_modify) (simp add: expire_access)
  then show ?thesis using Some by (simp add: hasHadUserInteraction_def unexpired_eq)
qed (simp add: hasHadUserInteraction_def)

lemma cookieAccessOf_narrows:
  assumes "env_works E" shows "narrows s (snd (cookieAccessOf E now sub party s))"
proof -
  let ?s = "ensureResourceStatisticsForRegistrableDomain E sub s"
  have "narrows ?s (snd (areAllThirdPartyCookiesBlockedUnder E now party ?s))"
    using hasHadUserInteraction_narrows [of ?s E now party LongWindow]
    by (auto simp: areAllThirdPartyCookiesBlockedUnder_def split: prod.split)
  then have "narrows ?s (snd (cookieAccessOf E now sub party s))"
    by (auto simp: cookieAccessOf_def cookieAccess_def Let_def split: prod.split)
  with narrows_ensure [OF assms] show ?thesis by (rule narrows_trans)
qed

lemma grantInternal_narrows:
  "env_works E \<Longrightarrow> narrows s (fst (snd (grantStorageAccessInternal E now sub party frame page prompt scope s)))"
  by (simp add: grantStorageAccessInternal_def narrows_change)

lemma requestStorageAccess_narrows:
  assumes "env_works E" shows "narrows s (fst (snd (requestStorageAccess E now sub party frame page scope s)))"
proof -
  obtain c s1 where c: "cookieAccessOf E now sub party s = (c, s1)" by (cases "cookieAccessOf E now sub party s")
  then have s1: "narrows s s1" using cookieAccessOf_narrows [OF assms, of s now sub party] by simp
  let ?s2 = "modifyStatistics sub (\<lambda>r. r\<lparr>timesAccessedAsFirstPartyDueToStorageAccessAPI :=
    timesAccessedAsFirstPartyDueToStorageAccessAPI r + 1\<rparr>) s1"
  have "narrows s1 ?s2" by (rule narrows_modify) simp
  then have "narrows s (fst (snd (grantStorageAccessInternal E now sub party (Some frame) page True scope ?s2)))"
    by (rule narrows_trans [OF s1 narrows_trans [OF _ grantInternal_narrows [OF assms]]])
  then show ?thesis using c s1 by (auto simp: requestStorageAccess_def split: cookie_access.split prod.split)
qed

lemma hasStorageAccess_narrows:
  assumes "env_works E" "hasStorageAccess E now sub party frame page s = Some r" shows "narrows s (fst (snd r))"
  using assms(2) cookieAccessOf_narrows [OF assms(1), of s now sub party]
  by (auto simp: hasStorageAccess_def split: prod.splits cookie_access.splits option.splits)

lemma addToSet_narrows:
  assumes "env_works E" "\<And>f r. storageAccessUnderTopFrameDomains (update_set f r) = storageAccessUnderTopFrameDomains r"
  shows "narrows (snd acc) (snd (addToSet E get_set update_set d x acc))"
  using narrows_trans [OF narrows_ensure [OF assms(1)] narrows_modify] assms(2) by (simp add: addToSet_def Let_def)

lemma logFrameNavigation_narrows:
  assumes E: "env_works E"
  shows "narrows s (logFrameNavigation E now target party source isRedirect isMainFrame delay byUser s)"
proof -
  have sched: "narrows s' (scheduleStatisticsProcessingRequestIfNecessary s')" for s'
    by (rule narrows_same_map) (simp add: scheduleStatisticsProcessingRequestIfNecessary_def Let_def)
  note add = addToSet_narrows [OF E]
  have add2: "narrows s (snd (addToSet E get_set update_set d x acc))"
    if "narrows s (snd acc)" "\<And>f r. storageAccessUnderTopFrameDomains (update_set f r) = storageAccessUnderTopFrameDomains r"
    for acc get_set update_set d x
    using narrows_trans [OF that(1) add] that(2) by blast
  have seen: "narrows s (changeStatistics E target (\<lambda>r. r\<lparr>lastSeen := reduceTimeResolution E now\<rparr>) s)"
    by (rule narrows_change [OF E]) simp
  have ensure: "narrows s (ensureResourceStatisticsForRegistrableDomain E source s')" if "narrows s s'" for s'
    using narrows_trans [OF that narrows_ensure [OF E]] .
  have sched: "narrows s (scheduleStatisticsProcessingRequestIfNecessary s')" if "narrows s s'" for s'
    using narrows_trans [OF that sched] .
  show ?thesis unfolding logFrameNavigation_def Let_def using seen by (auto intro!: add2 ensure sched)
qed

lemma interaction_narrows:
  assumes E: "env_works E"
  shows "narrows s (fst (logUserInteraction E now d s))" "narrows s (fst (clearUserInteraction E now d s))"
proof -
  have "narrows s (modifyStatistics d f (ensureResourceStatisticsForRegistrableDomain E d s))"
    if "\<And>r. storageAccessUnderTopFrameDomains (f r) = storageAccessUnderTopFrameDomains r" for f
    using narrows_change [OF E, of f s d] that by (simp add: changeStatistics_def)
  note change = this narrows_trans [OF this updateCookieBlocking_narrows]
  show "narrows s (fst (logUserInteraction E now d s))" "narrows s (fst (clearUserInteraction E now d s))"
    by (simp_all add: logUserInteraction_def clearUserInteraction_def Let_def change)
qed

lemma link_decoration_narrows:
  assumes E: "env_works E" shows "narrows s (logCrossSiteLoadWithLinkDecoration E d d' s)"
proof -
  let ?s1 = "changeStatistics E d' (\<lambda>r. r\<lparr>topFrameLinkDecorationsFrom := List.insert d (topFrameLinkDecorationsFrom r)\<rparr>) s"
  let ?s2 = "ensureResourceStatisticsForRegistrableDomain E d ?s1"
  have 1: "narrows s ?s2" by (rule narrows_trans [OF narrows_change [OF E] narrows_ensure [OF E]]) simp
  have 2: "narrows s (modifyStatistics d' (\<lambda>r. r\<lparr>gotLinkDecorationFromPrevalentResource := True\<rparr>) ?s2)"
    by (rule narrows_trans [OF 1 narrows_modify]) simp
  show ?thesis using 1 2 by (simp add: logCrossSiteLoadWithLinkDecoration_def Let_def)
qed

lemma setPrevalent_narrows: "narrows s (setPrevalentResource d p s)"
  by (rule narrows_grows) (rule setPrevalentResource_grows)

lemma prevalent_narrows:
  assumes E: "env_works E"
  shows "narrows s (setPrevalentResource_domain E d s)" "narrows s (setVeryPrevalentResource E d s)"
  using narrows_trans [OF narrows_ensure [OF E] setPrevalent_narrows]
  by (simp_all add: setPrevalentResource_domain_def setVeryPrevalentResource_def)

lemma setters_narrow:
  assumes E: "env_works E"
  shows "narrows s (clearPrevalentResource E d s)" "narrows s (setGrandfathered E d b s)" "narrows s (setLastSeen E d t s)"
    "narrows s (setSubframeUnderTopFrameDomain E d d' s)" "narrows s (setSubresourceUnderTopFrameDomain E d d' s)"
    "narrows s (setSubresourceUniqueRedirectTo E d d' s)" "narrows s (setSubresourceUniqueRedirectFrom E d d' s)"
    "narrows s (setTopFrameUniqueRedirectTo E d d' s)" "narrows s (setTopFrameUniqueRedirectFrom E d d' s)"
  unfolding clearPrevalentResource_def setGrandfathered_def setLastSeen_def setSubframeUnderTopFrameDomain_def
    setSubresourceUnderTopFrameDomain_def setSubresourceUniqueRedirectTo_def setSubresourceUniqueRedirectFrom_def
    setTopFrameUniqueRedirectTo_def setTopFrameUniqueRedirectFrom_def
  by (rule narrows_change [OF E] narrows_trans [OF narrows_change [OF E] narrows_ensure [OF E]]; simp)+

lemma didFetch_narrows: "env_works E \<Longrightarrow> narrows s (fst (didFetchDomainsWithWebsiteData E now ds s))"
proof -
  assume E: "env_works E"
  have "narrows s (grandfatherDataForDomains E ds s)"
    unfolding grandfatherDataForDomains_def by (rule narrows_fold, rule narrows_change [OF E]) simp
  from narrows_trans [OF this narrows_same_map] show ?thesis by (simp add: didFetchDomainsWithWebsiteData_def)
qed

lemma debug_narrows:
  assumes E: "env_works E" shows "narrows s (snd (ensurePrevalentResourcesForDebugMode E s))"
proof -
  let ?mark = "\<lambda>d s. setPrevalentResource d High (ensureResourceStatisticsForRegistrableDomain E d s)"
  have mark: "narrows s (?mark d s)" for d s by (rule narrows_trans [OF narrows_ensure [OF E] setPrevalent_narrows])
  have "narrows s (?mark d (?mark d' s))" for d d' by (rule narrows_trans [OF mark mark])
  then show ?thesis using mark by (simp add: ensurePrevalentResourcesForDebugMode_def Let_def)
qed

lemma debugMode_narrows:
  assumes E: "env_works E" shows "narrows s (fst (setResourceLoadStatisticsDebugMode E now b s))"
proof -
  let ?s = "snd (ensurePrevalentResourcesForDebugMode E (s\<lparr>m_debugModeEnabled := b\<rparr>))"
  have s: "narrows s ?s" by (rule narrows_trans [OF narrows_same_map debug_narrows [OF E]]) simp
  from s narrows_trans [OF s updateCookieBlocking_narrows] show ?thesis
    by (cases b) (simp_all add: setResourceLoadStatisticsDebugMode_def Let_def)
qed

lemma clear_access: "env_works E \<Longrightarrow> access (fst (memory_clear E s)) d = {}"
  using debug_narrows [of E "s\<lparr>m_resourceStatisticsMap := [], m_operatingDates := []\<rparr>"]
  by (auto simp: memory_clear_def narrows_def access_def findStatistics_def split: prod.splits)

lemma find_remove: "findStatistics x (removeDataForDomain d s) = (if x = d then None else map_option (forgetDomain d) (findStatistics x s))"
proof -
  have "map_of (map (\<lambda>e. (fst e, forgetDomain d (snd e))) m) x = map_option (forgetDomain d) (map_of m x)" for m
    by (induction m) auto
  then show ?thesis by (simp add: removeDataForDomain_def findStatistics_def AList.delete_conv')
qed

lemma remove_access: "access (removeDataForDomain d s) x = (if x = d then {} else access s x)"
  by (auto simp: access_def find_remove forgetDomain_def split: option.splits)

lemma insertExpired_narrows:
  assumes "env_works E" shows "narrows s (insertExpiredStatisticForTesting E now d n interaction scheduled prevalent s)"
  using assms
  by (auto simp: insertExpiredStatisticForTesting_def Let_def narrows_def access_def findStatistics_def env_works_def map_add_def
    split: option.splits if_splits)

end
