(* ===== verification/Load_Access.thy ===== *)
theory Load_Access
  imports Load_Operations
begin

text \<open>
  Who is granted storage access: over any sequence of operations, a third party is granted access
  under a first party only if the user consented to this before.
\<close>

subsection \<open>Removal, pruning and merging\<close>

lemma removeOrRestrict_access:
  "set (storageAccessUnderTopFrameDomains (snd (removeOrRestrict E now s check r d))) \<subseteq> set (storageAccessUnderTopFrameDomains r)"
proof -
  have but: "set (storageAccessUnderTopFrameDomains (snd (shouldRemoveAllButCookiesFor E now s check r))) \<subseteq> set (storageAccessUnderTopFrameDomains r)" for r
    using expire_access by (simp add: removeAllBut_eq Let_def)
  have strict: "storageAccessUnderTopFrameDomains (snd (shouldEnforceSameSiteStrictFor s check r)) = storageAccessUnderTopFrameDomains r" for r
    by (simp add: shouldEnforceSameSiteStrictFor_def)
  let ?r1 = "if isPrevalentResource r then expire E now s LongWindow r else r"
  have r1: "set (storageAccessUnderTopFrameDomains ?r1) \<subseteq> set (storageAccessUnderTopFrameDomains r)" using expire_access by simp
  show ?thesis using r1 order_trans [OF but r1] by (simp add: removeOrRestrict_def Let_def removeAll_eq strict split: if_splits)
qed

lemma removalRound_entry:
  "\<exists>r. fst (removalRound E now s check clear e (m, d, oldest)) = m @ [(fst e, r)] \<and>
     set (storageAccessUnderTopFrameDomains r) \<subseteq> set (storageAccessUnderTopFrameDomains (snd e))"
proof (cases "shouldExemptFromWebsiteDataDeletion s (registrableDomain (snd e))")
  case True
  then show ?thesis by (intro exI [of _ "snd e"]) (simp add: removalRound_def Let_def)
next
  case False
  let ?r = "snd (removeOrRestrict E now s check (snd e) d)"
  show ?thesis using False removeOrRestrict_access [of E now s check "snd e" d]
    by (intro exI [of _ "if clear \<and> grandfathered ?r then ?r\<lparr>grandfathered := False\<rparr> else ?r"]) (simp add: removalRound_def Let_def)
qed

lemma removal_fold_entries:
  "\<exists>m'. fst (fold (removalRound E now s check clear) es (m, d, oldest)) = m @ m' \<and>
     list_all2 (\<lambda>e e'. fst e' = fst e \<and> set (storageAccessUnderTopFrameDomains (snd e')) \<subseteq> set (storageAccessUnderTopFrameDomains (snd e))) es m'"
proof (induction es arbitrary: m d oldest)
  case (Cons e es)
  obtain r where r: "fst (removalRound E now s check clear e (m, d, oldest)) = m @ [(fst e, r)]"
    "set (storageAccessUnderTopFrameDomains r) \<subseteq> set (storageAccessUnderTopFrameDomains (snd e))"
    using removalRound_entry [of E now s check clear e m d oldest] by blast
  obtain d' oldest' where f: "removalRound E now s check clear e (m, d, oldest) = (m @ [(fst e, r)], d', oldest')"
    using r(1) by (cases "removalRound E now s check clear e (m, d, oldest)") auto
  obtain m' where "fst (fold (removalRound E now s check clear) es (m @ [(fst e, r)], d', oldest')) = (m @ [(fst e, r)]) @ m'"
    "list_all2 (\<lambda>e e'. fst e' = fst e \<and> set (storageAccessUnderTopFrameDomains (snd e')) \<subseteq> set (storageAccessUnderTopFrameDomains (snd e))) es m'"
    using Cons.IH [of "m @ [(fst e, r)]" d' oldest'] by blast
  then show ?case using f r(2) by (intro exI [of _ "(fst e, r) # m'"]) simp
qed simp

lemma removal_narrows: "narrows s (snd (registrableDomainsToDeleteOrRestrictWebsiteDataFor E now s))"
proof -
  let ?check = "now < m_endOfGrandfatheringTimestamp s"
  let ?clear = "\<not> ?check \<and> m_endOfGrandfatheringTimestamp s \<noteq> 0"
  let ?s = "if ?clear then s\<lparr>m_endOfGrandfatheringTimestamp := 0\<rparr> else s"
  have m: "m_resourceStatisticsMap ?s = m_resourceStatisticsMap s" by simp
  obtain m' where m': "fst (fold (removalRound E now ?s ?check ?clear) (m_resourceStatisticsMap s) ([], no_removed_domains, now)) = m'"
    "list_all2 (\<lambda>e e'. fst e' = fst e \<and> set (storageAccessUnderTopFrameDomains (snd e')) \<subseteq> set (storageAccessUnderTopFrameDomains (snd e)))
      (m_resourceStatisticsMap s) m'"
    using removal_fold_entries [of E now ?s ?check ?clear "m_resourceStatisticsMap s" "[]" no_removed_domains now] by auto
  have "m_resourceStatisticsMap (snd (registrableDomainsToDeleteOrRestrictWebsiteDataFor E now s)) = m'"
    using m'(1) unfolding registrableDomainsToDeleteOrRestrictWebsiteDataFor_def Let_def m by (auto split: prod.splits)
  then show ?thesis using m'(2) by (intro narrows_entries) simp
qed

lemma narrows_filter:
  assumes "m_resourceStatisticsMap s' = filter (\<lambda>e. fst e \<notin> R) (m_resourceStatisticsMap s)" shows "narrows s s'"
proof -
  have "map_of (filter (\<lambda>e. fst e \<notin> R) m) d = (if d \<in> R then None else map_of m d)" for m :: "(domain \<times> load_statistics) list" and d
    by (induction m) auto
  then show ?thesis by (auto simp: narrows_def access_def findStatistics_def assms)
qed

lemma pruneImportance_filter: "\<exists>R. fst (pruneImportance m k acc) = filter (\<lambda>e. fst e \<notin> R) (fst acc)"
proof (cases "snd acc = 0")
  case True
  then show ?thesis by (intro exI [of _ "{}"]) (simp add: pruneImportance_def)
next
  case False
  obtain cur n where acc: "acc = (cur, n)" by (cases acc)
  have "\<exists>ks. fst (pruneResources G (cur, n)) = filter (\<lambda>e. fst e \<notin> set ks) cur" for G
    unfolding pruneResources_def Let_def fold_delete by (simp only: prod.case fst_conv) blast
  then show ?thesis using False acc by (auto simp: pruneImportance_def)
qed

lemma pruneImportance_fold: "\<exists>R. fst (fold (pruneImportance m) ks acc) = filter (\<lambda>e. fst e \<notin> R) (fst acc)"
proof (induction ks arbitrary: acc)
  case Nil
  then show ?case by (intro exI [of _ "{}"]) simp
next
  case (Cons k ks)
  obtain R where R: "fst (fold (pruneImportance m) ks (pruneImportance m k acc)) = filter (\<lambda>e. fst e \<notin> R) (fst (pruneImportance m k acc))"
    using Cons by blast
  obtain R' where R': "fst (pruneImportance m k acc) = filter (\<lambda>e. fst e \<notin> R') (fst acc)" using pruneImportance_filter by blast
  have "fst (fold (pruneImportance m) (k # ks) acc) = filter (\<lambda>e. fst e \<notin> R \<union> R') (fst acc)" using R R' by (simp add: conj_commute)
  then show ?case by blast
qed

lemma prune_narrows: "narrows s (pruneStatisticsIfNeeded s)"
proof (cases "length (m_resourceStatisticsMap s) \<le> maxStatisticsEntries (m_parameters s)")
  case True
  then show ?thesis by (simp add: pruneStatisticsIfNeeded_def Let_def)
next
  case False
  let ?m = "m_resourceStatisticsMap s"
  have "m_resourceStatisticsMap (pruneStatisticsIfNeeded s) = fst (fold (pruneImportance ?m) [0..<Suc maxImportance]
      (?m, unat (of_nat (length ?m) - of_nat (pruneEntriesDownTo (m_parameters s)) :: u64)))"
    using False by (simp add: pruneStatisticsIfNeeded_def Let_def pruneImportance_def [abs_def] del: upt_Suc)
  then obtain R where "m_resourceStatisticsMap (pruneStatisticsIfNeeded s) = filter (\<lambda>e. fst e \<notin> R) ?m"
    using pruneImportance_fold [of ?m "[0..<Suc maxImportance]" "(?m, unat (of_nat (length ?m) - of_nat (pruneEntriesDownTo (m_parameters s)) :: u64))"]
    by (auto simp del: upt_Suc)
  then show ?thesis by (rule narrows_filter)
qed

lemma dataRecordsProcessed_narrows: "narrows s (fst (dataRecordsProcessed s))"
  by (simp add: dataRecordsProcessed_def prune_narrows)

lemma removeDataRecords_narrows: "narrows s (fst (removeDataRecords E now monotonicNow s))"
proof -
  obtain d s' where r: "registrableDomainsToDeleteOrRestrictWebsiteDataFor E now s = (d, s')"
    by (cases "registrableDomainsToDeleteOrRestrictWebsiteDataFor E now s")
  then have s': "narrows s s'" using removal_narrows [of s E now] by simp
  have "narrows s (fst (dataRecordsProcessed s'))" by (rule narrows_trans [OF s' dataRecordsProcessed_narrows])
  moreover have "narrows s (setDataRecordsBeingRemoved monotonicNow True s')"
    by (rule narrows_trans [OF s' narrows_same_map]) (simp add: setDataRecordsBeingRemoved_def)
  ultimately show ?thesis using r dataRecordsProcessed_narrows by (simp add: removeDataRecords_def)
qed

lemma process_narrows: "narrows s (fst (processStatisticsAndDataRecords E now monotonicNow s))"
proof -
  have "narrows s (classifyPrevalentResources s)" by (rule narrows_grows) (rule classify_grows)
  from narrows_trans [OF this removeDataRecords_narrows] removeDataRecords_narrows
  show ?thesis by (simp add: processStatisticsAndDataRecords_def)
qed

lemma runScheduled_narrows: "narrows s (fst (runScheduled E now monotonicNow s))"
proof (cases "m_scheduled s")
  case (Cons n rest)
  let ?s = "s\<lparr>m_scheduled := rest\<rparr>"
  have 1: "narrows s ?s" by (rule narrows_same_map) simp
  obtain s2 effects where u: "updateCookieBlocking E now ?s = (s2, effects)" by (cases "updateCookieBlocking E now ?s")
  then have "narrows s s2" using narrows_trans [OF 1 updateCookieBlocking_narrows [of ?s E now]] by simp
  then have "narrows s (fst (processStatisticsAndDataRecords E now monotonicNow s2))" using narrows_trans [OF _ process_narrows] by blast
  then show ?thesis using Cons 1 u by (simp add: runScheduled_def Let_def split: prod.split) auto
qed (simp add: runScheduled_def)

lemma dump_narrows: "narrows s (fst (dumpResourceLoadStatistics E n s))"
  by (simp add: dumpResourceLoadStatistics_def narrows_same_map)

lemma runDumps_narrows: "narrows (fst acc) (fst (fold (runDump E) ns acc))"
proof (induction ns arbitrary: acc)
  case (Cons n ns)
  have "narrows (fst acc) (fst (runDump E n acc))"
    using dump_narrows [of "fst acc" E n] by (auto simp: runDump_def split: prod.split)
  from narrows_trans [OF this Cons.IH] show ?case by simp
qed simp

lemma didRemove_narrows:
  assumes E: "env_works E" shows "narrows s (fst (didRemoveDataRecords E monotonicNow ds s))"
proof -
  let ?s1 = "incrementRecordsDeletedCountForDomains E ds s"
  let ?s2 = "(setDataRecordsBeingRemoved monotonicNow False ?s1)\<lparr>m_dataRecordRemovalCompletionHandlers := []\<rparr>"
  have "narrows s ?s1"
    unfolding incrementRecordsDeletedCountForDomains_def by (rule narrows_fold, rule narrows_change [OF E]) simp
  then have "narrows s ?s2" by (rule narrows_trans [OF _ narrows_same_map]) (simp add: setDataRecordsBeingRemoved_def)
  then have "narrows s (fst (dataRecordsProcessed ?s2))" by (rule narrows_trans [OF _ dataRecordsProcessed_narrows])
  then show ?thesis unfolding didRemoveDataRecords_def Let_def by (rule narrows_trans [OF _ runDumps_narrows])
qed

subsection \<open>Consent\<close>

definition covered :: "(domain \<times> domain) set \<Rightarrow> statistics_store \<Rightarrow> bool" where
  "covered A s \<longleftrightarrow> (\<forall>d. \<forall>party \<in> access s d. (d, party) \<in> A)"

lemma covered_narrows: "covered A s \<Longrightarrow> narrows s s' \<Longrightarrow> covered A s'"
  unfolding covered_def narrows_def by blast

lemma covered_mono: "covered A s \<Longrightarrow> A \<subseteq> B \<Longrightarrow> covered B s"
  unfolding covered_def by blast

lemma find_merge:
  "findStatistics d (mergeStatistic E r s) =
     (if d = registrableDomain r then Some (case findStatistics d s of None \<Rightarrow> r | Some r0 \<Rightarrow> merge_statistic E r0 r)
      else findStatistics d s)"
proof (cases "findStatistics (registrableDomain r) s")
  case None
  then show ?thesis by (auto simp: mergeStatistic_def findStatistics_def map_add_def split: option.split)
next
  case (Some r0)
  then show ?thesis by (simp add: mergeStatistic_def)
qed

lemma covered_merge:
  assumes E: "env_works E" and c: "covered A s" shows "covered (A \<union> brought [r]) (mergeStatistic E r s)"
  unfolding covered_def
proof (intro allI ballI)
  fix d party assume party: "party \<in> access (mergeStatistic E r s) d"
  have "party \<in> access s d \<or> d = registrableDomain r \<and> party \<in> set (storageAccessUnderTopFrameDomains r)"
  proof (cases "d = registrableDomain r")
    case True
    have "set (storageAccessUnderTopFrameDomains (merge_statistic E r0 r)) \<subseteq>
        set (storageAccessUnderTopFrameDomains r0) \<union> set (storageAccessUnderTopFrameDomains r)" for r0
      using E by (simp add: env_works_def)
    then show ?thesis using party True by (auto simp: access_def find_merge split: option.splits)
  qed (use party in \<open>simp add: access_def find_merge\<close>)
  then show "(d, party) \<in> A \<union> brought [r]" using c by (auto simp: covered_def brought_def)
qed

lemma covered_merges:
  assumes E: "env_works E" and "covered A s" shows "covered (A \<union> brought rs) (mergeStatistics E rs s)"
  using assms(2)
proof (induction rs arbitrary: A s)
  case Nil
  then show ?case by (simp add: mergeStatistics_def brought_def)
next
  case (Cons r rs)
  have "covered (A \<union> brought [r] \<union> brought rs) (mergeStatistics E (r # rs) s)"
    using Cons.IH [OF covered_merge [OF E Cons.prems, of r]] by (simp add: mergeStatistics_def)
  moreover have "A \<union> brought [r] \<union> brought rs \<subseteq> A \<union> brought (r # rs)" by (auto simp: brought_def)
  ultimately show ?case by (rule covered_mono)
qed

lemma grant_access:
  assumes E: "env_works E"
  shows "access (fst (snd (grantStorageAccess E now sub party frame page prompt scope s))) d \<subseteq>
    access s d \<union> (if prompt \<and> d = sub then {party} else {})"
proof -
  let ?s = "if prompt then changeStatistics E sub (\<lambda>r. r\<lparr>storageAccessUnderTopFrameDomains :=
    List.insert party (storageAccessUnderTopFrameDomains r)\<rparr>) s else s"
  have "access ?s d \<subseteq> access s d \<union> (if prompt \<and> d = sub then {party} else {})"
    using E by (auto simp: access_def env_works_def split: option.splits)
  moreover have "access (fst (snd (grantStorageAccess E now sub party frame page prompt scope s))) d \<subseteq> access ?s d"
    using grantInternal_narrows [OF E, of ?s now sub party "Some frame" page prompt scope]
    unfolding narrows_def grantStorageAccess_def by blast
  ultimately show ?thesis by blast
qed

lemma includeToday_narrows: "narrows s (includeTodayAsOperatingDateIfNecessary E now s)"
  by (rule narrows_same_map) (simp add: includeTodayAsOperatingDateIfNecessary_def Let_def)

lemma mergeFile_covered:
  assumes E: "env_works E" and c: "covered A s"
  shows "covered (consent (MergeFile now file) A) (fst (mergeWithDataFromDecoder E now file s))"
proof -
  let ?s1 = "s\<lparr>m_endOfGrandfatheringTimestamp := (case file_endOfGrandfatheringTimestamp file of None \<Rightarrow> 0 | Some time \<Rightarrow> time)\<rparr>"
  have c1: "covered A ?s1" by (rule covered_narrows [OF c narrows_same_map]) simp
  have same: "covered (consent (MergeFile now file) A) s'" if "covered A s'" for s' by (rule covered_mono [OF that]) simp
  show ?thesis
  proof (cases "file_browsingStatistics file")
    case None
    then show ?thesis using same [OF c] same [OF c1] by (simp add: mergeWithDataFromDecoder_def Let_def split: option.split)
  next
    case (Some rs)
    obtain s2 effects where u: "updateCookieBlocking E now (mergeStatistics E rs ?s1) = (s2, effects)" by fastforce
    have "covered (A \<union> brought rs) s2"
      using covered_narrows [OF covered_merges [OF E c1, of rs] updateCookieBlocking_narrows, of E now] u by simp
    then have c2: "covered (consent (MergeFile now file) A) s2" using Some by simp
    moreover have "covered (consent (MergeFile now file) A) (s2\<lparr>m_operatingDates := ds\<rparr>)" for ds
      by (rule covered_narrows [OF c2 narrows_same_map]) simp
    ultimately show ?thesis using Some u same [OF c]
      by (simp add: mergeWithDataFromDecoder_def Let_def split: option.split)
  qed
qed

lemma step_covered:
  assumes E: "env_works E" and c: "covered A s" shows "covered (consent op A) (statistics_step E op s)"
proof (cases op)
  case (Grant now sub party frame page prompt scope)
  have "(d, p) \<in> consent op A" if "p \<in> access (statistics_step E op s) d" for d p
    using that grant_access [OF E, of now sub party frame page prompt scope s d] c Grant
    by (cases prompt) (auto simp: covered_def split: if_splits)
  then show ?thesis by (simp add: covered_def)
next
  case (RemoveDataForDomain d)
  then show ?thesis using c by (auto simp: covered_def remove_access split: if_splits)
next
  case Clear
  then show ?thesis using clear_access [OF E] by (simp add: covered_def)
next
  case (MergeStatistics rs)
  then show ?thesis using covered_merges [OF E c] by simp
next
  case (MergeFile now data)
  then show ?thesis using mergeFile_covered [OF E c, of now data] by simp
next
  case (HasStorageAccess now sub party frame page)
  then show ?thesis using covered_narrows [OF c hasStorageAccess_narrows [OF E]] c by (auto split: option.split)
next
  case (RequestStorageAccessUnderOpener now d page opener)
  then show ?thesis using covered_narrows [OF c grantInternal_narrows [OF E]] c
    by (simp add: requestStorageAccessUnderOpener_def)
next
  case (SetParameters f)
  then show ?thesis using covered_narrows [OF c narrows_same_map, of "m_parameters_update f s"] by simp
next
  case (SetBlockingMode mode)
  then show ?thesis using covered_narrows [OF c narrows_same_map, of "s\<lparr>m_thirdPartyCookieBlockingMode := mode\<rparr>"] by simp
next
  case (SetDebugResource d)
  then show ?thesis using covered_narrows [OF c narrows_same_map, of "setPrevalentResourceForDebugMode d s"]
    by (simp add: setPrevalentResourceForDebugMode_def)
qed (simp_all add: covered_narrows [OF c] logFrameNavigation_narrows [OF E] interaction_narrows [OF E] link_decoration_narrows [OF E]
  requestStorageAccess_narrows [OF E] prevalent_narrows [OF E] setters_narrow [OF E] didFetch_narrows [OF E]
  insertExpired_narrows [OF E] includeToday_narrows updateCookieBlocking_narrows process_narrows runScheduled_narrows
  didRemove_narrows [OF E] dump_narrows debugMode_narrows [OF E])

lemma run_covered:
  assumes E: "env_works E" and "covered A s" shows "covered (fold consent ops A) (statistics_run E ops s)"
  using assms(2) by (induction ops arbitrary: A s) (simp_all add: statistics_run_def step_covered [OF E])

lemma new_covered: "covered {} (ResourceLoadStatisticsMemoryStore_new E now b)"
proof -
  have "m_resourceStatisticsMap (ResourceLoadStatisticsMemoryStore_new E now b) = []"
    by (simp add: ResourceLoadStatisticsMemoryStore_new_def includeTodayAsOperatingDateIfNecessary_def Let_def)
  then show ?thesis by (simp add: covered_def access_def findStatistics_def)
qed

lemma cookieAccessOf_cases:
  assumes E: "env_works E" and c: "cookieAccessOf E now sub party s = (c, s')"
  shows "c = OnlyIfGranted \<Longrightarrow> \<exists>r. findStatistics sub s = Some r \<and> hadUserInteraction r"
    and "c = BasedOnCookiePolicy \<Longrightarrow> \<not> isPrevalentIn s sub \<and> m_thirdPartyCookieBlockingMode s \<noteq> BlockAll"
proof -
  let ?s = "ensureResourceStatisticsForRegistrableDomain E sub s"
  define q where "q = (case findStatistics sub s of None \<Rightarrow> newStatistics E sub | Some r \<Rightarrow> r)"
  obtain blocked s1 where b: "areAllThirdPartyCookiesBlockedUnder E now party ?s = (blocked, s1)" by fastforce
  have mode: "m_thirdPartyCookieBlockingMode ?s = m_thirdPartyCookieBlockingMode s"
    by (simp add: ensureResourceStatisticsForRegistrableDomain_def)
  have find: "findStatistics sub ?s = Some q" by (simp add: q_def split: option.split)
  have new: "\<not> hadUserInteraction (newStatistics E sub)" using E by (simp add: env_works_def)
  have c': "c = (if \<not> blocked \<and> \<not> isPrevalentResource q then BasedOnCookiePolicy
      else if \<not> hadUserInteraction q then CannotRequest else OnlyIfGranted)"
    using c unfolding cookieAccessOf_def cookieAccess_def Let_def b find prod.case option.sel by (rule prod.inject [THEN iffD1, THEN conjunct1, symmetric])
  show "\<exists>r. findStatistics sub s = Some r \<and> hadUserInteraction r" if "c = OnlyIfGranted"
    using that c' new by (auto simp: q_def split: if_splits option.splits)
  show "\<not> isPrevalentIn s sub \<and> m_thirdPartyCookieBlockingMode s \<noteq> BlockAll" if "c = BasedOnCookiePolicy"
    using that c' b mode by (auto simp: q_def isPrevalentIn_def areAllThirdPartyCookiesBlockedUnder_def split: if_splits option.splits)
qed


definition consent_run :: "statistics_op list" where
  "consent_run = [LogUserInteraction 10 ''sub'', Grant 20 ''sub'' ''site'' 1 2 True PerPage]"

lemma simple_env_works: "env_works simple_env"
  by (simp add: env_works_def simple_env_def no_statistics_def)

lemma consent_run_computed:
  "snd (snd (requestStorageAccess simple_env 30 ''sub'' ''site'' 1 2 PerPage
     (statistics_run simple_env consent_run (ResourceLoadStatisticsMemoryStore_new simple_env 5 True)))) =
       [GrantStorageAccess ''sub'' ''site'' (Some 1) 2 PerPage]"
  "snd (snd (requestStorageAccess simple_env 30 ''sub'' ''site'' 1 2 PerPage
     (statistics_run simple_env (consent_run @ [RemoveDataForDomain ''site'']) (ResourceLoadStatisticsMemoryStore_new simple_env 5 True)))) =
       [GrantStorageAccess ''sub'' ''site'' (Some 1) 2 PerPage]"
  by code_simp+


text \<open>
  Claim C39. Removing the data of a domain leaves traces of it: all sets of the other statistics forget it but the set of first parties
  under which storage access was granted. A third party that was granted access under the removed domain
  is granted it again without the user being asked.
\<close>

theorem removal_leaves_access:
  "(\<forall>x r. findStatistics x (removeDataForDomain d s) = Some r \<longrightarrow> x \<noteq> d \<and>
      d \<notin> set (topFrameUniqueRedirectsTo r) \<union> set (topFrameUniqueRedirectsFrom r) \<union> set (topFrameLinkDecorationsFrom r) \<union>
        set (topFrameLoadedThirdPartyScripts r) \<union> set (subframeUnderTopFrameDomains r) \<union> set (subresourceUnderTopFrameDomains r) \<union>
        set (subresourceUniqueRedirectsTo r) \<union> set (subresourceUniqueRedirectsFrom r)) \<and>
    (\<forall>x. x \<noteq> d \<longrightarrow> access (removeDataForDomain d s) x = access s x) \<and>
    snd (snd (requestStorageAccess simple_env 30 ''sub'' ''site'' 1 2 PerPage
      (statistics_run simple_env (consent_run @ [RemoveDataForDomain ''site'']) (ResourceLoadStatisticsMemoryStore_new simple_env 5 True)))) =
        [GrantStorageAccess ''sub'' ''site'' (Some 1) 2 PerPage]"
proof (intro conjI allI impI)
  fix x r assume "findStatistics x (removeDataForDomain d s) = Some r"
  then obtain r0 where "x \<noteq> d" "r = forgetDomain d r0" by (auto simp: find_remove split: if_splits)
  then show "x \<noteq> d" "d \<notin> set (topFrameUniqueRedirectsTo r) \<union> set (topFrameUniqueRedirectsFrom r) \<union> set (topFrameLinkDecorationsFrom r) \<union>
        set (topFrameLoadedThirdPartyScripts r) \<union> set (subframeUnderTopFrameDomains r) \<union> set (subresourceUnderTopFrameDomains r) \<union>
        set (subresourceUniqueRedirectsTo r) \<union> set (subresourceUniqueRedirectsFrom r)"
    by (simp_all add: forgetDomain_def)
qed (simp_all add: remove_access consent_run_computed(2))

theorem removal_leaves_access_witness:
  "''site'' \<in> access (removeDataForDomain ''site''
     (statistics_run simple_env consent_run (ResourceLoadStatisticsMemoryStore_new simple_env 5 True))) ''sub''"
proof -
  let ?s = "statistics_run simple_env consent_run (ResourceLoadStatisticsMemoryStore_new simple_env 5 True)"
  have "''site'' \<in> access ?s ''sub''" by code_simp
  then show ?thesis using removal_leaves_access [of "''site''" ?s] by auto
qed

end
