(* ===== verification/Spec2Isabelle.thy ===== *)
theory Spec2Isabelle
  imports IPC_Messages IPC_Connection_Progress Back_Forward String_Hash_Table Page_Load_State Storage_Lifecycle Load_Access
begin

text \<open>
  A verification library of WebKit2, the multi-process layer of WebKit (src/).

  \<^bold>\<open>The program.\<close> A WebKit2 application is a UI process (src/UIProcess) that starts web processes
  (src/WebProcess), which run the engine, a network process (src/NetworkProcess) and others. The
  processes talk by messages. Everything a compromised web process sends is decoded by a process
  with more rights, so the message layer (src/Platform/IPC) carries the security of the whole. On
  top of it stand the components of the UI process that keep the state of a page: its history
  (WebBackForwardList), the state of its load (PageLoadState) and the visited links that the
  processes share (VisitedLinkStore, SharedStringHashStore).

  \<^bold>\<open>The theories\<close>, in the order they build on each other:

  \<^item> \<open>WK_Prelude\<close>: machine words, little-endian images of words, alignment, shared facts.
  \<^item> \<open>IPC_Encoder\<close>: src/Platform/IPC/Encoder.cpp. The record \<open>encoder\<close> is the class with its buffer;
    \<open>reserve\<close>, \<open>grow\<close>, \<open>encodeFixedLengthData\<close> and the typed encoders follow the methods. An encoder
    that crashes or never returns is \<^term>\<open>None\<close>. Shown: the buffer grows to a power of two that
    suffices or the loop does not end, and what is appended is aligned and leaves the rest alone.
  \<^item> \<open>IPC_Decoder\<close>: src/Platform/IPC/Decoder.cpp. Addresses are 64-bit words and the memory of the
    message is a list of bytes, so that reads outside it are visible. Shown: no read leaves the buffer
    whatever the sizes and positions, and \<open>Decoder_create\<close> accepts exactly the well-formed headers.
  \<^item> \<open>IPC_Coders\<close>, \<open>IPC_Coder_Laws\<close>, \<open>IPC_Messages\<close>: src/Platform/IPC/ArgumentCoders.h and .cpp.
    A coder is a pair of functions; the locale \<open>argument_coder\<close> is what a coder promises (encoding
    succeeds, appends within a bound, decoding reads back the value and never leaves the buffer), and
    \<open>two_coders\<close> and \<open>variant_coders\<close> derive the contract of pairs, tuples and variants from those of
    their parts. Every coder of the source is an interpretation. Shown: the round trip of a
    whole message, that decoded tables have no duplicate or reserved key, that what is decoded is no
    longer than the message, and that the two generations of decoders agree.
  \<^item> \<open>IPC_ReceiverMap\<close>: src/Platform/IPC/MessageReceiverMap.cpp. Shown: the tables and the counts the
    receivers keep agree under every operation, and messages go to the receiver registered last.
  \<^item> \<open>IPC_Connection\<close>, \<open>IPC_Connection_Laws\<close>, \<open>IPC_Connection_Progress\<close>: src/Platform/IPC/Connection.cpp
    and .h. The record \<open>connection\<close> is one connection; the record \<open>world\<close> has all connections of the
    process, the tasks of its run loops and the state of SyncMessageState; the record \<open>environment\<close> has
    what the connection calls and this library does not define: the client, the transport and the names of
    the generated messages. The locale \<open>dispatch_contract\<close> lifts a relation that every client callback
    respects to the dispatch of messages, and \<open>wait_contract\<close> extends it to blocking waits. The
    relation \<open>conn_step\<close> is what the connection and its run loops may do next. Shown: a message is neither
    lost nor duplicated, queued messages always have a dispatch scheduled, the queue drains, a
    synchronous sender gets the reply to its own request and nothing else, and is released when the
    connection closes.
  \<^item> \<open>Back_Forward\<close>: src/UIProcess/WebBackForwardList.cpp. Shown: the invariant of the list, that it
    implements a browsing history (behind, current, ahead), and the round trip of the saved state.
  \<^item> \<open>String_Hash_Table\<close>: src/Shared/SharedStringHashTable(ReadOnly).cpp, SharedStringHashStore.cpp and
    src/UIProcess/VisitedLinkStore.cpp. Shown: searches end because the odd step visits every slot and the
    table stays half empty, and the table implements a set as long as nothing is removed.
  \<^item> \<open>Page_Load_State\<close>: src/UIProcess/PageLoadState.cpp. Shown: outside transactions everything is
    committed, although observers run transactions of their own; observers are told of every change; the
    course of a load.
  \<^item> \<open>Storage_Database\<close>, \<open>Storage_Area\<close>: src/NetworkProcess/WebStorage/LocalStorageDatabase.cpp and
    StorageArea.cpp. SQLite and \<^verbatim>\<open>WebCore::StorageMap\<close> are records of functions; the laws that are
    relied on are \<open>sqlite_works\<close> and \<open>map_works\<close>, with list-based instances that satisfy them. Shown:
    the file and the unwritten changes together are what the operations describe, items survive the
    destruction of an area, and the posted events replay its changes.
  \<^item> \<open>Storage_Client\<close>, \<open>Storage_Sync\<close>: src/WebProcess/WebStorage/StorageAreaMap.cpp and the item handlers of
    src/NetworkProcess/WebStorage/StorageManagerSet.cpp, with the connections as queues. Shown: the copies
    converge when events are sent promptly, and two runs in which they do not.
  \<^item> \<open>Storage_Manager\<close>, \<open>Storage_Isolation\<close>, \<open>Storage_Lifecycle\<close>: the other classes of
    src/NetworkProcess/WebStorage: LocalStorageDatabaseTracker, the three namespaces, StorageManager and
    StorageManagerSet with its work queue. The record \<open>storage_host\<close> has the file system, SQLite and the
    identifiers of origins; the record \<open>area_store\<close> has the areas of all sessions and the files. Shown: pages of
    different origins or sessions never read each other's items whatever runs in whatever order, deleted
    storage is gone (and one case where it is not), work for a session always finds its manager
    although two threads keep two tables of the sessions, and when the main thread's wait for the queue ends.
  \<^item> \<open>Load_Statistics\<close>, \<open>Load_Classification\<close>, \<open>Load_Policy\<close>, \<open>Load_Operations\<close>, \<open>Load_Access\<close>: Intelligent Tracking
    Prevention, src/NetworkProcess/Classifier/ResourceLoadStatisticsStore.cpp and
    ResourceLoadStatisticsMemoryStore.cpp with src/Platform/classifier. The record \<open>statistics_store\<close> is the store; what
    it asks of the main thread is a list of effects. Shown: the search for redirecting domains finds what is reachable in the
    graph of redirects and classification marks what it should; thirty dates suffice to count days of use; website data is
    removed exactly as the policy says; pruning keeps what matters; storage access needs the consent of the user.

  \<^bold>\<open>Failure.\<close> A release build is modelled: a failing \<^verbatim>\<open>ASSERT\<close> does nothing, a failing
  \<^verbatim>\<open>RELEASE_ASSERT\<close>, a null pointer and a read outside a buffer are \<^term>\<open>None\<close>, as is a loop that does
  not end. Theorems that an operation returns say so.

  \<^bold>\<open>Bounds and fuel.\<close> Messages may be dispatched while another is dispatched, through a synchronous
  wait in a client. \<open>dispatchAll\<close> closes this recursion with a bound on the depth of the nesting; a dispatch
  that exceeds it is \<^term>\<open>None\<close>, and the theorems hold for every bound. A blocking wait takes the
  list of the wake-ups it will see; a wait that outlasts the list is \<^term>\<open>None\<close>. The searches of the
  hash table and the loop that grows the buffer of an encoder have no fuel: they are partial functions,
  and that they return is proved.

  \<^bold>\<open>Not modelled.\<close> The transports (sockets, Mach ports), shared memory and sandbox extensions are calls
  of the operating system. The generated message receivers are not in the source tree; they appear as the
  client of a connection. The coders of WebCore types copy the fields of classes of
  another project. The loader, cookies, databases, graphics and media layers are calls into WebCore and
  platform libraries, and the API layers wrap the classes below them.
\<close>

end
